(* ===== verification/Hyperdir_Prelude.thy ===== *)
theory Hyperdir_Prelude
  imports Main "HOL-Library.Word" "HOL-Library.Sublist" "HOL-Library.Char_ord"
    "HOL-Library.List_Lexorder"
begin

text \<open>
  Shared vocabulary of the development: bytes and strings, the three outcomes of a Rust call
  (value, \<open>std::io::Error\<close>, panic), the \<open>?\<close> operator over a threaded world, the machine
  integers the code uses, and the parts of \<open>std::str\<close> and \<open>std::fmt\<close> the sources call
  (\<open>lines\<close>, \<open>split\<close>, \<open>strip_prefix\<close>, decimal printing and parsing, UTF-8 checks).

  A byte is a \<open>char\<close> (HOL's type of eight bits), so a \<open>Vec<u8>\<close> and the UTF-8 bytes of a
  \<open>String\<close> have the same representation and \<open>as_bytes\<close> is the identity. An \<open>io::Error\<close> is
  represented by its \<open>ErrorKind\<close>: the sources branch on nothing else.
\<close>

named_theorems str_simps \<open>rewrite rules for the string helpers\<close>
named_theorems io_simps \<open>rewrite rules for outcomes and the io bind\<close>

section \<open>Outcomes\<close>

type_synonym bytes = "char list"
type_synonym u32 = "32 word"
type_synonym u64 = "64 word"
type_synonym uuid = "128 word"
type_synonym ulid = "128 word"

datatype error_kind =
    NotFound | AlreadyExists | InvalidData | InvalidInput | ResourceBusy
  | DirectoryNotEmpty | Interrupted | ReadOnlyFilesystem | Other

datatype 'a result = Ok 'a | Err error_kind | Panic

type_synonym ('w, 'a) io = "'w \<Rightarrow> 'a result \<times> 'w"

primrec res_bind :: "'a result \<Rightarrow> ('a \<Rightarrow> 'b result) \<Rightarrow> 'b result" where
  "res_bind (Ok x) f = f x"
| "res_bind (Err e) f = Err e"
| "res_bind Panic f = Panic"

definition io_return :: "'a \<Rightarrow> ('w, 'a) io" where
  "io_return x = (\<lambda>w. (Ok x, w))"

definition io_fail :: "error_kind \<Rightarrow> ('w, 'a) io" where
  "io_fail e = (\<lambda>w. (Err e, w))"

definition io_bind :: "('w, 'a) io \<Rightarrow> ('a \<Rightarrow> ('w, 'b) io) \<Rightarrow> ('w, 'b) io" where
  "io_bind m f = (\<lambda>w. case m w of
      (Ok x, w') \<Rightarrow> f x w'
    | (Err e, w') \<Rightarrow> (Err e, w')
    | (Panic, w') \<Rightarrow> (Panic, w'))"

definition io_lift :: "'a result \<Rightarrow> ('w, 'a) io" where
  "io_lift r = (\<lambda>w. (r, w))"

section \<open>Machine integers\<close>

definition i64_max :: int where "i64_max = 2 ^ 63 - 1"
definition i64_min :: int where "i64_min = - (2 ^ 63)"

definition is_i64 :: "int \<Rightarrow> bool" where
  "is_i64 z = (i64_min \<le> z \<and> z \<le> i64_max)"

definition saturating_add_i64 :: "int \<Rightarrow> int \<Rightarrow> int" where
  "saturating_add_i64 a b = max i64_min (min i64_max (a + b))"

text \<open>Two's complement reading of the low 64 bits (an \<open>as i64\<close> cast, a wrapping result).\<close>

definition wrap_i64 :: "int \<Rightarrow> int" where
  "wrap_i64 z = (let m = z mod 2 ^ 64 in if m < 2 ^ 63 then m else m - 2 ^ 64)"

definition checked_succ :: "u64 \<Rightarrow> u64 option" where
  "checked_succ k = (if k = - 1 then None else Some (k + 1))"

section \<open>Strings\<close>

definition strip_prefix :: "string \<Rightarrow> string \<Rightarrow> string option" where
  "strip_prefix p s = (if prefix p s then Some (drop (length p) s) else None)"

definition strip_suffix :: "string \<Rightarrow> string \<Rightarrow> string option" where
  "strip_suffix p s = (if suffix p s then Some (take (length s - length p) s) else None)"

definition ends_with :: "string \<Rightarrow> string \<Rightarrow> bool" where
  "ends_with s p = suffix p s"

definition trim_start_matches :: "char \<Rightarrow> string \<Rightarrow> string" where
  "trim_start_matches c s = dropWhile (\<lambda>x. x = c) s"

definition trim_end_matches :: "char \<Rightarrow> string \<Rightarrow> string" where
  "trim_end_matches c s = rev (dropWhile (\<lambda>x. x = c) (rev s))"

fun split_char :: "char \<Rightarrow> string \<Rightarrow> string list" where
  "split_char c [] = [[]]"
| "split_char c (x # xs) =
     (if x = c then [] # split_char c xs
      else (case split_char c xs of [] \<Rightarrow> [[x]] | s # ss \<Rightarrow> (x # s) # ss))"

fun split_once :: "char \<Rightarrow> string \<Rightarrow> (string \<times> string) option" where
  "split_once c [] = None"
| "split_once c (x # xs) =
     (if x = c then Some ([], xs)
      else map_option (\<lambda>(a, b). (x # a, b)) (split_once c xs))"

text \<open>
  \<open>str::lines\<close>: a line ends at \<open>LF\<close> or \<open>CR LF\<close>; the last line ending is optional and adds
  no empty line.
\<close>

definition strip_cr :: "string \<Rightarrow> string" where
  "strip_cr s = (if s \<noteq> [] \<and> last s = CHR 0x0D then butlast s else s)"

fun lines_acc :: "string \<Rightarrow> string \<Rightarrow> string list" where
  "lines_acc acc [] = (if acc = [] then [] else [rev acc])"
| "lines_acc acc (x # xs) =
     (if x = CHR 0x0A then strip_cr (rev acc) # lines_acc [] xs else lines_acc (x # acc) xs)"

definition str_lines :: "string \<Rightarrow> string list" where
  "str_lines s = lines_acc [] s"

section \<open>Decimal printing and parsing\<close>

definition digit_char :: "nat \<Rightarrow> char" where
  "digit_char d = char_of (48 + d)"

definition is_digit :: "char \<Rightarrow> bool" where
  "is_digit c = (48 \<le> (of_char c :: nat) \<and> (of_char c :: nat) \<le> 57)"

definition digit_val :: "char \<Rightarrow> nat" where
  "digit_val c = of_char c - 48"

fun show_nat :: "nat \<Rightarrow> string" where
  "show_nat n = (if n < 10 then [digit_char n] else show_nat (n div 10) @ [digit_char (n mod 10)])"

declare show_nat.simps [simp del]

definition show_int :: "int \<Rightarrow> string" where
  "show_int z = (if z < 0 then CHR ''-'' # show_nat (nat (- z)) else show_nat (nat z))"

definition digits_value :: "string \<Rightarrow> nat" where
  "digits_value s = foldl (\<lambda>a c. 10 * a + digit_val c) 0 s"

definition parse_digits :: "string \<Rightarrow> nat option" where
  "parse_digits s = (if s \<noteq> [] \<and> list_all is_digit s then Some (digits_value s) else None)"

definition strip_plus :: "string \<Rightarrow> string" where
  "strip_plus s = (case s of [] \<Rightarrow> [] | c # cs \<Rightarrow> if c = CHR ''+'' then cs else s)"

text \<open>\<open>str::parse\<close> at an unsigned type of \<open>n\<close> bits and at \<open>i64\<close>: overflow is an error.\<close>

definition parse_unsigned :: "nat \<Rightarrow> string \<Rightarrow> nat option" where
  "parse_unsigned n s =
     (case parse_digits (strip_plus s) of
        None \<Rightarrow> None
      | Some v \<Rightarrow> if v < 2 ^ n then Some v else None)"

definition parse_i64 :: "string \<Rightarrow> int option" where
  "parse_i64 s =
     (case s of
        c # cs \<Rightarrow>
          if c = CHR ''-''
          then (case parse_digits cs of
                  None \<Rightarrow> None
                | Some v \<Rightarrow> if is_i64 (- int v) then Some (- int v) else None)
          else (case parse_digits (strip_plus s) of
                  None \<Rightarrow> None
                | Some v \<Rightarrow> if is_i64 (int v) then Some (int v) else None)
      | [] \<Rightarrow> None)"

section \<open>UTF-8\<close>

text \<open>
  \<open>utf8_step bs\<close> looks at the front of \<open>bs\<close>: \<open>(True, n)\<close> when a well-formed scalar value of
  \<open>n\<close> bytes starts there, \<open>(False, n)\<close> when the next \<open>n\<close> bytes are a maximal ill-formed part,
  the unit that \<open>String::from_utf8_lossy\<close> replaces by U+FFFD.
\<close>

definition utf8_cont :: "char \<Rightarrow> bool" where
  "utf8_cont c = (0x80 \<le> (of_char c :: nat) \<and> (of_char c :: nat) \<le> 0xBF)"

definition utf8_second_ok :: "nat \<Rightarrow> char \<Rightarrow> bool" where
  "utf8_second_ok b0 c =
     (let b = (of_char c :: nat) in
      if b0 = 0xE0 then 0xA0 \<le> b \<and> b \<le> 0xBF
      else if b0 = 0xED then 0x80 \<le> b \<and> b \<le> 0x9F
      else if b0 = 0xF0 then 0x90 \<le> b \<and> b \<le> 0xBF
      else if b0 = 0xF4 then 0x80 \<le> b \<and> b \<le> 0x8F
      else 0x80 \<le> b \<and> b \<le> 0xBF)"

definition utf8_width :: "nat \<Rightarrow> nat" where
  "utf8_width b =
     (if b < 0x80 then 1 else if 0xC2 \<le> b \<and> b \<le> 0xDF then 2
      else if 0xE0 \<le> b \<and> b \<le> 0xEF then 3 else if 0xF0 \<le> b \<and> b \<le> 0xF4 then 4 else 0)"

fun utf8_tail :: "nat \<Rightarrow> bytes \<Rightarrow> nat" where
  "utf8_tail 0 bs = 0"
| "utf8_tail (Suc n) [] = 0"
| "utf8_tail (Suc n) (b # bs) = (if utf8_cont b then Suc (utf8_tail n bs) else 0)"

definition utf8_step :: "bytes \<Rightarrow> bool \<times> nat" where
  "utf8_step bs =
     (case bs of
        [] \<Rightarrow> (True, 0)
      | c # cs \<Rightarrow>
          let w = utf8_width (of_char c) in
          if w = 0 then (False, 1)
          else if w = 1 then (True, 1)
          else (case cs of
                  [] \<Rightarrow> (False, 1)
                | d # ds \<Rightarrow>
                    if \<not> utf8_second_ok (of_char c) d then (False, 1)
                    else let n = 2 + utf8_tail (w - 2) ds in (n = w, n)))"

lemma utf8_step_pos: "bs \<noteq> [] \<Longrightarrow> 0 < snd (utf8_step bs)"
  by (cases bs) (auto simp: utf8_step_def Let_def split: list.splits)

lemma utf8_step_shrinks:
  "(ok, n) = utf8_step bs \<Longrightarrow> bs = [] \<or> 0 < n"
  using utf8_step_pos [of bs] by (cases "utf8_step bs") auto

function utf8_valid :: "bytes \<Rightarrow> bool" where
  "utf8_valid bs =
     (if bs = [] then True
      else case utf8_step bs of (ok, n) \<Rightarrow> ok \<and> utf8_valid (drop n bs))"
  by pat_completeness auto
termination
  by (relation "measure length") (auto dest!: utf8_step_shrinks)

declare utf8_valid.simps [simp del]

definition replacement_char :: bytes where
  "replacement_char = [CHR 0xEF, CHR 0xBF, CHR 0xBD]"

function from_utf8_lossy :: "bytes \<Rightarrow> string" where
  "from_utf8_lossy bs =
     (if bs = [] then []
      else case utf8_step bs of
        (ok, n) \<Rightarrow> (if ok then take n bs else replacement_char) @ from_utf8_lossy (drop n bs))"
  by pat_completeness auto
termination
  by (relation "measure length") (auto dest!: utf8_step_shrinks)

declare from_utf8_lossy.simps [simp del]

definition from_utf8 :: "bytes \<Rightarrow> string option" where
  "from_utf8 bs = (if utf8_valid bs then Some bs else None)"

section \<open>Lemmas: outcomes and machine integers\<close>

lemma io_bind_cases [io_simps]:
  "m w = (Ok x, w') \<Longrightarrow> io_bind m f w = f x w'"
  "m w = (Err e, w') \<Longrightarrow> io_bind m f w = (Err e, w')"
  "m w = (Panic, w') \<Longrightarrow> io_bind m f w = (Panic, w')"
  by (simp_all add: io_bind_def)

lemma io_return_apply [io_simps]: "io_return x w = (Ok x, w)"
  by (simp add: io_return_def)

lemma io_fail_apply [io_simps]: "io_fail e w = (Err e, w)"
  by (simp add: io_fail_def)

lemma io_lift_apply [io_simps]: "io_lift r w = (r, w)"
  by (simp add: io_lift_def)

lemma io_bind_OkE:
  assumes "io_bind m f w = (Ok y, w'')"
  obtains x w' where "m w = (Ok x, w')" "f x w' = (Ok y, w'')"
  using assms by (auto simp: io_bind_def split: prod.splits result.splits)

lemma res_bind_assoc: "res_bind (res_bind m f) g = res_bind m (\<lambda>y. res_bind (f y) g)"
  by (cases m) simp_all

lemma res_bind_OkE:
  assumes "res_bind m f = Ok y"
  obtains x where "m = Ok x" "f x = Ok y"
  using assms by (cases m) auto

lemma saturating_add_i64_bounds: "is_i64 (saturating_add_i64 a b)"
  by (simp add: is_i64_def saturating_add_i64_def i64_min_def i64_max_def)

lemma saturating_add_i64_exact: "is_i64 (a + b) \<Longrightarrow> saturating_add_i64 a b = a + b"
  by (simp add: is_i64_def saturating_add_i64_def)

lemma wrap_i64_id: "is_i64 z \<Longrightarrow> wrap_i64 z = z"
proof -
  assume "is_i64 z"
  then have b: "- (2 ^ 63) \<le> z" "z < 2 ^ 63"
    by (simp_all add: is_i64_def i64_min_def i64_max_def)
  show ?thesis
  proof (cases "0 \<le> z")
    case True
    then have "z mod 2 ^ 64 = z" using b by simp
    then show ?thesis using b by (simp add: wrap_i64_def)
  next
    case False
    then have "(z + 2 ^ 64) mod 2 ^ 64 = z + 2 ^ 64"
      using b by (intro mod_pos_pos_trivial) simp_all
    then have "z mod 2 ^ 64 = z + 2 ^ 64" by simp
    then show ?thesis using b by (simp add: wrap_i64_def)
  qed
qed

lemma checked_succ_Some:
  "checked_succ k = Some n \<longleftrightarrow> k \<noteq> - 1 \<and> n = k + 1"
  by (auto simp: checked_succ_def)

lemma checked_succ_None: "checked_succ k = None \<longleftrightarrow> k = - 1"
  by (auto simp: checked_succ_def)

lemma word_succ_unat: "k \<noteq> - 1 \<Longrightarrow> unat (k + 1 :: 'a::len word) = Suc (unat k)"
  by (metis add.commute add_eq_0_iff unatSuc)

lemma word_less_succ: "(k :: 'a::len word) \<noteq> - 1 \<Longrightarrow> j < k + 1 \<longleftrightarrow> j \<le> k"
  by (simp add: word_less_nat_alt word_le_nat_alt word_succ_unat less_Suc_eq_le)

lemma word_le_minus_one [simp]: "(k :: 'a::len word) \<le> - 1"
  by simp

section \<open>Lemmas: strings\<close>

lemma strip_prefix_append [simp, str_simps]: "strip_prefix p (p @ s) = Some s"
  by (simp add: strip_prefix_def)

lemma strip_prefix_SomeD: "strip_prefix p s = Some r \<Longrightarrow> s = p @ r"
  by (auto simp: strip_prefix_def prefix_def split: if_splits)

lemma strip_suffix_append [simp, str_simps]: "strip_suffix p (s @ p) = Some s"
  by (simp add: strip_suffix_def suffix_def)

lemma strip_suffix_SomeD: "strip_suffix p s = Some r \<Longrightarrow> s = r @ p"
  by (auto simp: strip_suffix_def suffix_def split: if_splits)

lemma takeWhile_stop: "c \<notin> set xs \<Longrightarrow> takeWhile (\<lambda>b. b \<noteq> c) (xs @ c # ys) = xs"
  by (induction xs) auto

lemma split_char_no: "c \<notin> set a \<Longrightarrow> split_char c a = [a]"
  by (induction a) auto

lemma split_char_sep: "c \<notin> set a \<Longrightarrow> split_char c (a @ c # b) = a # split_char c b"
  by (induction a) auto

lemma split_once_sep: "c \<notin> set a \<Longrightarrow> split_once c (a @ c # b) = Some (a, b)"
  by (induction a) auto

lemma trim_end_matches_snoc:
  "trim_end_matches c (s @ [x]) = (if x = c then trim_end_matches c s else s @ [x])"
  by (simp add: trim_end_matches_def)

lemma trim_end_matches_last: "s \<noteq> [] \<Longrightarrow> last s \<noteq> c \<Longrightarrow> trim_end_matches c s = s"
  by (cases s rule: rev_cases) (auto simp: trim_end_matches_snoc)

lemma last_trim_end_matches: "trim_end_matches c s \<noteq> [] \<Longrightarrow> last (trim_end_matches c s) \<noteq> c"
proof (induction s rule: rev_induct)
  case Nil
  then show ?case by (simp add: trim_end_matches_def)
next
  case (snoc x xs)
  then show ?case by (auto simp: trim_end_matches_snoc split: if_splits)
qed

lemma lines_acc_line:
  "CHR 0x0A \<notin> set l \<Longrightarrow> lines_acc acc (l @ CHR 0x0A # s) = strip_cr (rev acc @ l) # lines_acc [] s"
  by (induction l arbitrary: acc) auto

lemma str_lines_line:
  assumes "CHR 0x0A \<notin> set l" and "l = [] \<or> last l \<noteq> CHR 0x0D"
  shows "str_lines (l @ CHR 0x0A # s) = l # str_lines s"
  using assms by (auto simp: str_lines_def lines_acc_line strip_cr_def)

lemma str_lines_Nil [simp]: "str_lines [] = []"
  by (simp add: str_lines_def)

lemma str_lines_concat:
  assumes "\<forall>l \<in> set ls. CHR 0x0A \<notin> set l \<and> (l = [] \<or> last l \<noteq> CHR 0x0D)"
  shows "str_lines (concat (map (\<lambda>l. l @ [CHR 0x0A]) ls)) = ls"
  using assms by (induction ls) (auto simp: str_lines_line)

section \<open>Lemmas: decimals\<close>

lemma of_digit_char: "d < 10 \<Longrightarrow> (of_char (digit_char d) :: nat) = 48 + d"
  by (simp add: digit_char_def)

lemma is_digit_digit_char [simp]: "d < 10 \<Longrightarrow> is_digit (digit_char d)"
  by (simp add: is_digit_def of_digit_char)

lemma digit_val_digit_char [simp]: "d < 10 \<Longrightarrow> digit_val (digit_char d) = d"
  by (simp add: digit_val_def of_digit_char)

lemma show_nat_digits: "list_all is_digit (show_nat n)"
proof (induction n rule: show_nat.induct)
  case (1 n)
  then show ?case by (subst show_nat.simps) simp
qed

lemma show_nat_nonempty [simp]: "show_nat n \<noteq> []"
  by (subst show_nat.simps) simp

lemma digits_value_show_nat: "digits_value (show_nat n) = n"
proof (induction n rule: show_nat.induct)
  case (1 n)
  show ?case
  proof (cases "n < 10")
    case True
    then show ?thesis by (subst show_nat.simps) (simp add: digits_value_def)
  next
    case False
    with 1 show ?thesis by (subst show_nat.simps) (simp add: digits_value_def)
  qed
qed

lemma parse_digits_show_nat [simp]: "parse_digits (show_nat n) = Some n"
  by (simp add: parse_digits_def show_nat_digits digits_value_show_nat)

lemma is_digit_not: "is_digit c \<Longrightarrow> c \<noteq> CHR ''+'' \<and> c \<noteq> CHR ''-'' \<and> c \<noteq> CHR 0x0A \<and> c \<noteq> CHR 0x0D
    \<and> c \<noteq> CHR 0x09 \<and> c \<noteq> CHR ''_'' \<and> c \<noteq> CHR ''/'' \<and> c \<noteq> CHR ''!''"
  by (auto simp: is_digit_def)

lemma strip_plus_show_nat [simp]: "strip_plus (show_nat n) = show_nat n"
proof (cases "show_nat n")
  case (Cons c cs)
  with show_nat_digits [of n] have "is_digit c" by simp
  with Cons show ?thesis by (auto simp: strip_plus_def dest: is_digit_not)
qed simp

lemma parse_unsigned_show_nat: "v < 2 ^ n \<Longrightarrow> parse_unsigned n (show_nat v) = Some v"
  by (simp add: parse_unsigned_def)

lemma parse_i64_show_int: "is_i64 z \<Longrightarrow> parse_i64 (show_int z) = Some z"
proof (cases "z < 0")
  case True
  moreover assume "is_i64 z"
  ultimately show ?thesis by (simp add: parse_i64_def show_int_def)
next
  case False
  assume "is_i64 z"
  from False have eq: "show_int z = show_nat (nat z)" by (simp add: show_int_def)
  obtain c cs where cs: "show_nat (nat z) = c # cs"
    using show_nat_nonempty by (metis neq_Nil_conv)
  have "is_digit c" using show_nat_digits [of "nat z"] cs by simp
  then have "c \<noteq> CHR ''-''" by (auto dest: is_digit_not)
  then have "parse_i64 (show_nat (nat z)) =
      (case parse_digits (strip_plus (show_nat (nat z))) of
         None \<Rightarrow> None | Some v \<Rightarrow> if is_i64 (int v) then Some (int v) else None)"
    unfolding parse_i64_def cs by simp
  then show ?thesis using False \<open>is_i64 z\<close> eq by simp
qed

lemma show_nat_chars: "c \<in> set (show_nat n) \<Longrightarrow> is_digit c"
  using show_nat_digits [of n] by (simp add: list_all_iff)

lemma show_int_chars: "c \<in> set (show_int z) \<Longrightarrow> is_digit c \<or> c = CHR ''-''"
  by (auto simp: show_int_def dest: show_nat_chars split: if_splits)

lemma show_int_nonempty [simp]: "show_int z \<noteq> []"
  by (simp add: show_int_def)

section \<open>Lemmas: UTF-8\<close>

definition ascii :: "bytes \<Rightarrow> bool" where
  "ascii bs = list_all (\<lambda>c. (of_char c :: nat) < 0x80) bs"

lemma utf8_tail_le: "utf8_tail n bs \<le> length bs"
  by (induction n bs rule: utf8_tail.induct) auto

lemma utf8_tail_bound: "utf8_tail n bs \<le> n"
  by (induction n bs rule: utf8_tail.induct) auto

lemma utf8_tail_append: "utf8_tail n a = n \<Longrightarrow> utf8_tail n (a @ b) = n"
  by (induction n a rule: utf8_tail.induct) (auto split: if_splits)

lemma utf8_step_le: "bs \<noteq> [] \<Longrightarrow> snd (utf8_step bs) \<le> length bs"
  using utf8_tail_le by (cases bs) (auto simp: utf8_step_def Let_def split: list.splits)

lemma utf8_width_cases: "utf8_width b = 0 \<or> utf8_width b = 1 \<or> utf8_width b = 2
    \<or> utf8_width b = 3 \<or> utf8_width b = 4"
  by (simp add: utf8_width_def)

lemma utf8_step_append:
  assumes "a \<noteq> []" and "fst (utf8_step a)"
  shows "utf8_step (a @ b) = utf8_step a"
proof (cases a)
  case (Cons c cs)
  show ?thesis
  proof (cases cs)
    case Nil
    with assms Cons show ?thesis by (auto simp: utf8_step_def Let_def split: if_splits)
  next
    case (Cons d ds)
    let ?w = "utf8_width (of_char c)"
    show ?thesis
    proof (cases "?w \<le> 1")
      case True
      with assms Cons \<open>a = c # cs\<close> show ?thesis by (auto simp: utf8_step_def Let_def split: if_splits)
    next
      case False
      with assms Cons \<open>a = c # cs\<close> have ok: "utf8_second_ok (of_char c) d"
        and n: "utf8_tail (?w - 2) ds = ?w - 2"
        by (auto simp: utf8_step_def Let_def split: if_splits)
      from n have "utf8_tail (?w - 2) (ds @ b) = ?w - 2" by (rule utf8_tail_append)
      with False ok n Cons \<open>a = c # cs\<close> show ?thesis by (simp add: utf8_step_def Let_def)
    qed
  qed
qed (use assms in simp)

lemma utf8_valid_Nil [simp]: "utf8_valid []"
  by (subst utf8_valid.simps) simp

lemma utf8_valid_append: "utf8_valid a \<Longrightarrow> utf8_valid b \<Longrightarrow> utf8_valid (a @ b)"
proof (induction a rule: utf8_valid.induct)
  case (1 a)
  show ?case
  proof (cases "a = []")
    case False
    obtain ok n where st: "utf8_step a = (ok, n)" by (cases "utf8_step a")
    with False 1(2) have ok: ok and v: "utf8_valid (drop n a)"
      by (subst (asm) utf8_valid.simps, simp)+
    have le: "n \<le> length a" using utf8_step_le [OF False] st by simp
    have "utf8_valid (drop n a @ b)" using 1(1) [OF False st [symmetric]] ok v 1(3) by simp
    then show ?thesis using False st ok le utf8_step_append [OF False, of b]
      by (subst utf8_valid.simps) simp
  qed (use 1 in simp)
qed

lemma utf8_valid_ascii_Cons: "(of_char c :: nat) < 0x80 \<Longrightarrow> utf8_valid (c # s) = utf8_valid s"
  by (subst utf8_valid.simps) (simp add: utf8_step_def utf8_width_def)

lemma ascii_utf8_valid: "ascii s \<Longrightarrow> utf8_valid s"
  by (induction s) (auto simp: ascii_def utf8_valid_ascii_Cons)

lemma from_utf8_lossy_valid: "utf8_valid bs \<Longrightarrow> from_utf8_lossy bs = bs"
proof (induction bs rule: from_utf8_lossy.induct)
  case (1 bs)
  show ?case
  proof (cases "bs = []")
    case False
    obtain ok n where st: "utf8_step bs = (ok, n)" by (cases "utf8_step bs")
    with False 1(2) have "ok" "utf8_valid (drop n bs)"
      by (subst (asm) utf8_valid.simps, simp)+
    with 1(1) [OF False st [symmetric]] have "from_utf8_lossy (drop n bs) = drop n bs" by simp
    with False st \<open>ok\<close> show ?thesis by (subst from_utf8_lossy.simps) simp
  qed (subst from_utf8_lossy.simps, simp)
qed

lemma digit_ascii: "is_digit c \<Longrightarrow> (of_char c :: nat) < 0x80"
  by (simp add: is_digit_def)

lemma show_nat_ascii [simp]: "ascii (show_nat n)"
  using show_nat_digits [of n] by (auto simp: ascii_def list_all_iff dest!: digit_ascii)

lemma show_int_ascii [simp]: "ascii (show_int z)"
  using show_nat_ascii [of "nat (- z)"] show_nat_ascii [of "nat z"] by (simp add: show_int_def ascii_def)

end
