(* ===== verification/External.thy ===== *)
theory External
  imports Hyperdir_Prelude "HOL-Library.AList" "HOL-Library.Multiset"
begin

text \<open>
  The code hyperdir calls but does not contain, as parameters: records of functions that the
  model's definitions take as an argument, and locales that state the documented behaviour the
  callers rely on.

  \<^item> \<open>ext\<close>: pure library functions (\<open>crc64fast\<close>, \<open>base64\<close>, \<open>uuid\<close>, \<open>ulid\<close>), laws in \<open>codecs\<close>;
  \<^item> \<open>inode_api\<close>: hyperfile's \<open>InodeRaw\<close>, its fields and its byte image;
  \<^item> \<open>btree_api\<close>: the \<open>BMap\<close> of \<open>btree-ondisk\<close> that a directory handle holds. The laws of
    \<open>btree\<close> speak about successful calls only, so what is proved in it survives I/O errors;
    \<open>btree_total\<close> adds that a call on a healthy store succeeds.

  The in-memory instances at the end show that the laws can hold together and are what the
  witnesses of the development evaluate.
\<close>

section \<open>Pure libraries\<close>

datatype pad_mode = Indifferent | RequireCanonical | RequireNone

record b64_engine =
  eng_alphabet :: string
  eng_encode_padding :: bool
  eng_decode_mode :: pad_mode

record ext =
  crc64 :: "bytes \<Rightarrow> u64"
  b64_encode :: "b64_engine \<Rightarrow> bytes \<Rightarrow> string"
  b64_decode :: "b64_engine \<Rightarrow> string \<Rightarrow> bytes option"
  uuid_fmt :: "uuid \<Rightarrow> string"
  uuid_parse :: "string \<Rightarrow> uuid option"
  ulid_fmt :: "ulid \<Rightarrow> string"
  ulid_parse :: "string \<Rightarrow> ulid option"
  ulid_timestamp_ms :: "ulid \<Rightarrow> nat"

record 'i inode_api =
  ino_default :: 'i
  ino_mode :: "'i \<Rightarrow> u32"
  ino_nlink :: "'i \<Rightarrow> u64"
  ino_set_nlink :: "u64 \<Rightarrow> 'i \<Rightarrow> 'i"
  ino_set_ctime :: "u64 \<Rightarrow> u32 \<Rightarrow> 'i \<Rightarrow> 'i"
  ino_from_slice :: "bytes \<Rightarrow> 'i result"
  ino_as_slice :: "'i \<Rightarrow> bytes"

definition engines_match :: "b64_engine \<Rightarrow> b64_engine \<Rightarrow> bool" where
  "engines_match e d =
     (eng_alphabet e = eng_alphabet d \<and>
      (if eng_encode_padding e then eng_decode_mode d \<in> {Indifferent, RequireCanonical}
       else eng_decode_mode d \<in> {Indifferent, RequireNone}))"

definition engine_ok :: "b64_engine \<Rightarrow> bool" where
  "engine_ok e = (length (eng_alphabet e) = 64 \<and> distinct (eng_alphabet e)
     \<and> CHR ''='' \<notin> set (eng_alphabet e))"

definition uuid_alphabet :: string where
  "uuid_alphabet = ''0123456789abcdef-''"

definition ulid_alphabet :: string where
  "ulid_alphabet = ''0123456789ABCDEFGHJKMNPQRSTVWXYZ''"

text \<open>Laws of the codecs: each decoder inverts its encoder, and an encoding keeps to its alphabet.\<close>

locale codecs =
  fixes x :: ext
  assumes b64_inverse: "engine_ok e \<Longrightarrow> engines_match e d \<Longrightarrow>
      b64_decode x d (b64_encode x e bs) = Some bs"
    and b64_empty: "b64_encode x e [] = []"
    and b64_chars: "engine_ok e \<Longrightarrow>
      set (b64_encode x e bs) \<subseteq> set (eng_alphabet e) \<union> (if eng_encode_padding e then {CHR ''=''} else {})"
    and uuid_inverse: "uuid_parse x (uuid_fmt x u) = Some u"
    and uuid_chars: "set (uuid_fmt x u) \<subseteq> set uuid_alphabet"
    and ulid_inverse: "ulid_parse x (ulid_fmt x l) = Some l"
    and ulid_chars: "set (ulid_fmt x l) \<subseteq> set ulid_alphabet"
begin

lemma uuid_fmt_inj: "uuid_fmt x u = uuid_fmt x v \<Longrightarrow> u = v"
  by (metis option.inject uuid_inverse)

lemma ulid_fmt_inj: "ulid_fmt x l = ulid_fmt x m \<Longrightarrow> l = m"
  by (metis option.inject ulid_inverse)

lemma b64_encode_inj:
  assumes "engine_ok e" and "engines_match e d"
    and "b64_encode x e a = b64_encode x e b"
  shows "a = b"
  using b64_inverse [OF assms(1,2)] assms(3) by (metis option.inject)

lemma b64_encode_nonempty:
  assumes "engine_ok e" and "engines_match e d" and "bs \<noteq> []"
  shows "b64_encode x e bs \<noteq> []"
  using b64_encode_inj [OF assms(1,2), of bs "[]"] b64_empty assms(3) by metis

lemma uuid_fmt_no: "c \<in> {CHR ''_'', CHR ''/'', CHR ''!'', CHR 0x0A, CHR 0x0D, CHR ''.''} \<Longrightarrow> c \<notin> set (uuid_fmt x u)"
  using uuid_chars [of u] by (auto simp: uuid_alphabet_def)

lemma ulid_fmt_no: "c \<in> {CHR ''_'', CHR ''/'', CHR ''!'', CHR 0x0A, CHR 0x0D, CHR ''.''} \<Longrightarrow> c \<notin> set (ulid_fmt x l)"
  using ulid_chars [of l] by (auto simp: ulid_alphabet_def)

end

section \<open>Hash map iteration\<close>

text \<open>
  A Rust \<open>HashMap\<close> yields its keys in an unspecified order; \<open>hm\<close> arranges a list of keys.
\<close>

locale hash_iteration =
  fixes hm :: "string list \<Rightarrow> string list"
  assumes hm_mset: "mset (hm ks) = mset ks"
begin

lemma set_hm [simp]: "set (hm ks) = set ks"
  by (metis hm_mset mset_eq_setD)

lemma distinct_hm [simp]: "distinct (hm ks) = distinct ks"
  by (metis hm_mset mset_eq_imp_distinct_iff)

lemma length_hm [simp]: "length (hm ks) = length ks"
  by (metis hm_mset mset_eq_length)

end

interpretation hm_rev: hash_iteration rev
  by unfold_locales simp

section \<open>The on-disk B-tree\<close>

record ('v, 'b) btree_api =
  bm_lookup :: "'b \<Rightarrow> u64 \<Rightarrow> 'v result"
  bm_insert :: "u64 \<Rightarrow> 'v \<Rightarrow> 'b \<Rightarrow> 'v option result \<times> 'b"
  bm_delete :: "u64 \<Rightarrow> 'b \<Rightarrow> unit result \<times> 'b"
  bm_last_key :: "'b \<Rightarrow> u64 result"
  bm_seek_key :: "'b \<Rightarrow> u64 \<Rightarrow> u64 result"

locale btree =
  fixes api :: "('v, 'b) btree_api"
    and tab :: "'b \<Rightarrow> u64 \<Rightarrow> 'v option"
  assumes lookup_Ok: "bm_lookup api b k = Ok v \<Longrightarrow> tab b k = Some v"
    and lookup_NotFound: "bm_lookup api b k = Err NotFound \<Longrightarrow> tab b k = None"
    and insert_Ok: "bm_insert api k v b = (Ok old, b') \<Longrightarrow> tab b' = (tab b)(k \<mapsto> v)"
    and erase_Ok: "bm_delete api k b = (Ok u, b') \<Longrightarrow> tab b' = (tab b)(k := None)"
    and last_key_Ok: "bm_last_key api b = Ok k \<Longrightarrow> tab b j \<noteq> None \<Longrightarrow> j \<le> k"
    and last_key_NotFound: "bm_last_key api b = Err NotFound \<Longrightarrow> tab b j = None"
    and seek_key_Ok: "bm_seek_key api b n = Ok k \<Longrightarrow>
      n \<le> k \<and> tab b k \<noteq> None \<and> (\<forall>j. n \<le> j \<and> j < k \<longrightarrow> tab b j = None)"
    and seek_key_NotFound: "bm_seek_key api b n = Err NotFound \<Longrightarrow> n \<le> j \<Longrightarrow> tab b j = None"

locale btree_total = btree +
  assumes lookup_hit: "tab b k = Some v \<Longrightarrow> bm_lookup api b k = Ok v"
    and lookup_miss: "tab b k = None \<Longrightarrow> bm_lookup api b k = Err NotFound"
    and insert_total: "\<exists>old b'. bm_insert api k v b = (Ok old, b')"
    and delete_total: "tab b k \<noteq> None \<Longrightarrow> \<exists>b'. bm_delete api k b = (Ok (), b')"
    and last_key_hit: "tab b j \<noteq> None \<Longrightarrow> \<exists>k. bm_last_key api b = Ok k"
    and last_key_miss: "(\<And>j. tab b j = None) \<Longrightarrow> bm_last_key api b = Err NotFound"
    and seek_key_hit: "n \<le> j \<Longrightarrow> tab b j \<noteq> None \<Longrightarrow> \<exists>k. bm_seek_key api b n = Ok k"
    and seek_key_miss: "(\<And>j. n \<le> j \<Longrightarrow> tab b j = None) \<Longrightarrow> bm_seek_key api b n = Err NotFound"

section \<open>An in-memory B-tree\<close>

text \<open>Least and greatest keys of an association list, as results.\<close>

definition keys_from :: "u64 \<Rightarrow> (u64 \<times> 'v) list \<Rightarrow> u64 list" where
  "keys_from n b = filter (\<lambda>k. n \<le> k) (map fst b)"

definition mem_btree :: "('v, (u64 \<times> 'v) list) btree_api" where
  "mem_btree =
     \<lparr> bm_lookup = (\<lambda>b k. case map_of b k of Some v \<Rightarrow> Ok v | None \<Rightarrow> Err NotFound),
       bm_insert = (\<lambda>k v b. (Ok (map_of b k), AList.update k v b)),
       bm_delete = (\<lambda>k b. if map_of b k = None then (Err NotFound, b) else (Ok (), AList.delete k b)),
       bm_last_key = (\<lambda>b. if b = [] then Err NotFound else Ok (fold max (map fst b) 0)),
       bm_seek_key = (\<lambda>b n. case keys_from n b of
           [] \<Rightarrow> Err NotFound | k # ks \<Rightarrow> Ok (fold min ks k)) \<rparr>"

lemma fold_max_ge: "x \<in> set xs \<Longrightarrow> x \<le> fold max xs (a :: 'a::linorder)"
  by (simp add: Max.set_eq_fold [symmetric])

lemma fold_min_le: "x \<in> set xs \<or> x = a \<Longrightarrow> fold min xs (a :: 'a::linorder) \<le> x"
  by (auto simp: Min.set_eq_fold [symmetric])

lemma fold_min_in: "fold min xs (a :: 'a::linorder) \<in> insert a (set xs)"
  using Min_in [of "set (a # xs)"] by (simp only: Min.set_eq_fold) simp

lemma map_of_dom: "map_of b k \<noteq> None \<longleftrightarrow> k \<in> set (map fst b)"
  by (induction b) auto

lemma seek_least:
  assumes "keys_from n b = k # ks"
  shows "n \<le> fold min ks k" "map_of b (fold min ks k) \<noteq> None"
    "n \<le> j \<Longrightarrow> j < fold min ks k \<Longrightarrow> map_of b j = None"
proof -
  have keys: "insert k (set ks) = {j \<in> set (map fst b). n \<le> j}"
    using arg_cong [OF assms, of set] by (simp add: keys_from_def)
  with fold_min_in [of ks k] show "n \<le> fold min ks k" "map_of b (fold min ks k) \<noteq> None"
    unfolding map_of_dom by auto
  assume "n \<le> j" "j < fold min ks k"
  then have "j \<notin> insert k (set ks)" using fold_min_le [of j ks k] by (auto simp: not_le [symmetric])
  with keys \<open>n \<le> j\<close> have "j \<notin> set (map fst b)" by blast
  then show "map_of b j = None" using map_of_dom [of b j] by blast
qed

lemma mem_btree_simps [simp]:
  "bm_lookup mem_btree b k = (case map_of b k of Some v \<Rightarrow> Ok v | None \<Rightarrow> Err NotFound)"
  "bm_insert mem_btree k v b = (Ok (map_of b k), AList.update k v b)"
  "bm_delete mem_btree k b =
     (if map_of b k = None then (Err NotFound, b) else (Ok (), AList.delete k b))"
  "bm_last_key mem_btree b = (if b = [] then Err NotFound else Ok (fold max (map fst b) 0))"
  "bm_seek_key mem_btree b n =
     (case keys_from n b of [] \<Rightarrow> Err NotFound | k # ks \<Rightarrow> Ok (fold min ks k))"
  by (simp_all add: mem_btree_def)

lemma keys_from_empty: "keys_from n b = [] \<longleftrightarrow> (\<forall>j. n \<le> j \<longrightarrow> map_of b j = None)"
  by (auto simp: keys_from_def filter_empty_conv map_of_eq_None_iff)

interpretation mem: btree_total mem_btree map_of
proof (unfold_locales, goal_cases)
  case (1 b k v)
  then show ?case by (simp split: option.splits)
next
  case (2 b k)
  then show ?case by (simp split: option.splits)
next
  case (3 k v b old b')
  then show ?case by (auto simp: update_conv')
next
  case (4 k b u b')
  then show ?case by (auto simp: delete_conv' split: if_splits)
next
  case (5 b k j)
  then have "j \<in> set (map fst b)" by (simp only: map_of_dom)
  then have "j \<le> fold max (map fst b) 0" by (rule fold_max_ge)
  with 5 show ?case by (simp split: if_splits)
next
  case (6 b j)
  then show ?case by (simp split: if_splits)
next
  case (7 b n k)
  then obtain y ys where ys: "keys_from n b = y # ys" "k = fold min ys y"
    by (simp split: list.splits)
  show ?case using seek_least [OF ys(1)] unfolding ys(2) by blast
next
  case (8 b n j)
  then show ?case by (simp add: keys_from_empty split: list.splits)
next
  case (9 b k v)
  then show ?case by simp
next
  case (10 b k)
  then show ?case by simp
next
  case (11 k v b)
  show ?case by simp
next
  case (12 b k)
  then show ?case by simp
next
  case (13 b j)
  then show ?case by (cases b) simp_all
next
  case (14 b)
  have "b = []"
  proof (rule ccontr)
    assume "b \<noteq> []"
    then obtain k v r where "b = (k, v) # r" by (cases b) auto
    with 14 [of k] show False by simp
  qed
  then show ?case by simp
next
  case (15 n j b)
  then have "keys_from n b \<noteq> []" by (simp only: keys_from_empty) (erule contrapos_nn, simp)
  then obtain y ys where "keys_from n b = y # ys" by (auto simp: neq_Nil_conv)
  then show ?case by simp
next
  case (16 n b)
  then have "keys_from n b = []" by (simp add: keys_from_empty)
  then show ?case by simp
qed

end
