(* ===== verification/Reference_Codecs.thy ===== *)
theory Reference_Codecs
  imports External
begin

text \<open>
  Executable codecs that satisfy the laws of the locale \<open>codecs\<close>: base64 with any alphabet
  (six-bit groups, optional padding), the hyphenated UUID text form and the 26-character
  ULID text form. The witnesses of the development evaluate the model on them.
\<close>

section \<open>Positional digits\<close>

fun digs :: "nat \<Rightarrow> nat \<Rightarrow> nat \<Rightarrow> nat list" where
  "digs 0 B v = []"
| "digs (Suc n) B v = digs n B (v div B) @ [v mod B]"

definition dval :: "nat \<Rightarrow> nat list \<Rightarrow> nat" where
  "dval B ds = foldl (\<lambda>a d. a * B + d) 0 ds"

fun index_of :: "char \<Rightarrow> string \<Rightarrow> nat option" where
  "index_of c [] = None"
| "index_of c (y # ys) = (if c = y then Some 0 else map_option Suc (index_of c ys))"

fun all_some :: "'a option list \<Rightarrow> 'a list option" where
  "all_some [] = Some []"
| "all_some (None # xs) = None"
| "all_some (Some y # xs) = map_option (\<lambda>ys. y # ys) (all_some xs)"

lemma length_digs [simp]: "length (digs n B v) = n"
  by (induction n arbitrary: v) auto

lemma digs_less: "0 < B \<Longrightarrow> d \<in> set (digs n B v) \<Longrightarrow> d < B"
  by (induction n arbitrary: v) auto

lemma dval_snoc [simp]: "dval B (ds @ [d]) = dval B ds * B + d"
  by (simp add: dval_def)

lemma dval_digs: "v < B ^ n \<Longrightarrow> dval B (digs n B v) = v"
proof (induction n arbitrary: v)
  case 0
  then show ?case by (simp add: dval_def)
next
  case (Suc n)
  then have "v div B < B ^ n" by (simp add: less_mult_imp_div_less mult.commute)
  with Suc show ?case by simp
qed

lemma digs_dval:
  assumes "\<And>d. d \<in> set ds \<Longrightarrow> d < B"
  shows "digs (length ds) B (dval B ds) = ds"
  using assms
proof (induction ds rule: rev_induct)
  case (snoc d ds)
  then have "d < B" by simp
  then have "(dval B ds * B + d) div B = dval B ds" "(dval B ds * B + d) mod B = d" by simp_all
  with snoc show ?case by simp
qed simp

lemma dval_less:
  assumes "\<And>d. d \<in> set ds \<Longrightarrow> d < B"
  shows "dval B ds < B ^ length ds"
  using assms
proof (induction ds rule: rev_induct)
  case (snoc d ds)
  then have IH: "Suc (dval B ds) \<le> B ^ length ds" and d: "d < B" by (simp_all add: Suc_le_eq)
  have "dval B ds * B + d < dval B ds * B + B" using d by simp
  also have "\<dots> = Suc (dval B ds) * B" by simp
  also have "\<dots> \<le> B ^ length ds * B" using IH by (rule mult_le_mono1)
  finally show ?case by (simp add: mult.commute)
qed (simp add: dval_def)

lemma index_of_nth: "distinct ys \<Longrightarrow> i < length ys \<Longrightarrow> index_of (ys ! i) ys = Some i"
  by (induction ys arbitrary: i) (auto simp: nth_Cons split: nat.splits)

lemma all_some_map: "(\<And>y. y \<in> set ys \<Longrightarrow> f y = Some (g y)) \<Longrightarrow> all_some (map f ys) = Some (map g ys)"
  by (induction ys) auto

definition enc_digits :: "string \<Rightarrow> nat list \<Rightarrow> string" where
  "enc_digits al ds = map ((!) al) ds"

definition dec_digits :: "string \<Rightarrow> string \<Rightarrow> nat list option" where
  "dec_digits al s = all_some (map (\<lambda>c. index_of c al) s)"

lemma dec_enc_digits:
  assumes "distinct al" and "\<And>d. d \<in> set ds \<Longrightarrow> d < length al"
  shows "dec_digits al (enc_digits al ds) = Some ds"
proof -
  have "all_some (map (\<lambda>d. index_of (al ! d) al) ds) = Some (map (\<lambda>d. d) ds)"
    by (rule all_some_map) (simp add: index_of_nth assms)
  then show ?thesis by (simp add: dec_digits_def enc_digits_def comp_def)
qed

lemma set_enc_digits: "(\<And>d. d \<in> set ds \<Longrightarrow> d < length al) \<Longrightarrow> set (enc_digits al ds) \<subseteq> set al"
  by (auto simp: enc_digits_def)

section \<open>Base64\<close>

definition byte_bits :: "char \<Rightarrow> nat list" where
  "byte_bits c = digs 8 2 (of_char c)"

fun chunks6 :: "nat list \<Rightarrow> nat list list" where
  "chunks6 bits =
     (if bits = [] then []
      else (take 6 bits @ replicate (6 - length bits) 0) # chunks6 (drop 6 bits))"

declare chunks6.simps [simp del]

fun bits_bytes :: "nat list \<Rightarrow> bytes" where
  "bits_bytes bits =
     (if length bits < 8 then [] else char_of (dval 2 (take 8 bits)) # bits_bytes (drop 8 bits))"

declare bits_bytes.simps [simp del]

definition ref_b64_encode :: "b64_engine \<Rightarrow> bytes \<Rightarrow> string" where
  "ref_b64_encode e bs =
     (let s = enc_digits (eng_alphabet e) (map (dval 2) (chunks6 (concat (map byte_bits bs)))) in
      s @ (if eng_encode_padding e then replicate ((4 - length s mod 4) mod 4) (CHR ''='') else []))"

definition ref_b64_decode :: "b64_engine \<Rightarrow> string \<Rightarrow> bytes option" where
  "ref_b64_decode e s =
     map_option (\<lambda>ds. bits_bytes (concat (map (digs 6 2) ds)))
       (dec_digits (eng_alphabet e) (trim_end_matches (CHR ''='') s))"

lemma chunks6_shape:
  "(\<And>b. b \<in> set bits \<Longrightarrow> b < 2) \<Longrightarrow> ch \<in> set (chunks6 bits) \<Longrightarrow>
     length ch = 6 \<and> (\<forall>b \<in> set ch. b < 2)"
proof (induction bits rule: chunks6.induct)
  case (1 bits)
  from 1(3) have "bits \<noteq> []" by (cases bits) (simp_all add: chunks6.simps)
  then have "ch = take 6 bits @ replicate (6 - length bits) 0 \<or> ch \<in> set (chunks6 (drop 6 bits))"
    using 1(3) by (subst (asm) chunks6.simps) simp
  then show ?case
  proof
    assume "ch = take 6 bits @ replicate (6 - length bits) 0"
    then show ?thesis using 1(2) by (auto dest: in_set_takeD)
  next
    assume "ch \<in> set (chunks6 (drop 6 bits))"
    then show ?thesis using 1(1) \<open>bits \<noteq> []\<close> 1(2) by (meson in_set_dropD)
  qed
qed

lemma chunks6_concat: "\<exists>z. length z < 6 \<and> concat (chunks6 bits) = bits @ z"
proof (induction bits rule: chunks6.induct)
  case (1 bits)
  show ?case
  proof (cases "bits = []")
    case True
    then show ?thesis by (simp add: chunks6.simps)
  next
    case False
    with 1 obtain z where z: "length z < 6" "concat (chunks6 (drop 6 bits)) = drop 6 bits @ z" by blast
    show ?thesis
    proof (cases "length bits \<le> 6")
      case True
      then have "concat (chunks6 bits) = bits @ replicate (6 - length bits) 0"
        using False by (subst chunks6.simps) (simp add: chunks6.simps)
      moreover have "length (replicate (6 - length bits) (0 :: nat)) < 6" using False by simp
      ultimately show ?thesis by blast
    next
      case False
      then have "concat (chunks6 bits) = bits @ z"
        using z \<open>bits \<noteq> []\<close> by (subst chunks6.simps) simp
      with z show ?thesis by blast
    qed
  qed
qed

lemma byte_bits_less: "b \<in> set (concat (map byte_bits bs)) \<Longrightarrow> b < 2"
  by (auto simp: byte_bits_def dest: digs_less [rotated])

lemma byte_bits_val: "char_of (dval 2 (byte_bits c)) = c"
  by (simp add: byte_bits_def dval_digs [of "of_char c" 2 8])

lemma bits_bytes_concat: "length z < 8 \<Longrightarrow> bits_bytes (concat (map byte_bits bs) @ z) = bs"
proof (induction bs)
  case Nil
  then show ?case by (simp add: bits_bytes.simps)
next
  case (Cons b bs)
  have "length (byte_bits b) = 8" by (simp add: byte_bits_def)
  with Cons show ?case by (subst bits_bytes.simps) (simp add: byte_bits_val)
qed

lemma chunk_digits:
  assumes "\<And>b. b \<in> set bits \<Longrightarrow> b < 2"
  shows "map (digs 6 2) (map (dval 2) (chunks6 bits)) = chunks6 bits"
    and "d \<in> set (map (dval 2) (chunks6 bits)) \<Longrightarrow> d < 64"
proof -
  show "map (digs 6 2) (map (dval 2) (chunks6 bits)) = chunks6 bits"
  proof (simp, rule map_idI)
    fix ch assume "ch \<in> set (chunks6 bits)"
    then show "(digs 6 2 \<circ> dval 2) ch = ch"
      using chunks6_shape [OF assms] digs_dval [of ch 2] by fastforce
  qed
  assume "d \<in> set (map (dval 2) (chunks6 bits))"
  then obtain ch where ch: "ch \<in> set (chunks6 bits)" "d = dval 2 ch" by auto
  with chunks6_shape [OF assms ch(1)] dval_less [of ch 2] show "d < 64" by simp
qed

lemma trim_end_padding:
  assumes "c \<notin> set s" shows "trim_end_matches c (s @ replicate n c) = s"
proof (induction n)
  case 0
  show ?case
  proof (cases s rule: rev_cases)
    case (snoc ys y)
    with assms show ?thesis by (auto simp: trim_end_matches_snoc)
  qed (simp add: trim_end_matches_def)
next
  case (Suc n)
  then show ?case by (simp add: replicate_append_same [symmetric] trim_end_matches_snoc flip: append_assoc)
qed

lemma ref_b64_inverse:
  assumes "engine_ok e" and "engines_match e d"
  shows "ref_b64_decode d (ref_b64_encode e bs) = Some bs"
proof -
  let ?ds = "map (dval 2) (chunks6 (concat (map byte_bits bs)))"
  let ?al = "eng_alphabet e"
  have al: "eng_alphabet d = ?al" "distinct ?al" "length ?al = 64" "CHR ''='' \<notin> set ?al"
    using assms by (simp_all add: engine_ok_def engines_match_def)
  note dig = chunk_digits [of "concat (map byte_bits bs)", OF byte_bits_less]
  have less: "dd < length ?al" if "dd \<in> set ?ds" for dd using dig(2) that al(3) by simp
  have "CHR ''='' \<notin> set (enc_digits ?al ?ds)" using set_enc_digits [OF less] al(4) by blast
  then have "trim_end_matches (CHR ''='') (ref_b64_encode e bs) = enc_digits ?al ?ds"
    using trim_end_padding [of "CHR ''=''" "enc_digits ?al ?ds" 0]
    by (simp add: ref_b64_encode_def Let_def trim_end_padding)
  moreover have "dec_digits ?al (enc_digits ?al ?ds) = Some ?ds" using al(2) less by (rule dec_enc_digits)
  moreover obtain z where "length z < 6"
    "concat (chunks6 (concat (map byte_bits bs))) = concat (map byte_bits bs) @ z"
    using chunks6_concat by blast
  ultimately show ?thesis
    unfolding ref_b64_decode_def al(1) by (simp add: dig(1) [simplified] bits_bytes_concat)
qed

lemma ref_b64_empty: "ref_b64_encode e [] = []"
  by (simp add: ref_b64_encode_def chunks6.simps enc_digits_def)

lemma ref_b64_chars:
  assumes "engine_ok e"
  shows "set (ref_b64_encode e bs) \<subseteq> set (eng_alphabet e) \<union> (if eng_encode_padding e then {CHR ''=''} else {})"
proof -
  let ?ds = "map (dval 2) (chunks6 (concat (map byte_bits bs)))"
  have "dd < length (eng_alphabet e)" if "dd \<in> set ?ds" for dd
    using chunk_digits(2) [OF byte_bits_less that] assms by (simp add: engine_ok_def)
  then have "set (enc_digits (eng_alphabet e) ?ds) \<subseteq> set (eng_alphabet e)" by (rule set_enc_digits)
  then show ?thesis by (auto simp: ref_b64_encode_def Let_def)
qed

section \<open>UUID and ULID text forms\<close>

definition hex_alphabet :: string where "hex_alphabet = ''0123456789abcdef''"

definition ref_uuid_fmt :: "uuid \<Rightarrow> string" where
  "ref_uuid_fmt u =
     (let h = enc_digits hex_alphabet (digs 32 16 (unat u)) in
      take 8 h @ ''-'' @ take 4 (drop 8 h) @ ''-'' @ take 4 (drop 12 h) @ ''-'' @
      take 4 (drop 16 h) @ ''-'' @ drop 20 h)"

definition ref_uuid_parse :: "string \<Rightarrow> uuid option" where
  "ref_uuid_parse s =
     (case dec_digits hex_alphabet (filter (\<lambda>c. c \<noteq> CHR ''-'') s) of
        Some ds \<Rightarrow> if length ds = 32 then Some (of_nat (dval 16 ds)) else None
      | None \<Rightarrow> None)"

definition ref_ulid_fmt :: "ulid \<Rightarrow> string" where
  "ref_ulid_fmt u = enc_digits ulid_alphabet (digs 26 32 (unat u))"

definition ref_ulid_parse :: "string \<Rightarrow> ulid option" where
  "ref_ulid_parse s =
     (case dec_digits ulid_alphabet s of
        Some ds \<Rightarrow> if length ds = 26 \<and> dval 32 ds < 2 ^ 128 then Some (of_nat (dval 32 ds)) else None
      | None \<Rightarrow> None)"

definition ref_crc64 :: "bytes \<Rightarrow> u64" where
  "ref_crc64 bs = foldl (\<lambda>h c. h * 257 + of_nat (of_char c)) 0 bs"

definition ref_ext :: ext where
  "ref_ext =
     \<lparr> crc64 = ref_crc64, b64_encode = ref_b64_encode, b64_decode = ref_b64_decode,
       uuid_fmt = ref_uuid_fmt, uuid_parse = ref_uuid_parse,
       ulid_fmt = ref_ulid_fmt, ulid_parse = ref_ulid_parse,
       ulid_timestamp_ms = (\<lambda>u. unat u div 2 ^ 80) \<rparr>"

lemma hex_ok: "distinct hex_alphabet" "length hex_alphabet = 16" "CHR ''-'' \<notin> set hex_alphabet"
  by (simp_all add: hex_alphabet_def)

lemma ulid_alphabet_ok: "distinct ulid_alphabet" "length ulid_alphabet = 32"
  by (simp_all add: ulid_alphabet_def)

lemma ref_uuid_filter:
  "filter (\<lambda>c. c \<noteq> CHR ''-'') (ref_uuid_fmt u) = enc_digits hex_alphabet (digs 32 16 (unat u))"
proof -
  let ?h = "enc_digits hex_alphabet (digs 32 16 (unat u))"
  have "set ?h \<subseteq> set hex_alphabet" by (rule set_enc_digits) (simp add: digs_less hex_ok)
  then have no: "c \<noteq> CHR ''-''" if "c \<in> set ?h" for c using that hex_ok(3) by blast
  have keep: "filter (\<lambda>c. c \<noteq> CHR ''-'') (take n (drop m ?h)) = take n (drop m ?h)" for n m
    using no by (auto simp: filter_id_conv dest!: in_set_takeD in_set_dropD)
  have "filter (\<lambda>c. c \<noteq> CHR ''-'') (ref_uuid_fmt u) =
      take 8 ?h @ take 4 (drop 8 ?h) @ take 4 (drop 12 ?h) @ take 4 (drop 16 ?h) @ drop 20 ?h"
    using keep [of 8 0] keep [of 4 8] keep [of 4 12] keep [of 4 16] keep [of "length ?h" 20]
    by (simp add: ref_uuid_fmt_def Let_def)
  moreover have "take 4 (drop 16 ?h) @ drop 20 ?h = drop 16 ?h"
    "take 4 (drop 12 ?h) @ drop 16 ?h = drop 12 ?h" "take 4 (drop 8 ?h) @ drop 12 ?h = drop 8 ?h"
    using append_take_drop_id [of 4 "drop 16 ?h"] append_take_drop_id [of 4 "drop 12 ?h"]
      append_take_drop_id [of 4 "drop 8 ?h"] by simp_all
  ultimately show ?thesis by simp
qed

lemma ref_uuid_inverse: "ref_uuid_parse (ref_uuid_fmt u) = Some u"
proof -
  have "unat u < 2 ^ LENGTH(128)" by (rule unsigned_less)
  then have "dval 16 (digs 32 16 (unat u)) = unat u" by (intro dval_digs) simp
  moreover have "dec_digits hex_alphabet (enc_digits hex_alphabet (digs 32 16 (unat u))) =
      Some (digs 32 16 (unat u))"
    by (rule dec_enc_digits) (simp_all add: hex_ok digs_less)
  ultimately show ?thesis unfolding ref_uuid_parse_def ref_uuid_filter by simp
qed

lemma ref_uuid_chars: "set (ref_uuid_fmt u) \<subseteq> set uuid_alphabet"
proof
  fix c assume "c \<in> set (ref_uuid_fmt u)"
  then have "c = CHR ''-'' \<or> c \<in> set (filter (\<lambda>c. c \<noteq> CHR ''-'') (ref_uuid_fmt u))" by auto
  moreover have "set (enc_digits hex_alphabet (digs 32 16 (unat u))) \<subseteq> set hex_alphabet"
    by (rule set_enc_digits) (simp add: digs_less hex_ok)
  moreover have "set hex_alphabet \<subseteq> set uuid_alphabet" "CHR ''-'' \<in> set uuid_alphabet"
    by (simp_all add: hex_alphabet_def uuid_alphabet_def)
  ultimately show "c \<in> set uuid_alphabet" unfolding ref_uuid_filter by blast
qed

lemma ref_ulid_inverse: "ref_ulid_parse (ref_ulid_fmt u) = Some u"
proof -
  have lt: "unat u < 2 ^ LENGTH(128)" by (rule unsigned_less)
  then have "dval 32 (digs 26 32 (unat u)) = unat u" by (intro dval_digs) simp
  moreover have "dec_digits ulid_alphabet (enc_digits ulid_alphabet (digs 26 32 (unat u))) =
      Some (digs 26 32 (unat u))"
    by (rule dec_enc_digits) (simp_all add: ulid_alphabet_ok digs_less)
  ultimately show ?thesis using lt unfolding ref_ulid_parse_def ref_ulid_fmt_def by simp
qed

lemma ref_ulid_chars: "set (ref_ulid_fmt u) \<subseteq> set ulid_alphabet"
  unfolding ref_ulid_fmt_def by (rule set_enc_digits) (simp add: digs_less ulid_alphabet_ok)

interpretation refc: codecs ref_ext
  by unfold_locales
    (simp_all add: ref_ext_def ref_b64_inverse ref_b64_empty ref_b64_chars ref_uuid_inverse ref_uuid_chars
      ref_ulid_inverse ref_ulid_chars)

end
