(* ===== verification/Scatter.thy ===== *)
theory Scatter
  imports Reference_Codecs "HOL-Library.Product_Lexorder"
begin

text \<open>
  \<open>src/lib.rs\<close>: scatter objects. A logical change of a directory entry is one object under the
  directory's \<open>!/\<close> folder; its key carries name, ULID, child UUID and operation, its body the
  inode, the tombstone or the pre-delete marker. Here are the key codec, the three body codecs,
  the lease body, and \<open>filter_last_view\<close>, which picks the latest scatter per name.

  Every \<open>expect\<close>, \<open>assert!\<close> and slice index of the decoder is the outcome \<open>Panic\<close>. \<open>Ulid::new()\<close>
  is an argument. The iteration order of a Rust \<open>HashMap\<close> is the parameter \<open>hm\<close>, a function
  that permutes the keys.
\<close>

section \<open>Data\<close>

datatype dir_scatter_inode_op = Create | Update | PreDelete | Delete | Unknown

fun op_u8 :: "dir_scatter_inode_op \<Rightarrow> nat" where
  "op_u8 Create = 1"
| "op_u8 Update = 2"
| "op_u8 PreDelete = 3"
| "op_u8 Delete = 4"
| "op_u8 Unknown = 255"

definition from_u8 :: "nat \<Rightarrow> dir_scatter_inode_op" where
  "from_u8 n = (if n = 1 then Create else if n = 2 then Update else if n = 3 then PreDelete
     else if n = 4 then Delete else Unknown)"

record dir_scatter_inode =
  s_key :: string
  s_op :: dir_scatter_inode_op
  s_ulid :: ulid
  s_uuid :: uuid
  s_filename :: string
  s_last_modified :: int

record tombstone_header =
  deleted_at_unix_ms :: int
  retention_until_unix_ms :: int

definition tombstone_header_size :: nat where "tombstone_header_size = 16"

definition DEFAULT_DIR_INODE_SCATTER_FOLDER :: string where "DEFAULT_DIR_INODE_SCATTER_FOLDER = ''!''"
definition DEFAULT_DIR_INODE_SUFFIX :: string where "DEFAULT_DIR_INODE_SUFFIX = ''.inode''"
definition DEFAULT_DIR_TOMBSTONE_SUFFIX :: string where "DEFAULT_DIR_TOMBSTONE_SUFFIX = ''.tombstone''"
definition DEFAULT_COMPACT_LEASE_FILE :: string where "DEFAULT_COMPACT_LEASE_FILE = ''_compact.lease''"
definition DEFAULT_COMPACT_LEASE_TTL_MS :: u64 where "DEFAULT_COMPACT_LEASE_TTL_MS = 60000"

section \<open>Little-endian integers\<close>

fun le_bytes :: "nat \<Rightarrow> nat \<Rightarrow> bytes" where
  "le_bytes 0 n = []"
| "le_bytes (Suc k) n = char_of (n mod 256) # le_bytes k (n div 256)"

fun le_value :: "bytes \<Rightarrow> nat" where
  "le_value [] = 0"
| "le_value (c # cs) = of_char c + 256 * le_value cs"

definition to_le_bytes_i64 :: "int \<Rightarrow> bytes" where
  "to_le_bytes_i64 z = le_bytes 8 (nat (z mod 2 ^ 64))"

definition from_le_bytes_i64 :: "bytes \<Rightarrow> int" where
  "from_le_bytes_i64 bs = wrap_i64 (int (le_value bs))"

section \<open>Bodies\<close>

definition build_predelete_body :: "bool \<Rightarrow> int \<Rightarrow> bytes" where
  "build_predelete_body is_dir retention =
     (if is_dir then CHR 0x01 else CHR 0x00) # to_le_bytes_i64 retention"

definition parse_predelete_body :: "bytes \<Rightarrow> bool \<times> int" where
  "parse_predelete_body buf =
     ((case buf of [] \<Rightarrow> False | b # _ \<Rightarrow> b \<noteq> CHR 0x00),
      (if 9 \<le> length buf then from_le_bytes_i64 (take 8 (drop 1 buf)) else 0))"

text \<open>The header is a \<open>repr(C)\<close> struct of two \<open>i64\<close>, here on a little-endian target.\<close>

definition build_tombstone_body :: "int \<Rightarrow> int \<Rightarrow> bytes \<Rightarrow> bytes" where
  "build_tombstone_body deleted_at retention inode_raw =
     to_le_bytes_i64 deleted_at @ to_le_bytes_i64 retention @ inode_raw"

definition parse_tombstone_body :: "bytes \<Rightarrow> (tombstone_header \<times> bytes) result" where
  "parse_tombstone_body buf =
     (if length buf < tombstone_header_size then Err InvalidData
      else Ok (\<lparr> deleted_at_unix_ms = from_le_bytes_i64 (take 8 buf),
                 retention_until_unix_ms = from_le_bytes_i64 (take 8 (drop 8 buf)) \<rparr>,
               drop tombstone_header_size buf))"

definition format_lease_body :: "string \<Rightarrow> int \<Rightarrow> string" where
  "format_lease_body holder expires_at =
     ''holder='' @ holder @ [CHR 0x0A] @ ''expires_at_unix_ms='' @ show_int expires_at @ [CHR 0x0A]"

fun parse_lease_lines :: "string list \<Rightarrow> string option \<Rightarrow> int option \<Rightarrow> string option \<times> int option" where
  "parse_lease_lines [] holder expires_at = (holder, expires_at)"
| "parse_lease_lines (line # ls) holder expires_at =
     (case strip_prefix ''holder='' line of
        Some v \<Rightarrow> parse_lease_lines ls (Some v) expires_at
      | None \<Rightarrow>
          (case strip_prefix ''expires_at_unix_ms='' line of
             Some v \<Rightarrow> parse_lease_lines ls holder (parse_i64 v)
           | None \<Rightarrow> parse_lease_lines ls holder expires_at))"

definition parse_lease_body :: "bytes \<Rightarrow> (string \<times> int) result" where
  "parse_lease_body buf =
     (case from_utf8 buf of
        None \<Rightarrow> Err InvalidData
      | Some s \<Rightarrow>
          (case parse_lease_lines (str_lines s) None None of
             (Some holder, Some expires_at) \<Rightarrow> Ok (holder, expires_at)
           | _ \<Rightarrow> Err InvalidData))"

text \<open>\<open>unix_now_ms\<close>: \<open>clock_ms\<close> is the wall clock in milliseconds since the epoch, negative before it.\<close>

definition unix_now_ms :: "int \<Rightarrow> int" where
  "unix_now_ms clock_ms = (if clock_ms < 0 then 0 else if clock_ms \<le> i64_max then clock_ms else i64_max)"

section \<open>Keys\<close>

definition name_alphabet :: string where
  "name_alphabet = ''*-ABCDEFGHIJKLMNOPQRSTUVWXYZabcdefghijklmnopqrstuvwxyz0123456789''"

definition encode_engine :: b64_engine where
  "encode_engine = \<lparr> eng_alphabet = name_alphabet, eng_encode_padding = False,
     eng_decode_mode = RequireCanonical \<rparr>"

definition decode_engine :: b64_engine where
  "decode_engine = \<lparr> eng_alphabet = name_alphabet, eng_encode_padding = True,
     eng_decode_mode = RequireNone \<rparr>"

definition encode_filename :: "ext \<Rightarrow> string \<Rightarrow> string" where
  "encode_filename x filename = b64_encode x encode_engine filename"

definition path_encode :: "ext \<Rightarrow> ulid \<Rightarrow> string \<Rightarrow> string \<Rightarrow> uuid \<Rightarrow> nat \<Rightarrow> string result" where
  "path_encode x ul dir filename uuid op =
     (if ends_with dir ''/'' then Panic
      else
        let suff = (if op = op_u8 Delete then DEFAULT_DIR_TOMBSTONE_SUFFIX else DEFAULT_DIR_INODE_SUFFIX) in
        Ok (dir @ ''/'' @ DEFAULT_DIR_INODE_SCATTER_FOLDER @ ''/'' @ encode_filename x filename @ ''/'' @
            ulid_fmt x ul @ ''_'' @ uuid_fmt x uuid @ ''_'' @ show_nat op @ suff))"

definition expect :: "'a option \<Rightarrow> 'a result" where
  "expect r = (case r of Some v \<Rightarrow> Ok v | None \<Rightarrow> Panic)"

definition index_vec :: "'a list \<Rightarrow> nat \<Rightarrow> 'a result" where
  "index_vec v i = (if i < length v then Ok (v ! i) else Panic)"

definition path_decode :: "ext \<Rightarrow> string \<Rightarrow> int \<Rightarrow> dir_scatter_inode result" where
  "path_decode x scatter_inode last_modified =
     (let components = split_char (CHR ''!'') scatter_inode in
      if length components \<noteq> 2 then Panic
      else
        let trimmed = trim_start_matches (CHR ''/'') (components ! 1) in
        res_bind (expect (case strip_suffix DEFAULT_DIR_INODE_SUFFIX trimmed of
              Some s \<Rightarrow> Some s | None \<Rightarrow> strip_suffix DEFAULT_DIR_TOMBSTONE_SUFFIX trimmed)) (\<lambda>stem.
        res_bind (expect (split_once (CHR ''/'') stem)) (\<lambda>(b64name, rest).
        let parts = split_char (CHR ''_'') rest in
        res_bind (index_vec parts 0) (\<lambda>p0.
        res_bind (expect (ulid_parse x p0)) (\<lambda>ulid.
        res_bind (expect (b64_decode x decode_engine b64name)) (\<lambda>decoded.
        res_bind (expect (from_utf8 decoded)) (\<lambda>filename.
        res_bind (index_vec parts 1) (\<lambda>p1.
        res_bind (expect (uuid_parse x p1)) (\<lambda>uuid.
        res_bind (index_vec parts 2) (\<lambda>p2.
        res_bind (expect (parse_unsigned 8 p2)) (\<lambda>op.
        Ok \<lparr> s_key = scatter_inode, s_op = from_u8 op, s_ulid = ulid, s_uuid = uuid,
             s_filename = filename, s_last_modified = last_modified \<rparr>)))))))))))"

section \<open>The latest scatter per name\<close>

fun group_insert ::
  "dir_scatter_inode \<Rightarrow> (string \<times> dir_scatter_inode list) list \<Rightarrow> (string \<times> dir_scatter_inode list) list" where
  "group_insert s [] = [(s_filename s, [s])]"
| "group_insert s ((nm, v) # m) =
     (if nm = s_filename s then (nm, v @ [s]) # m else (nm, v) # group_insert s m)"

definition scatter_groups :: "dir_scatter_inode list \<Rightarrow> (string \<times> dir_scatter_inode list) list" where
  "scatter_groups scatters = fold group_insert scatters []"

definition scatter_rank :: "dir_scatter_inode \<Rightarrow> int \<times> ulid \<times> string" where
  "scatter_rank s = (s_last_modified s, s_ulid s, s_key s)"

definition filter_last_view ::
  "(string list \<Rightarrow> string list) \<Rightarrow> dir_scatter_inode list \<Rightarrow> dir_scatter_inode list result" where
  "filter_last_view hm scatters =
     (let m = map (\<lambda>(nm, v). (nm, sort_key scatter_rank v)) (scatter_groups scatters) in
      if \<exists>nm \<in> set (hm (map fst m)). map_of m nm = Some [] \<or> map_of m nm = None then Panic
      else Ok (map (\<lambda>nm. last (the (map_of m nm))) (hm (map fst m))))"

section \<open>Integers and bodies round-trip\<close>

lemma length_le_bytes [simp]: "length (le_bytes k n) = k"
  by (induction k arbitrary: n) auto

lemma le_value_bytes: "le_value (le_bytes k n) = n mod 256 ^ k"
proof (induction k arbitrary: n)
  case (Suc k)
  have "le_value (le_bytes (Suc k) n) = n mod 256 + 256 * (n div 256 mod 256 ^ k)"
    using Suc by simp
  also have "\<dots> = n mod (256 * 256 ^ k)" by (simp add: mod_mult2_eq)
  finally show ?case by simp
qed simp

lemma length_to_le_bytes [simp]: "length (to_le_bytes_i64 z) = 8"
  by (simp add: to_le_bytes_i64_def)

lemma wrap_i64_mod: "wrap_i64 (z mod 2 ^ 64) = wrap_i64 z"
  by (simp add: wrap_i64_def)

lemma i64_le_roundtrip: "is_i64 z \<Longrightarrow> from_le_bytes_i64 (to_le_bytes_i64 z) = z"
proof -
  assume z: "is_i64 z"
  have "nat (z mod 2 ^ 64) < 2 ^ 64" by (simp add: nat_less_iff)
  then have "le_value (to_le_bytes_i64 z) = nat (z mod 2 ^ 64)"
    by (simp add: to_le_bytes_i64_def le_value_bytes)
  then show ?thesis using z wrap_i64_mod [of z]
    by (simp add: from_le_bytes_i64_def wrap_i64_id)
qed

lemma predelete_roundtrip:
  "is_i64 r \<Longrightarrow> parse_predelete_body (build_predelete_body d r) = (d, r)"
  by (simp add: parse_predelete_body_def build_predelete_body_def i64_le_roundtrip)

lemma tombstone_roundtrip:
  "is_i64 t \<Longrightarrow> is_i64 r \<Longrightarrow> parse_tombstone_body (build_tombstone_body t r raw) =
     Ok (\<lparr> deleted_at_unix_ms = t, retention_until_unix_ms = r \<rparr>, raw)"
  by (simp add: parse_tombstone_body_def build_tombstone_body_def tombstone_header_size_def i64_le_roundtrip)

lemma unix_now_ms_i64: "is_i64 (unix_now_ms c) \<and> 0 \<le> unix_now_ms c"
  by (simp add: unix_now_ms_def is_i64_def i64_min_def i64_max_def)

lemma line_append:
  assumes "CHR 0x0A \<notin> set p" and "CHR 0x0A \<notin> set s"
    and "p = [] \<or> last p \<noteq> CHR 0x0D" and "s = [] \<or> last s \<noteq> CHR 0x0D"
  shows "CHR 0x0A \<notin> set (p @ s) \<and> (p @ s = [] \<or> last (p @ s) \<noteq> CHR 0x0D)"
  using assms by (auto simp: last_append)

lemma lease_lines:
  assumes "is_i64 e"
  shows "parse_lease_lines [''holder='' @ holder, ''expires_at_unix_ms='' @ show_int e] None None =
    (Some holder, Some e)"
proof -
  define l1 l2 where l: "l1 = ''holder='' @ holder" "l2 = ''expires_at_unix_ms='' @ show_int e"
  have "strip_prefix ''holder='' l1 = Some holder" unfolding l by (rule strip_prefix_append)
  moreover have "strip_prefix ''holder='' l2 = None" by (simp add: strip_prefix_def l)
  moreover have "strip_prefix ''expires_at_unix_ms='' l2 = Some (show_int e)"
    unfolding l by (rule strip_prefix_append)
  ultimately have "parse_lease_lines [l1, l2] None None = (Some holder, Some e)"
    by (simp add: parse_i64_show_int [OF assms])
  then show ?thesis unfolding l .
qed

lemma lease_body_roundtrip:
  assumes "utf8_valid holder" and "CHR 0x0A \<notin> set holder" and "holder = [] \<or> last holder \<noteq> CHR 0x0D"
    and "is_i64 e"
  shows "parse_lease_body (format_lease_body holder e) = Ok (holder, e)"
proof -
  let ?l1 = "''holder='' @ holder" and ?l2 = "''expires_at_unix_ms='' @ show_int e"
  have eq: "format_lease_body holder e = concat (map (\<lambda>l. l @ [CHR 0x0A]) [?l1, ?l2])"
    by (simp add: format_lease_body_def)
  have nl: "CHR 0x0A \<notin> set (show_int e)" "CHR 0x0D \<notin> set (show_int e)"
    by (auto dest!: show_int_chars simp: is_digit_def)
  have "last (show_int e) \<in> set (show_int e)" by simp
  with nl(2) have "last (show_int e) \<noteq> CHR 0x0D" by metis
  then have "CHR 0x0A \<notin> set ?l2 \<and> (?l2 = [] \<or> last ?l2 \<noteq> CHR 0x0D)"
    using nl(1) by (intro line_append) simp_all
  moreover have "CHR 0x0A \<notin> set ?l1 \<and> (?l1 = [] \<or> last ?l1 \<noteq> CHR 0x0D)"
    using assms(2,3) by (intro line_append) simp_all
  ultimately have "\<forall>l \<in> set [?l1, ?l2]. CHR 0x0A \<notin> set l \<and> (l = [] \<or> last l \<noteq> CHR 0x0D)"
    unfolding list.set by blast
  then have lines: "str_lines (format_lease_body holder e) = [?l1, ?l2]"
    unfolding eq by (rule str_lines_concat)
  have "utf8_valid (format_lease_body holder e)"
    unfolding format_lease_body_def
    by (intro utf8_valid_append assms(1)) (simp_all add: ascii_utf8_valid, simp_all add: ascii_utf8_valid ascii_def)
  then have utf: "from_utf8 (format_lease_body holder e) = Some (format_lease_body holder e)"
    by (simp add: from_utf8_def)
  show ?thesis
    unfolding parse_lease_body_def utf option.case lines lease_lines [OF assms(4)] prod.case ..
qed

section \<open>Keys round-trip\<close>

lemma engines: "engine_ok encode_engine" "engines_match encode_engine decode_engine"
  by (simp_all add: engine_ok_def encode_engine_def decode_engine_def engines_match_def name_alphabet_def)

lemma from_u8_op_u8 [simp]: "from_u8 (op_u8 op) = op"
  by (cases op) (simp_all add: from_u8_def)

lemma op_u8_less: "op_u8 op < 256"
  by (cases op) simp_all

definition scatter_stem :: "ext \<Rightarrow> ulid \<Rightarrow> string \<Rightarrow> uuid \<Rightarrow> nat \<Rightarrow> string" where
  "scatter_stem x ul filename uuid op =
     encode_filename x filename @ CHR ''/'' # ulid_fmt x ul @ CHR ''_'' # uuid_fmt x uuid @ CHR ''_'' # show_nat op"

definition scatter_suffix :: "nat \<Rightarrow> string" where
  "scatter_suffix op = (if op = 4 then DEFAULT_DIR_TOMBSTONE_SUFFIX else DEFAULT_DIR_INODE_SUFFIX)"

lemma path_encode_Ok:
  "path_encode x ul dir filename uuid op = Ok k \<longleftrightarrow>
     \<not> ends_with dir ''/'' \<and>
     k = (dir @ ''/'') @ CHR ''!'' # ''/'' @ scatter_stem x ul filename uuid op @ scatter_suffix op"
  by (auto simp: path_encode_def scatter_stem_def scatter_suffix_def DEFAULT_DIR_INODE_SCATTER_FOLDER_def Let_def)

lemma strip_scatter_suffix:
  "(case strip_suffix DEFAULT_DIR_INODE_SUFFIX (stem @ scatter_suffix op) of
      Some s \<Rightarrow> Some s | None \<Rightarrow> strip_suffix DEFAULT_DIR_TOMBSTONE_SUFFIX (stem @ scatter_suffix op)) = Some stem"
proof (cases "op = 4")
  case True
  have "\<not> suffix DEFAULT_DIR_INODE_SUFFIX (stem @ DEFAULT_DIR_TOMBSTONE_SUFFIX)"
    by (auto simp: suffix_def DEFAULT_DIR_INODE_SUFFIX_def DEFAULT_DIR_TOMBSTONE_SUFFIX_def append_eq_append_conv2 append_eq_Cons_conv
        Cons_eq_append_conv)
  then have "strip_suffix DEFAULT_DIR_INODE_SUFFIX (stem @ DEFAULT_DIR_TOMBSTONE_SUFFIX) = None" by (simp add: strip_suffix_def)
  with True show ?thesis by (simp add: scatter_suffix_def)
qed (simp add: scatter_suffix_def)

lemma path_decode_steps:
  assumes "split_char (CHR ''!'') k = [a, c]" and "trim_start_matches (CHR ''/'') c = tr"
    and "(case strip_suffix DEFAULT_DIR_INODE_SUFFIX tr of
        Some s \<Rightarrow> Some s | None \<Rightarrow> strip_suffix DEFAULT_DIR_TOMBSTONE_SUFFIX tr) = Some stem"
    and "split_once (CHR ''/'') stem = Some (b64name, rest)"
    and "split_char (CHR ''_'') rest = [p0, p1, p2]"
    and "ulid_parse x p0 = Some ul" and "b64_decode x decode_engine b64name = Some fn"
    and "utf8_valid fn" and "uuid_parse x p1 = Some u" and "parse_unsigned 8 p2 = Some op"
  shows "path_decode x k t = Ok \<lparr> s_key = k, s_op = from_u8 op, s_ulid = ul, s_uuid = u,
      s_filename = fn, s_last_modified = t \<rparr>"
  using assms by (simp add: path_decode_def expect_def index_vec_def from_utf8_def)

context codecs
begin

lemma encode_filename_chars: "set (encode_filename x fn) \<subseteq> set name_alphabet"
  using b64_chars [OF engines(1), of fn] by (simp add: encode_filename_def encode_engine_def)

lemma encode_filename_no:
  "c \<in> {CHR ''/'', CHR ''!'', CHR ''_'', CHR ''.''} \<Longrightarrow> c \<notin> set (encode_filename x fn)"
proof -
  assume c: "c \<in> {CHR ''/'', CHR ''!'', CHR ''_'', CHR ''.''}"
  then have "c \<notin> set name_alphabet" by (auto simp: name_alphabet_def)
  then show ?thesis using encode_filename_chars by blast
qed

lemma encode_filename_inj: "encode_filename x a = encode_filename x b \<Longrightarrow> a = b"
  using b64_encode_inj [OF engines] by (simp add: encode_filename_def)

lemma scatter_stem_no_bang: "CHR ''!'' \<notin> set (scatter_stem x ul fn u op @ scatter_suffix op)"
  using encode_filename_no [of "CHR ''!''" fn] ulid_fmt_no [of "CHR ''!''" ul] uuid_fmt_no [of "CHR ''!''" u]
  by (auto simp: scatter_stem_def scatter_suffix_def DEFAULT_DIR_INODE_SUFFIX_def DEFAULT_DIR_TOMBSTONE_SUFFIX_def is_digit_def
      dest!: show_nat_chars split: if_splits)

lemma trim_stem:
  assumes "fn \<noteq> []"
  shows "trim_start_matches (CHR ''/'') (''/'' @ scatter_stem x ul fn u op @ s) = scatter_stem x ul fn u op @ s"
proof -
  have "encode_filename x fn \<noteq> []"
    using b64_encode_nonempty [OF engines assms] by (simp add: encode_filename_def)
  then obtain c cs where c: "encode_filename x fn = c # cs" by (auto simp: neq_Nil_conv)
  with encode_filename_no [of "CHR ''/''" fn] have "c \<noteq> CHR ''/''" by auto
  with c show ?thesis by (simp add: trim_start_matches_def scatter_stem_def)
qed

lemma path_roundtrip:
  assumes "CHR ''!'' \<notin> set dir" and "fn \<noteq> []" and "utf8_valid fn" and "op < 256"
    and "path_encode x ul dir fn u op = Ok k"
  shows "path_decode x k t = Ok \<lparr> s_key = k, s_op = from_u8 op, s_ulid = ul, s_uuid = u,
      s_filename = fn, s_last_modified = t \<rparr>"
proof -
  let ?stem = "scatter_stem x ul fn u op"
  let ?rest = "ulid_fmt x ul @ CHR ''_'' # uuid_fmt x u @ CHR ''_'' # show_nat op"
  have k: "k = (dir @ ''/'') @ CHR ''!'' # ''/'' @ ?stem @ scatter_suffix op"
    using assms(5) by (simp only: path_encode_Ok)
  have bang: "CHR ''!'' \<notin> set (dir @ ''/'')" "CHR ''!'' \<notin> set (''/'' @ ?stem @ scatter_suffix op)"
    using assms(1) scatter_stem_no_bang [of ul fn u op] by simp_all
  have comps: "split_char (CHR ''!'') k = [dir @ ''/'', ''/'' @ ?stem @ scatter_suffix op]"
    unfolding k split_char_sep [OF bang(1)] split_char_no [OF bang(2)] ..
  have once: "split_once (CHR ''/'') ?stem = Some (encode_filename x fn, ?rest)"
    unfolding scatter_stem_def by (rule split_once_sep) (rule encode_filename_no, simp)
  have dig: "CHR ''_'' \<notin> set (show_nat op)" by (auto dest!: show_nat_chars simp: is_digit_def)
  have parts: "split_char (CHR ''_'') ?rest = [ulid_fmt x ul, uuid_fmt x u, show_nat op]"
    using ulid_fmt_no [of "CHR ''_''" ul] uuid_fmt_no [of "CHR ''_''" u] dig
    by (simp add: split_char_sep split_char_no)
  have dec: "b64_decode x decode_engine (encode_filename x fn) = Some fn"
    using b64_inverse [OF engines] by (simp add: encode_filename_def)
  have num: "parse_unsigned 8 (show_nat op) = Some op" using assms(4) by (intro parse_unsigned_show_nat) simp
  note trim = trim_stem [OF assms(2), of ul u op "scatter_suffix op"]
  have "path_decode x k t = Ok \<lparr> s_key = k, s_op = from_u8 op, s_ulid = ul, s_uuid = u,
      s_filename = fn, s_last_modified = t \<rparr>"
    by (rule path_decode_steps [OF comps trim strip_scatter_suffix once parts])
      (rule ulid_inverse dec assms(3) uuid_inverse num)+
  then show ?thesis .
qed

end

lemma length_split_char: "length (split_char c s) = Suc (count_list s c)"
  by (induction s) (auto split: list.splits)

lemma path_decode_bang:
  assumes "CHR ''!'' \<in> set dir" and "path_encode x ul dir fn u op = Ok k"
  shows "path_decode x k t = Panic"
proof -
  have "count_list dir (CHR ''!'') \<noteq> 0" using assms(1) by (simp add: count_list_0_iff)
  then have "length (split_char (CHR ''!'') k) \<noteq> 2"
    using assms(2) by (simp add: path_encode_Ok length_split_char)
  then show ?thesis by (simp add: path_decode_def)
qed

section \<open>The latest view\<close>

definition is_latest :: "dir_scatter_inode list \<Rightarrow> dir_scatter_inode \<Rightarrow> bool" where
  "is_latest ss s = (s \<in> set ss \<and>
     (\<forall>s' \<in> set ss. s_filename s' = s_filename s \<longrightarrow> scatter_rank s' \<le> scatter_rank s))"

lemma group_insert_keys:
  "set (map fst (group_insert s m)) = insert (s_filename s) (set (map fst m))"
  "distinct (map fst m) \<Longrightarrow> distinct (map fst (group_insert s m))"
  by (induction s m rule: group_insert.induct) (auto split: if_splits)

lemma map_of_group_insert:
  "map_of (group_insert s m) nm =
     (if nm = s_filename s then Some ((case map_of m nm of Some v \<Rightarrow> v | None \<Rightarrow> []) @ [s]) else map_of m nm)"
  by (induction s m rule: group_insert.induct) auto

lemma scatter_groups_snoc: "scatter_groups (ss @ [s]) = group_insert s (scatter_groups ss)"
  by (simp add: scatter_groups_def)

lemma scatter_groups_distinct: "distinct (map fst (scatter_groups ss))"
  by (induction ss rule: rev_induct)
    (simp_all add: scatter_groups_snoc group_insert_keys, simp add: scatter_groups_def)

lemma scatter_groups_keys: "set (map fst (scatter_groups ss)) = s_filename ` set ss"
proof (induction ss rule: rev_induct)
  case (snoc s ss)
  then show ?case unfolding scatter_groups_snoc group_insert_keys by simp
qed (simp add: scatter_groups_def)

lemma scatter_groups_map:
  "map_of (scatter_groups ss) nm =
     (if nm \<in> s_filename ` set ss then Some (filter (\<lambda>s. s_filename s = nm) ss) else None)"
proof (induction ss rule: rev_induct)
  case (snoc s ss)
  have none: "filter (\<lambda>s. s_filename s = nm) ss = []" if "nm \<notin> s_filename ` set ss"
    using that by (auto simp: filter_empty_conv)
  show ?case
    unfolding scatter_groups_snoc map_of_group_insert snoc using none by auto
qed (simp add: scatter_groups_def)

lemma sort_key_last:
  fixes r :: "'a \<Rightarrow> 'b::linorder"
  assumes "v \<noteq> []"
  shows "last (sort_key r v) \<in> set v" "s \<in> set v \<Longrightarrow> r s \<le> r (last (sort_key r v))"
proof -
  have ne: "sort_key r v \<noteq> []" using assms by (metis length_0_conv length_sort)
  from last_in_set [OF this] show "last (sort_key r v) \<in> set v" by simp
  assume "s \<in> set v"
  then have "s \<in> set (sort_key r v)" by simp
  then obtain i where i: "i < length (sort_key r v)" "s = sort_key r v ! i" by (metis in_set_conv_nth)
  have "sorted (map r (sort_key r v))" by simp
  from sorted_nth_mono [OF this, of i "length (sort_key r v) - 1"] i ne
  show "r s \<le> r (last (sort_key r v))" by (simp add: last_conv_nth)
qed

definition latest_of :: "dir_scatter_inode list \<Rightarrow> string \<Rightarrow> dir_scatter_inode" where
  "latest_of ss nm = last (sort_key scatter_rank (filter (\<lambda>s. s_filename s = nm) ss))"

lemma latest_of_latest:
  assumes "nm \<in> s_filename ` set ss"
  shows "is_latest ss (latest_of ss nm)" "s_filename (latest_of ss nm) = nm"
proof -
  let ?v = "filter (\<lambda>s. s_filename s = nm) ss"
  have ne: "?v \<noteq> []" using assms by (auto simp: filter_empty_conv)
  from sort_key_last(1) [OF ne, where r = scatter_rank] show "s_filename (latest_of ss nm) = nm"
    by (simp add: latest_of_def)
  with sort_key_last [OF ne, where r = scatter_rank]
  show "is_latest ss (latest_of ss nm)" by (auto simp: is_latest_def latest_of_def)
qed

context hash_iteration
begin

lemma filter_last_view_eq:
  "filter_last_view hm ss = Ok (map (latest_of ss) (hm (map fst (scatter_groups ss))))"
proof -
  let ?g = "scatter_groups ss"
  let ?m = "map (\<lambda>(nm, v). (nm, sort_key scatter_rank v)) ?g"
  have fst_m: "map fst ?m = map fst ?g" by (simp add: comp_def case_prod_unfold)
  have m: "map_of ?m nm = map_option (sort_key scatter_rank) (map_of ?g nm)" for nm
    by (simp add: map_of_map)
  have hit: "map_of ?m nm = Some (sort_key scatter_rank (filter (\<lambda>s. s_filename s = nm) ss))"
    "filter (\<lambda>s. s_filename s = nm) ss \<noteq> []"
    if "nm \<in> set (hm (map fst ?g))" for nm
  proof -
    have nm: "nm \<in> s_filename ` set ss" using that scatter_groups_keys [of ss] by simp
    then show "map_of ?m nm = Some (sort_key scatter_rank (filter (\<lambda>s. s_filename s = nm) ss))"
      unfolding m scatter_groups_map by simp
    from nm show "filter (\<lambda>s. s_filename s = nm) ss \<noteq> []" by (auto simp: filter_empty_conv)
  qed
  have "\<not> (map_of ?m nm = Some [] \<or> map_of ?m nm = None)" if "nm \<in> set (hm (map fst ?g))" for nm
    using hit [OF that] by (metis length_0_conv length_sort option.distinct(1) option.inject)
  moreover have "map (\<lambda>nm. last (the (map_of ?m nm))) (hm (map fst ?g)) = map (latest_of ss) (hm (map fst ?g))"
    using hit by (simp add: latest_of_def)
  ultimately show ?thesis unfolding filter_last_view_def Let_def fst_m by simp
qed

lemma filter_last_view_spec:
  assumes "filter_last_view hm ss = Ok r"
  shows "distinct (map s_filename r)" "s_filename ` set r = s_filename ` set ss"
    "s \<in> set r \<Longrightarrow> is_latest ss s" "s \<in> set r \<Longrightarrow> s = latest_of ss (s_filename s)"
proof -
  have r: "r = map (latest_of ss) (hm (map fst (scatter_groups ss)))"
    using assms by (simp add: filter_last_view_eq)
  have keys: "set (hm (map fst (scatter_groups ss))) = s_filename ` set ss"
    using scatter_groups_keys [of ss] by simp
  have "map s_filename r = hm (map fst (scatter_groups ss))"
    unfolding r map_map using keys latest_of_latest(2) by (intro map_idI) simp
  with scatter_groups_distinct [of ss] keys
  show "distinct (map s_filename r)" "s_filename ` set r = s_filename ` set ss"
    by (simp_all flip: set_map)
  show "is_latest ss s" if "s \<in> set r" using that keys latest_of_latest(1) by (auto simp: r)
  show "s = latest_of ss (s_filename s)" if "s \<in> set r" using that keys latest_of_latest(2) by (auto simp: r)
qed

end

section \<open>Properties\<close>

text \<open>C30. A scatter key carries its event: for a directory prefix without an exclamation mark and a
  non-empty name, decoding the key that \<open>path_encode\<close> built gives back the key, the operation,
  the ULID, the child's UUID and the file name.\<close>

theorem scatter_key_roundtrip:
  assumes "codecs x" and "CHR ''!'' \<notin> set dir" and "fn \<noteq> []" and "utf8_valid fn"
    and "path_encode x ul dir fn u (op_u8 op) = Ok k"
  shows "path_decode x k t = Ok \<lparr> s_key = k, s_op = op, s_ulid = ul, s_uuid = u, s_filename = fn,
      s_last_modified = t \<rparr>"
  using codecs.path_roundtrip [OF assms(1-4) op_u8_less assms(5)] by simp

theorem scatter_key_roundtrip_witness:
  "\<exists>k. path_encode ref_ext 5 ''DIR/p'' ''a/b'' 9 (op_u8 Delete) = Ok k \<and>
     path_decode ref_ext k 77 = Ok \<lparr> s_key = k, s_op = Delete, s_ulid = 5, s_uuid = 9,
       s_filename = ''a/b'', s_last_modified = 77 \<rparr>"
proof -
  have "\<not> ends_with ''DIR/p'' ''/''" by (simp add: ends_with_def suffix_def)
  then obtain k where k: "path_encode ref_ext 5 ''DIR/p'' ''a/b'' 9 (op_u8 Delete) = Ok k"
    unfolding path_encode_Ok by blast
  have "utf8_valid ''a/b''" by (rule ascii_utf8_valid) (simp add: ascii_def)
  from scatter_key_roundtrip [OF refc.codecs_axioms _ _ this k] k show ?thesis by simp
qed

text \<open>C37. A directory prefix that contains an exclamation mark (a base may) makes every scatter key of the
  directory undecodable: \<open>path_decode\<close> panics on the key that \<open>path_encode\<close> built.\<close>

theorem scatter_key_bang_panics:
  assumes "CHR ''!'' \<in> set dir" and "path_encode x ul dir fn u op = Ok k"
  shows "path_decode x k t = Panic"
  using assms by (rule path_decode_bang)

theorem scatter_key_bang_panics_witness:
  "\<exists>k. path_encode ref_ext 5 ''fs!1/DIR/p'' ''a'' 9 1 = Ok k \<and> path_decode ref_ext k 0 = Panic"
proof -
  have "\<not> ends_with ''fs!1/DIR/p'' ''/''" by (simp add: ends_with_def suffix_def)
  then obtain k where k: "path_encode ref_ext 5 ''fs!1/DIR/p'' ''a'' 9 1 = Ok k"
    unfolding path_encode_Ok by blast
  from scatter_key_bang_panics [OF _ k] k show ?thesis by simp
qed

text \<open>C24. \<open>filter_last_view\<close> never panics and keeps exactly the latest scatter of every name, whatever the
  iteration order of the hash map: one element per name of the input, and every other scatter of
  that name has an older time, or the same time and a smaller ULID, or both equal and a smaller
  key.\<close>

theorem filter_last_view_correct:
  assumes "hash_iteration hm" and "distinct (map s_key ss)"
  shows "\<exists>r. filter_last_view hm ss = Ok r \<and> distinct (map s_filename r) \<and>
    s_filename ` set r = s_filename ` set ss \<and>
    (\<forall>s \<in> set r. s \<in> set ss \<and>
      (\<forall>s' \<in> set ss. s_filename s' = s_filename s \<longrightarrow> s' \<noteq> s \<longrightarrow> scatter_rank s' < scatter_rank s))"
proof -
  obtain r where r: "filter_last_view hm ss = Ok r"
    using hash_iteration.filter_last_view_eq [OF assms(1)] by blast
  note spec = hash_iteration.filter_last_view_spec [OF assms(1) r]
  have "s_key s' \<noteq> s_key s" if "s' \<in> set ss" "s \<in> set ss" "s' \<noteq> s" for s s'
    using assms(2) that by (auto simp: distinct_map dest: inj_onD)
  then have "scatter_rank s' < scatter_rank s"
    if "s \<in> set r" "s' \<in> set ss" "s_filename s' = s_filename s" "s' \<noteq> s" for s s'
    using spec(3) [OF that(1)] that(2-4) unfolding is_latest_def
    by (metis order_le_neq_trans scatter_rank_def prod.inject)
  with spec r show ?thesis by (intro exI [of _ r]) (auto simp: is_latest_def)
qed

theorem filter_last_view_correct_witness:
  "let s1 = \<lparr> s_key = ''k1'', s_op = Create, s_ulid = 1, s_uuid = 1, s_filename = ''a'', s_last_modified = 10 \<rparr>;
       s2 = \<lparr> s_key = ''k2'', s_op = Delete, s_ulid = 2, s_uuid = 1, s_filename = ''a'', s_last_modified = 10 \<rparr> in
   filter_last_view rev [s2, s1] = Ok [s2] \<and> scatter_rank s1 < scatter_rank s2"
proof -
  let ?s1 = "\<lparr> s_key = ''k1'', s_op = Create, s_ulid = 1, s_uuid = 1, s_filename = ''a'', s_last_modified = 10 \<rparr>"
  let ?s2 = "\<lparr> s_key = ''k2'', s_op = Delete, s_ulid = 2, s_uuid = 1, s_filename = ''a'', s_last_modified = 10 \<rparr>"
  have "filter_last_view rev [?s2, ?s1] = Ok [?s2]"
    by (simp add: filter_last_view_def scatter_groups_def scatter_rank_def)
  with filter_last_view_correct [OF hm_rev.hash_iteration_axioms, of "[?s2, ?s1]"] show ?thesis
    by (simp add: Let_def)
qed

text \<open>Tombstone and pre-delete bodies round-trip: the deletion time, the retention deadline, the
  directory flag and the inode image are read back as written, and a tombstone shorter than its
  header is an error.\<close>

theorem scatter_bodies_roundtrip:
  assumes "is_i64 t" and "is_i64 r"
  shows "parse_tombstone_body (build_tombstone_body t r raw) =
      Ok (\<lparr> deleted_at_unix_ms = t, retention_until_unix_ms = r \<rparr>, raw) \<and>
    parse_predelete_body (build_predelete_body d r) = (d, r) \<and>
    (length buf < 16 \<longrightarrow> parse_tombstone_body buf = Err InvalidData)"
  using assms
  by (simp add: tombstone_roundtrip predelete_roundtrip)
    (simp add: parse_tombstone_body_def tombstone_header_size_def)

theorem scatter_bodies_roundtrip_witness:
  "parse_tombstone_body (build_tombstone_body 1700 (- 5) ''inode'') =
     Ok (\<lparr> deleted_at_unix_ms = 1700, retention_until_unix_ms = - 5 \<rparr>, ''inode'')"
  using scatter_bodies_roundtrip [of 1700 "- 5" "''inode''"] by (simp add: is_i64_def i64_min_def i64_max_def)

text \<open>A lease body round-trips: the holder and the expiry that \<open>format_lease_body\<close> wrote are what
  \<open>parse_lease_body\<close> reads, negative and extreme times included.\<close>

theorem lease_body_correct:
  assumes "utf8_valid holder" and "CHR 0x0A \<notin> set holder" and "holder = [] \<or> last holder \<noteq> CHR 0x0D"
    and "is_i64 e"
  shows "parse_lease_body (format_lease_body holder e) = Ok (holder, e)"
  using assms by (rule lease_body_roundtrip)

theorem lease_body_correct_witness:
  "parse_lease_body (format_lease_body ''01H'' i64_min) = Ok (''01H'', i64_min)"
proof (rule lease_body_correct)
  show "utf8_valid ''01H''" by (rule ascii_utf8_valid) (simp add: ascii_def)
qed (simp_all add: is_i64_def i64_min_def i64_max_def)

end
