(* ===== verification/Layout.thy ===== *)
theory Layout
  imports Reference_Codecs
begin

text \<open>
  \<open>src/layout.rs\<close>: the S3 keys of directories, files and transaction objects. The lemmas show
  that the key spaces of one tree do not collide: keys name one object, and no directory prefix
  (with its \<open>/\<close>) is a prefix of another's.
\<close>

section \<open>Operations\<close>

definition ROOT_DIR_UUID :: uuid where "ROOT_DIR_UUID = 0"

definition DIR_NAMESPACE :: string where "DIR_NAMESPACE = ''DIR''"
definition FILE_NAMESPACE :: string where "FILE_NAMESPACE = ''FILE''"
definition TXN_NAMESPACE :: string where "TXN_NAMESPACE = ''_TXN''"

record hyper_dir_layout =
  base :: string

definition layout_new :: hyper_dir_layout where
  "layout_new = \<lparr> base = [] \<rparr>"

definition with_base :: "string \<Rightarrow> hyper_dir_layout" where
  "with_base s =
     (let b = trim_end_matches (CHR ''/'') s in \<lparr> base = (if b = [] then [] else b @ ''/'') \<rparr>)"

definition dir_key :: "ext \<Rightarrow> hyper_dir_layout \<Rightarrow> uuid \<Rightarrow> string" where
  "dir_key x l u = base l @ DIR_NAMESPACE @ ''/'' @ uuid_fmt x u"

definition file_key :: "ext \<Rightarrow> hyper_dir_layout \<Rightarrow> uuid \<Rightarrow> string" where
  "file_key x l u = base l @ FILE_NAMESPACE @ ''/'' @ uuid_fmt x u"

definition dir_uri :: "ext \<Rightarrow> hyper_dir_layout \<Rightarrow> string \<Rightarrow> uuid \<Rightarrow> string" where
  "dir_uri x l bucket u = ''s3://'' @ bucket @ ''/'' @ dir_key x l u"

definition file_uri :: "ext \<Rightarrow> hyper_dir_layout \<Rightarrow> string \<Rightarrow> uuid \<Rightarrow> string" where
  "file_uri x l bucket u = ''s3://'' @ bucket @ ''/'' @ file_key x l u"

definition root_dir_uri :: "ext \<Rightarrow> hyper_dir_layout \<Rightarrow> string \<Rightarrow> string" where
  "root_dir_uri x l bucket = dir_uri x l bucket ROOT_DIR_UUID"

definition txn_key :: "hyper_dir_layout \<Rightarrow> string \<Rightarrow> string" where
  "txn_key l txn_id = base l @ TXN_NAMESPACE @ ''/'' @ txn_id @ ''.intent''"

definition reclaim_key :: "hyper_dir_layout \<Rightarrow> string \<Rightarrow> string" where
  "reclaim_key l txn_id = base l @ TXN_NAMESPACE @ ''/'' @ txn_id @ ''.reclaim''"

definition txn_prefix :: "hyper_dir_layout \<Rightarrow> string" where
  "txn_prefix l = base l @ TXN_NAMESPACE @ ''/''"

definition layout_dir_prefix :: "hyper_dir_layout \<Rightarrow> string" where
  "layout_dir_prefix l = base l @ DIR_NAMESPACE @ ''/''"

definition layout_file_prefix :: "hyper_dir_layout \<Rightarrow> string" where
  "layout_file_prefix l = base l @ FILE_NAMESPACE @ ''/''"

section \<open>Lemmas\<close>

lemmas layout_defs = dir_key_def file_key_def txn_key_def reclaim_key_def txn_prefix_def
  layout_dir_prefix_def layout_file_prefix_def DIR_NAMESPACE_def FILE_NAMESPACE_def TXN_NAMESPACE_def

lemma base_normal: "base (with_base s) = [] \<or> (\<exists>b c. base (with_base s) = b @ [c, CHR ''/''] \<and> c \<noteq> CHR ''/'')"
proof (cases "trim_end_matches (CHR ''/'') s = []")
  case False
  from last_trim_end_matches [OF this] append_butlast_last_id [OF False] show ?thesis
    by (intro disjI2 exI [of _ "butlast (trim_end_matches (CHR ''/'') s)"]
        exI [of _ "last (trim_end_matches (CHR ''/'') s)"])
      (simp add: with_base_def Let_def False append_assoc [symmetric] del: append_assoc)
qed (simp add: with_base_def)

lemma with_base_idem: "with_base (base (with_base s)) = with_base s"
  using last_trim_end_matches [of "CHR ''/''" s]
  by (auto simp: with_base_def Let_def trim_end_matches_snoc trim_end_matches_last)
    (simp_all add: trim_end_matches_def)

lemma prefix_up_to_sep:
  assumes "prefix (a @ c # s) (b @ c # t)" and "c \<notin> set a" and "c \<notin> set b"
  shows "a = b"
proof -
  obtain r where "b @ c # t = a @ c # s @ r" using assms(1) by (auto elim: prefixE)
  then show ?thesis using takeWhile_stop [OF assms(2), of "s @ r"] takeWhile_stop [OF assms(3), of t]
    by simp
qed

text \<open>The prefix of one child of either kind.\<close>

definition child_key :: "ext \<Rightarrow> hyper_dir_layout \<Rightarrow> bool \<Rightarrow> uuid \<Rightarrow> string" where
  "child_key x l is_dir u = (if is_dir then dir_key x l u else file_key x l u)"

context codecs
begin

lemma child_key_prefix:
  assumes "prefix (child_key x l d u @ ''/'') k" and "prefix (child_key x l d' v @ ''/'') k"
  shows "d = d'" "u = v"
proof -
  let ?ns = "\<lambda>d. if d then ''DIR'' else ''FILE''"
  have key: "child_key x l d u @ ''/'' = base l @ ?ns d @ CHR ''/'' # uuid_fmt x u @ [CHR ''/'']" for d u
    by (simp add: child_key_def layout_defs)
  from assms have "prefix (child_key x l d u @ ''/'') (child_key x l d' v @ ''/'') \<or>
      prefix (child_key x l d' v @ ''/'') (child_key x l d u @ ''/'')"
    by (rule prefix_same_cases)
  then have pre: "prefix (?ns d @ CHR ''/'' # uuid_fmt x u @ [CHR ''/'']) (?ns d' @ CHR ''/'' # uuid_fmt x v @ [CHR ''/''])
      \<or> prefix (?ns d' @ CHR ''/'' # uuid_fmt x v @ [CHR ''/'']) (?ns d @ CHR ''/'' # uuid_fmt x u @ [CHR ''/''])"
    unfolding key by simp
  have no: "CHR ''/'' \<notin> set (uuid_fmt x u)" for u by (rule uuid_fmt_no) simp
  show "d = d'" using pre by (cases d; cases d') auto
  with pre have "prefix (uuid_fmt x u @ CHR ''/'' # []) (uuid_fmt x v @ CHR ''/'' # [])
      \<or> prefix (uuid_fmt x v @ CHR ''/'' # []) (uuid_fmt x u @ CHR ''/'' # [])"
    by simp
  then have "uuid_fmt x u = uuid_fmt x v"
    using prefix_up_to_sep [OF _ no no, of u "[]" v "[]"] prefix_up_to_sep [OF _ no no, of v "[]" u "[]"]
    by auto
  then show "u = v" by (rule uuid_fmt_inj)
qed

end

lemma child_key_not_txn:
  assumes "prefix (child_key x l d u) k" shows "\<not> prefix (txn_prefix l) k"
proof
  assume "prefix (txn_prefix l) k"
  with assms have "prefix (child_key x l d u) (txn_prefix l) \<or> prefix (txn_prefix l) (child_key x l d u)"
    by (rule prefix_same_cases)
  then show False by (cases d) (auto simp: child_key_def layout_defs)
qed

section \<open>Properties\<close>

text \<open>C40. The objects of different children never mix: a key under the prefix of a directory or file
  belongs to that one child only, and is not a transaction object.\<close>

theorem child_prefixes_disjoint:
  assumes "codecs x" and "prefix (child_key x l d u @ ''/'') k" and "prefix (child_key x l d' v @ ''/'') k"
  shows "d = d' \<and> u = v \<and> \<not> prefix (txn_prefix l) k"
proof -
  have "prefix (child_key x l d u) k" using assms(2) by (rule append_prefixD)
  then show ?thesis
    using codecs.child_key_prefix [OF assms(1-3)] child_key_not_txn by blast
qed

theorem child_prefixes_disjoint_witness:
  "\<not> prefix (txn_prefix (with_base ''fs1'')) (child_key ref_ext (with_base ''fs1'') True 7 @ ''/inode'')"
  using child_prefixes_disjoint [OF refc.codecs_axioms, of "with_base ''fs1''" True 7
      "child_key ref_ext (with_base ''fs1'') True 7 @ ''/inode''" True 7] by simp

text \<open>\<open>with_base\<close> normalises: trailing slashes do not matter, an empty base is the bucket root, and a
  non-empty base ends in exactly one slash.\<close>

theorem with_base_normal:
  "with_base (s @ ''/'') = with_base s \<and> with_base [] = layout_new \<and>
   (base (with_base s) = [] \<or> (\<exists>b c. base (with_base s) = b @ [c, CHR ''/''] \<and> c \<noteq> CHR ''/''))"
  using base_normal [of s] trim_end_matches_snoc [of "CHR ''/''" s "CHR ''/''"]
  by (simp add: with_base_def layout_new_def trim_end_matches_def)

end
