(* ===== verification/Object_Store.thy ===== *)
theory Object_Store
  imports Reference_Codecs Layout
begin

text \<open>
  The S3 client as a parameter: a record of calls over an abstract world \<open>'w\<close>. A call may fail,
  and other clients may act before it takes effect. The locale \<open>object_store\<close> states what the
  code relies on, in rely/guarantee style:

  \<^item> \<open>objs w\<close> is the bucket's contents; \<open>env w w'\<close> holds when only other clients changed it;
  \<^item> a read answers for the contents at its end; a conditional write takes effect at one instant,
    on contents that satisfy its condition;
  \<^item> a write refused with 412 or 409 had no effect; any other failed write may have had it;
  \<^item> equal ETags of one key mean equal bodies.

  \<open>object_store_quiet\<close> adds that no other client acts. The world \<open>mem_world\<close> at the end, a
  bucket in memory, satisfies both.
\<close>

section \<open>The client interface\<close>

record s3_error =
  err_status :: "nat option"
  err_no_such_key :: bool

datatype put_cond = PutAlways | IfNoneMatch | IfMatch string

record get_output =
  g_etag :: "string option"
  g_body :: "bytes option"

record list_object =
  lo_key :: "string option"
  lo_last_modified :: "int option"

record s3_object =
  ob_body :: bytes
  ob_etag :: string
  ob_mtime :: int

record 'w s3_api =
  get_object :: "string \<Rightarrow> 'w \<Rightarrow> (s3_error + get_output) \<times> 'w"
  put_object :: "string \<Rightarrow> bytes \<Rightarrow> put_cond \<Rightarrow> 'w \<Rightarrow> (s3_error + string option) \<times> 'w"
  delete_obj :: "string \<Rightarrow> string option \<Rightarrow> 'w \<Rightarrow> (s3_error + unit) \<times> 'w"
  delete_objs :: "string list \<Rightarrow> 'w \<Rightarrow> (s3_error + string list) \<times> 'w"
  list_objects :: "string \<Rightarrow> 'w \<Rightarrow> (s3_error + list_object list) list \<times> 'w"
  clock_ms :: "'w \<Rightarrow> int \<times> 'w"
  new_ulid :: "'w \<Rightarrow> ulid \<times> 'w"

text \<open>The code strips the quotes of an ETag before it keeps or sends it.\<close>

definition unquote :: "string \<Rightarrow> string" where
  "unquote s = filter (\<lambda>c. c \<noteq> CHR 0x22) s"

definition is_conflict :: "s3_error \<Rightarrow> bool" where
  "is_conflict e = (err_status e = Some 412 \<or> err_status e = Some 409)"

fun cond_ok :: "put_cond \<Rightarrow> s3_object option \<Rightarrow> bool" where
  "cond_ok PutAlways _ = True"
| "cond_ok IfNoneMatch r = (r = None)"
| "cond_ok (IfMatch t) r = (case r of Some ob \<Rightarrow> ob_etag ob = t | None \<Rightarrow> False)"

section \<open>Laws\<close>

locale object_store =
  fixes s3 :: "'w s3_api"
    and objs :: "'w \<Rightarrow> string \<Rightarrow> s3_object option"
    and env :: "'w \<Rightarrow> 'w \<Rightarrow> bool"
  assumes env_refl: "env w w"
    and env_trans: "env w w1 \<Longrightarrow> env w1 w2 \<Longrightarrow> env w w2"
    and get_Ok: "get_object s3 k w = (Inr out, w') \<Longrightarrow> env w w' \<and>
      (\<exists>ob. objs w' k = Some ob \<and> map_option unquote (g_etag out) = Some (ob_etag ob) \<and>
        (\<forall>b. g_body out = Some b \<longrightarrow> b = ob_body ob))"
    and get_Err: "get_object s3 k w = (Inl e, w') \<Longrightarrow> env w w' \<and>
      (err_no_such_key e \<longrightarrow> objs w' k = None)"
    and put_Ok: "put_object s3 k b c w = (Inr et, w') \<Longrightarrow>
      \<exists>w1 ob. env w w1 \<and> cond_ok c (objs w1 k) \<and> objs w' = (objs w1)(k \<mapsto> ob) \<and>
        ob_body ob = b \<and> map_option unquote et = Some (ob_etag ob)"
    and put_Err: "put_object s3 k b c w = (Inl e, w') \<Longrightarrow>
      env w w' \<or> (\<not> is_conflict e \<and> (\<exists>w1 ob. env w w1 \<and> cond_ok c (objs w1 k) \<and>
        objs w' = (objs w1)(k \<mapsto> ob) \<and> ob_body ob = b))"
    and delete_Ok: "delete_obj s3 k m w = (Inr u, w') \<Longrightarrow>
      \<exists>w1. env w w1 \<and> (\<forall>t ob. m = Some t \<longrightarrow> objs w1 k = Some ob \<longrightarrow> ob_etag ob = t) \<and>
        objs w' = (objs w1)(k := None)"
    and delete_Err: "delete_obj s3 k m w = (Inl e, w') \<Longrightarrow>
      env w w' \<or> (\<exists>w1. env w w1 \<and> (\<forall>t ob. m = Some t \<longrightarrow> objs w1 k = Some ob \<longrightarrow> ob_etag ob = t) \<and>
        objs w' = (objs w1)(k := None))"
    and delete_objs_Ok: "delete_objs s3 ks w = (Inr failed, w') \<Longrightarrow>
      \<exists>w1. env w w1 \<and> objs w' = (objs w1) |` (- (set ks - set failed)) \<and> set failed \<subseteq> set ks"
    and delete_objs_Err: "delete_objs s3 ks w = (Inl e, w') \<Longrightarrow>
      \<exists>w1 D. env w w1 \<and> D \<subseteq> set ks \<and> objs w' = (objs w1) |` (- D)"
    and list_env: "list_objects s3 p w = (pages, w') \<Longrightarrow> env w w'"
    and clock_env: "clock_ms s3 w = (now, w') \<Longrightarrow> env w w'"
    and ulid_env: "new_ulid s3 w = (l, w') \<Longrightarrow> env w w'"
    and etag_body: "objs w k = Some o1 \<Longrightarrow> objs v k = Some o2 \<Longrightarrow> ob_etag o1 = ob_etag o2 \<Longrightarrow>
      ob_body o1 = ob_body o2"

text \<open>
  Without other clients the contents change by this client's writes only, and a LIST whose pages
  all succeed shows exactly the keys under its prefix, once each, with their times.
\<close>

definition page_objects :: "(s3_error + list_object list) list \<Rightarrow> list_object list" where
  "page_objects pages = concat (map (\<lambda>p. case p of Inl _ \<Rightarrow> [] | Inr os \<Rightarrow> os) pages)"

definition pages_ok :: "(s3_error + list_object list) list \<Rightarrow> bool" where
  "pages_ok pages = list_all (\<lambda>p. case p of Inl _ \<Rightarrow> False | Inr _ \<Rightarrow> True) pages"

definition listed :: "(string \<Rightarrow> s3_object option) \<Rightarrow> string \<Rightarrow> list_object list \<Rightarrow> bool" where
  "listed m p os =
     (distinct (map lo_key os) \<and>
      set os = {\<lparr> lo_key = Some k, lo_last_modified = Some (ob_mtime ob) \<rparr> | k ob. m k = Some ob \<and> prefix p k})"

locale object_store_quiet = object_store +
  assumes env_quiet: "env w w' \<Longrightarrow> objs w' = objs w"
    and list_complete: "list_objects s3 p w = (pages, w') \<Longrightarrow> pages_ok pages \<Longrightarrow>
      listed (objs w) p (page_objects pages)"

text \<open>A store on which every call succeeds when its condition holds.\<close>

locale object_store_reliable = object_store_quiet +
  assumes get_hit: "objs w k = Some ob \<Longrightarrow>
      \<exists>out w'. get_object s3 k w = (Inr out, w') \<and> g_body out = Some (ob_body ob)"
    and get_miss: "objs w k = None \<Longrightarrow> \<exists>e w'. get_object s3 k w = (Inl e, w') \<and> err_no_such_key e"
    and put_hit: "cond_ok c (objs w k) \<Longrightarrow> \<exists>et w'. put_object s3 k b c w = (Inr et, w')"
    and put_miss: "\<not> cond_ok c (objs w k) \<Longrightarrow> \<exists>e w'. put_object s3 k b c w = (Inl e, w') \<and> is_conflict e"
    and delete_objs_hit: "\<exists>w'. delete_objs s3 ks w = (Inr [], w')"
    and list_hit: "\<exists>pages w'. list_objects s3 p w = (pages, w') \<and> pages_ok pages"

section \<open>A bucket in memory\<close>

text \<open>
  The contents are an association list; an ETag is the quoted hexadecimal image of the body. The
  clock stands still and ULIDs count up.
\<close>

record mem_world =
  mw_objs :: "(string \<times> bytes \<times> int) list"
  mw_now :: int
  mw_next :: nat

definition mem_etag :: "bytes \<Rightarrow> string" where
  "mem_etag b = enc_digits hex_alphabet (concat (map (\<lambda>c. digs 2 16 (of_char c)) b))"

definition mem_objs :: "'m mem_world_scheme \<Rightarrow> string \<Rightarrow> s3_object option" where
  "mem_objs w k =
     map_option (\<lambda>(b, t). \<lparr> ob_body = b, ob_etag = mem_etag b, ob_mtime = t \<rparr>) (map_of (mw_objs w) k)"

definition quoted :: "string \<Rightarrow> string" where
  "quoted s = CHR 0x22 # s @ [CHR 0x22]"

definition no_such_key :: s3_error where
  "no_such_key = \<lparr> err_status = Some 404, err_no_such_key = True \<rparr>"

definition precondition_failed :: s3_error where
  "precondition_failed = \<lparr> err_status = Some 412, err_no_such_key = False \<rparr>"

definition mem_get :: "string \<Rightarrow> 'm mem_world_scheme \<Rightarrow> (s3_error + get_output) \<times> 'm mem_world_scheme" where
  "mem_get k w =
     (case map_of (mw_objs w) k of
        None \<Rightarrow> (Inl no_such_key, w)
      | Some (b, t) \<Rightarrow> (Inr \<lparr> g_etag = Some (quoted (mem_etag b)), g_body = Some b \<rparr>, w))"

definition mem_put :: "string \<Rightarrow> bytes \<Rightarrow> put_cond \<Rightarrow> 'm mem_world_scheme \<Rightarrow> (s3_error + string option) \<times> 'm mem_world_scheme" where
  "mem_put k b c w =
     (if cond_ok c (mem_objs w k)
      then (Inr (Some (quoted (mem_etag b))), w\<lparr>mw_objs := AList.update k (b, mw_now w) (mw_objs w)\<rparr>)
      else (Inl precondition_failed, w))"

definition mem_delete :: "string \<Rightarrow> string option \<Rightarrow> 'm mem_world_scheme \<Rightarrow> (s3_error + unit) \<times> 'm mem_world_scheme" where
  "mem_delete k m w =
     (case (m, mem_objs w k) of
        (Some t, Some ob) \<Rightarrow>
          if ob_etag ob = t then (Inr (), w\<lparr>mw_objs := AList.delete k (mw_objs w)\<rparr>)
          else (Inl precondition_failed, w)
      | _ \<Rightarrow> (Inr (), w\<lparr>mw_objs := AList.delete k (mw_objs w)\<rparr>))"

definition mem_delete_objs :: "string list \<Rightarrow> 'm mem_world_scheme \<Rightarrow> (s3_error + string list) \<times> 'm mem_world_scheme" where
  "mem_delete_objs ks w = (Inr [], w\<lparr>mw_objs := filter (\<lambda>(k, _). k \<notin> set ks) (mw_objs w)\<rparr>)"

definition mem_list :: "string \<Rightarrow> 'm mem_world_scheme \<Rightarrow> (s3_error + list_object list) list \<times> 'm mem_world_scheme" where
  "mem_list p w =
     ([Inr (map (\<lambda>k. \<lparr> lo_key = Some k, lo_last_modified = Some (snd (the (map_of (mw_objs w) k))) \<rparr>)
         (remdups (filter (prefix p) (map fst (mw_objs w)))))], w)"

definition mem_s3 :: "'m mem_world_scheme s3_api" where
  "mem_s3 = \<lparr> get_object = mem_get, put_object = mem_put, delete_obj = mem_delete,
     delete_objs = mem_delete_objs, list_objects = mem_list,
     clock_ms = (\<lambda>w. (mw_now w, w)),
     new_ulid = (\<lambda>w. (of_nat (mw_next w), w\<lparr>mw_next := Suc (mw_next w)\<rparr>)) \<rparr>"

definition mem_env :: "'m mem_world_scheme \<Rightarrow> 'm mem_world_scheme \<Rightarrow> bool" where
  "mem_env w w' = (mem_objs w' = mem_objs w \<and> mem_world.more w' = mem_world.more w)"

lemma mem_s3_sel [simp]:
  "get_object mem_s3 = mem_get" "put_object mem_s3 = mem_put" "delete_obj mem_s3 = mem_delete"
  "delete_objs mem_s3 = mem_delete_objs" "list_objects mem_s3 = mem_list"
  "clock_ms mem_s3 = (\<lambda>w. (mw_now w, w))"
  "new_ulid mem_s3 = (\<lambda>w. (of_nat (mw_next w), w\<lparr>mw_next := Suc (mw_next w)\<rparr>))"
  by (simp_all add: mem_s3_def)

lemma mem_objs_cong [simp]: "mem_objs (w\<lparr>mw_next := n\<rparr>) = mem_objs w"
  by (rule ext) (simp add: mem_objs_def)

lemma hex_no_quote: "unquote (mem_etag b) = mem_etag b"
proof -
  have "set (mem_etag b) \<subseteq> set hex_alphabet"
    unfolding mem_etag_def by (rule set_enc_digits) (auto simp: hex_ok dest: digs_less [rotated])
  moreover have "CHR 0x22 \<notin> set hex_alphabet" by (simp add: hex_alphabet_def)
  ultimately have "CHR 0x22 \<notin> set (mem_etag b)" by blast
  then show ?thesis by (induction "mem_etag b") (auto simp: unquote_def filter_id_conv)
qed

lemma unquote_quoted [simp]: "unquote (quoted (mem_etag b)) = mem_etag b"
  using hex_no_quote [of b] by (simp add: unquote_def quoted_def)

lemma enc_digits_inj:
  assumes "distinct al" "\<And>d. d \<in> set xs \<Longrightarrow> d < length al" "\<And>d. d \<in> set ys \<Longrightarrow> d < length al"
    "enc_digits al xs = enc_digits al ys"
  shows "xs = ys"
proof -
  have "dec_digits al (enc_digits al xs) = Some xs"
    by (rule dec_enc_digits) (rule assms(1), rule assms(2))
  moreover have "dec_digits al (enc_digits al ys) = Some ys"
    by (rule dec_enc_digits) (rule assms(1), rule assms(3))
  ultimately show ?thesis using assms(4) by (metis option.inject)
qed

lemma hex_pairs_inj:
  assumes "concat (map (\<lambda>c. digs 2 16 (of_char c)) a) = concat (map (\<lambda>c. digs 2 16 (of_char c)) b)"
  shows "a = (b :: bytes)"
proof -
  let ?f = "\<lambda>c :: char. digs 2 16 (of_char c)"
  have len: "length (concat (map ?f xs)) = 2 * length xs" for xs by (induction xs) auto
  have "length a = length b" using len [of a] len [of b] assms by simp
  moreover have "length u = length v" if "(u, v) \<in> set (zip (map ?f a) (map ?f b))" for u v
    using set_zip_leftD [OF that] set_zip_rightD [OF that] by auto
  ultimately have "map ?f a = map ?f b"
    using assms by (intro concat_injective) auto
  moreover have "inj ?f"
  proof (rule injI)
    fix c d assume "?f c = ?f d"
    then have "dval 16 (?f c) = dval 16 (?f d)" by (rule arg_cong)
    moreover have "dval 16 (?f e) = of_char e" for e by (rule dval_digs) simp
    ultimately show "c = d" by simp
  qed
  ultimately show ?thesis by (simp add: inj_map_eq_map)
qed

lemma map_of_filter_keys:
  "map_of (filter (\<lambda>(k, _). k \<notin> S) xs) k = (if k \<in> S then None else map_of xs k)"
  by (induction xs) auto

lemma mem_etag_inj: "mem_etag a = mem_etag b \<Longrightarrow> a = b"
  unfolding mem_etag_def
  by (rule hex_pairs_inj, rule enc_digits_inj [OF hex_ok(1)])
    (auto simp: hex_ok dest: digs_less [rotated])

lemma mem_listed:
  "set (map (\<lambda>k. \<lparr> lo_key = Some k, lo_last_modified = Some (snd (the (map_of (mw_objs w) k))) \<rparr>)
      (remdups (filter (prefix p) (map fst (mw_objs w))))) =
   {\<lparr> lo_key = Some k, lo_last_modified = Some (ob_mtime ob) \<rparr> | k ob. mem_objs w k = Some ob \<and> prefix p k}"
  (is "?L = ?R")
proof -
  have dom: "k \<in> fst ` set (mw_objs w) \<longleftrightarrow> (\<exists>v. map_of (mw_objs w) k = Some v)" for k
    using map_of_dom [of "mw_objs w" k] by simp
  have "?L = (\<lambda>k. \<lparr> lo_key = Some k, lo_last_modified = Some (snd (the (map_of (mw_objs w) k))) \<rparr>) `
      {k. (\<exists>v. map_of (mw_objs w) k = Some v) \<and> prefix p k}"
    by (auto simp: dom)
  also have "\<dots> = ?R"
  proof (intro set_eqI iffI)
    fix y assume "y \<in> ?R"
    then obtain k ob where "y = \<lparr> lo_key = Some k, lo_last_modified = Some (ob_mtime ob) \<rparr>"
      "mem_objs w k = Some ob" "prefix p k" by blast
    then show "y \<in> (\<lambda>k. \<lparr> lo_key = Some k, lo_last_modified = Some (snd (the (map_of (mw_objs w) k))) \<rparr>) `
        {k. (\<exists>v. map_of (mw_objs w) k = Some v) \<and> prefix p k}"
      by (intro image_eqI [of _ _ k]) (auto simp: mem_objs_def)
  qed (auto simp: mem_objs_def)
  finally show ?thesis .
qed

interpretation mem_store: object_store_quiet mem_s3 mem_objs mem_env
proof (unfold_locales, goal_cases)
  case (3 k w out w')
  then show ?case by (auto simp: mem_env_def mem_get_def mem_objs_def split: option.splits prod.splits)
next
  case (4 k w e w')
  then show ?case by (auto simp: mem_env_def mem_get_def mem_objs_def split: option.splits prod.splits)
next
  case (5 k b c w et w')
  then show ?case
    by (intro exI [of _ w] exI [of _ "\<lparr> ob_body = b, ob_etag = mem_etag b, ob_mtime = mw_now w \<rparr>"])
      (auto simp: mem_env_def mem_put_def mem_objs_def fun_eq_iff update_conv' split: if_splits)
next
  case (6 k b c w e w')
  then show ?case by (auto simp: mem_env_def mem_put_def split: if_splits)
next
  case (7 k m w u w')
  then show ?case
    by (intro exI [of _ w])
      (auto simp: mem_env_def mem_delete_def mem_objs_def fun_eq_iff delete_conv' split: option.splits if_splits prod.splits)
next
  case (8 k m w e w')
  then show ?case by (auto simp: mem_env_def mem_delete_def split: option.splits if_splits)
next
  case (9 ks w failed w')
  then show ?case
    by (intro exI [of _ w])
      (auto simp: mem_env_def mem_delete_objs_def mem_objs_def fun_eq_iff restrict_map_def map_of_filter_keys)
next
  case (10 ks w e w')
  then show ?case by (simp add: mem_delete_objs_def)
next
  case (14 w k o1 v o2)
  then show ?case by (auto simp: mem_objs_def dest: mem_etag_inj)
next
  case (16 p w pages w')
  have eq: "page_objects pages = map (\<lambda>k. \<lparr> lo_key = Some k,
      lo_last_modified = Some (snd (the (map_of (mw_objs w) k))) \<rparr>)
      (remdups (filter (prefix p) (map fst (mw_objs w))))"
    using 16 by (auto simp: mem_list_def page_objects_def)
  have "distinct (map lo_key (page_objects pages))" unfolding eq by (simp add: comp_def distinct_map)
  moreover have "set (page_objects pages) =
      {\<lparr> lo_key = Some k, lo_last_modified = Some (ob_mtime ob) \<rparr> | k ob. mem_objs w k = Some ob \<and> prefix p k}"
    unfolding eq by (rule mem_listed)
  ultimately show ?case by (simp add: listed_def)
qed (auto simp: mem_env_def mem_list_def)

interpretation mem_rel: object_store_reliable mem_s3 mem_objs mem_env
proof (unfold_locales, goal_cases)
  case (1 w k ob)
  then show ?case by (auto simp: mem_get_def mem_objs_def)
next
  case (2 w k)
  then show ?case by (auto simp: mem_get_def mem_objs_def no_such_key_def)
next
  case (3 c w k b)
  then show ?case by (auto simp: mem_put_def)
next
  case (4 c w k b)
  then show ?case by (auto simp: mem_put_def precondition_failed_def is_conflict_def)
next
  case (5 ks w)
  then show ?case by (simp add: mem_delete_objs_def)
next
  case (6 p w)
  then show ?case by (simp add: mem_list_def pages_ok_def)
qed

end
