(* ===== verification/Lock_Table.thy ===== *)
theory Lock_Table
  imports Hyperdir_Prelude
begin

text \<open>
  The byte-range lock engine of \<open>src/lock.rs\<close> (\<open>LockTable\<close> and its text encoding). A table is
  the vector of its entries; ranges are inclusive and at their 64-bit width; \<open>i64\<close> times are
  integers with the range written out where it matters.

  \<open>table_ok\<close> is the invariant: ranges are not empty, \<open>Unlock\<close> is never stored, and any two
  entries are compatible (the same owner's ranges are disjoint, different owners overlap only
  where both read). \<open>lock_view\<close> is the abstract state, the lock an owner has on one byte; the
  operations refine pointwise updates of it.
\<close>

section \<open>Data\<close>

datatype lock_kind = Read | Write | Unlock

record conflict =
  c_start :: u64
  c_end :: u64
  c_kind :: lock_kind
  c_pid :: u32

datatype set_lk_outcome = Granted | ConflictWith conflict

record lock_entry =
  l_owner :: string
  l_kind :: lock_kind
  l_start :: u64
  l_end :: u64
  l_pid :: u32
  l_expire_ms :: int

type_synonym lock_table = "lock_entry list"

fun as_char :: "lock_kind \<Rightarrow> char" where
  "as_char Read = CHR ''R''"
| "as_char Write = CHR ''W''"
| "as_char Unlock = CHR ''U''"

definition from_char :: "char \<Rightarrow> lock_kind option" where
  "from_char c = (if c = CHR ''R'' then Some Read else if c = CHR ''W'' then Some Write else None)"

section \<open>Operations\<close>

definition overlaps :: "u64 \<Rightarrow> u64 \<Rightarrow> u64 \<Rightarrow> u64 \<Rightarrow> bool" where
  "overlaps a_start a_end b_start b_end = (a_start \<le> b_end \<and> b_start \<le> a_end)"

definition purge_expired :: "int \<Rightarrow> lock_table \<Rightarrow> lock_table" where
  "purge_expired now_ms t = filter (\<lambda>e. l_expire_ms e > now_ms) t"

fun lock_test :: "lock_table \<Rightarrow> string \<Rightarrow> lock_kind \<Rightarrow> u64 \<Rightarrow> u64 \<Rightarrow> int \<Rightarrow> conflict option" where
  "lock_test [] owner kind start end' now_ms = None"
| "lock_test (e # es) owner kind start end' now_ms =
     (if l_expire_ms e \<le> now_ms \<or> l_owner e = owner then lock_test es owner kind start end' now_ms
      else if overlaps start end' (l_start e) (l_end e) \<and> (kind = Write \<or> l_kind e = Write)
      then Some \<lparr> c_start = l_start e, c_end = l_end e, c_kind = l_kind e, c_pid = l_pid e \<rparr>
      else lock_test es owner kind start end' now_ms)"

definition range_pieces :: "string \<Rightarrow> u64 \<Rightarrow> u64 \<Rightarrow> lock_entry \<Rightarrow> lock_entry list" where
  "range_pieces owner start end' e =
     (if l_owner e \<noteq> owner \<or> \<not> overlaps start end' (l_start e) (l_end e) then [e]
      else (if l_start e < start then [e\<lparr>l_end := start - 1\<rparr>] else []) @
           (if l_end e > end' then [e\<lparr>l_start := end' + 1\<rparr>] else []))"

definition remove_range :: "string \<Rightarrow> u64 \<Rightarrow> u64 \<Rightarrow> lock_table \<Rightarrow> lock_table" where
  "remove_range owner start end' t = concat (map (range_pieces owner start end') t)"

text \<open>The \<open>&mut self\<close> receiver is returned with the result, changed on every branch.\<close>

definition lock_set ::
  "string \<Rightarrow> lock_kind \<Rightarrow> u64 \<Rightarrow> u64 \<Rightarrow> u32 \<Rightarrow> int \<Rightarrow> int \<Rightarrow> lock_table \<Rightarrow> (conflict + unit) \<times> lock_table" where
  "lock_set owner kind start end' pid expire_ms now_ms t =
     (let t1 = purge_expired now_ms t in
      if kind = Unlock then (Inr (), remove_range owner start end' t1)
      else case lock_test t1 owner kind start end' now_ms of
        Some c \<Rightarrow> (Inl c, t1)
      | None \<Rightarrow>
          (Inr (), remove_range owner start end' t1 @
             [\<lparr> l_owner = owner, l_kind = kind, l_start = start, l_end = end', l_pid = pid,
                l_expire_ms = expire_ms \<rparr>]))"

definition release_owner :: "string \<Rightarrow> lock_table \<Rightarrow> bool \<times> lock_table" where
  "release_owner owner t =
     (let t' = filter (\<lambda>e. l_owner e \<noteq> owner) t in (length t' \<noteq> length t, t'))"

definition renew_entry :: "string \<Rightarrow> int \<Rightarrow> lock_entry \<Rightarrow> lock_entry" where
  "renew_entry owner expire_ms e = (if l_owner e = owner then e\<lparr>l_expire_ms := expire_ms\<rparr> else e)"

definition renew :: "string \<Rightarrow> int \<Rightarrow> lock_table \<Rightarrow> bool \<times> lock_table" where
  "renew owner expire_ms t =
     (list_ex (\<lambda>e. l_owner e = owner) t,
      map (renew_entry owner expire_ms) t)"

section \<open>The table's text form\<close>

definition tab_char :: char where "tab_char = CHR 0x09"
definition nl_char :: char where "nl_char = CHR 0x0A"

definition encode_entry :: "lock_entry \<Rightarrow> string" where
  "encode_entry e =
     l_owner e @ tab_char # as_char (l_kind e) # tab_char # show_nat (unat (l_start e)) @
     tab_char # show_nat (unat (l_end e)) @ tab_char # show_nat (unat (l_pid e)) @
     tab_char # show_int (l_expire_ms e)"

definition lock_encode :: "lock_table \<Rightarrow> bytes" where
  "lock_encode t = ''v1'' @ nl_char # concat (map (\<lambda>e. encode_entry e @ [nl_char]) t)"

definition decode_line :: "string \<Rightarrow> lock_entry option" where
  "decode_line line =
     (case split_char tab_char line of
        [f0, f1, f2, f3, f4, f5] \<Rightarrow>
          (case (case f1 of [] \<Rightarrow> None | c # _ \<Rightarrow> from_char c,
                 parse_unsigned 64 f2, parse_unsigned 64 f3, parse_unsigned 32 f4, parse_i64 f5) of
             (Some kind, Some start, Some end', Some pid, Some expire_ms) \<Rightarrow>
               Some \<lparr> l_owner = f0, l_kind = kind, l_start = of_nat start, l_end = of_nat end',
                      l_pid = of_nat pid, l_expire_ms = expire_ms \<rparr>
           | _ \<Rightarrow> None)
      | _ \<Rightarrow> None)"

definition lock_decode :: "bytes \<Rightarrow> lock_table" where
  "lock_decode buf =
     (case from_utf8 buf of
        None \<Rightarrow> []
      | Some s \<Rightarrow> List.map_filter decode_line (drop 1 (str_lines s)))"

section \<open>Abstract state\<close>

definition covers :: "lock_entry \<Rightarrow> u64 \<Rightarrow> bool" where
  "covers e p = (l_start e \<le> p \<and> p \<le> l_end e)"

definition held_as :: "lock_entry \<Rightarrow> lock_kind \<times> u32 \<times> int" where
  "held_as e = (l_kind e, l_pid e, l_expire_ms e)"

definition lock_view :: "lock_table \<Rightarrow> string \<Rightarrow> u64 \<Rightarrow> (lock_kind \<times> u32 \<times> int) option" where
  "lock_view t owner p = map_option held_as (find (\<lambda>e. l_owner e = owner \<and> covers e p) t)"

definition entry_ok :: "lock_entry \<Rightarrow> bool" where
  "entry_ok e = (l_start e \<le> l_end e \<and> l_kind e \<noteq> Unlock)"

definition compatible :: "lock_entry \<Rightarrow> lock_entry \<Rightarrow> bool" where
  "compatible a b =
     (\<not> overlaps (l_start a) (l_end a) (l_start b) (l_end b) \<or>
      l_owner a \<noteq> l_owner b \<and> l_kind a = Read \<and> l_kind b = Read)"

definition table_ok :: "lock_table \<Rightarrow> bool" where
  "table_ok t = (list_all entry_ok t \<and> sorted_wrt compatible t)"

text \<open>The states one \<open>_lock\<close> object can go through, with any clock readings.\<close>

inductive lock_reach :: "lock_table \<Rightarrow> bool" where
  reach_empty: "lock_reach []"
| reach_set: "lock_reach t \<Longrightarrow> start \<le> end' \<Longrightarrow>
    lock_reach (snd (lock_set owner kind start end' pid expire_ms now_ms t))"
| reach_release: "lock_reach t \<Longrightarrow> lock_reach (snd (release_owner owner t))"
| reach_renew: "lock_reach t \<Longrightarrow> lock_reach (snd (renew owner expire_ms t))"

section \<open>Ranges\<close>

lemma overlaps_iff:
  assumes "a \<le> b" and "c \<le> d"
  shows "overlaps a b c d \<longleftrightarrow> (\<exists>p. a \<le> p \<and> p \<le> b \<and> c \<le> p \<and> p \<le> d)"
proof
  assume "overlaps a b c d"
  then show "\<exists>p. a \<le> p \<and> p \<le> b \<and> c \<le> p \<and> p \<le> d"
    using assms by (intro exI [of _ "max a c"]) (auto simp: overlaps_def)
qed (auto simp: overlaps_def)

lemma word_pred_less: "(k :: u64) < s \<Longrightarrow> p \<le> s - 1 \<longleftrightarrow> p < s"
proof -
  assume "k < s"
  then have "0 < unat s" unfolding word_less_nat_alt by simp
  then have "unat (s - 1) = unat s - 1" by (metis One_nat_def unat_minus_one unat_0 less_irrefl)
  with \<open>0 < unat s\<close> show ?thesis unfolding word_less_nat_alt word_le_nat_alt by linarith
qed

lemma word_succ_greater: "(k :: u64) > s \<Longrightarrow> s + 1 \<le> p \<longleftrightarrow> s < p"
proof -
  assume "k > s"
  then have "s \<noteq> - 1" by (metis word_le_minus_one not_less)
  then show ?thesis by (simp add: word_less_succ flip: not_less)
qed

lemma word_pred_below: "(k :: u64) < s \<Longrightarrow> s - 1 < s"
  using word_pred_less [of k s "s - 1"] by simp

lemma word_succ_above: "(k :: u64) > s \<Longrightarrow> s < s + 1"
  using word_succ_greater [of s k "s + 1"] by simp

lemma range_pieces_covers:
  assumes "start \<le> end'"
  shows "(\<exists>e' \<in> set (range_pieces owner start end' e). l_owner e' = o' \<and> covers e' p) \<longleftrightarrow>
      l_owner e = o' \<and> covers e p \<and> \<not> (o' = owner \<and> start \<le> p \<and> p \<le> end')"
  using assms
  by (cases "l_start e < start"; cases "l_end e > end'")
    (auto simp: range_pieces_def covers_def overlaps_def word_pred_less word_succ_greater)

lemma range_pieces_sub:
  assumes "e' \<in> set (range_pieces owner start end' e)"
  shows "l_owner e' = l_owner e" "l_kind e' = l_kind e" "held_as e' = held_as e"
    "l_start e \<le> l_start e'" "l_end e' \<le> l_end e"
    "l_start e \<le> l_end e \<Longrightarrow> l_start e' \<le> l_end e'"
    "start \<le> end' \<Longrightarrow> l_owner e = owner \<Longrightarrow> \<not> overlaps start end' (l_start e') (l_end e')"
  using assms word_pred_below [of "l_start e" start] word_succ_above [of end' "l_end e"]
  by (auto simp: range_pieces_def held_as_def overlaps_def word_pred_less word_succ_greater
      split: if_splits intro: less_imp_le)

section \<open>The abstract view\<close>

lemma lock_view_Nil [simp]: "lock_view [] owner p = None"
  by (simp add: lock_view_def)

lemma lock_view_Cons:
  "lock_view (e # es) owner p =
     (if l_owner e = owner \<and> covers e p then Some (held_as e) else lock_view es owner p)"
  by (simp add: lock_view_def)

lemma lock_view_append:
  "lock_view (xs @ ys) owner p =
     (case lock_view xs owner p of Some v \<Rightarrow> Some v | None \<Rightarrow> lock_view ys owner p)"
  by (induction xs) (auto simp: lock_view_Cons)

lemma lock_view_None: "lock_view t owner p = None \<longleftrightarrow> (\<forall>e \<in> set t. \<not> (l_owner e = owner \<and> covers e p))"
  by (induction t) (auto simp: lock_view_Cons)

lemma lock_view_same:
  assumes "\<forall>e \<in> set t. held_as e = v" and "\<exists>e \<in> set t. l_owner e = owner \<and> covers e p"
  shows "lock_view t owner p = Some v"
  using assms by (induction t) (auto simp: lock_view_Cons)

lemma lock_view_pieces:
  assumes "start \<le> end'"
  shows "lock_view (range_pieces owner start end' e) o' p =
     (if l_owner e = o' \<and> covers e p \<and> \<not> (o' = owner \<and> start \<le> p \<and> p \<le> end')
      then Some (held_as e) else None)"
proof (cases "\<exists>e' \<in> set (range_pieces owner start end' e). l_owner e' = o' \<and> covers e' p")
  case True
  then have "lock_view (range_pieces owner start end' e) o' p = Some (held_as e)"
    by (intro lock_view_same) (auto dest: range_pieces_sub(3))
  with True show ?thesis unfolding range_pieces_covers [OF assms] by simp
next
  case False
  then have "lock_view (range_pieces owner start end' e) o' p = None"
    unfolding lock_view_None by blast
  with False show ?thesis unfolding range_pieces_covers [OF assms] by simp
qed

lemma lock_view_remove_range:
  assumes "start \<le> end'"
  shows "lock_view (remove_range owner start end' t) o' p =
     (if o' = owner \<and> start \<le> p \<and> p \<le> end' then None else lock_view t o' p)"
  by (induction t)
    (auto simp: remove_range_def lock_view_append lock_view_pieces [OF assms] lock_view_Cons)

definition unexpired :: "int \<Rightarrow> (lock_kind \<times> u32 \<times> int) option \<Rightarrow> (lock_kind \<times> u32 \<times> int) option" where
  "unexpired now v = (case v of Some (k, pid, ex) \<Rightarrow> if ex > now then v else None | None \<Rightarrow> None)"

text \<open>An owner's ranges are disjoint, so a byte's entry is unique and purging acts pointwise.\<close>

lemma lock_view_purge:
  assumes "table_ok t"
  shows "lock_view (purge_expired now t) o' p = unexpired now (lock_view t o' p)"
  using assms
proof (induction t)
  case Nil
  then show ?case by (simp add: purge_expired_def unexpired_def)
next
  case (Cons e t)
  have IH: "lock_view (purge_expired now t) o' p = unexpired now (lock_view t o' p)"
    using Cons by (simp add: table_ok_def)
  show ?case
  proof (cases "l_owner e = o' \<and> covers e p")
    case True
    have "lock_view t o' p = None"
      unfolding lock_view_None using Cons.prems True
      by (fastforce simp: table_ok_def compatible_def covers_def overlaps_def)
    with True IH show ?thesis
      by (auto simp: purge_expired_def lock_view_Cons unexpired_def held_as_def)
  next
    case False
    with IH show ?thesis by (auto simp: purge_expired_def lock_view_Cons)
  qed
qed

section \<open>The invariant\<close>

lemma table_ok_Nil [simp]: "table_ok []"
  by (simp add: table_ok_def)

lemma table_ok_append:
  "table_ok (xs @ ys) \<longleftrightarrow> table_ok xs \<and> table_ok ys \<and> (\<forall>a \<in> set xs. \<forall>b \<in> set ys. compatible a b)"
  by (auto simp: table_ok_def sorted_wrt_append)

lemma table_ok_filter: "table_ok t \<Longrightarrow> table_ok (filter P t)"
  by (auto simp: table_ok_def list_all_iff sorted_wrt_filter)

lemma compatible_sub:
  assumes "compatible a b" "l_owner a' = l_owner a" "l_kind a' = l_kind a"
    "l_start a \<le> l_start a'" "l_end a' \<le> l_end a"
    "l_owner b' = l_owner b" "l_kind b' = l_kind b" "l_start b \<le> l_start b'" "l_end b' \<le> l_end b"
  shows "compatible a' b'"
  using assms unfolding compatible_def overlaps_def by (metis order_trans)

lemma table_ok_pieces:
  assumes "entry_ok e" and "start \<le> end'"
  shows "table_ok (range_pieces owner start end' e)"
  using assms word_pred_below [of "l_start e" start] word_succ_above [of end' "l_end e"]
  by (auto simp: table_ok_def range_pieces_def entry_ok_def compatible_def overlaps_def
      word_pred_less word_succ_greater)

lemma table_ok_remove_range:
  assumes "table_ok t" and "start \<le> end'"
  shows "table_ok (remove_range owner start end' t)"
  using assms(1)
proof (induction t)
  case Nil
  then show ?case by (simp add: remove_range_def)
next
  case (Cons e t)
  have "compatible a b" if "a \<in> set (range_pieces owner start end' e)"
    "b \<in> set (remove_range owner start end' t)" for a b
  proof -
    from that(2) obtain f where f: "f \<in> set t" "b \<in> set (range_pieces owner start end' f)"
      by (auto simp: remove_range_def)
    with Cons.prems have "compatible e f" by (simp add: table_ok_def)
    then show ?thesis
      by (rule compatible_sub) (use range_pieces_sub [OF that(1)] range_pieces_sub [OF f(2)] in simp_all)
  qed
  moreover have "table_ok (range_pieces owner start end' e)"
    using Cons.prems assms(2) by (intro table_ok_pieces) (simp_all add: table_ok_def)
  ultimately show ?case using Cons by (auto simp: remove_range_def table_ok_append) (simp add: table_ok_def)
qed

lemma lock_test_None:
  "lock_test t owner kind start end' now = None \<longleftrightarrow>
     (\<forall>e \<in> set t. l_expire_ms e > now \<longrightarrow> l_owner e \<noteq> owner \<longrightarrow>
        overlaps start end' (l_start e) (l_end e) \<longrightarrow> kind \<noteq> Write \<and> l_kind e \<noteq> Write)"
  by (induction t) auto

lemma remove_range_owner:
  assumes "a \<in> set (remove_range owner start end' t)" and "start \<le> end'"
  obtains f where "f \<in> set t" "l_owner a = l_owner f" "l_kind a = l_kind f"
    "l_start f \<le> l_start a" "l_end a \<le> l_end f"
    "l_owner f \<noteq> owner \<or> \<not> overlaps start end' (l_start a) (l_end a)"
proof -
  from assms(1) obtain f where f: "f \<in> set t" "a \<in> set (range_pieces owner start end' f)"
    by (auto simp: remove_range_def)
  with range_pieces_sub [OF f(2)] assms(2) that [of f] show thesis by simp
qed

lemma table_ok_set:
  assumes "table_ok t" and "start \<le> end'"
  shows "table_ok (snd (lock_set owner kind start end' pid expire_ms now_ms t))"
proof -
  define t1 where "t1 = purge_expired now_ms t"
  have t1: "table_ok t1" using assms(1) by (simp add: t1_def purge_expired_def table_ok_filter)
  have fresh: "l_expire_ms e > now_ms" if "e \<in> set t1" for e
    using that by (simp add: t1_def purge_expired_def)
  note rem = table_ok_remove_range [OF t1 assms(2), of owner]
  show ?thesis
  proof (cases "kind \<noteq> Unlock \<and> lock_test t1 owner kind start end' now_ms = None")
    case True
    let ?new = "\<lparr> l_owner = owner, l_kind = kind, l_start = start, l_end = end', l_pid = pid,
                l_expire_ms = expire_ms \<rparr>"
    have "compatible a ?new" if a: "a \<in> set (remove_range owner start end' t1)" for a
    proof -
      from a assms(2) obtain f where f: "f \<in> set t1" "l_owner a = l_owner f" "l_kind a = l_kind f"
        "l_start f \<le> l_start a" "l_end a \<le> l_end f"
        "l_owner f \<noteq> owner \<or> \<not> overlaps start end' (l_start a) (l_end a)"
        by (rule remove_range_owner)
      have "l_kind f \<noteq> Unlock" using t1 f(1) by (simp add: table_ok_def list_all_iff entry_ok_def)
      then have "l_kind f = Read" "kind = Read"
        if "l_owner f \<noteq> owner" "overlaps start end' (l_start f) (l_end f)"
        using True that f(1) fresh [OF f(1)] unfolding lock_test_None
        by (metis lock_kind.exhaust)+
      with f show ?thesis unfolding compatible_def overlaps_def
        by (auto intro: order_trans)
    qed
    with True rem assms(2) show ?thesis
      by (auto simp: lock_set_def Let_def t1_def [symmetric] table_ok_append)
        (simp add: table_ok_def entry_ok_def)
  next
    case False
    with rem t1 show ?thesis
      by (auto simp: lock_set_def Let_def t1_def [symmetric])
  qed
qed

lemma renew_entry_sel [simp]:
  "l_owner (renew_entry owner ex e) = l_owner e" "l_kind (renew_entry owner ex e) = l_kind e"
  "l_start (renew_entry owner ex e) = l_start e" "l_end (renew_entry owner ex e) = l_end e"
  "l_pid (renew_entry owner ex e) = l_pid e"
  by (simp_all add: renew_entry_def)

lemma compatible_renew [simp]:
  "compatible (renew_entry owner ex a) (renew_entry owner ex b) = compatible a b"
  by (simp add: compatible_def)

lemma table_ok_renew: "table_ok t \<Longrightarrow> table_ok (snd (renew owner expire_ms t))"
  by (simp add: table_ok_def renew_def list_all_iff entry_ok_def sorted_wrt_map)

lemma lock_reach_ok: "lock_reach t \<Longrightarrow> table_ok t"
  by (induction rule: lock_reach.induct)
    (simp_all add: table_ok_set table_ok_renew table_ok_filter release_owner_def Let_def)

section \<open>The operations on the view\<close>

lemma lock_view_filter_owner:
  "lock_view (filter (\<lambda>e. l_owner e \<noteq> owner) t) o' p = (if o' = owner then None else lock_view t o' p)"
  by (induction t) (auto simp: lock_view_Cons)

lemma lock_view_renew:
  "lock_view (map (renew_entry owner ex) t) o' p =
     (if o' = owner then map_option (\<lambda>(k, pid, _). (k, pid, ex)) (lock_view t o' p)
      else lock_view t o' p)"
  by (induction t) (auto simp: lock_view_Cons held_as_def renew_entry_def covers_def)

lemma lock_view_Some: "lock_view t o' p = Some v \<Longrightarrow> \<exists>e \<in> set t. l_owner e = o' \<and> covers e p \<and> held_as e = v"
  by (induction t) (auto simp: lock_view_Cons split: if_splits)

lemma lock_view_hit:
  assumes "table_ok t" and "e \<in> set t" and "covers e p"
  shows "lock_view t (l_owner e) p = Some (held_as e)"
  using assms
proof (induction t)
  case (Cons a t)
  show ?case
  proof (cases "l_owner a = l_owner e \<and> covers a p")
    case True
    then have "\<not> compatible a e" using Cons.prems(3)
      by (auto simp: compatible_def covers_def overlaps_def)
    with Cons.prems True have "a = e" by (auto simp: table_ok_def)
    with True show ?thesis by (simp add: lock_view_Cons)
  next
    case False
    with Cons.prems have "e \<in> set t" by auto
    with Cons False show ?thesis by (auto simp: lock_view_Cons table_ok_def)
  qed
qed simp

lemma table_ok_exclusive:
  assumes "table_ok t" and "lock_view t o1 p = Some (k1, pid1, ex1)"
    and "lock_view t o2 p = Some (k2, pid2, ex2)" and "o1 \<noteq> o2"
  shows "k1 = Read \<and> k2 = Read"
proof -
  from lock_view_Some [OF assms(2)] obtain a where a: "a \<in> set t" "l_owner a = o1" "covers a p"
    "l_kind a = k1" by (auto simp: held_as_def)
  from lock_view_Some [OF assms(3)] obtain b where b: "b \<in> set t" "l_owner b = o2" "covers b p"
    "l_kind b = k2" by (auto simp: held_as_def)
  have "a \<noteq> b" using a b assms(4) by auto
  with a(1) b(1) have "compatible a b \<or> compatible b a"
    using assms(1) unfolding table_ok_def
    by (induction t) auto
  with a b assms(4) show ?thesis by (auto simp: compatible_def covers_def overlaps_def)
qed

text \<open>
  A byte of another owner's unexpired lock that the request would violate.
\<close>

definition blocks :: "lock_table \<Rightarrow> string \<Rightarrow> lock_kind \<Rightarrow> u64 \<Rightarrow> u64 \<Rightarrow> int \<Rightarrow> bool" where
  "blocks t owner kind start end' now =
     (\<exists>o' p k pid ex. o' \<noteq> owner \<and> start \<le> p \<and> p \<le> end' \<and> lock_view t o' p = Some (k, pid, ex) \<and>
        now < ex \<and> (kind = Write \<or> k = Write))"

lemma lock_test_blocks:
  assumes ok: "table_ok t" and "start \<le> end'"
  shows "lock_test t owner kind start end' now \<noteq> None \<longleftrightarrow> blocks t owner kind start end' now"
proof
  assume "lock_test t owner kind start end' now \<noteq> None"
  then obtain e where e: "e \<in> set t" "l_expire_ms e > now" "l_owner e \<noteq> owner"
    "overlaps start end' (l_start e) (l_end e)" "kind = Write \<or> l_kind e = Write"
    unfolding lock_test_None by blast
  have "l_start e \<le> l_end e" using ok e(1) by (simp add: table_ok_def list_all_iff entry_ok_def)
  with e(4) assms(2) obtain p where p: "start \<le> p" "p \<le> end'" "covers e p"
    by (auto simp: overlaps_iff covers_def)
  show "blocks t owner kind start end' now"
    unfolding blocks_def using lock_view_hit [OF ok e(1) p(3)] e p
    by (intro exI [of _ "l_owner e"] exI [of _ p]) (simp add: held_as_def)
next
  assume "blocks t owner kind start end' now"
  then obtain o' p k pid ex where b: "o' \<noteq> owner" "start \<le> p" "p \<le> end'"
    "lock_view t o' p = Some (k, pid, ex)" "now < ex" "kind = Write \<or> k = Write"
    unfolding blocks_def by blast
  from lock_view_Some [OF b(4)] obtain e where "e \<in> set t" "l_owner e = o'" "covers e p"
    "held_as e = (k, pid, ex)" by blast
  with b show "lock_test t owner kind start end' now \<noteq> None"
    unfolding lock_test_None by (auto simp: held_as_def covers_def overlaps_def intro: order_trans)
qed

lemma lock_test_purge: "lock_test (purge_expired now t) owner kind start end' now = lock_test t owner kind start end' now"
  by (induction t) (auto simp: purge_expired_def)

lemma lock_set_cases:
  assumes "table_ok t" and "start \<le> end'"
  shows "fst (lock_set owner kind start end' pid ex now t) = Inr () \<longleftrightarrow>
      kind = Unlock \<or> \<not> blocks t owner kind start end' now"
proof -
  have "lock_test t owner kind start end' now = None \<longleftrightarrow> \<not> blocks t owner kind start end' now"
    using lock_test_blocks [OF assms] by blast
  then show ?thesis
    by (cases "lock_test t owner kind start end' now") (simp_all add: lock_set_def Let_def lock_test_purge)
qed

lemma lock_set_view:
  assumes ok: "table_ok t" and le: "start \<le> end'"
    and granted: "fst (lock_set owner kind start end' pid ex now t) = Inr ()"
  shows "lock_view (snd (lock_set owner kind start end' pid ex now t)) o' p =
     (if o' = owner \<and> start \<le> p \<and> p \<le> end'
      then (if kind = Unlock then None else Some (kind, pid, ex))
      else unexpired now (lock_view t o' p))"
  using granted
  by (auto simp: lock_set_def Let_def lock_view_append lock_view_remove_range [OF le]
      lock_view_purge [OF ok] lock_view_Cons covers_def held_as_def
      split: if_splits option.splits)

lemma lock_set_conflict:
  assumes "fst (lock_set owner kind start end' pid ex now t) = Inl c"
  shows "\<exists>e \<in> set t. l_owner e \<noteq> owner \<and> now < l_expire_ms e \<and> overlaps start end' (l_start e) (l_end e)
      \<and> (kind = Write \<or> l_kind e = Write)
      \<and> c = \<lparr> c_start = l_start e, c_end = l_end e, c_kind = l_kind e, c_pid = l_pid e \<rparr>"
proof -
  have "lock_test t owner kind start end' now = Some c" using assms
    by (auto simp: lock_set_def Let_def lock_test_purge split: if_splits option.splits)
  then show ?thesis by (induction t) (auto split: if_splits)
qed

section \<open>The text form round-trips\<close>

definition encodable :: "lock_entry \<Rightarrow> bool" where
  "encodable e = (utf8_valid (l_owner e) \<and> tab_char \<notin> set (l_owner e) \<and> nl_char \<notin> set (l_owner e)
     \<and> l_kind e \<noteq> Unlock \<and> is_i64 (l_expire_ms e))"

lemma from_char_as_char: "k \<noteq> Unlock \<Longrightarrow> from_char (as_char k) = Some k"
  by (cases k) (simp_all add: from_char_def)

lemma as_char_not: "as_char k \<noteq> CHR 0x09" "as_char k \<noteq> CHR 0x0A" "(of_char (as_char k) :: nat) < 0x80"
  by (cases k; simp)+

lemma show_no_tab [simp]: "CHR 0x09 \<notin> set (show_nat n)" "CHR 0x09 \<notin> set (show_int z)"
  "CHR 0x0A \<notin> set (show_nat n)" "CHR 0x0A \<notin> set (show_int z)" "CHR 0x0D \<notin> set (show_int z)"
  by (auto dest!: show_nat_chars show_int_chars simp: is_digit_def)

lemma parse_unsigned_unat: "parse_unsigned LENGTH('a) (show_nat (unat (w :: 'a::len word))) = Some (unat w)"
  by (intro parse_unsigned_show_nat unsigned_less)

lemma split_encode_entry:
  assumes "encodable e"
  shows "split_char tab_char (encode_entry e) =
     [l_owner e, [as_char (l_kind e)], show_nat (unat (l_start e)), show_nat (unat (l_end e)),
      show_nat (unat (l_pid e)), show_int (l_expire_ms e)]"
  using assms as_char_not [of "l_kind e"]
  by (simp add: encode_entry_def encodable_def tab_char_def split_char_sep split_char_no)

lemma decode_encode_entry:
  assumes "encodable e"
  shows "decode_line (encode_entry e) = Some e"
  using assms parse_unsigned_unat [of "l_start e"] parse_unsigned_unat [of "l_end e"]
    parse_unsigned_unat [of "l_pid e"]
  by (simp add: decode_line_def split_encode_entry from_char_as_char parse_i64_show_int encodable_def)

lemma encode_entry_line:
  assumes "encodable e"
  shows "CHR 0x0A \<notin> set (encode_entry e)" "last (encode_entry e) \<noteq> CHR 0x0D"
proof -
  show "CHR 0x0A \<notin> set (encode_entry e)"
    using assms as_char_not [of "l_kind e"] by (simp add: encode_entry_def encodable_def tab_char_def nl_char_def)
  have "last (encode_entry e) = last (show_int (l_expire_ms e))" by (simp add: encode_entry_def)
  moreover have "last (show_int (l_expire_ms e)) \<in> set (show_int (l_expire_ms e))" by simp
  ultimately show "last (encode_entry e) \<noteq> CHR 0x0D" using show_no_tab(5) by metis
qed

lemma utf8_valid_ascii_mid: "utf8_valid a \<Longrightarrow> ascii b \<Longrightarrow> utf8_valid (a @ b)"
  by (simp add: utf8_valid_append ascii_utf8_valid)

lemma ascii_append [simp]: "ascii (a @ b) \<longleftrightarrow> ascii a \<and> ascii b"
  by (simp add: ascii_def)

lemma ascii_Cons [simp]: "ascii (c # b) \<longleftrightarrow> (of_char c :: nat) < 0x80 \<and> ascii b"
  by (simp add: ascii_def)

lemma encode_entry_utf8: "encodable e \<Longrightarrow> utf8_valid (encode_entry e @ [nl_char])"
  unfolding encode_entry_def append_assoc
  by (rule utf8_valid_ascii_mid) (simp_all add: encodable_def tab_char_def nl_char_def as_char_not,
      simp add: ascii_def)

lemma utf8_valid_concat: "(\<And>x. x \<in> set xs \<Longrightarrow> utf8_valid (f x)) \<Longrightarrow> utf8_valid (concat (map f xs))"
  by (induction xs) (simp_all add: utf8_valid_append)

lemma lock_encode_utf8: "list_all encodable t \<Longrightarrow> utf8_valid (lock_encode t)"
  using utf8_valid_concat [of t "\<lambda>e. encode_entry e @ [nl_char]"] encode_entry_utf8
  by (simp add: lock_encode_def utf8_valid_ascii_Cons nl_char_def list_all_iff)

lemma lock_decode_encode:
  assumes "list_all encodable t"
  shows "lock_decode (lock_encode t) = t"
proof -
  have "str_lines (lock_encode t) = ''v1'' # map encode_entry t"
  proof -
    have enc: "lock_encode t = concat (map (\<lambda>l. l @ [CHR 0x0A]) (''v1'' # map encode_entry t))"
      by (simp add: lock_encode_def nl_char_def comp_def)
    show ?thesis unfolding enc
    proof (rule str_lines_concat, rule ballI)
      fix l
      assume "l \<in> set (''v1'' # map encode_entry t)"
      then consider "l = ''v1''" | e where "e \<in> set t" "l = encode_entry e" by auto
      then show "CHR 0x0A \<notin> set l \<and> (l = [] \<or> last l \<noteq> CHR 0x0D)"
      proof cases
        case (2 e)
        with assms have "encodable e" by (simp add: list_all_iff)
        with encode_entry_line [OF this] 2 show ?thesis by simp
      qed simp
    qed
  qed
  moreover have "List.map_filter decode_line (map encode_entry t) = t"
    using assms by (induction t) (simp_all add: List.map_filter_simps decode_encode_entry)
  ultimately show ?thesis
    using lock_encode_utf8 [OF assms] by (simp add: lock_decode_def from_utf8_def)
qed

section \<open>Properties\<close>

text \<open>C27. Mutual exclusion: whatever sequence of lock, unlock, release and renew calls produced a
  table, two different owners never have a lock on the same byte unless both locks are read
  locks.\<close>

theorem lock_mutual_exclusion:
  assumes "lock_reach t" and "lock_view t o1 p = Some (k1, pid1, ex1)"
    and "lock_view t o2 p = Some (k2, pid2, ex2)" and "o1 \<noteq> o2"
  shows "k1 = Read \<and> k2 = Read"
  using table_ok_exclusive [OF lock_reach_ok [OF assms(1)] assms(2-4)] .

theorem lock_mutual_exclusion_witness:
  "let t = snd (lock_set ''b'' Read 5 9 2 100 0 (snd (lock_set ''a'' Read 0 7 1 100 0 []))) in
     lock_view t ''a'' 6 = Some (Read, 1, 100) \<and> lock_view t ''b'' 6 = Some (Read, 2, 100) \<and>
     Read = Read \<and> Read = Read"
proof -
  let ?t1 = "snd (lock_set ''a'' Read 0 7 1 100 0 [])"
  let ?t = "snd (lock_set ''b'' Read 5 9 2 100 0 ?t1)"
  have r: "lock_reach ?t" by (intro reach_set reach_empty) simp_all
  have v: "lock_view ?t ''a'' 6 = Some (Read, 1, 100)" "lock_view ?t ''b'' 6 = Some (Read, 2, 100)"
    by (simp_all add: lock_set_def Let_def purge_expired_def remove_range_def range_pieces_def
        lock_view_def covers_def held_as_def)
  from lock_mutual_exclusion [OF r v] v show ?thesis unfolding Let_def by simp
qed

text \<open>C29. \<open>LockTable::set\<close> implements the pointwise specification: on a well-formed table it keeps the
  table well-formed, it is refused exactly when another owner's unexpired incompatible lock
  covers a byte of the range, and when it is granted the owner's bytes in range carry the new
  lock (none after an unlock) while every other byte of every owner keeps its unexpired lock.\<close>

theorem lock_set_refines:
  assumes "table_ok t" and "start \<le> end'"
    and "lock_set owner kind start end' pid ex now t = (r, t')"
  shows "table_ok t' \<and>
    (r = Inr () \<longleftrightarrow> kind = Unlock \<or> \<not> blocks t owner kind start end' now) \<and>
    (r = Inr () \<longrightarrow> (\<forall>o' p. lock_view t' o' p =
       (if o' = owner \<and> start \<le> p \<and> p \<le> end'
        then (if kind = Unlock then None else Some (kind, pid, ex))
        else unexpired now (lock_view t o' p))))"
  using table_ok_set [OF assms(1,2), of owner kind pid ex now]
    lock_set_cases [OF assms(1,2), of owner kind pid ex now]
    lock_set_view [OF assms(1,2), of owner kind pid ex now] assms(3) by simp

theorem lock_set_refines_witness:
  "table_ok [] \<and> lock_view (snd (lock_set ''a'' Write 3 8 1 100 0 [])) ''a'' 4 = Some (Write, 1, 100)"
  using lock_set_refines [of "[]" 3 8 "''a''" Write 1 100 0 "Inr ()"
      "snd (lock_set ''a'' Write 3 8 1 100 0 [])"]
  by (simp add: lock_set_def purge_expired_def remove_range_def blocks_def)

text \<open>A refused \<open>LockTable::set\<close> reports a real conflict: the returned record describes an unexpired
  entry of another owner that overlaps the range and is incompatible with the request; a
  request that \<open>test\<close> accepts is granted.\<close>

theorem lock_set_conflict_real:
  assumes "lock_set owner kind start end' pid ex now t = (r, t')"
  shows "(\<forall>c. r = Inl c \<longrightarrow>
      (\<exists>e \<in> set t. l_owner e \<noteq> owner \<and> now < l_expire_ms e \<and> overlaps start end' (l_start e) (l_end e)
        \<and> (kind = Write \<or> l_kind e = Write)
        \<and> c = \<lparr> c_start = l_start e, c_end = l_end e, c_kind = l_kind e, c_pid = l_pid e \<rparr>)) \<and>
    (lock_test t owner kind start end' now = None \<longrightarrow> r = Inr ())"
  using lock_set_conflict [of owner kind start end' pid ex now t] assms
  by (auto simp: lock_set_def Let_def lock_test_purge split: if_splits)

theorem lock_set_conflict_real_witness:
  "fst (lock_set ''b'' Read 0 9 2 100 5
      [\<lparr> l_owner = ''a'', l_kind = Write, l_start = 4, l_end = 4, l_pid = 1, l_expire_ms = 6 \<rparr>]) =
    Inl \<lparr> c_start = 4, c_end = 4, c_kind = Write, c_pid = 1 \<rparr> \<and>
   fst (lock_set ''b'' Read 0 3 2 100 5
      [\<lparr> l_owner = ''a'', l_kind = Write, l_start = 4, l_end = 4, l_pid = 1, l_expire_ms = 6 \<rparr>]) = Inr ()"
proof -
  let ?t = "[\<lparr> l_owner = ''a'', l_kind = Write, l_start = 4, l_end = 4, l_pid = 1, l_expire_ms = 6 \<rparr>]"
  have "fst (lock_set ''b'' Read 0 3 2 100 5 ?t) = Inr ()"
    using lock_set_conflict_real [of "''b''" Read 0 3 2 100 5 ?t _ _, OF prod.collapse [symmetric]]
    by (simp add: overlaps_def)
  then show ?thesis by (simp add: lock_set_def Let_def purge_expired_def overlaps_def)
qed

text \<open>Releasing an owner removes exactly its locks and reports whether there were any; renewing moves
  exactly its locks' expiry and reports whether there were any; both keep the invariant.\<close>

theorem lock_release_renew:
  assumes "table_ok t"
  shows "table_ok (snd (release_owner owner t)) \<and> table_ok (snd (renew owner ex t)) \<and>
    (fst (release_owner owner t) \<longleftrightarrow> (\<exists>p. lock_view t owner p \<noteq> None)) \<and>
    (fst (renew owner ex t) \<longleftrightarrow> (\<exists>p. lock_view t owner p \<noteq> None)) \<and>
    lock_view (snd (release_owner owner t)) = (lock_view t)(owner := Map.empty) \<and>
    lock_view (snd (renew owner ex t)) =
      (lock_view t)(owner := (\<lambda>p. map_option (\<lambda>(k, pid, _). (k, pid, ex)) (lock_view t owner p)))"
proof (intro conjI)
  have "(\<exists>p. lock_view t owner p \<noteq> None) \<longleftrightarrow> (\<exists>e \<in> set t. l_owner e = owner)"
  proof
    assume "\<exists>e \<in> set t. l_owner e = owner"
    then obtain e where e: "e \<in> set t" "l_owner e = owner" by blast
    then have "covers e (l_start e)" using assms
      by (simp add: table_ok_def list_all_iff entry_ok_def covers_def)
    from lock_view_hit [OF assms e(1) this] e(2) show "\<exists>p. lock_view t owner p \<noteq> None"
      by (intro exI [of _ "l_start e"]) simp
  qed (auto dest: lock_view_Some)
  moreover have "length (filter (\<lambda>e. l_owner e \<noteq> owner) t) \<noteq> length t \<longleftrightarrow> (\<exists>e \<in> set t. l_owner e = owner)"
    by (metis (mono_tags, lifting) filter_True length_filter_less less_irrefl)
  ultimately show "fst (release_owner owner t) \<longleftrightarrow> (\<exists>p. lock_view t owner p \<noteq> None)"
    "fst (renew owner ex t) \<longleftrightarrow> (\<exists>p. lock_view t owner p \<noteq> None)"
    by (simp_all add: release_owner_def renew_def Let_def list_ex_iff)
  show "table_ok (snd (release_owner owner t))" "table_ok (snd (renew owner ex t))"
    using assms by (simp_all add: table_ok_renew table_ok_filter release_owner_def Let_def)
  show "lock_view (snd (release_owner owner t)) = (lock_view t)(owner := Map.empty)"
    by (rule ext, rule ext) (simp add: release_owner_def Let_def lock_view_filter_owner)
  show "lock_view (snd (renew owner ex t)) =
      (lock_view t)(owner := (\<lambda>p. map_option (\<lambda>(k, pid, _). (k, pid, ex)) (lock_view t owner p)))"
    by (rule ext, rule ext) (simp add: renew_def lock_view_renew)
qed

theorem lock_release_renew_witness:
  "lock_view (snd (release_owner ''a''
      [\<lparr> l_owner = ''a'', l_kind = Write, l_start = 4, l_end = 6, l_pid = 1, l_expire_ms = 6 \<rparr>])) ''a'' 5 = None"
proof -
  let ?t = "[\<lparr> l_owner = ''a'', l_kind = Write, l_start = 4, l_end = 6, l_pid = 1, l_expire_ms = 6 \<rparr>]"
  have "table_ok ?t" by (simp add: table_ok_def entry_ok_def)
  from lock_release_renew [OF this, of "''a''"] show ?thesis by simp
qed

text \<open>C38. A lock table survives its text form: decoding the encoding of a table gives the table back,
  whenever owners are tab- and newline-free UTF-8 tokens and no \<open>Unlock\<close> is stored.\<close>

theorem lock_codec_roundtrip:
  assumes "\<forall>e \<in> set t. encodable e"
  shows "lock_decode (lock_encode t) = t"
  using assms lock_decode_encode by (simp add: list_all_iff)

theorem lock_codec_roundtrip_witness:
  "lock_decode (lock_encode
     [\<lparr> l_owner = ''m1:42'', l_kind = Write, l_start = 4, l_end = - 1, l_pid = 7, l_expire_ms = 1700 \<rparr>]) =
     [\<lparr> l_owner = ''m1:42'', l_kind = Write, l_start = 4, l_end = - 1, l_pid = 7, l_expire_ms = 1700 \<rparr>]"
proof -
  let ?t = "[\<lparr> l_owner = ''m1:42'', l_kind = Write, l_start = 4, l_end = - 1 :: u64, l_pid = 7,
    l_expire_ms = 1700 \<rparr>]"
  have "\<forall>e \<in> set ?t. encodable e"
    by (simp add: encodable_def tab_char_def nl_char_def utf8_valid_ascii_Cons is_i64_def
        i64_min_def i64_max_def)
  from lock_codec_roundtrip [OF this] show ?thesis .
qed

end
