(* ===== verification/Lock_Binding.thy ===== *)
theory Lock_Binding
  imports Lock_Table Object_Store Scatter
begin

text \<open>
  The persistent half of \<open>src/lock.rs\<close>: one lock table per file or directory in a \<open>_lock\<close> object,
  updated by compare-and-swap on its ETag with at most eight rounds.

  The theorems hold over any store that keeps the laws of \<open>object_store\<close>, with any interference
  by other clients: a granted \<open>fs_setlk\<close> is one atomic \<open>LockTable::set\<close> on the stored table, and
  every call keeps the stored table well-formed, so the mutual exclusion of the engine holds of
  the store.
\<close>

section \<open>Operations\<close>

definition LOCK_OBJECT :: string where "LOCK_OBJECT = ''_lock''"
definition LOCK_OCC_RETRIES :: nat where "LOCK_OCC_RETRIES = 8"
definition DEFAULT_LOCK_TTL_MS :: u64 where "DEFAULT_LOCK_TTL_MS = 60000"

definition lock_key :: "ext \<Rightarrow> hyper_dir_layout \<Rightarrow> uuid \<Rightarrow> bool \<Rightarrow> string" where
  "lock_key x layout uuid is_dir = child_key x layout is_dir uuid @ ''/'' @ LOCK_OBJECT"

definition now_ms :: "'w s3_api \<Rightarrow> ('w, int) io" where
  "now_ms s3 w = (case clock_ms s3 w of (c, w') \<Rightarrow> (Ok (unix_now_ms c), w'))"

text \<open>\<open>ttl_ms as i64\<close> reinterprets the 64 bits.\<close>

definition expiry :: "int \<Rightarrow> u64 \<Rightarrow> int" where
  "expiry now ttl_ms = saturating_add_i64 now (wrap_i64 (uint ttl_ms))"

definition load_table :: "'w s3_api \<Rightarrow> string \<Rightarrow> ('w, lock_table \<times> string option) io" where
  "load_table s3 key w =
     (case get_object s3 key w of
        (Inr res, w') \<Rightarrow>
          (case g_body res of
             Some b \<Rightarrow> (Ok (lock_decode b, map_option unquote (g_etag res)), w')
           | None \<Rightarrow> (Err Other, w'))
      | (Inl e, w') \<Rightarrow> if err_no_such_key e then (Ok ([], None), w') else (Err Other, w'))"

datatype put_outcome = PutOk | PutRetry

definition cas_put :: "'w s3_api \<Rightarrow> string \<Rightarrow> bytes \<Rightarrow> string option \<Rightarrow> ('w, put_outcome) io" where
  "cas_put s3 key body etag w =
     (case put_object s3 key body (case etag of Some t \<Rightarrow> IfMatch t | None \<Rightarrow> IfNoneMatch) w of
        (Inr _, w') \<Rightarrow> (Ok PutOk, w')
      | (Inl e, w') \<Rightarrow> if is_conflict e then (Ok PutRetry, w') else (Err Other, w'))"

definition fs_getlk ::
  "ext \<Rightarrow> 'w s3_api \<Rightarrow> hyper_dir_layout \<Rightarrow> uuid \<Rightarrow> bool \<Rightarrow> string \<Rightarrow> lock_kind \<Rightarrow> u64 \<Rightarrow> u64 \<Rightarrow>
     ('w, conflict option) io" where
  "fs_getlk x s3 layout uuid is_dir owner kind start end' =
     io_bind (load_table s3 (lock_key x layout uuid is_dir)) (\<lambda>(table, _).
     io_bind (now_ms s3) (\<lambda>now. io_return (lock_test table owner kind start end' now)))"

fun setlk_loop ::
  "'w s3_api \<Rightarrow> string \<Rightarrow> string \<Rightarrow> lock_kind \<Rightarrow> u64 \<Rightarrow> u64 \<Rightarrow> u32 \<Rightarrow> u64 \<Rightarrow> nat \<Rightarrow>
     ('w, set_lk_outcome) io" where
  "setlk_loop s3 key owner kind start end' pid ttl_ms 0 = io_fail ResourceBusy"
| "setlk_loop s3 key owner kind start end' pid ttl_ms (Suc n) =
     io_bind (load_table s3 key) (\<lambda>(table, etag).
       if kind = Unlock \<and> etag = None then io_return Granted
       else io_bind (now_ms s3) (\<lambda>now.
         case lock_set owner kind start end' pid (expiry now ttl_ms) now table of
           (Inl c, _) \<Rightarrow> io_return (ConflictWith c)
         | (Inr _, table') \<Rightarrow>
             io_bind (cas_put s3 key (lock_encode table') etag) (\<lambda>r.
               case r of
                 PutOk \<Rightarrow> io_return Granted
               | PutRetry \<Rightarrow> setlk_loop s3 key owner kind start end' pid ttl_ms n)))"

definition fs_setlk ::
  "ext \<Rightarrow> 'w s3_api \<Rightarrow> hyper_dir_layout \<Rightarrow> uuid \<Rightarrow> bool \<Rightarrow> string \<Rightarrow> lock_kind \<Rightarrow> u64 \<Rightarrow> u64 \<Rightarrow> u32 \<Rightarrow> u64 \<Rightarrow>
     ('w, set_lk_outcome) io" where
  "fs_setlk x s3 layout uuid is_dir owner kind start end' pid ttl_ms =
     setlk_loop s3 (lock_key x layout uuid is_dir) owner kind start end' pid ttl_ms LOCK_OCC_RETRIES"

fun unlock_owner_loop :: "'w s3_api \<Rightarrow> string \<Rightarrow> string \<Rightarrow> nat \<Rightarrow> ('w, unit) io" where
  "unlock_owner_loop s3 key owner 0 = io_fail ResourceBusy"
| "unlock_owner_loop s3 key owner (Suc n) =
     io_bind (load_table s3 key) (\<lambda>(table, etag).
       case etag of
         None \<Rightarrow> io_return ()
       | Some t \<Rightarrow>
           (case release_owner owner table of (any, table') \<Rightarrow>
              if \<not> any then io_return ()
              else io_bind (cas_put s3 key (lock_encode table') (Some t)) (\<lambda>r.
                case r of
                  PutOk \<Rightarrow> io_return ()
                | PutRetry \<Rightarrow> unlock_owner_loop s3 key owner n)))"

definition fs_unlock_owner ::
  "ext \<Rightarrow> 'w s3_api \<Rightarrow> hyper_dir_layout \<Rightarrow> uuid \<Rightarrow> bool \<Rightarrow> string \<Rightarrow> ('w, unit) io" where
  "fs_unlock_owner x s3 layout uuid is_dir owner =
     unlock_owner_loop s3 (lock_key x layout uuid is_dir) owner LOCK_OCC_RETRIES"

fun lock_renew_loop :: "'w s3_api \<Rightarrow> string \<Rightarrow> string \<Rightarrow> u64 \<Rightarrow> nat \<Rightarrow> ('w, unit) io" where
  "lock_renew_loop s3 key owner ttl_ms 0 = io_fail ResourceBusy"
| "lock_renew_loop s3 key owner ttl_ms (Suc n) =
     io_bind (load_table s3 key) (\<lambda>(table, etag).
       case etag of
         None \<Rightarrow> io_return ()
       | Some t \<Rightarrow>
           io_bind (now_ms s3) (\<lambda>now.
             case renew owner (expiry now ttl_ms) table of (any, table') \<Rightarrow>
               if \<not> any then io_return ()
               else io_bind (cas_put s3 key (lock_encode table') (Some t)) (\<lambda>r.
                 case r of
                   PutOk \<Rightarrow> io_return ()
                 | PutRetry \<Rightarrow> lock_renew_loop s3 key owner ttl_ms n)))"

definition fs_lock_renew ::
  "ext \<Rightarrow> 'w s3_api \<Rightarrow> hyper_dir_layout \<Rightarrow> uuid \<Rightarrow> bool \<Rightarrow> string \<Rightarrow> u64 \<Rightarrow> ('w, unit) io" where
  "fs_lock_renew x s3 layout uuid is_dir owner ttl_ms =
     lock_renew_loop s3 (lock_key x layout uuid is_dir) owner ttl_ms LOCK_OCC_RETRIES"

section \<open>The stored table\<close>

definition table_of :: "s3_object option \<Rightarrow> lock_table" where
  "table_of r = (case r of None \<Rightarrow> [] | Some ob \<Rightarrow> lock_decode (ob_body ob))"

definition lock_object_ok :: "s3_object option \<Rightarrow> bool" where
  "lock_object_ok r =
     (case r of None \<Rightarrow> True
      | Some ob \<Rightarrow> (\<exists>t. ob_body ob = lock_encode t \<and> table_ok t \<and> list_all encodable t))"

definition owner_ok :: "string \<Rightarrow> bool" where
  "owner_ok owner = (utf8_valid owner \<and> tab_char \<notin> set owner \<and> nl_char \<notin> set owner)"

lemma expiry_i64: "is_i64 (expiry now ttl)"
  by (simp add: expiry_def saturating_add_i64_bounds)

lemma lock_object_ok_table:
  assumes "lock_object_ok r"
  shows "table_ok (table_of r)" "list_all encodable (table_of r)"
  using assms by (auto simp: lock_object_ok_def table_of_def lock_decode_encode split: option.splits)

lemma lock_object_okI:
  "table_ok t \<Longrightarrow> list_all encodable t \<Longrightarrow> ob_body ob = lock_encode t \<Longrightarrow> lock_object_ok (Some ob)"
  by (auto simp: lock_object_ok_def)

lemma encodable_pieces:
  "encodable e \<Longrightarrow> list_all encodable (range_pieces owner start end' e)"
  by (auto simp: range_pieces_def encodable_def)

lemma encodable_remove_range:
  "list_all encodable t \<Longrightarrow> list_all encodable (remove_range owner start end' t)"
  by (induction t) (simp_all add: remove_range_def encodable_pieces)

lemma encodable_set:
  assumes "list_all encodable t" and "owner_ok owner"
  shows "list_all encodable (snd (lock_set owner kind start end' pid (expiry now ttl) now t))"
proof -
  have "list_all encodable (purge_expired now t)"
    using assms(1) by (simp add: purge_expired_def list_all_iff)
  with assms(2) show ?thesis
    by (auto simp: lock_set_def Let_def encodable_remove_range encodable_def owner_ok_def expiry_i64
        split: option.splits)
qed

lemma encodable_release: "list_all encodable t \<Longrightarrow> list_all encodable (snd (release_owner owner t))"
  by (simp add: release_owner_def Let_def list_all_iff)

lemma encodable_renew: "list_all encodable t \<Longrightarrow> list_all encodable (snd (renew owner (expiry now ttl) t))"
  by (auto simp: renew_def list_all_iff renew_entry_def encodable_def expiry_i64)

text \<open>
  What a lock operation does to the store: one atomic update of the table stored at \<open>key\<close>, by
  \<open>step\<close>, at an instant \<open>w1\<close> that other clients may have changed.
\<close>

definition atomic_update ::
  "('w \<Rightarrow> string \<Rightarrow> s3_object option) \<Rightarrow> ('w \<Rightarrow> 'w \<Rightarrow> bool) \<Rightarrow> string \<Rightarrow>
     (lock_table \<Rightarrow> lock_table \<Rightarrow> bool) \<Rightarrow> 'w \<Rightarrow> 'w \<Rightarrow> bool" where
  "atomic_update objs env key step w w' =
     (\<exists>w1 ob t'. env w w1 \<and> step (table_of (objs w1 key)) t' \<and>
        objs w' = (objs w1)(key \<mapsto> ob) \<and> ob_body ob = lock_encode t')"

definition set_step :: "string \<Rightarrow> lock_kind \<Rightarrow> u64 \<Rightarrow> u64 \<Rightarrow> u32 \<Rightarrow> u64 \<Rightarrow> lock_table \<Rightarrow> lock_table \<Rightarrow> bool" where
  "set_step owner kind start end' pid ttl t t' =
     (\<exists>now. lock_set owner kind start end' pid (expiry now ttl) now t = (Inr (), t'))"

definition release_step :: "string \<Rightarrow> lock_table \<Rightarrow> lock_table \<Rightarrow> bool" where
  "release_step owner t t' = (release_owner owner t = (True, t'))"

definition renew_step :: "string \<Rightarrow> u64 \<Rightarrow> lock_table \<Rightarrow> lock_table \<Rightarrow> bool" where
  "renew_step owner ttl t t' = (\<exists>now. renew owner (expiry now ttl) t = (True, t'))"

section \<open>Compare-and-swap\<close>

context object_store
begin

lemma load_table_env: "load_table s3 key w = (r, w') \<Longrightarrow> env w w'"
  by (auto simp: load_table_def split: prod.splits sum.splits option.splits if_splits
      dest: get_Ok get_Err)

lemma now_ms_env: "now_ms s3 w = (r, w') \<Longrightarrow> env w w' \<and> (\<exists>c. r = Ok (unix_now_ms c))"
  by (auto simp: now_ms_def split: prod.splits dest: clock_env)

lemma now_ms_obtain:
  obtains now w' where "now_ms s3 w = (Ok now, w')" "env w w'"
proof (cases "clock_ms s3 w")
  case (Pair c w')
  with clock_env [OF Pair] that show thesis by (simp add: now_ms_def)
qed

lemma load_table_Ok:
  assumes "load_table s3 key w = (Ok (t, et), w')"
  shows "t = table_of (objs w' key)" "et = map_option ob_etag (objs w' key)"
proof -
  consider (hit) out where "get_object s3 key w = (Inr out, w')" "et = map_option unquote (g_etag out)"
      "\<exists>b. g_body out = Some b \<and> t = lock_decode b"
    | (miss) e where "get_object s3 key w = (Inl e, w')" "err_no_such_key e" "t = []" "et = None"
    using assms by (auto simp: load_table_def split: prod.splits sum.splits option.splits if_splits)
  then have "t = table_of (objs w' key) \<and> et = map_option ob_etag (objs w' key)"
  proof cases
    case hit
    with get_Ok [OF hit(1)] show ?thesis by (auto simp: table_of_def)
  next
    case miss
    with get_Err [OF miss(1)] show ?thesis by (simp add: table_of_def)
  qed
  then show "t = table_of (objs w' key)" "et = map_option ob_etag (objs w' key)" by simp_all
qed

lemma cas_put_Retry: "cas_put s3 key body et w = (Ok PutRetry, w') \<Longrightarrow> env w w'"
  by (auto simp: cas_put_def split: prod.splits sum.splits if_splits dest: put_Err)

text \<open>
  A swap that had an effect had it on contents whose object is the one the ETag was read from.
\<close>

lemma cas_cond:
  assumes "et = map_option ob_etag (objs w0 key)"
    and "cond_ok (case et of Some t \<Rightarrow> IfMatch t | None \<Rightarrow> IfNoneMatch) (objs w1 key)"
  shows "table_of (objs w1 key) = table_of (objs w0 key)" "objs w1 key = None \<longleftrightarrow> objs w0 key = None"
proof -
  have "table_of (objs w1 key) = table_of (objs w0 key) \<and> (objs w1 key = None \<longleftrightarrow> objs w0 key = None)"
  proof (cases "objs w0 key")
    case None
    with assms show ?thesis by simp
  next
    case (Some ob)
    with assms obtain ob' where ob': "objs w1 key = Some ob'" "ob_etag ob' = ob_etag ob"
      by (auto split: option.splits)
    from etag_body [OF ob'(1) Some ob'(2)] Some ob' show ?thesis by (simp add: table_of_def)
  qed
  then show "table_of (objs w1 key) = table_of (objs w0 key)" "objs w1 key = None \<longleftrightarrow> objs w0 key = None"
    by simp_all
qed

lemma cas_put_effect:
  assumes "cas_put s3 key body et w = (r, w')" and "et = map_option ob_etag (objs w0 key)"
  shows "env w w' \<and> r \<noteq> Ok PutOk \<or> (\<exists>w1 ob. env w w1 \<and> table_of (objs w1 key) = table_of (objs w0 key) \<and>
     (objs w1 key = None \<longleftrightarrow> objs w0 key = None) \<and>
     objs w' = (objs w1)(key \<mapsto> ob) \<and> ob_body ob = body)"
proof -
  let ?c = "case et of Some t \<Rightarrow> IfMatch t | None \<Rightarrow> IfNoneMatch"
  obtain q where q: "put_object s3 key body ?c w = (q, w')"
    using assms(1) by (auto simp: cas_put_def split: prod.splits sum.splits if_splits)
  show ?thesis
  proof (cases q)
    case (Inr o')
    from put_Ok [OF q [unfolded Inr]] show ?thesis using cas_cond [OF assms(2)] by blast
  next
    case (Inl e)
    have r: "r \<noteq> Ok PutOk" using assms(1) q Inl by (auto simp: cas_put_def split: if_splits)
    from put_Err [OF q [unfolded Inl]] show ?thesis using cas_cond [OF assms(2)] r by blast
  qed
qed

lemma atomic_update_env: "env w w1 \<Longrightarrow> atomic_update objs env key step w1 w' \<Longrightarrow> atomic_update objs env key step w w'"
  unfolding atomic_update_def using env_trans by blast

lemma cas_put_update:
  assumes load: "load_table s3 key w = (Ok (t, et), w0)" and "env w0 w2"
    and cas: "cas_put s3 key (lock_encode t') et w2 = (r, w')" and "step t t'"
  shows "env w w' \<and> r \<noteq> Ok PutOk \<or> atomic_update objs env key step w w'"
proof -
  have "env w w2" using load_table_env [OF load] assms(2) env_trans by blast
  from cas_put_effect [OF cas load_table_Ok(2) [OF load]] show ?thesis
  proof
    assume "env w2 w' \<and> r \<noteq> Ok PutOk"
    then show ?thesis using \<open>env w w2\<close> env_trans by blast
  next
    assume "\<exists>w1 ob. env w2 w1 \<and> table_of (objs w1 key) = table_of (objs w0 key) \<and>
      (objs w1 key = None \<longleftrightarrow> objs w0 key = None) \<and>
      objs w' = (objs w1)(key \<mapsto> ob) \<and> ob_body ob = lock_encode t'"
    then obtain w1 ob where "env w2 w1" "table_of (objs w1 key) = t"
      "objs w' = (objs w1)(key \<mapsto> ob)" "ob_body ob = lock_encode t'"
      using load_table_Ok(1) [OF load] by auto
    then show ?thesis unfolding atomic_update_def
      using env_trans [OF \<open>env w w2\<close>] assms(4) by blast
  qed
qed

lemma setlk_loop_sound:
  "setlk_loop s3 key owner kind start end' pid ttl n w = (r, w') \<Longrightarrow>
     env w w' \<and> (r = Ok Granted \<longrightarrow> kind = Unlock \<and> objs w' key = None) \<and>
       (\<forall>c. r = Ok (ConflictWith c) \<longrightarrow> (\<exists>w0 now. env w w0 \<and>
          fst (lock_set owner kind start end' pid (expiry now ttl) now (table_of (objs w0 key))) = Inl c))
     \<or> atomic_update objs env key (set_step owner kind start end' pid ttl) w w' \<and> (\<forall>c. r \<noteq> Ok (ConflictWith c))"
proof (induction n arbitrary: w r w')
  case 0
  then show ?case using env_refl by (auto simp: io_fail_def)
next
  case (Suc n)
  obtain q w0 where load: "load_table s3 key w = (q, w0)" by (cases "load_table s3 key w")
  note e0 = load_table_env [OF load]
  show ?case
  proof (cases q)
    case (Ok p)
    obtain t et where p: "p = (t, et)" by (cases p)
    note ld = load [unfolded Ok p]
    show ?thesis
    proof (cases "kind = Unlock \<and> et = None")
      case True
      with Suc.prems ld load_table_Ok(2) [OF ld] e0 show ?thesis
        by (auto simp: io_bind_def io_return_def)
    next
      case False
      obtain now w2 where now: "now_ms s3 w0 = (Ok now, w2)" "env w0 w2"
        by (rule now_ms_obtain)
      have e2: "env w w2" using e0 now(2) env_trans by blast
      obtain sr t' where set: "lock_set owner kind start end' pid (expiry now ttl) now t = (sr, t')"
        by (cases "lock_set owner kind start end' pid (expiry now ttl) now t")
      show ?thesis
      proof (cases sr)
        case (Inl c)
        with Suc.prems ld False now(1) set have "r = Ok (ConflictWith c)" "w' = w2"
          by (auto simp: io_bind_def io_return_def)
        with e0 e2 set Inl load_table_Ok(1) [OF ld] show ?thesis by (metis fst_conv result.inject(1)
              set_lk_outcome.distinct(1) set_lk_outcome.inject)
      next
        case (Inr u)
        obtain cr w3 where cas: "cas_put s3 key (lock_encode t') et w2 = (cr, w3)"
          by (cases "cas_put s3 key (lock_encode t') et w2")
        have step: "set_step owner kind start end' pid ttl t t'"
          using set Inr by (auto simp: set_step_def)
        note upd = cas_put_update [where step = "set_step owner kind start end' pid ttl", OF ld now(2) cas step]
        have run: "(r, w') = (case cr of Ok PutOk \<Rightarrow> (Ok Granted, w3)
            | Ok PutRetry \<Rightarrow> setlk_loop s3 key owner kind start end' pid ttl n w3
            | Err e \<Rightarrow> (Err e, w3) | Panic \<Rightarrow> (Panic, w3))"
          using Suc.prems ld False now(1) set Inr cas
          by (auto simp: io_bind_def io_return_def split: result.splits put_outcome.splits)
        show ?thesis
        proof (cases "cr = Ok PutRetry")
          case True
          with cas have "env w2 w3" by (auto dest: cas_put_Retry)
          then have e3: "env w w3" using e2 env_trans by blast
          have "setlk_loop s3 key owner kind start end' pid ttl n w3 = (r, w')" using run True by simp
          from Suc.IH [OF this] show ?thesis using e3 env_trans atomic_update_env [OF e3] by blast
        next
          case False
          then have "w' = w3" "\<forall>c. r \<noteq> Ok (ConflictWith c)" "r = Ok Granted \<longrightarrow> cr = Ok PutOk"
            using run by (auto split: result.splits put_outcome.splits)
          with upd show ?thesis by blast
        qed
      qed
    qed
  next
    case (Err e)
    with Suc.prems load e0 show ?thesis by (auto simp: io_bind_def)
  next
    case Panic
    with Suc.prems load e0 show ?thesis by (auto simp: io_bind_def)
  qed
qed

lemma unlock_owner_loop_sound:
  "unlock_owner_loop s3 key owner n w = (r, w') \<Longrightarrow>
     env w w' \<and> (r = Ok () \<longrightarrow> \<not> fst (release_owner owner (table_of (objs w' key))))
     \<or> atomic_update objs env key (release_step owner) w w'"
proof (induction n arbitrary: w r w')
  case 0
  then show ?case using env_refl by (auto simp: io_fail_def)
next
  case (Suc n)
  obtain q w0 where load: "load_table s3 key w = (q, w0)" by (cases "load_table s3 key w")
  note e0 = load_table_env [OF load]
  show ?case
  proof (cases "\<exists>t et. q = Ok (t, Some et) \<and> fst (release_owner owner t)")
    case True
    then obtain t et where q: "q = Ok (t, Some et)" "fst (release_owner owner t)" by blast
    obtain t' where t': "release_owner owner t = (True, t')" using q(2) by (cases "release_owner owner t") auto
    obtain cr w3 where cas: "cas_put s3 key (lock_encode t') (Some et) w0 = (cr, w3)"
      by (cases "cas_put s3 key (lock_encode t') (Some et) w0")
    have "release_step owner t t'" using t' by (simp add: release_step_def)
    note upd = cas_put_update [where step = "release_step owner", OF load [unfolded q(1)] env_refl cas this]
    have run: "(r, w') = (case cr of Ok PutOk \<Rightarrow> (Ok (), w3)
        | Ok PutRetry \<Rightarrow> unlock_owner_loop s3 key owner n w3
        | Err e \<Rightarrow> (Err e, w3) | Panic \<Rightarrow> (Panic, w3))"
      using Suc.prems load q(1) t' cas
      by (auto simp: io_bind_def io_return_def split: result.splits put_outcome.splits)
    show ?thesis
    proof (cases "cr = Ok PutRetry")
      case True
      with cas have "env w0 w3" by (auto dest: cas_put_Retry)
      then have e3: "env w w3" using e0 env_trans by blast
      have "unlock_owner_loop s3 key owner n w3 = (r, w')" using run True by simp
      from Suc.IH [OF this] show ?thesis using e3 env_trans atomic_update_env [OF e3] by blast
    next
      case False
      then have "w' = w3" "r = Ok () \<longrightarrow> cr = Ok PutOk"
        using run by (auto split: result.splits put_outcome.splits)
      with upd show ?thesis by blast
    qed
  next
    case False
    have "w' = w0 \<and> (r = Ok () \<longrightarrow> \<not> fst (release_owner owner (table_of (objs w' key))))"
    proof (cases q)
      case (Ok p)
      obtain t et where p: "p = (t, et)" by (cases p)
      note ld = load_table_Ok [OF load [unfolded Ok p]]
      show ?thesis
        using Suc.prems load Ok p False ld
        by (auto simp: io_bind_def io_return_def table_of_def release_owner_def Let_def split: option.splits)
    qed (use Suc.prems load in \<open>auto simp: io_bind_def\<close>)
    with e0 show ?thesis by blast
  qed
qed

lemma lock_renew_loop_sound:
  "lock_renew_loop s3 key owner ttl n w = (r, w') \<Longrightarrow>
     env w w' \<or> atomic_update objs env key (renew_step owner ttl) w w'"
proof (induction n arbitrary: w r w')
  case 0
  then show ?case using env_refl by (auto simp: io_fail_def)
next
  case (Suc n)
  obtain q w0 where load: "load_table s3 key w = (q, w0)" by (cases "load_table s3 key w")
  note e0 = load_table_env [OF load]
  obtain now w2 where now: "now_ms s3 w0 = (Ok now, w2)" "env w0 w2"
    by (rule now_ms_obtain)
  have e2: "env w w2" using e0 now(2) env_trans by blast
  show ?case
  proof (cases "\<exists>t et. q = Ok (t, Some et) \<and> fst (renew owner (expiry now ttl) t)")
    case True
    then obtain t et where q: "q = Ok (t, Some et)" "fst (renew owner (expiry now ttl) t)" by blast
    obtain t' where t': "renew owner (expiry now ttl) t = (True, t')"
      using q(2) by (cases "renew owner (expiry now ttl) t") auto
    obtain cr w3 where cas: "cas_put s3 key (lock_encode t') (Some et) w2 = (cr, w3)"
      by (cases "cas_put s3 key (lock_encode t') (Some et) w2")
    have "renew_step owner ttl t t'" using t' by (auto simp: renew_step_def)
    note upd = cas_put_update [where step = "renew_step owner ttl", OF load [unfolded q(1)] now(2) cas this]
    have run: "(r, w') = (case cr of Ok PutOk \<Rightarrow> (Ok (), w3)
        | Ok PutRetry \<Rightarrow> lock_renew_loop s3 key owner ttl n w3
        | Err e \<Rightarrow> (Err e, w3) | Panic \<Rightarrow> (Panic, w3))"
      using Suc.prems load q(1) t' cas now(1)
      by (auto simp: io_bind_def io_return_def split: result.splits put_outcome.splits)
    show ?thesis
    proof (cases "cr = Ok PutRetry")
      case True
      with cas have "env w2 w3" by (auto dest: cas_put_Retry)
      then have e3: "env w w3" using e2 env_trans by blast
      have "lock_renew_loop s3 key owner ttl n w3 = (r, w')" using run True by simp
      from Suc.IH [OF this] show ?thesis using e3 env_trans atomic_update_env [OF e3] by blast
    next
      case False
      then have "w' = w3" using run by (auto split: result.splits put_outcome.splits)
      with upd show ?thesis by blast
    qed
  next
    case False
    then have "w' = w0 \<or> w' = w2" using Suc.prems load now(1)
      by (cases q) (auto simp: io_bind_def io_return_def split: option.splits prod.splits if_splits)
    with e0 e2 show ?thesis by blast
  qed
qed

lemma atomic_update_ok:
  assumes rely: "\<And>u v. env u v \<Longrightarrow> lock_object_ok (objs u key) \<Longrightarrow> lock_object_ok (objs v key)"
    and step: "\<And>t t'. step t t' \<Longrightarrow> table_ok t \<Longrightarrow> list_all encodable t \<Longrightarrow> table_ok t' \<and> list_all encodable t'"
    and upd: "atomic_update objs env key step w w'" and ok: "lock_object_ok (objs w key)"
  shows "lock_object_ok (objs w' key)"
proof -
  from upd obtain w1 ob t' where u: "env w w1" "step (table_of (objs w1 key)) t'"
    "objs w' = (objs w1)(key \<mapsto> ob)" "ob_body ob = lock_encode t'" unfolding atomic_update_def by blast
  from rely [OF u(1) ok] have "table_ok (table_of (objs w1 key))" "list_all encodable (table_of (objs w1 key))"
    by (rule lock_object_ok_table)+
  with step [OF u(2)] u(3,4) show ?thesis by (auto intro: lock_object_okI)
qed

end

lemma set_step_ok:
  assumes "set_step owner kind start end' pid ttl t t'" and "table_ok t" and "list_all encodable t"
    and "owner_ok owner" and "start \<le> end'"
  shows "table_ok t' \<and> list_all encodable t'"
proof -
  obtain now where now: "lock_set owner kind start end' pid (expiry now ttl) now t = (Inr (), t')"
    using assms(1) by (auto simp: set_step_def)
  from table_ok_set [OF assms(2,5), of owner kind pid "expiry now ttl" now]
    encodable_set [OF assms(3,4), of kind start end' pid now ttl] now show ?thesis by simp
qed

lemma release_step_ok:
  "release_step owner t t' \<Longrightarrow> table_ok t \<Longrightarrow> list_all encodable t \<Longrightarrow> table_ok t' \<and> list_all encodable t'"
  using encodable_release [of t owner] by (auto simp: release_step_def release_owner_def Let_def table_ok_filter)

lemma renew_step_ok:
  assumes "renew_step owner ttl t t'" and "table_ok t" and "list_all encodable t"
  shows "table_ok t' \<and> list_all encodable t'"
proof -
  obtain now where "renew owner (expiry now ttl) t = (True, t')" using assms(1) by (auto simp: renew_step_def)
  with table_ok_renew [OF assms(2), of owner "expiry now ttl"] encodable_renew [OF assms(3), of owner now ttl]
  show ?thesis by simp
qed

section \<open>Properties\<close>

text \<open>C8. A granted \<open>fs_setlk\<close> is one atomic \<open>LockTable::set\<close> on the stored table, whatever other clients
  do between its requests (no lost update); only an unlock that finds no table is granted
  without one. A refused call changed nothing and its conflict was real at some instant of the
  call.\<close>

theorem fs_setlk_atomic:
  assumes "object_store s3 objs env"
    and "fs_setlk x s3 layout uuid is_dir owner kind start end' pid ttl w = (r, w')"
  shows "(r = Ok Granted \<longrightarrow>
      atomic_update objs env (lock_key x layout uuid is_dir) (set_step owner kind start end' pid ttl) w w' \<or>
      kind = Unlock \<and> env w w' \<and> objs w' (lock_key x layout uuid is_dir) = None) \<and>
    (\<forall>c. r = Ok (ConflictWith c) \<longrightarrow> env w w' \<and> (\<exists>w0 now. env w w0 \<and>
      fst (lock_set owner kind start end' pid (expiry now ttl) now
        (table_of (objs w0 (lock_key x layout uuid is_dir)))) = Inl c))"
  using object_store.setlk_loop_sound [OF assms(1) assms(2) [unfolded fs_setlk_def]] by blast

definition wit_world :: mem_world where
  "wit_world = \<lparr> mw_objs = [], mw_now = 5, mw_next = 0 \<rparr>"

lemma wit_setlk:
  "fst (fs_setlk ref_ext mem_s3 layout_new 7 False ''a'' Write 0 9 1 60000 wit_world) = Ok Granted"
  by (simp add: fs_setlk_def LOCK_OCC_RETRIES_def numeral_eq_Suc wit_world_def io_bind_def io_return_def
      load_table_def mem_get_def no_such_key_def now_ms_def lock_set_def Let_def purge_expired_def
      remove_range_def cas_put_def mem_put_def mem_objs_def)

theorem fs_setlk_atomic_witness:
  "atomic_update mem_objs mem_env (lock_key ref_ext layout_new 7 False)
     (set_step ''a'' Write 0 9 1 60000) wit_world
     (snd (fs_setlk ref_ext mem_s3 layout_new 7 False ''a'' Write 0 9 1 60000 wit_world))"
  using fs_setlk_atomic [OF mem_store.object_store_axioms prod.collapse [symmetric],
      of ref_ext layout_new 7 False "''a''" Write 0 9 1 60000 wit_world] wit_setlk by simp

text \<open>C28. The stored lock table stays well-formed: if other clients keep it so, then \<open>fs_setlk\<close>,
  \<open>fs_unlock_owner\<close> and \<open>fs_lock_renew\<close> keep it so too, on every outcome, failed writes with
  an unknown effect included.\<close>

theorem lock_store_invariant:
  assumes store: "object_store s3 objs env"
    and rely: "\<And>u v. env u v \<Longrightarrow> lock_object_ok (objs u (lock_key x layout uuid is_dir)) \<Longrightarrow>
      lock_object_ok (objs v (lock_key x layout uuid is_dir))"
    and ok: "lock_object_ok (objs w (lock_key x layout uuid is_dir))"
    and req: "owner_ok owner" "start \<le> end'"
    and run: "snd (fs_setlk x s3 layout uuid is_dir owner kind start end' pid ttl w) = w' \<or>
      snd (fs_unlock_owner x s3 layout uuid is_dir owner w) = w' \<or>
      snd (fs_lock_renew x s3 layout uuid is_dir owner ttl w) = w'"
  shows "lock_object_ok (objs w' (lock_key x layout uuid is_dir))"
proof -
  let ?key = "lock_key x layout uuid is_dir"
  from run consider
      (set) r where "setlk_loop s3 ?key owner kind start end' pid ttl LOCK_OCC_RETRIES w = (r, w')"
    | (rel) r where "unlock_owner_loop s3 ?key owner LOCK_OCC_RETRIES w = (r, w')"
    | (ren) r where "lock_renew_loop s3 ?key owner ttl LOCK_OCC_RETRIES w = (r, w')"
    unfolding fs_setlk_def fs_unlock_owner_def fs_lock_renew_def by (metis prod.collapse)
  then have "env w w' \<or> atomic_update objs env ?key (set_step owner kind start end' pid ttl) w w' \<or>
      atomic_update objs env ?key (release_step owner) w w' \<or>
      atomic_update objs env ?key (renew_step owner ttl) w w'"
  proof cases
    case set
    from object_store.setlk_loop_sound [OF store this] show ?thesis by blast
  next
    case rel
    from object_store.unlock_owner_loop_sound [OF store this] show ?thesis by blast
  next
    case ren
    from object_store.lock_renew_loop_sound [OF store this] show ?thesis by blast
  qed
  moreover have keep: "lock_object_ok (objs w' ?key)" if "atomic_update objs env ?key step w w'"
    "\<And>t t'. step t t' \<Longrightarrow> table_ok t \<Longrightarrow> list_all encodable t \<Longrightarrow> table_ok t' \<and> list_all encodable t'" for step
  proof (rule object_store.atomic_update_ok [OF store _ that(2) that(1) ok])
    show "lock_object_ok (objs v ?key)" if "env u v" "lock_object_ok (objs u ?key)" for u v
      using that by (rule rely)
  qed
  ultimately show ?thesis
    by (elim disjE) (erule rely [OF _ ok], (erule keep, erule (2) set_step_ok [OF _ _ _ req]),
      (erule keep, erule (2) release_step_ok), (erule keep, erule (2) renew_step_ok))
qed

theorem lock_store_invariant_witness:
  "lock_object_ok (mem_objs (snd (fs_setlk ref_ext mem_s3 layout_new 7 False ''a'' Write 0 9 1 60000 wit_world))
     (lock_key ref_ext layout_new 7 False))"
proof (rule lock_store_invariant [OF mem_store.object_store_axioms])
  show "owner_ok ''a''"
    by (simp add: owner_ok_def utf8_valid_ascii_Cons tab_char_def nl_char_def)
  show "lock_object_ok (mem_objs wit_world (lock_key ref_ext layout_new 7 False))"
    by (simp add: lock_object_ok_def mem_objs_def wit_world_def)
  show "(0 :: u64) \<le> 9" by simp
qed (auto simp: mem_env_def)

text \<open>A granted lock excludes: on a store whose lock table is well-formed, once \<open>fs_setlk\<close> grants a read
  or write lock, the stored table gives the owner every byte of the range with the requested
  mode, and gives no other owner an incompatible lock on any of them.\<close>

theorem fs_setlk_granted_excludes:
  assumes store: "object_store s3 objs env"
    and rely: "\<And>u v. env u v \<Longrightarrow> lock_object_ok (objs u (lock_key x layout uuid is_dir)) \<Longrightarrow>
      lock_object_ok (objs v (lock_key x layout uuid is_dir))"
    and ok: "lock_object_ok (objs w (lock_key x layout uuid is_dir))"
    and req: "owner_ok owner" "start \<le> p" "p \<le> end'" "kind \<noteq> Unlock"
    and run: "fs_setlk x s3 layout uuid is_dir owner kind start end' pid ttl w = (Ok Granted, w')"
  shows "(\<exists>ex. lock_view (table_of (objs w' (lock_key x layout uuid is_dir))) owner p = Some (kind, pid, ex)) \<and>
    (\<forall>o' k' pid' ex'. o' \<noteq> owner \<longrightarrow>
      lock_view (table_of (objs w' (lock_key x layout uuid is_dir))) o' p = Some (k', pid', ex') \<longrightarrow>
      kind = Read \<and> k' = Read)"
proof -
  let ?key = "lock_key x layout uuid is_dir"
  have le: "start \<le> end'" using req(2,3) by (rule order_trans)
  from object_store.setlk_loop_sound [OF store run [unfolded fs_setlk_def]] req(4)
  have "atomic_update objs env ?key (set_step owner kind start end' pid ttl) w w'" by blast
  then obtain w1 ob t' now where u: "env w w1" "objs w' = (objs w1)(?key \<mapsto> ob)" "ob_body ob = lock_encode t'"
    and set: "lock_set owner kind start end' pid (expiry now ttl) now (table_of (objs w1 ?key)) = (Inr (), t')"
    unfolding atomic_update_def set_step_def by blast
  note t = lock_object_ok_table [OF rely [OF u(1) ok]]
  have t': "table_ok t'" "list_all encodable t'"
    using set_step_ok [of owner kind start end' pid ttl "table_of (objs w1 ?key)" t'] set t req(1) le
    by (auto simp: set_step_def)
  have tab: "table_of (objs w' ?key) = t'" using u(2,3) t'(2) by (simp add: table_of_def lock_decode_encode)
  have own: "lock_view t' owner p = Some (kind, pid, expiry now ttl)"
    using lock_set_view [OF t(1) le, of owner kind pid "expiry now ttl" now owner p] set req by simp
  show ?thesis unfolding tab using own table_ok_exclusive [OF t'(1) own] by blast
qed

theorem fs_setlk_granted_excludes_witness:
  "\<exists>ex. lock_view (table_of (mem_objs
      (snd (fs_setlk ref_ext mem_s3 layout_new 7 False ''a'' Write 0 9 1 60000 wit_world))
      (lock_key ref_ext layout_new 7 False))) ''a'' 4 = Some (Write, 1, ex)"
proof -
  have run: "fs_setlk ref_ext mem_s3 layout_new 7 False ''a'' Write 0 9 1 60000 wit_world =
      (Ok Granted, snd (fs_setlk ref_ext mem_s3 layout_new 7 False ''a'' Write 0 9 1 60000 wit_world))"
    using wit_setlk by (metis prod.collapse)
  have "owner_ok ''a''" by (simp add: owner_ok_def utf8_valid_ascii_Cons tab_char_def nl_char_def)
  moreover have "lock_object_ok (mem_objs wit_world (lock_key ref_ext layout_new 7 False))"
    by (simp add: lock_object_ok_def mem_objs_def wit_world_def)
  ultimately show ?thesis
    using fs_setlk_granted_excludes [OF mem_store.object_store_axioms _ _ _ _ _ _ run, of 4] by (auto simp: mem_env_def)
qed

end
