(* ===== verification/S3_Staging.thy ===== *)
theory S3_Staging
  imports Scatter Object_Store Lock_Binding
begin

text \<open>
  \<open>src/s3.rs\<close>, the \<open>DirStaging\<close> implementation over S3: listing, fetching, deleting and emitting
  scatter objects, and the compactor lease. A staging is represented by its \<open>root_path\<close>; the
  bucket is the store.
\<close>

section \<open>Scatter objects\<close>

definition scatter_inodes_path :: "string \<Rightarrow> string" where
  "scatter_inodes_path root = root @ ''/'' @ DEFAULT_DIR_INODE_SCATTER_FOLDER @ ''/''"

definition compact_lease_path :: "string \<Rightarrow> string" where
  "compact_lease_path root = root @ ''/'' @ DEFAULT_COMPACT_LEASE_FILE"

text \<open>
  One listed object: an object with no key or another suffix is skipped; the \<open>expect\<close> on a
  missing time and every \<open>expect\<close> of \<open>path_decode\<close> panics.
\<close>

definition decode_listed :: "ext \<Rightarrow> list_object \<Rightarrow> dir_scatter_inode option result" where
  "decode_listed x ob =
     (case lo_key ob of
        None \<Rightarrow> Ok None
      | Some key \<Rightarrow>
          if ends_with key DEFAULT_DIR_INODE_SUFFIX \<or> ends_with key DEFAULT_DIR_TOMBSTONE_SUFFIX
          then (case lo_last_modified ob of
                  None \<Rightarrow> Panic
                | Some st \<Rightarrow> res_bind (path_decode x key st) (\<lambda>s. Ok (Some s)))
          else Ok None)"

fun decode_objects :: "ext \<Rightarrow> list_object list \<Rightarrow> dir_scatter_inode list \<Rightarrow> dir_scatter_inode list result" where
  "decode_objects x [] scatters = Ok scatters"
| "decode_objects x (ob # obs) scatters =
     res_bind (decode_listed x ob) (\<lambda>r.
       case r of
         None \<Rightarrow> decode_objects x obs scatters
       | Some s \<Rightarrow> decode_objects x obs (scatters @ [s]))"

fun decode_pages ::
  "ext \<Rightarrow> (s3_error + list_object list) list \<Rightarrow> dir_scatter_inode list \<Rightarrow> dir_scatter_inode list result" where
  "decode_pages x [] scatters = Ok scatters"
| "decode_pages x (Inl _ # pages) scatters = decode_pages x pages scatters"
| "decode_pages x (Inr objects # pages) scatters =
     res_bind (decode_objects x objects scatters) (decode_pages x pages)"

definition list_scatter_with_prefix :: "ext \<Rightarrow> 'w s3_api \<Rightarrow> string \<Rightarrow> ('w, dir_scatter_inode list) io" where
  "list_scatter_with_prefix x s3 pre w =
     (case list_objects s3 pre w of (pages, w') \<Rightarrow> (decode_pages x pages [], w'))"

definition list_scatter_inodes :: "ext \<Rightarrow> 'w s3_api \<Rightarrow> string \<Rightarrow> ('w, dir_scatter_inode list) io" where
  "list_scatter_inodes x s3 root = list_scatter_with_prefix x s3 (scatter_inodes_path root)"

definition list_scatter_inodes_for_name ::
  "ext \<Rightarrow> 'w s3_api \<Rightarrow> string \<Rightarrow> string \<Rightarrow> ('w, dir_scatter_inode list) io" where
  "list_scatter_inodes_for_name x s3 root filename =
     list_scatter_with_prefix x s3 (scatter_inodes_path root @ encode_filename x filename @ ''/'')"

fun collect_scatter_inodes ::
  "'w s3_api \<Rightarrow> dir_scatter_inode list \<Rightarrow> ('w, (dir_scatter_inode \<times> bytes) list) io" where
  "collect_scatter_inodes s3 [] = io_return []"
| "collect_scatter_inodes s3 (s # ss) = (\<lambda>w.
     case get_object s3 (s_key s) w of
       (Inr res, w') \<Rightarrow>
         (case g_body res of
            Some body \<Rightarrow> io_bind (collect_scatter_inodes s3 ss) (\<lambda>rest. io_return ((s, body) # rest)) w'
          | None \<Rightarrow> (Err Other, w'))
     | (Inl e, w') \<Rightarrow>
         if err_no_such_key e then collect_scatter_inodes s3 ss w' else (Err Other, w'))"

fun chunks :: "nat \<Rightarrow> 'a list \<Rightarrow> 'a list list" where
  "chunks n xs = (if xs = [] \<or> n = 0 then [] else take n xs # chunks n (drop n xs))"

declare chunks.simps [simp del]

fun remove_chunks :: "'w s3_api \<Rightarrow> string list list \<Rightarrow> bool \<Rightarrow> ('w, unit) io" where
  "remove_chunks s3 [] err = (if err then io_fail Interrupted else io_return ())"
| "remove_chunks s3 (keys # cs) err = (\<lambda>w.
     case delete_objs s3 keys w of
       (Inr failed, w') \<Rightarrow> remove_chunks s3 cs (err \<or> failed \<noteq> []) w'
     | (Inl _, w') \<Rightarrow> remove_chunks s3 cs True w')"

definition remove_scatter_inodes :: "'w s3_api \<Rightarrow> string list \<Rightarrow> ('w, unit) io" where
  "remove_scatter_inodes s3 delete_keys = remove_chunks s3 (chunks 1000 delete_keys) False"

record staging_config =
  root_uri :: string
  inode_file_uri :: string

definition to_dir_staging_config :: "staging_config \<Rightarrow> staging_config result" where
  "to_dir_staging_config config =
     (if ends_with (root_uri config) ''/'' then Panic
      else Ok (config\<lparr>inode_file_uri := root_uri config @ ''/inode''\<rparr>))"

definition emit_scatter_event ::
  "ext \<Rightarrow> 'w s3_api \<Rightarrow> string \<Rightarrow> string \<Rightarrow> uuid \<Rightarrow> bytes \<Rightarrow> dir_scatter_inode_op \<Rightarrow> ('w, unit) io" where
  "emit_scatter_event x s3 root filename child_uuid buf op w =
     (case new_ulid s3 w of (ul, w1) \<Rightarrow>
        (case path_encode x ul root filename child_uuid (op_u8 op) of
           Ok key \<Rightarrow>
             if op = Unknown then (Err InvalidInput, w1)
             else (case put_object s3 key buf IfNoneMatch w1 of
                     (Inr _, w2) \<Rightarrow> (Ok (), w2)
                   | (Inl e, w2) \<Rightarrow> if is_conflict e then (Ok (), w2) else (Err Other, w2))
         | Err e \<Rightarrow> (Err e, w1)
         | Panic \<Rightarrow> (Panic, w1)))"

section \<open>The compactor lease\<close>

record compact_lease_guard =
  cl_holder_id :: string
  cl_etag :: string
  cl_lease_key :: string
  cl_expires_at :: int

definition unwrap_etag :: "string option \<Rightarrow> string" where
  "unwrap_etag et = (case et of Some t \<Rightarrow> unquote t | None \<Rightarrow> [])"

definition try_take_over_compact_lease ::
  "'w s3_api \<Rightarrow> string \<Rightarrow> string \<Rightarrow> u64 \<Rightarrow> int \<Rightarrow> ('w, compact_lease_guard) io" where
  "try_take_over_compact_lease s3 lease_key holder_id ttl_ms now w =
     (case get_object s3 lease_key w of
        (Inl _, w1) \<Rightarrow> (Err ResourceBusy, w1)
      | (Inr out, w1) \<Rightarrow>
          (case g_body out of
             None \<Rightarrow> (Err Other, w1)
           | Some body \<Rightarrow>
               (case parse_lease_body body of
                  Err e \<Rightarrow> (Err e, w1)
                | Panic \<Rightarrow> (Panic, w1)
                | Ok (existing_holder, existing_expires) \<Rightarrow>
                    if existing_expires > now then (Err ResourceBusy, w1)
                    else
                      let new_expires = expiry now ttl_ms in
                      (case put_object s3 lease_key (format_lease_body holder_id new_expires)
                              (IfMatch (unwrap_etag (g_etag out))) w1 of
                         (Inr et, w2) \<Rightarrow>
                           (Ok \<lparr> cl_holder_id = holder_id, cl_etag = unwrap_etag et,
                                 cl_lease_key = lease_key, cl_expires_at = new_expires \<rparr>, w2)
                       | (Inl e, w2) \<Rightarrow>
                           if is_conflict e then (Err ResourceBusy, w2) else (Err Other, w2)))))"

definition acquire_compact_lease ::
  "ext \<Rightarrow> 'w s3_api \<Rightarrow> string \<Rightarrow> u64 \<Rightarrow> ('w, compact_lease_guard) io" where
  "acquire_compact_lease x s3 root ttl_ms w =
     (let lease_key = compact_lease_path root in
      case new_ulid s3 w of (ul, w1) \<Rightarrow>
        let holder_id = ulid_fmt x ul in
        (case clock_ms s3 w1 of (c, w2) \<Rightarrow>
           let now = unix_now_ms c; expires = expiry now ttl_ms in
           (case put_object s3 lease_key (format_lease_body holder_id expires) IfNoneMatch w2 of
              (Inr et, w3) \<Rightarrow>
                (Ok \<lparr> cl_holder_id = holder_id, cl_etag = unwrap_etag et,
                      cl_lease_key = lease_key, cl_expires_at = expires \<rparr>, w3)
            | (Inl e, w3) \<Rightarrow>
                if is_conflict e then try_take_over_compact_lease s3 lease_key holder_id ttl_ms now w3
                else (Err Other, w3))))"

text \<open>Every outcome of the conditional delete is \<open>Ok\<close>: a lease that stays behind expires.\<close>

definition release_compact_lease :: "'w s3_api \<Rightarrow> compact_lease_guard \<Rightarrow> ('w, unit) io" where
  "release_compact_lease s3 guard w =
     (case delete_obj s3 (cl_lease_key guard) (Some (cl_etag guard)) w of (_, w') \<Rightarrow> (Ok (), w'))"

section \<open>Lemmas: decoding a listing\<close>

lemma decode_objects_append:
  "decode_objects x (as @ bs) acc = res_bind (decode_objects x as acc) (decode_objects x bs)"
proof (induction as arbitrary: acc)
  case (Cons a as)
  then show ?case by (cases "decode_listed x a") (auto split: option.splits)
qed simp

lemma decode_pages_eq: "decode_pages x pages acc = decode_objects x (page_objects pages) acc"
proof (induction pages arbitrary: acc)
  case (Cons p pages)
  then have "decode_pages x pages = decode_objects x (page_objects pages)" by (intro ext)
  then show ?case by (cases p) (simp_all add: page_objects_def decode_objects_append)
qed (simp add: page_objects_def)

text \<open>Every listed object decodes: the result is the decoded scatters in order.\<close>

lemma decode_objects_Ok:
  assumes "\<And>ob. ob \<in> set obs \<Longrightarrow> decode_listed x ob = Ok (Some (f ob))"
  shows "decode_objects x obs acc = Ok (acc @ map f obs)"
  using assms by (induction obs arbitrary: acc) simp_all

section \<open>Lemmas: the lease\<close>

text \<open>
  The guard \<open>g\<close> was written at an instant \<open>w1\<close> where the lease object was absent or had expired
  by the reading \<open>now\<close>.
\<close>

definition lease_taken ::
  "('w \<Rightarrow> string \<Rightarrow> s3_object option) \<Rightarrow> string \<Rightarrow> compact_lease_guard \<Rightarrow> int \<Rightarrow> 'w \<Rightarrow> 'w \<Rightarrow> bool" where
  "lease_taken objs key g now w1 w' =
     (\<exists>ob. objs w' = (objs w1)(key \<mapsto> ob) \<and> ob_etag ob = cl_etag g \<and>
        ob_body ob = format_lease_body (cl_holder_id g) (cl_expires_at g) \<and> cl_lease_key g = key \<and>
        (objs w1 key = None \<or>
         (\<exists>ob0 h e. objs w1 key = Some ob0 \<and> parse_lease_body (ob_body ob0) = Ok (h, e) \<and> e \<le> now)))"

context object_store
begin

lemma put_etag: "map_option unquote et = Some t \<Longrightarrow> unwrap_etag et = t"
  by (auto simp: unwrap_etag_def)

lemma take_over_sound:
  assumes "try_take_over_compact_lease s3 key holder ttl now w = (r, w')"
  shows "r = Err ResourceBusy \<Longrightarrow> env w w'"
    and "r = Ok g \<Longrightarrow> \<exists>w1. env w w1 \<and> lease_taken objs key g now w1 w' \<and> cl_expires_at g = expiry now ttl"
proof -
  obtain q w1 where get: "get_object s3 key w = (q, w1)" by (cases "get_object s3 key w")
  have both: "(r = Err ResourceBusy \<longrightarrow> env w w') \<and>
    (r = Ok g \<longrightarrow> (\<exists>w1. env w w1 \<and> lease_taken objs key g now w1 w' \<and> cl_expires_at g = expiry now ttl))"
  proof (cases q)
    case (Inl e)
    with assms get get_Err [of key w e w1] show ?thesis by (auto simp: try_take_over_compact_lease_def)
  next
    case (Inr out)
    from get_Ok [OF get [unfolded Inr]] obtain ob where ob: "env w w1" "objs w1 key = Some ob"
      "map_option unquote (g_etag out) = Some (ob_etag ob)" "\<forall>b. g_body out = Some b \<longrightarrow> b = ob_body ob"
      by blast
    note et = put_etag [OF ob(3)]
    note run0 = assms [unfolded try_take_over_compact_lease_def get Inr prod.case sum.case et Let_def]
    show ?thesis
    proof (cases "\<exists>h e. g_body out = Some (ob_body ob) \<and> parse_lease_body (ob_body ob) = Ok (h, e) \<and> e \<le> now")
      case False
      have "w' = w1 \<and> (\<forall>g. r \<noteq> Ok g)"
      proof (cases "g_body out")
        case None
        with run0 show ?thesis by auto
      next
        case (Some b)
        with ob(4) have b: "g_body out = Some (ob_body ob)" by simp
        show ?thesis
        proof (cases "parse_lease_body (ob_body ob)")
          case (Ok p)
          obtain h e where p: "p = (h, e)" by (cases p)
          with False b Ok have "e > now" by force
          with run0 b Ok p show ?thesis by auto
        qed (use run0 b in auto)
      qed
      with ob(1) show ?thesis by simp
    next
      case True
      then obtain h e where body: "g_body out = Some (ob_body ob)"
        "parse_lease_body (ob_body ob) = Ok (h, e)" "e \<le> now" by blast
      let ?b = "format_lease_body holder (expiry now ttl)"
      obtain pr w2 where put: "put_object s3 key ?b (IfMatch (ob_etag ob)) w1 = (pr, w2)"
        by (cases "put_object s3 key ?b (IfMatch (ob_etag ob)) w1")
      show ?thesis
      proof (cases pr)
        case (Inl e')
        with run0 body put have "w' = w2" "r = (if is_conflict e' then Err ResourceBusy else Err Other)"
          by (simp_all split: if_splits)
        with put_Err [OF put [unfolded Inl]] ob(1) env_trans show ?thesis
          by (cases "is_conflict e'") auto
      next
        case (Inr et)
        from put_Ok [OF put [unfolded Inr]] obtain w3 ob3 where w3: "env w1 w3"
          "cond_ok (IfMatch (ob_etag ob)) (objs w3 key)" "objs w2 = (objs w3)(key \<mapsto> ob3)" "ob_body ob3 = ?b"
          "map_option unquote et = Some (ob_etag ob3)" by blast
        have run: "w' = w2" "r = Ok \<lparr> cl_holder_id = holder, cl_etag = ob_etag ob3, cl_lease_key = key,
            cl_expires_at = expiry now ttl \<rparr>"
          using run0 body put Inr put_etag [OF w3(5)] by simp_all
        from w3(2) obtain ob0 where ob0: "objs w3 key = Some ob0" "ob_etag ob0 = ob_etag ob"
          by (auto split: option.splits)
        have "ob_body ob0 = ob_body ob" using etag_body [OF ob0(1) ob(2) ob0(2)] .
        with ob0 body w3 run have "r = Ok g \<Longrightarrow> lease_taken objs key g now w3 w' \<and> cl_expires_at g = expiry now ttl"
          unfolding lease_taken_def by auto
        with run env_trans [OF ob(1) w3(1)] show ?thesis by blast
      qed
    qed
  qed
  from both show "r = Err ResourceBusy \<Longrightarrow> env w w'" by blast
  from both show "r = Ok g \<Longrightarrow> \<exists>w1. env w w1 \<and> lease_taken objs key g now w1 w' \<and> cl_expires_at g = expiry now ttl"
    by blast
qed

lemma acquire_sound:
  assumes "acquire_compact_lease x s3 root ttl w = (r, w')"
  shows "r = Err ResourceBusy \<longrightarrow> env w w'"
    and "r = Ok g \<longrightarrow> (\<exists>w1 now. env w w1 \<and> lease_taken objs (compact_lease_path root) g now w1 w' \<and>
      cl_expires_at g = expiry now ttl)"
proof -
  let ?key = "compact_lease_path root"
  obtain ul w1 where ul: "new_ulid s3 w = (ul, w1)" by (cases "new_ulid s3 w")
  obtain c w2 where c: "clock_ms s3 w1 = (c, w2)" by (cases "clock_ms s3 w1")
  have e2: "env w w2" using ulid_env [OF ul] clock_env [OF c] env_trans by blast
  let ?now = "unix_now_ms c"
  let ?b = "format_lease_body (ulid_fmt x ul) (expiry ?now ttl)"
  obtain pr w3 where put: "put_object s3 ?key ?b IfNoneMatch w2 = (pr, w3)"
    by (cases "put_object s3 ?key ?b IfNoneMatch w2")
  have both: "(r = Err ResourceBusy \<longrightarrow> env w w') \<and>
    (r = Ok g \<longrightarrow> (\<exists>w1 now. env w w1 \<and> lease_taken objs ?key g now w1 w' \<and> cl_expires_at g = expiry now ttl))"
  proof (cases pr)
    case (Inr et)
    from put_Ok [OF put [unfolded Inr]] obtain w4 ob where w4: "env w2 w4" "objs w4 ?key = None"
      "objs w3 = (objs w4)(?key \<mapsto> ob)" "ob_body ob = ?b" "unwrap_etag et = ob_etag ob" using put_etag by force
    have "w' = w3" "r = Ok \<lparr> cl_holder_id = ulid_fmt x ul, cl_etag = ob_etag ob, cl_lease_key = ?key,
        cl_expires_at = expiry ?now ttl \<rparr>"
      using assms ul c put Inr w4(5) by (simp_all add: acquire_compact_lease_def Let_def)
    with w4 have "r = Ok g \<Longrightarrow> lease_taken objs ?key g ?now w4 w' \<and> cl_expires_at g = expiry ?now ttl"
      unfolding lease_taken_def by auto
    with \<open>r = _\<close> env_trans [OF e2 w4(1)] show ?thesis by blast
  next
    case (Inl e)
    show ?thesis
    proof (cases "is_conflict e")
      case True
      with put_Err [OF put [unfolded Inl]] e2 env_trans have e3: "env w w3" by blast
      have "try_take_over_compact_lease s3 ?key (ulid_fmt x ul) ttl ?now w3 = (r, w')"
        using assms ul c put Inl True by (simp add: acquire_compact_lease_def Let_def)
      from take_over_sound [OF this] e3 env_trans show ?thesis by blast
    next
      case False
      with assms ul c put Inl show ?thesis by (auto simp: acquire_compact_lease_def Let_def)
    qed
  qed
  from both show "r = Err ResourceBusy \<longrightarrow> env w w'" by blast
  from both show "r = Ok g \<longrightarrow> (\<exists>w1 now. env w w1 \<and> lease_taken objs ?key g now w1 w' \<and>
      cl_expires_at g = expiry now ttl)" by blast
qed

lemma release_sound:
  assumes "release_compact_lease s3 g w = (r, w')"
  shows "r = Ok ()"
    and "env w w' \<or> (\<exists>w1. env w w1 \<and> (\<forall>ob. objs w1 (cl_lease_key g) = Some ob \<longrightarrow> ob_etag ob = cl_etag g) \<and>
      objs w' = (objs w1)(cl_lease_key g := None))"
proof -
  obtain q where q: "delete_obj s3 (cl_lease_key g) (Some (cl_etag g)) w = (q, w')" "r = Ok ()"
    using assms by (auto simp: release_compact_lease_def split: prod.splits)
  then show "r = Ok ()" by simp
  show "env w w' \<or> (\<exists>w1. env w w1 \<and> (\<forall>ob. objs w1 (cl_lease_key g) = Some ob \<longrightarrow> ob_etag ob = cl_etag g) \<and>
      objs w' = (objs w1)(cl_lease_key g := None))"
  proof (cases q)
    case (Inl e)
    from delete_Err [OF q(1) [unfolded Inl]] show ?thesis by blast
  next
    case (Inr u)
    from delete_Ok [OF q(1) [unfolded Inr]] show ?thesis by blast
  qed
qed

end

section \<open>Lemmas: emitting, fetching, deleting\<close>

lemma concat_chunks: "0 < n \<Longrightarrow> concat (chunks n xs) = xs"
proof (induction n xs rule: chunks.induct)
  case (1 n xs)
  then show ?case by (subst chunks.simps) simp
qed

lemma chunks_le: "c \<in> set (chunks n xs) \<Longrightarrow> length c \<le> n"
proof (induction n xs rule: chunks.induct)
  case (1 n xs)
  then show ?case by (subst (asm) (2) chunks.simps) (auto split: if_splits)
qed

text \<open>A scatter object written into the directory at \<open>root\<close>, at a key that was free.\<close>

definition scatter_written ::
  "ext \<Rightarrow> ('w \<Rightarrow> string \<Rightarrow> s3_object option) \<Rightarrow> string \<Rightarrow> string \<Rightarrow> uuid \<Rightarrow> bytes \<Rightarrow> dir_scatter_inode_op \<Rightarrow>
     'w \<Rightarrow> 'w \<Rightarrow> bool" where
  "scatter_written x objs root fn u buf op w1 w' =
     (\<exists>ul key ob. path_encode x ul root fn u (op_u8 op) = Ok key \<and> objs w1 key = None \<and>
        objs w' = (objs w1)(key \<mapsto> ob) \<and> ob_body ob = buf)"

context object_store
begin

lemma emit_sound:
  assumes run: "emit_scatter_event x s3 root fn u buf op w = (r, w')"
  shows "env w w' \<or> op \<noteq> Unknown \<and> (\<exists>w1. env w w1 \<and> scatter_written x objs root fn u buf op w1 w')"
proof -
  obtain ul w1 where ul: "new_ulid s3 w = (ul, w1)" by (cases "new_ulid s3 w")
  note e1 = ulid_env [OF ul]
  show ?thesis
  proof (cases "\<exists>key. path_encode x ul root fn u (op_u8 op) = Ok key \<and> op \<noteq> Unknown")
    case True
    then obtain key where key: "path_encode x ul root fn u (op_u8 op) = Ok key" "op \<noteq> Unknown" by blast
    obtain pr w2 where put: "put_object s3 key buf IfNoneMatch w1 = (pr, w2)"
      by (cases "put_object s3 key buf IfNoneMatch w1")
    have w': "w' = w2" using run ul key put
      by (auto simp: emit_scatter_event_def split: sum.splits if_splits)
    have "env w1 w2 \<or> (\<exists>w3 ob. env w1 w3 \<and> objs w3 key = None \<and> objs w2 = (objs w3)(key \<mapsto> ob) \<and> ob_body ob = buf)"
    proof (cases pr)
      case (Inl e)
      from put_Err [OF put [unfolded Inl]] show ?thesis by auto
    next
      case (Inr et)
      from put_Ok [OF put [unfolded Inr]] show ?thesis by auto
    qed
    then show ?thesis unfolding w' scatter_written_def using env_trans [OF e1] key by blast
  next
    case False
    then have "w' = w1" using run ul
      by (auto simp: emit_scatter_event_def split: result.splits)
    with e1 show ?thesis by simp
  qed
qed

lemma emit_unknown: "emit_scatter_event x s3 root fn u buf Unknown w = (r, w') \<Longrightarrow> r = Err InvalidInput \<or> r = Panic"
  by (auto simp: emit_scatter_event_def path_encode_def Let_def split: prod.splits if_splits)

end

context object_store_quiet
begin

lemma collect_sound:
  "collect_scatter_inodes s3 ss w = (r, w') \<Longrightarrow> objs w' = objs w \<and>
     (\<forall>v. r = Ok v \<longrightarrow> v = map (\<lambda>s. (s, ob_body (the (objs w (s_key s)))))
        (filter (\<lambda>s. objs w (s_key s) \<noteq> None) ss))"
proof (induction ss arbitrary: w r)
  case Nil
  then show ?case by (auto simp: io_return_def)
next
  case (Cons s ss)
  obtain q w1 where get: "get_object s3 (s_key s) w = (q, w1)" by (cases "get_object s3 (s_key s) w")
  show ?case
  proof (cases q)
    case (Inr out)
    from get_Ok [OF get [unfolded Inr]] obtain ob where ob: "env w w1" "objs w1 (s_key s) = Some ob"
      "\<forall>b. g_body out = Some b \<longrightarrow> b = ob_body ob" by blast
    have w1: "objs w1 = objs w" using env_quiet [OF ob(1)] .
    show ?thesis
    proof (cases "g_body out")
      case None
      with Cons.prems get Inr w1 show ?thesis by auto
    next
      case (Some b)
      obtain r2 w2 where rest: "collect_scatter_inodes s3 ss w1 = (r2, w2)" by (cases "collect_scatter_inodes s3 ss w1")
      note IH = Cons.IH [of w1 r2]
      have run: "(r, w') = io_bind (\<lambda>_. (r2, w2)) (\<lambda>rest. io_return ((s, b) # rest)) w1"
        using Cons.prems get Inr Some rest by (simp add: io_bind_def)
      then have "w' = w2" by (cases r2) (simp_all add: io_bind_def io_return_def)
      with IH rest w1 have IH': "objs w' = objs w" "\<And>v. r2 = Ok v \<Longrightarrow>
          v = map (\<lambda>s. (s, ob_body (the (objs w (s_key s))))) (filter (\<lambda>s. objs w (s_key s) \<noteq> None) ss)"
        by simp_all
      have b: "b = ob_body (the (objs w (s_key s)))" "objs w (s_key s) \<noteq> None"
        using ob Some w1 by simp_all
      show ?thesis
        using run IH' b by (cases r2) (auto simp: io_bind_def io_return_def)
    qed
  next
    case (Inl e)
    from get_Err [OF get [unfolded Inl]] have e: "objs w1 = objs w" "err_no_such_key e \<longrightarrow> objs w (s_key s) = None"
      using env_quiet by auto
    show ?thesis
    proof (cases "err_no_such_key e")
      case True
      with Cons.prems get Inl have "collect_scatter_inodes s3 ss w1 = (r, w')" by simp
      from Cons.IH [OF this] e True show ?thesis by simp
    next
      case False
      with Cons.prems get Inl e show ?thesis by auto
    qed
  qed
qed

lemma remove_chunks_sound:
  "remove_chunks s3 cs err w = (r, w') \<Longrightarrow>
     (\<exists>D. D \<subseteq> set (concat cs) \<and> objs w' = objs w |` (- D)) \<and>
     (r = Ok () \<longrightarrow> \<not> err \<and> objs w' = objs w |` (- set (concat cs)))"
proof (induction cs arbitrary: err w)
  case Nil
  then show ?case by (auto simp: io_fail_def io_return_def split: if_splits intro!: exI [of _ "{}"])
next
  case (Cons c cs)
  obtain q w1 where del: "delete_objs s3 c w = (q, w1)" by (cases "delete_objs s3 c w")
  show ?case
  proof (cases q)
    case (Inl e)
    from delete_objs_Err [OF del [unfolded Inl]] env_quiet obtain D1
      where D1: "D1 \<subseteq> set c" "objs w1 = objs w |` (- D1)" by metis
    from Cons.prems del Inl have "remove_chunks s3 cs True w1 = (r, w')" by simp
    from Cons.IH [OF this] obtain D where D: "D \<subseteq> set (concat cs)" "objs w' = objs w1 |` (- D)" "r \<noteq> Ok ()"
      by blast
    show ?thesis using D D1 by (intro conjI exI [of _ "D1 \<union> D"]) auto
  next
    case (Inr failed)
    from delete_objs_Ok [OF del [unfolded Inr]] env_quiet
    have f: "objs w1 = objs w |` (- (set c - set failed))" "set failed \<subseteq> set c" by metis+
    from Cons.prems del Inr have "remove_chunks s3 cs (err \<or> failed \<noteq> []) w1 = (r, w')" by simp
    from Cons.IH [OF this] obtain D where D: "D \<subseteq> set (concat cs)" "objs w' = objs w1 |` (- D)"
      "r = Ok () \<longrightarrow> \<not> err \<and> failed = [] \<and> objs w' = objs w1 |` (- set (concat cs))" by blast
    have "objs w' = objs w |` (- ((set c - set failed) \<union> D))" using D f by auto
    moreover have "r = Ok () \<longrightarrow> \<not> err \<and> objs w' = objs w |` (- set (concat (c # cs)))"
      using D(3) f by auto
    ultimately show ?thesis using D(1) by (intro conjI exI [of _ "(set c - set failed) \<union> D"]) auto
  qed
qed

lemma remove_scatter_sound:
  assumes "remove_scatter_inodes s3 ks w = (r, w')"
  shows "\<exists>D. D \<subseteq> set ks \<and> objs w' = objs w |` (- D)"
    and "r = Ok () \<longrightarrow> objs w' = objs w |` (- set ks)"
  using remove_chunks_sound [OF assms [unfolded remove_scatter_inodes_def]] concat_chunks [of 1000 ks]
  by simp_all

end

section \<open>Lemmas: the scatter folder of a directory\<close>

text \<open>A key that \<open>emit_scatter_event\<close> can have written into the directory at \<open>root\<close>.\<close>

definition scatter_key_ok :: "ext \<Rightarrow> string \<Rightarrow> string \<Rightarrow> bool" where
  "scatter_key_ok x root k =
     (\<exists>ul fn u op. path_encode x ul root fn u (op_u8 op) = Ok k \<and> fn \<noteq> [] \<and> utf8_valid fn \<and> op \<noteq> Unknown)"

definition folder_ok :: "ext \<Rightarrow> string \<Rightarrow> (string \<Rightarrow> s3_object option) \<Rightarrow> bool" where
  "folder_ok x root m =
     (CHR ''!'' \<notin> set root \<and>
      (\<forall>k ob. m k = Some ob \<longrightarrow> prefix (scatter_inodes_path root) k \<longrightarrow> scatter_key_ok x root k))"

definition pending :: "ext \<Rightarrow> (string \<Rightarrow> s3_object option) \<Rightarrow> string \<Rightarrow> dir_scatter_inode set" where
  "pending x m p = {s. \<exists>k ob. m k = Some ob \<and> prefix p k \<and> path_decode x k (ob_mtime ob) = Ok s}"

lemma scatter_key_suffix:
  "path_encode x ul root fn u op = Ok k \<Longrightarrow> ends_with k DEFAULT_DIR_INODE_SUFFIX \<or> ends_with k DEFAULT_DIR_TOMBSTONE_SUFFIX"
  unfolding path_encode_Ok
  by (auto simp: ends_with_def scatter_suffix_def suffix_def)

lemma prefix_scatter_path: "prefix (scatter_inodes_path root @ p) k \<longleftrightarrow>
    (\<exists>z. k = (root @ ''/'') @ CHR ''!'' # ''/'' @ p @ z)"
  by (auto simp: scatter_inodes_path_def DEFAULT_DIR_INODE_SCATTER_FOLDER_def prefix_def)

locale dir_store = object_store_quiet s3 objs env + codecs x
  for s3 :: "'w s3_api" and objs env and x :: ext
begin

lemma scatter_key_decode:
  assumes "CHR ''!'' \<notin> set root" and "scatter_key_ok x root k"
  obtains s where "path_decode x k t = Ok s" "s_key s = k" "s_last_modified s = t" "s_op s \<noteq> Unknown"
    "s_filename s \<noteq> []" "utf8_valid (s_filename s)"
    "\<And>fn. prefix (scatter_inodes_path root @ encode_filename x fn @ ''/'') k \<longleftrightarrow> fn = s_filename s"
    "decode_listed x \<lparr> lo_key = Some k, lo_last_modified = Some t \<rparr> = Ok (Some s)"
proof -
  from assms(2) obtain ul fn u op where k: "path_encode x ul root fn u (op_u8 op) = Ok k" "fn \<noteq> []"
    "utf8_valid fn" "op \<noteq> Unknown" by (auto simp: scatter_key_ok_def)
  note dec = path_roundtrip [OF assms(1) k(2,3) op_u8_less k(1), of t]
  have pre: "prefix (scatter_inodes_path root @ encode_filename x fn' @ ''/'') k \<longleftrightarrow> fn' = fn" for fn'
  proof -
    have keq: "k = (root @ ''/'') @ CHR ''!'' # ''/'' @ scatter_stem x ul fn u (op_u8 op) @ scatter_suffix (op_u8 op)"
      using k(1) by (simp add: path_encode_Ok)
    have "prefix (scatter_inodes_path root @ encode_filename x fn' @ ''/'') k \<longleftrightarrow>
        prefix (encode_filename x fn' @ CHR ''/'' # []) (encode_filename x fn @ CHR ''/'' #
          (ulid_fmt x ul @ CHR ''_'' # uuid_fmt x u @ CHR ''_'' # show_nat (op_u8 op) @ scatter_suffix (op_u8 op)))"
      unfolding keq scatter_stem_def by (simp add: scatter_inodes_path_def DEFAULT_DIR_INODE_SCATTER_FOLDER_def)
    moreover have "fn' = fn" if "prefix (encode_filename x fn' @ CHR ''/'' # []) (encode_filename x fn @ CHR ''/'' # t)" for t
      by (rule encode_filename_inj, rule prefix_up_to_sep [OF that]) (rule encode_filename_no, simp)+
    ultimately show ?thesis by auto
  qed
  show thesis
  proof (rule that [OF dec])
    show "decode_listed x \<lparr> lo_key = Some k, lo_last_modified = Some t \<rparr> =
        Ok (Some \<lparr> s_key = k, s_op = from_u8 (op_u8 op), s_ulid = ul, s_uuid = u, s_filename = fn,
          s_last_modified = t \<rparr>)"
      using scatter_key_suffix [OF k(1)] dec by (auto simp: decode_listed_def)
  qed (use k pre in simp_all)
qed

lemma decode_folder_object:
  assumes ok: "folder_ok x root m" and p: "prefix (scatter_inodes_path root) p"
    and k: "m k = Some b" "prefix p k"
  obtains s where "path_decode x k (ob_mtime b) = Ok s" "s_key s = k"
    "decode_listed x \<lparr> lo_key = Some k, lo_last_modified = Some (ob_mtime b) \<rparr> = Ok (Some s)"
proof -
  have "prefix (scatter_inodes_path root) k" using p k(2) by (rule prefix_order.trans)
  with ok k(1) have "scatter_key_ok x root k" "CHR ''!'' \<notin> set root" by (simp_all add: folder_ok_def)
  from scatter_key_decode [OF this(2,1), of "ob_mtime b"] that show thesis by metis
qed

text \<open>What a listed object decodes to.\<close>

definition decoded :: "list_object \<Rightarrow> dir_scatter_inode" where
  "decoded ob = (case decode_listed x ob of Ok (Some s) \<Rightarrow> s | _ \<Rightarrow> undefined)"

lemma listed_decoded:
  assumes ok: "folder_ok x root m" and p: "prefix (scatter_inodes_path root) p" and l: "listed m p obs"
    and ob: "ob \<in> set obs"
  shows "decode_listed x ob = Ok (Some (decoded ob))" "lo_key ob = Some (s_key (decoded ob))"
    "decoded ob \<in> pending x m p"
proof -
  from l ob obtain k b where k: "ob = \<lparr> lo_key = Some k, lo_last_modified = Some (ob_mtime b) \<rparr>"
    "m k = Some b" "prefix p k" unfolding listed_def by blast
  from decode_folder_object [OF ok p k(2,3)] obtain s where s: "path_decode x k (ob_mtime b) = Ok s"
    "s_key s = k" "decode_listed x \<lparr> lo_key = Some k, lo_last_modified = Some (ob_mtime b) \<rparr> = Ok (Some s)" .
  have d: "decoded ob = s" using s(3) k(1) by (simp add: decoded_def)
  show "decode_listed x ob = Ok (Some (decoded ob))" "lo_key ob = Some (s_key (decoded ob))"
    using d s k(1) by simp_all
  show "decoded ob \<in> pending x m p" unfolding pending_def using d s(1) k by blast
qed

lemma listed_pending:
  assumes ok: "folder_ok x root m" and p: "prefix (scatter_inodes_path root) p" and l: "listed m p obs"
  shows "set (map decoded obs) = pending x m p" "distinct (map s_key (map decoded obs))"
proof -
  have "s \<in> decoded ` set obs" if "s \<in> pending x m p" for s
  proof -
    from that obtain k b where k: "m k = Some b" "prefix p k" "path_decode x k (ob_mtime b) = Ok s"
      by (auto simp: pending_def)
    let ?ob = "\<lparr> lo_key = Some k, lo_last_modified = Some (ob_mtime b) \<rparr>"
    have ob: "?ob \<in> set obs" using l k unfolding listed_def by blast
    from decode_folder_object [OF ok p k(1,2)] k(3) have "decode_listed x ?ob = Ok (Some s)"
      by (metis result.inject(1))
    then have "decoded ?ob = s" by (simp add: decoded_def)
    with ob show ?thesis by blast
  qed
  then show "set (map decoded obs) = pending x m p" using listed_decoded(3) [OF assms] by auto
  have eq: "map Some (map s_key (map decoded obs)) = map lo_key obs"
    using listed_decoded(2) [OF assms] by simp
  have "distinct (map Some (map s_key (map decoded obs)))"
    unfolding eq using l unfolding listed_def by blast
  then show "distinct (map s_key (map decoded obs))" by (metis distinct_map)
qed

lemma list_scatter_sound:
  assumes ok: "folder_ok x root (objs w)" and p: "prefix (scatter_inodes_path root) p"
    and pages: "pages_ok (fst (list_objects s3 p w))"
    and run: "list_scatter_with_prefix x s3 p w = (r, w')"
  shows "\<exists>ss. r = Ok ss \<and> set ss = pending x (objs w) p \<and> distinct (map s_key ss)" and "objs w' = objs w"
proof -
  obtain pgs w1 where l: "list_objects s3 p w = (pgs, w1)" by (cases "list_objects s3 p w")
  from run l have r: "r = decode_objects x (page_objects pgs) []" "w' = w1"
    by (simp_all add: list_scatter_with_prefix_def decode_pages_eq)
  show "objs w' = objs w" using env_quiet [OF list_env [OF l]] r(2) by simp
  have listed: "listed (objs w) p (page_objects pgs)" using list_complete [OF l] pages l by simp
  have "r = Ok (map decoded (page_objects pgs))"
    unfolding r(1) using decode_objects_Ok [of "page_objects pgs" x decoded "[]"]
      listed_decoded(1) [OF ok p listed] by simp
  with listed_pending [OF ok p listed]
  show "\<exists>ss. r = Ok ss \<and> set ss = pending x (objs w) p \<and> distinct (map s_key ss)" by blast
qed

lemma pending_name:
  assumes "folder_ok x root m"
  shows "pending x m (scatter_inodes_path root @ encode_filename x fn @ ''/'') =
    {s \<in> pending x m (scatter_inodes_path root). s_filename s = fn}"
proof -
  have bang: "CHR ''!'' \<notin> set root" using assms by (simp add: folder_ok_def)
  have iff: "prefix (scatter_inodes_path root @ encode_filename x fn @ ''/'') k \<longleftrightarrow>
      prefix (scatter_inodes_path root) k \<and> s_filename s = fn"
    if "m k = Some ob" "path_decode x k t = Ok s" for k ob t s
  proof (cases "prefix (scatter_inodes_path root) k")
    case True
    then have "scatter_key_ok x root k" using assms that(1) by (auto simp: folder_ok_def)
    from scatter_key_decode [OF bang this, of t] that(2) True show ?thesis by (metis result.inject(1))
  next
    case False
    then show ?thesis by (auto dest: append_prefixD)
  qed
  then show ?thesis unfolding pending_def by blast
qed

end

context codecs
begin

lemma lease_of_ulid:
  assumes "is_i64 e"
  shows "parse_lease_body (format_lease_body (ulid_fmt x l) e) = Ok (ulid_fmt x l, e)"
proof (rule lease_body_roundtrip)
  have "c \<in> set ulid_alphabet \<Longrightarrow> (of_char c :: nat) < 0x80" for c by (auto simp: ulid_alphabet_def)
  then show "utf8_valid (ulid_fmt x l)" using ulid_chars [of l] by (intro ascii_utf8_valid) (auto simp: ascii_def list_all_iff)
  show "CHR 0x0A \<notin> set (ulid_fmt x l)" by (rule ulid_fmt_no) simp
  have "CHR 0x0D \<notin> set (ulid_fmt x l)" by (rule ulid_fmt_no) simp
  then show "ulid_fmt x l = [] \<or> last (ulid_fmt x l) \<noteq> CHR 0x0D" using last_in_set by metis
qed (rule assms)

end

text \<open>On a store whose calls succeed, a lease that is absent or has expired can be taken.\<close>

context object_store_reliable
begin

lemma take_over_expired:
  assumes ob: "objs w key = Some ob" and old: "parse_lease_body (ob_body ob) = Ok (h, e)" "e \<le> now"
  shows "\<exists>g w'. try_take_over_compact_lease s3 key holder ttl now w = (Ok g, w')"
proof -
  from get_hit [OF ob] obtain out w1 where g: "get_object s3 key w = (Inr out, w1)" "g_body out = Some (ob_body ob)" by blast
  from get_Ok [OF g(1)] env_quiet [of w w1] ob put_etag have "cond_ok (IfMatch (unwrap_etag (g_etag out))) (objs w1 key)" by auto
  from put_hit [OF this] obtain et w2 where
    "put_object s3 key (format_lease_body holder (expiry now ttl)) (IfMatch (unwrap_etag (g_etag out))) w1 = (Inr et, w2)" by blast
  with g old show ?thesis by (simp add: try_take_over_compact_lease_def Let_def)
qed

lemma acquire_available:
  assumes t: "new_ulid s3 w = (ul, w1)" "clock_ms s3 w1 = (c, w2)"
    and old: "\<And>ob. objs w (compact_lease_path root) = Some ob \<Longrightarrow> \<exists>h e. parse_lease_body (ob_body ob) = Ok (h, e) \<and> e \<le> unix_now_ms c"
  shows "\<exists>g w'. acquire_compact_lease x s3 root ttl w = (Ok g, w')"
proof -
  let ?key = "compact_lease_path root" and ?now = "unix_now_ms c"
  let ?b = "format_lease_body (ulid_fmt x ul) (expiry ?now ttl)"
  have o2: "objs w2 = objs w" using env_quiet [OF env_trans [OF ulid_env [OF t(1)] clock_env [OF t(2)]]] .
  show ?thesis
  proof (cases "objs w ?key")
    case None
    with put_hit [of IfNoneMatch w2 ?key ?b] o2 t show ?thesis by (auto simp: acquire_compact_lease_def Let_def)
  next
    case (Some ob)
    with put_miss [of IfNoneMatch w2 ?key ?b] o2 obtain e w3 where p: "put_object s3 ?key ?b IfNoneMatch w2 = (Inl e, w3)" "is_conflict e"
      by auto
    from put_Err [OF p(1)] p(2) env_quiet o2 Some have "objs w3 ?key = Some ob" by auto
    with old [OF Some] take_over_expired [of w3 ?key ob] obtain g w' where
      "try_take_over_compact_lease s3 ?key (ulid_fmt x ul) ttl ?now w3 = (Ok g, w')" by blast
    with p t show ?thesis by (auto simp: acquire_compact_lease_def Let_def)
  qed
qed

end

interpretation mem_dir: dir_store mem_s3 mem_objs mem_env ref_ext
  by unfold_locales

section \<open>Properties\<close>

text \<open>C9. The compactor lease excludes: \<open>acquire_compact_lease\<close> succeeds only by writing the lease object at
  an instant when it was absent or had expired by the caller's clock, whatever other clients do
  meanwhile, and the guard describes the object written; a busy answer wrote nothing.\<close>

theorem compact_lease_exclusive:
  assumes "object_store s3 objs env" and "acquire_compact_lease x s3 root ttl w = (r, w')"
  shows "(r = Err ResourceBusy \<longrightarrow> env w w') \<and>
    (\<forall>g. r = Ok g \<longrightarrow> (\<exists>w1 now. env w w1 \<and> lease_taken objs (compact_lease_path root) g now w1 w' \<and>
      cl_expires_at g = expiry now ttl))"
  using object_store.acquire_sound [OF assms] by blast

definition lease_world :: mem_world where
  "lease_world = \<lparr> mw_objs = [], mw_now = 5, mw_next = 0 \<rparr>"

lemma lease_world_acquire:
  "\<exists>g. acquire_compact_lease ref_ext mem_s3 ''DIR/p'' 60000 lease_world =
     (Ok g, snd (acquire_compact_lease ref_ext mem_s3 ''DIR/p'' 60000 lease_world))"
  by (simp add: acquire_compact_lease_def Let_def lease_world_def mem_put_def mem_objs_def)

theorem compact_lease_exclusive_witness:
  "\<exists>g w1 now. fst (acquire_compact_lease ref_ext mem_s3 ''DIR/p'' 60000 lease_world) = Ok g \<and>
     lease_taken mem_objs (compact_lease_path ''DIR/p'') g now w1
       (snd (acquire_compact_lease ref_ext mem_s3 ''DIR/p'' 60000 lease_world))"
proof -
  from lease_world_acquire obtain g where g: "acquire_compact_lease ref_ext mem_s3 ''DIR/p'' 60000 lease_world =
      (Ok g, snd (acquire_compact_lease ref_ext mem_s3 ''DIR/p'' 60000 lease_world))" by blast
  from compact_lease_exclusive [OF mem_store.object_store_axioms g] obtain w1 now where
    "lease_taken mem_objs (compact_lease_path ''DIR/p'') g now w1
       (snd (acquire_compact_lease ref_ext mem_s3 ''DIR/p'' 60000 lease_world))" by blast
  moreover have "fst (acquire_compact_lease ref_ext mem_s3 ''DIR/p'' 60000 lease_world) = Ok g"
    using g by (metis fst_conv)
  ultimately show ?thesis by blast
qed

text \<open>C10. A crashed compactor does not block compaction for ever: on a store whose calls succeed, the lease can
  be acquired whenever no lease object exists or the one left behind, as \<open>format_lease_body\<close> wrote it, has
  expired by the caller's clock.\<close>

theorem compact_lease_available:
  assumes "object_store_reliable s3 objs env" and "codecs x" and "new_ulid s3 w = (ul, w1)" and "clock_ms s3 w1 = (c, w2)"
    and "\<And>ob. objs w (compact_lease_path root) = Some ob \<Longrightarrow>
      \<exists>ul' e. ob_body ob = format_lease_body (ulid_fmt x ul') e \<and> is_i64 e \<and> e \<le> unix_now_ms c"
  shows "\<exists>g w'. acquire_compact_lease x s3 root ttl w = (Ok g, w') \<and> cl_lease_key g = compact_lease_path root \<and>
    (\<exists>ob. objs w' (compact_lease_path root) = Some ob \<and> ob_etag ob = cl_etag g)"
proof -
  have st: "object_store s3 objs env"
    using assms(1) by (simp add: object_store_reliable_def object_store_quiet_def)
  have "\<exists>h e. parse_lease_body (ob_body ob) = Ok (h, e) \<and> e \<le> unix_now_ms c" if "objs w (compact_lease_path root) = Some ob" for ob
    using assms(5) [OF that] codecs.lease_of_ulid [OF assms(2)] by auto
  from object_store_reliable.acquire_available [OF assms(1,3,4) this]
  obtain g w' where run: "acquire_compact_lease x s3 root ttl w = (Ok g, w')" by blast
  from object_store.acquire_sound(2) [OF st run, of g] obtain w1 now where
    "lease_taken objs (compact_lease_path root) g now w1 w'" by blast
  then show ?thesis using run by (auto simp: lease_taken_def)
qed

text \<open>A lease that expired at 3 was left behind, the time is 5.\<close>

definition stale_world :: mem_world where
  "stale_world = \<lparr> mw_objs = [(compact_lease_path ''DIR/p'', format_lease_body (ulid_fmt ref_ext 9) 3, 1)], mw_now = 5, mw_next = 0 \<rparr>"

theorem compact_lease_available_witness:
  "\<exists>g w'. acquire_compact_lease ref_ext mem_s3 ''DIR/p'' 60000 stale_world = (Ok g, w') \<and> mem_objs stale_world (cl_lease_key g) \<noteq> None"
proof -
  obtain ul w1 where ul: "new_ulid mem_s3 stale_world = (ul, w1)" by (cases "new_ulid mem_s3 stale_world")
  obtain c w2 where c: "clock_ms mem_s3 w1 = (c, w2)" by (cases "clock_ms mem_s3 w1")
  have now: "unix_now_ms c = 5" using ul c by (auto simp: stale_world_def unix_now_ms_def i64_max_def)
  have old: "mem_objs stale_world (compact_lease_path ''DIR/p'') =
      Some \<lparr> ob_body = format_lease_body (ulid_fmt ref_ext 9) 3, ob_etag = mem_etag (format_lease_body (ulid_fmt ref_ext 9) 3), ob_mtime = 1 \<rparr>"
    by (simp add: mem_objs_def stale_world_def)
  have "is_i64 3" by (simp add: is_i64_def i64_min_def i64_max_def)
  then have "\<exists>ul' e. ob_body ob = format_lease_body (ulid_fmt ref_ext ul') e \<and> is_i64 e \<and> e \<le> unix_now_ms c"
    if "mem_objs stale_world (compact_lease_path ''DIR/p'') = Some ob" for ob
    using that unfolding old now by (intro exI [of _ 9] exI [of _ 3]) auto
  from compact_lease_available [OF mem_rel.object_store_reliable_axioms refc.codecs_axioms ul c this, where ttl = 60000]
  show ?thesis using old by fastforce
qed

text \<open>Releasing a lease never fails and never removes another holder's lease: the object it deletes,
  if any, carries the ETag of the guard.\<close>

theorem compact_lease_release_own:
  assumes "object_store s3 objs env" and "release_compact_lease s3 g w = (r, w')"
  shows "r = Ok () \<and> (env w w' \<or>
    (\<exists>w1. env w w1 \<and> (\<forall>ob. objs w1 (cl_lease_key g) = Some ob \<longrightarrow> ob_etag ob = cl_etag g) \<and>
      objs w' = (objs w1)(cl_lease_key g := None)))"
  using object_store.release_sound [OF assms] by blast

theorem compact_lease_release_own_witness:
  "fst (release_compact_lease mem_s3
     \<lparr> cl_holder_id = ''h'', cl_etag = ''aa'', cl_lease_key = ''k'', cl_expires_at = 9 \<rparr> lease_world) = Ok ()"
  using compact_lease_release_own [OF mem_store.object_store_axioms prod.collapse [symmetric],
      of "\<lparr> cl_holder_id = ''h'', cl_etag = ''aa'', cl_lease_key = ''k'', cl_expires_at = 9 \<rparr>" lease_world] by simp

text \<open>C31. Listing is exact: when no page of the LIST fails, \<open>list_scatter_inodes\<close> returns every scatter
  object of the directory once, decoded; the scoped listing of one name returns exactly those of
  that name.\<close>

theorem list_scatter_exact:
  assumes "dir_store s3 objs env x" and "folder_ok x root (objs w)"
    and "pages_ok (fst (list_objects s3 (scatter_inodes_path root) w))"
    and "pages_ok (fst (list_objects s3 (scatter_inodes_path root @ encode_filename x fn @ ''/'') w))"
  shows "(\<exists>ss. fst (list_scatter_inodes x s3 root w) = Ok ss \<and> distinct (map s_key ss) \<and>
      set ss = pending x (objs w) (scatter_inodes_path root)) \<and>
    (\<exists>ss. fst (list_scatter_inodes_for_name x s3 root fn w) = Ok ss \<and> distinct (map s_key ss) \<and>
      set ss = {s \<in> pending x (objs w) (scatter_inodes_path root). s_filename s = fn})"
  using dir_store.list_scatter_sound(1) [OF assms(1,2) _ assms(3) prod.collapse [symmetric]]
    dir_store.list_scatter_sound(1) [OF assms(1,2) _ assms(4) prod.collapse [symmetric]]
    dir_store.pending_name [OF assms(1,2), of fn]
  unfolding list_scatter_inodes_def list_scatter_inodes_for_name_def by auto

text \<open>A folder with a create of one name and a pre-delete marker of another.\<close>

lemma two_scatters:
  assumes "w = \<lparr> mw_objs = [(ka, [], 5), (kb, [], 6)], mw_now = 7, mw_next = 0 \<rparr>"
    and a: "path_encode ref_ext 1 ''DIR/p'' ''a'' 7 (op_u8 Create) = Ok ka"
    and b: "path_encode ref_ext 2 ''DIR/p'' ''b'' 8 (op_u8 PreDelete) = Ok kb"
  shows "folder_ok ref_ext ''DIR/p'' (mem_objs w)"
    "pending ref_ext (mem_objs w) (scatter_inodes_path ''DIR/p'') =
      {\<lparr> s_key = ka, s_op = Create, s_ulid = 1, s_uuid = 7, s_filename = ''a'', s_last_modified = 5 \<rparr>,
       \<lparr> s_key = kb, s_op = PreDelete, s_ulid = 2, s_uuid = 8, s_filename = ''b'', s_last_modified = 6 \<rparr>}"
proof -
  have u: "utf8_valid ''a''" "utf8_valid ''b''" by (rule ascii_utf8_valid, simp add: ascii_def)+
  have bang: "CHR ''!'' \<notin> set ''DIR/p''" by simp
  have dec: "path_decode ref_ext k t = Ok \<lparr> s_key = k, s_op = op, s_ulid = ul, s_uuid = i, s_filename = fn, s_last_modified = t \<rparr>"
    if "path_encode ref_ext ul ''DIR/p'' fn i (op_u8 op) = Ok k" "fn \<noteq> []" "utf8_valid fn" for ul fn i op k t
    using refc.path_roundtrip [OF bang that(2,3) op_u8_less that(1)] by simp
  note da = dec [OF a _ u(1)] and db = dec [OF b _ u(2)]
  have ne: "kb \<noteq> ka"
  proof
    assume "kb = ka"
    with da [of 0] db [of 0] show False by simp
  qed
  have pre: "prefix (scatter_inodes_path ''DIR/p'') ka" "prefix (scatter_inodes_path ''DIR/p'') kb"
    using a b by (simp_all add: path_encode_Ok scatter_inodes_path_def DEFAULT_DIR_INODE_SCATTER_FOLDER_def)
  have o: "mem_objs w k = (if k = ka then Some \<lparr> ob_body = [], ob_etag = mem_etag [], ob_mtime = 5 \<rparr>
      else if k = kb then Some \<lparr> ob_body = [], ob_etag = mem_etag [], ob_mtime = 6 \<rparr> else None)" for k
    using ne by (simp add: mem_objs_def assms(1))
  have "scatter_key_ok ref_ext ''DIR/p'' ka" "scatter_key_ok ref_ext ''DIR/p'' kb"
    unfolding scatter_key_ok_def using a b u by blast+
  with bang show "folder_ok ref_ext ''DIR/p'' (mem_objs w)" by (auto simp: folder_ok_def o split: if_splits)
  show "pending ref_ext (mem_objs w) (scatter_inodes_path ''DIR/p'') =
      {\<lparr> s_key = ka, s_op = Create, s_ulid = 1, s_uuid = 7, s_filename = ''a'', s_last_modified = 5 \<rparr>,
       \<lparr> s_key = kb, s_op = PreDelete, s_ulid = 2, s_uuid = 8, s_filename = ''b'', s_last_modified = 6 \<rparr>}"
    (is "?P = {?a, ?b}")
  proof (rule set_eqI)
    fix s
    have "s \<in> ?P \<longleftrightarrow> path_decode ref_ext ka 5 = Ok s \<or> path_decode ref_ext kb 6 = Ok s"
      unfolding pending_def o using pre ne by (auto split: if_splits)
    also have "\<dots> \<longleftrightarrow> s = ?a \<or> s = ?b" using da [of 5] db [of 6] by (simp add: eq_commute)
    finally show "s \<in> ?P \<longleftrightarrow> s \<in> {?a, ?b}" by simp
  qed
qed

theorem list_scatter_exact_witness:
  "\<exists>(w :: mem_world) ka kb ss ss'. fst (list_scatter_inodes ref_ext mem_s3 ''DIR/p'' w) = Ok ss \<and> distinct (map s_key ss) \<and>
     set ss = {\<lparr> s_key = ka, s_op = Create, s_ulid = 1, s_uuid = 7, s_filename = ''a'', s_last_modified = 5 \<rparr>,
       \<lparr> s_key = kb, s_op = PreDelete, s_ulid = 2, s_uuid = 8, s_filename = ''b'', s_last_modified = 6 \<rparr>} \<and>
     fst (list_scatter_inodes_for_name ref_ext mem_s3 ''DIR/p'' ''a'' w) = Ok ss' \<and>
     set ss' = {\<lparr> s_key = ka, s_op = Create, s_ulid = 1, s_uuid = 7, s_filename = ''a'', s_last_modified = 5 \<rparr>}"
proof -
  have "\<not> ends_with ''DIR/p'' ''/''" by (simp add: ends_with_def suffix_def)
  then obtain ka kb where k: "path_encode ref_ext 1 ''DIR/p'' ''a'' 7 (op_u8 Create) = Ok ka"
    "path_encode ref_ext 2 ''DIR/p'' ''b'' 8 (op_u8 PreDelete) = Ok kb" unfolding path_encode_Ok by blast
  let ?w = "\<lparr> mw_objs = [(ka, [], 5), (kb, [], 6)], mw_now = 7, mw_next = 0 \<rparr> :: mem_world"
  note two = two_scatters [OF refl k]
  have pages: "pages_ok (fst (list_objects mem_s3 p ?w))" for p by (simp add: mem_list_def pages_ok_def)
  have name: "{s \<in> {\<lparr> s_key = ka, s_op = Create, s_ulid = 1, s_uuid = 7, s_filename = ''a'', s_last_modified = 5 \<rparr>,
       \<lparr> s_key = kb, s_op = PreDelete, s_ulid = 2, s_uuid = 8, s_filename = ''b'', s_last_modified = 6 \<rparr>}. s_filename s = ''a''} =
      {\<lparr> s_key = ka, s_op = Create, s_ulid = 1, s_uuid = 7, s_filename = ''a'', s_last_modified = 5 \<rparr>}" by auto
  from list_scatter_exact [OF mem_dir.dir_store_axioms two(1) pages pages, of "''a''", unfolded two(2) name]
  obtain ss ss' where "fst (list_scatter_inodes ref_ext mem_s3 ''DIR/p'' ?w) = Ok ss" "distinct (map s_key ss)"
    "set ss = {\<lparr> s_key = ka, s_op = Create, s_ulid = 1, s_uuid = 7, s_filename = ''a'', s_last_modified = 5 \<rparr>,
       \<lparr> s_key = kb, s_op = PreDelete, s_ulid = 2, s_uuid = 8, s_filename = ''b'', s_last_modified = 6 \<rparr>}"
    "fst (list_scatter_inodes_for_name ref_ext mem_s3 ''DIR/p'' ''a'' ?w) = Ok ss'"
    "set ss' = {\<lparr> s_key = ka, s_op = Create, s_ulid = 1, s_uuid = 7, s_filename = ''a'', s_last_modified = 5 \<rparr>}"
    by (elim conjE exE)
  then show ?thesis by (intro exI conjI)
qed

text \<open>\<open>remove_scatter_inodes\<close> deletes in batches of at most 1000 keys; on success exactly the given keys
  are gone, and on any outcome nothing else was deleted.\<close>

theorem remove_scatter_exact:
  assumes "object_store_quiet s3 objs env" and "remove_scatter_inodes s3 ks w = (r, w')"
  shows "(\<forall>c \<in> set (chunks 1000 ks). length c \<le> 1000) \<and>
    (\<exists>D. D \<subseteq> set ks \<and> objs w' = objs w |` (- D)) \<and> (r = Ok () \<longrightarrow> objs w' = objs w |` (- set ks))"
  using object_store_quiet.remove_scatter_sound [OF assms] chunks_le by blast

theorem remove_scatter_exact_witness:
  "\<exists>D. D \<subseteq> {''k1'', ''k2''} \<and> mem_objs (snd (remove_scatter_inodes mem_s3 [''k1'', ''k2''] lease_world)) =
     mem_objs lease_world |` (- D)"
  using remove_scatter_exact [OF mem_store.object_store_quiet_axioms prod.collapse [symmetric],
      of "[''k1'', ''k2'']" lease_world] by auto

text \<open>Emitting a scatter event is create-once: it writes one object with the given body at a key that was
  free, or nothing; it refuses the \<open>Unknown\<close> operation.\<close>

theorem emit_scatter_once:
  assumes "object_store s3 objs env" and "emit_scatter_event x s3 root fn u buf op w = (r, w')"
  shows "(env w w' \<or> op \<noteq> Unknown \<and> (\<exists>w1. env w w1 \<and> scatter_written x objs root fn u buf op w1 w')) \<and>
    (op = Unknown \<longrightarrow> r \<noteq> Ok ())"
  using object_store.emit_sound [OF assms] object_store.emit_unknown [OF assms(1)] assms(2) by blast

theorem emit_scatter_once_witness:
  "fst (emit_scatter_event ref_ext mem_s3 ''DIR/p'' ''a'' 1 [] Unknown lease_world) \<noteq> Ok ()"
  using emit_scatter_once [OF mem_store.object_store_axioms prod.collapse [symmetric],
      where x = ref_ext and root = "''DIR/p''" and fn = "''a''" and u = 1 and buf = "[]" and op = Unknown
        and w = lease_world] by simp

end
