(* ===== verification/Ondisk.thy ===== *)
theory Ondisk
  imports External
begin

text \<open>
  \<open>src/ondisk.rs\<close>: the fixed-size directory entry stored as a B-tree value, with the 256-byte
  name field (255 usable bytes and a NUL), and \<open>DirFileEntry::from_raw\<close> and the \<open>NodeValue\<close>
  instance of \<open>src/file.rs\<close>. The cached \<open>InodeRaw\<close> is a type parameter.

  The lemmas say which names survive the store: \<open>storable\<close> names (at most 255 bytes, no NUL,
  not the dummy pattern) are read back unchanged, a longer name is cut to 255 bytes.
\<close>

section \<open>Data\<close>

definition DEFAULT_NAME_LEN :: nat where
  "DEFAULT_NAME_LEN = 255"

definition DUMMY_FILENAME :: bytes where
  "DUMMY_FILENAME = replicate DEFAULT_NAME_LEN (CHR 0xFF) @ [CHR 0x00]"

record 'i dir_file_entry_raw =
  e_inode :: 'i
  e_uuid :: uuid
  e_name :: bytes

text \<open>The consumer's view: the \<open>Inode\<close> built from the raw inode is represented by the raw one.\<close>

record 'i dir_file_entry =
  d_inode :: 'i
  d_uuid :: uuid
  d_name :: string

section \<open>Operations\<close>

definition entry_default :: "'i inode_api \<Rightarrow> 'i dir_file_entry_raw" where
  "entry_default ia =
     \<lparr> e_inode = ino_default ia, e_uuid = 0, e_name = replicate (DEFAULT_NAME_LEN + 1) (CHR 0x00) \<rparr>"

definition entry_from :: "'i \<Rightarrow> uuid \<Rightarrow> bytes \<Rightarrow> 'i dir_file_entry_raw" where
  "entry_from ino u filename =
     \<lparr> e_inode = ino, e_uuid = u,
       e_name =
         (if length filename > DEFAULT_NAME_LEN
          then take DEFAULT_NAME_LEN filename @ [CHR 0x00]
          else filename @ replicate (DEFAULT_NAME_LEN + 1 - length filename) (CHR 0x00)) \<rparr>"

definition dummy_value :: "'i inode_api \<Rightarrow> 'i dir_file_entry_raw" where
  "dummy_value ia = \<lparr> e_inode = ino_default ia, e_uuid = 0, e_name = DUMMY_FILENAME \<rparr>"

definition is_dummy :: "'i dir_file_entry_raw \<Rightarrow> bool" where
  "is_dummy e = (e_name e = DUMMY_FILENAME)"

text \<open>\<open>NodeValue::is_invalid\<close> of \<open>src/file.rs\<close>.\<close>

definition is_invalid :: "'i dir_file_entry_raw \<Rightarrow> bool" where
  "is_invalid e = (e_name e = replicate (DEFAULT_NAME_LEN + 1) (CHR 0x00))"

definition name_bytes :: "'i dir_file_entry_raw \<Rightarrow> bytes" where
  "name_bytes e = takeWhile (\<lambda>b. b \<noteq> CHR 0x00) (e_name e)"

definition name_eq :: "'i dir_file_entry_raw \<Rightarrow> bytes \<Rightarrow> bool" where
  "name_eq e nm = (name_bytes e = nm)"

text \<open>
  \<open>DirFileEntry::from_raw\<close>: the name up to its NUL; a field with no NUL, or bytes that are not
  UTF-8, give the empty name.
\<close>

definition entry_from_raw :: "'i dir_file_entry_raw \<Rightarrow> 'i dir_file_entry" where
  "entry_from_raw raw =
     \<lparr> d_inode = e_inode raw, d_uuid = e_uuid raw,
       d_name =
         (if CHR 0x00 \<in> set (e_name raw)
          then (case from_utf8 (name_bytes raw) of Some s \<Rightarrow> s | None \<Rightarrow> [])
          else []) \<rparr>"

definition storable :: "bytes \<Rightarrow> bool" where
  "storable nm = (length nm \<le> DEFAULT_NAME_LEN \<and> CHR 0x00 \<notin> set nm
     \<and> nm \<noteq> replicate DEFAULT_NAME_LEN (CHR 0xFF))"

section \<open>Lemmas\<close>

lemma entry_from_sel [simp]:
  "e_inode (entry_from i u nm) = i" "e_uuid (entry_from i u nm) = u"
  by (simp_all add: entry_from_def)

lemma entry_from_name_length [simp]: "length (e_name (entry_from i u nm)) = DEFAULT_NAME_LEN + 1"
  by (simp add: entry_from_def)

lemma name_bytes_entry_from:
  "name_bytes (entry_from i u nm) = takeWhile (\<lambda>b. b \<noteq> CHR 0x00) (take DEFAULT_NAME_LEN nm)"
proof -
  have "takeWhile (\<lambda>b. b \<noteq> c) (xs @ replicate (Suc n) c) = takeWhile (\<lambda>b. b \<noteq> c) xs"
    for xs :: bytes and c n
    by (induction xs) auto
  from this [where n = 0] this show ?thesis
    by (auto simp: name_bytes_def entry_from_def Suc_diff_le not_less)
qed

lemma name_bytes_storable: "storable nm \<Longrightarrow> name_bytes (entry_from i u nm) = nm"
  by (auto simp: name_bytes_entry_from storable_def)

lemma name_bytes_dummy: "is_dummy e \<Longrightarrow> name_bytes e = replicate DEFAULT_NAME_LEN (CHR 0xFF)"
  by (simp add: is_dummy_def name_bytes_def DUMMY_FILENAME_def takeWhile_stop)

lemma entry_from_not_dummy: "storable nm \<Longrightarrow> \<not> is_dummy (entry_from i u nm)"
  using name_bytes_dummy [of "entry_from i u nm"] by (auto simp: name_bytes_storable storable_def)

lemma dummy_value_is_dummy: "is_dummy (dummy_value ia)"
  by (simp add: dummy_value_def is_dummy_def)

lemma entry_default_is_invalid: "is_invalid (entry_default ia)"
  by (simp add: entry_default_def is_invalid_def)

lemma utf8_not_FF: "CHR 0xFF # s = t \<Longrightarrow> \<not> utf8_valid t"
  by (subst utf8_valid.simps) (auto simp: utf8_step_def utf8_width_def)

text \<open>A Rust \<open>&str\<close> is UTF-8, so it is never the dummy pattern.\<close>

lemma utf8_storable:
  "utf8_valid nm \<Longrightarrow> length nm \<le> 255 \<Longrightarrow> CHR 0x00 \<notin> set nm \<Longrightarrow> storable nm"
  using utf8_not_FF [OF refl, of "replicate 254 (CHR 0xFF)"]
  by (auto simp: storable_def DEFAULT_NAME_LEN_def numeral_eq_Suc)

lemma from_raw_entry_from:
  assumes "storable nm" and "utf8_valid nm"
  shows "d_name (entry_from_raw (entry_from i u nm)) = nm"
proof -
  have "CHR 0x00 \<in> set (e_name (entry_from i u nm))"
    using assms(1) by (auto simp: entry_from_def storable_def)
  with assms show ?thesis
    by (simp add: entry_from_raw_def name_bytes_storable from_utf8_def)
qed

end
