(* ===== verification/Probe_Index.thy ===== *)
theory Probe_Index
  imports Ondisk Reference_Codecs
begin

text \<open>
  The directory index of \<open>src/file.rs\<close>: a B-tree from \<open>crc64(name)\<close> to entries, with CRC
  collisions resolved by linear probing (no wrap past \<open>u64::MAX\<close>) and backward-shift deletion.
  \<open>probe_lookup_in\<close>, \<open>probe_upsert\<close>, \<open>probe_delete\<close> and \<open>walk_bmap\<close> are the loops of the code
  over an arbitrary B-tree; a fallible mutation returns its outcome and the handle's B-tree,
  also on an error path.

  \<open>probe_inv\<close> is the representation invariant (no gap between an entry's home slot and its
  slot, one slot per name, no dummies) and \<open>index_map\<close> the name map a table stands for. In
  the locale \<open>entry_tree\<close> (any B-tree that keeps the laws of \<open>btree\<close>) every operation
  refines the corresponding map operation; \<open>entry_tree_total\<close> adds that it returns.
\<close>

section \<open>Operations\<close>

definition hash_filename :: "ext \<Rightarrow> bytes \<Rightarrow> u64" where
  "hash_filename x nm = crc64 x nm"

text \<open>The key-space distance to \<open>u64::MAX\<close> bounds every probe loop.\<close>

lemma checked_succ_measure: "checked_succ k = Some n \<Longrightarrow> 2 ^ 64 - unat n < 2 ^ 64 - unat k"
proof -
  assume "checked_succ k = Some n"
  moreover have "unat k < 2 ^ LENGTH(64)" by (rule unsigned_less)
  ultimately show ?thesis by (simp add: checked_succ_Some word_succ_unat)
qed

lemma word_up_induct [case_names step]:
  assumes "\<And>k. (\<And>n. checked_succ k = Some n \<Longrightarrow> P n) \<Longrightarrow> P k"
  shows "P (k :: u64)"
proof (induction k rule: measure_induct_rule [where f = "\<lambda>k. 2 ^ 64 - unat k"])
  case (less k)
  show ?case by (rule assms) (rule less, rule checked_succ_measure)
qed

function probe_lookup_in ::
  "('i dir_file_entry_raw, 'b) btree_api \<Rightarrow> 'b \<Rightarrow> bytes \<Rightarrow> u64 \<Rightarrow>
     (u64 \<times> 'i dir_file_entry_raw) option result" where
  "probe_lookup_in api b nm k =
     (case bm_lookup api b k of
        Ok entry \<Rightarrow>
          if \<not> is_dummy entry \<and> name_eq entry nm then Ok (Some (k, entry))
          else (case checked_succ k of
                  Some n \<Rightarrow> probe_lookup_in api b nm n
                | None \<Rightarrow> Ok None)
      | Err e \<Rightarrow> if e = NotFound then Ok None else Err e
      | Panic \<Rightarrow> Panic)"
  by pat_completeness auto
termination
  by (relation "measure (\<lambda>(api, b, nm, k). 2 ^ 64 - unat k)") (auto dest: checked_succ_measure)

declare probe_lookup_in.simps [simp del]

function probe_upsert_slot ::
  "('i dir_file_entry_raw, 'b) btree_api \<Rightarrow> 'b \<Rightarrow> bytes \<Rightarrow> u64 \<Rightarrow> u64 result" where
  "probe_upsert_slot api b nm k =
     (case bm_lookup api b k of
        Ok existing \<Rightarrow>
          if \<not> is_dummy existing \<and> name_eq existing nm then Ok k
          else (case checked_succ k of
                  Some n \<Rightarrow> probe_upsert_slot api b nm n
                | None \<Rightarrow> Err Other)
      | Err e \<Rightarrow> if e = NotFound then Ok k else Err e
      | Panic \<Rightarrow> Panic)"
  by pat_completeness auto
termination
  by (relation "measure (\<lambda>(api, b, nm, k). 2 ^ 64 - unat k)") (auto dest: checked_succ_measure)

declare probe_upsert_slot.simps [simp del]

definition probe_upsert ::
  "ext \<Rightarrow> ('i dir_file_entry_raw, 'b) btree_api \<Rightarrow> bytes \<Rightarrow> 'i dir_file_entry_raw \<Rightarrow> ('b, unit) io" where
  "probe_upsert x api nm entry = (\<lambda>b.
     io_bind (io_lift (probe_upsert_slot api b nm (hash_filename x nm)))
       (\<lambda>k. io_bind (bm_insert api k entry) (\<lambda>_. io_return ())) b)"

text \<open>
  The backward-shift loop of \<open>probe_delete\<close>: it returns the final hole. \<open>j \<noteq> slot\<close> is the
  source's loop condition, which only fails at once, when \<open>slot\<close> is \<open>u64::MAX\<close>.
\<close>

function shift_loop ::
  "ext \<Rightarrow> ('i dir_file_entry_raw, 'b) btree_api \<Rightarrow> u64 \<Rightarrow> u64 \<Rightarrow> u64 \<Rightarrow> ('b, u64) io" where
  "shift_loop x api slot hole j b =
     (if j = slot then (Ok hole, b)
      else case bm_lookup api b j of
        Ok entry_j \<Rightarrow>
          let home_j = (if is_dummy entry_j then j else hash_filename x (name_bytes entry_j)) in
          if home_j \<le> hole then
            (case bm_insert api hole entry_j b of
               (Ok _, b') \<Rightarrow>
                 (case checked_succ j of
                    Some n \<Rightarrow> shift_loop x api slot j n b'
                  | None \<Rightarrow> (Ok j, b'))
             | (Err e, b') \<Rightarrow> (Err e, b')
             | (Panic, b') \<Rightarrow> (Panic, b'))
          else
            (case checked_succ j of
               Some n \<Rightarrow> shift_loop x api slot hole n b
             | None \<Rightarrow> (Ok hole, b))
      | Err e \<Rightarrow> if e = NotFound then (Ok hole, b) else (Err e, b)
      | Panic \<Rightarrow> (Panic, b))"
  by pat_completeness auto
termination
  by (relation "measure (\<lambda>(x, api, slot, hole, j, b). 2 ^ 64 - unat j)")
    (auto dest: checked_succ_measure)

declare shift_loop.simps [simp del]

definition probe_delete ::
  "ext \<Rightarrow> ('i dir_file_entry_raw, 'b) btree_api \<Rightarrow> bytes \<Rightarrow> ('b, bool) io" where
  "probe_delete x api nm = (\<lambda>b.
     io_bind (io_lift (probe_lookup_in api b nm (hash_filename x nm)))
       (\<lambda>r. case r of
          None \<Rightarrow> io_return False
        | Some (slot, _) \<Rightarrow>
            io_bind (shift_loop x api slot slot
                (case checked_succ slot of Some v \<Rightarrow> v | None \<Rightarrow> slot))
              (\<lambda>hole. io_bind (bm_delete api hole) (\<lambda>_. io_return True))) b)"

text \<open>
  The enumeration loop. A \<open>seek_key\<close> that answers with a key below its argument would make the
  code loop; the law \<open>seek_key_Ok\<close> excludes it, and the model gives no value for it.
\<close>

function walk_loop ::
  "('i dir_file_entry_raw, 'b) btree_api \<Rightarrow> 'b \<Rightarrow> u64 \<Rightarrow> u64 \<Rightarrow> 'i dir_file_entry_raw list \<Rightarrow>
     'i dir_file_entry_raw list result" where
  "walk_loop api b last_key n out =
     (case bm_seek_key api b n of
        Ok key \<Rightarrow>
          if key > last_key then Ok out
          else if key < n then Panic
          else (case bm_lookup api b key of
                  Ok val \<Rightarrow>
                    let out' = (if is_dummy val then out else out @ [val]) in
                    (case checked_succ key of
                       None \<Rightarrow> Ok out'
                     | Some n' \<Rightarrow> walk_loop api b last_key n' out')
                | Err e \<Rightarrow> Err e
                | Panic \<Rightarrow> Panic)
      | Err e \<Rightarrow> if e = NotFound then Ok out else Err e
      | Panic \<Rightarrow> Panic)"
  by pat_completeness auto
termination
proof (relation "measure (\<lambda>(api, b, last_key, n, out). 2 ^ 64 - unat n)", goal_cases)
  case (2 api b last_key n out key val out' n')
  then have "2 ^ 64 - unat n' < 2 ^ 64 - unat key" by (blast dest: checked_succ_measure)
  moreover have "unat n \<le> unat key" using 2 by (simp add: word_le_nat_alt not_less)
  ultimately show ?case by simp
qed simp

declare walk_loop.simps [simp del]

definition walk_bmap ::
  "('i dir_file_entry_raw, 'b) btree_api \<Rightarrow> 'b \<Rightarrow> 'i dir_file_entry_raw list result" where
  "walk_bmap api b =
     (case bm_last_key api b of
        Ok last_key \<Rightarrow> walk_loop api b last_key 0 []
      | Err e \<Rightarrow> if e = NotFound then Ok [] else Err e
      | Panic \<Rightarrow> Panic)"

section \<open>Representation invariant and abstraction\<close>

type_synonym 'i table = "u64 \<Rightarrow> 'i dir_file_entry_raw option"

definition home :: "ext \<Rightarrow> 'i dir_file_entry_raw \<Rightarrow> u64" where
  "home x e = hash_filename x (name_bytes e)"

definition probe_inv :: "ext \<Rightarrow> 'i table \<Rightarrow> bool" where
  "probe_inv x t =
     ((\<forall>k e. t k = Some e \<longrightarrow>
         \<not> is_dummy e \<and> home x e \<le> k \<and> (\<forall>j. home x e \<le> j \<and> j < k \<longrightarrow> t j \<noteq> None)) \<and>
      (\<forall>k1 k2 e1 e2. t k1 = Some e1 \<longrightarrow> t k2 = Some e2 \<longrightarrow> name_bytes e1 = name_bytes e2
         \<longrightarrow> k1 = k2))"

definition index_map :: "'i table \<Rightarrow> bytes \<Rightarrow> 'i dir_file_entry_raw option" where
  "index_map t nm =
     (if \<exists>k e. t k = Some e \<and> name_bytes e = nm
      then Some (SOME e. \<exists>k. t k = Some e \<and> name_bytes e = nm) else None)"

lemma probe_invD:
  assumes "probe_inv x t" and "t k = Some e"
  shows "\<not> is_dummy e" "home x e \<le> k" "home x e \<le> j \<Longrightarrow> j < k \<Longrightarrow> t j \<noteq> None"
    "t k' = Some e' \<Longrightarrow> name_bytes e' = name_bytes e \<Longrightarrow> k' = k"
proof -
  from assms show "\<not> is_dummy e" "home x e \<le> k" unfolding probe_inv_def by simp_all
  from assms show "t j \<noteq> None" if "home x e \<le> j" "j < k"
    using that unfolding probe_inv_def by simp
  from assms show "k' = k" if "t k' = Some e'" "name_bytes e' = name_bytes e"
    using that unfolding probe_inv_def by metis
qed

lemma probe_inv_empty: "probe_inv x Map.empty"
  by (simp add: probe_inv_def)

lemma index_map_Some:
  assumes "probe_inv x t"
  shows "index_map t nm = Some e \<longleftrightarrow> (\<exists>k. t k = Some e \<and> name_bytes e = nm)"
proof -
  define P where "P = (\<lambda>e. \<exists>k. t k = Some e \<and> name_bytes e = nm)"
  have im: "index_map t nm = (if Ex P then Some (Eps P) else None)"
    by (auto simp: index_map_def P_def)
  have uniq: "e' = e" if "P e'" "P e" for e'
  proof -
    from that obtain k' k where "t k' = Some e'" "t k = Some e" "name_bytes e' = name_bytes e"
      by (auto simp: P_def)
    with probe_invD(4) [OF assms \<open>t k = Some e\<close>] show ?thesis by simp
  qed
  have "index_map t nm = Some e \<longleftrightarrow> P e"
  proof
    assume "index_map t nm = Some e"
    then have "Ex P \<and> Eps P = e" unfolding im by (cases "Ex P") simp_all
    then show "P e" using someI_ex [of P] by simp
  next
    assume "P e"
    then have "Ex P" by (rule exI)
    moreover from \<open>P e\<close> have "Eps P = e" by (rule some_equality) (rule uniq, assumption, rule \<open>P e\<close>)
    ultimately show "index_map t nm = Some e" by (simp add: im)
  qed
  then show ?thesis by (simp add: P_def)
qed

lemma index_map_None: "index_map t nm = None \<longleftrightarrow> (\<forall>k e. t k = Some e \<longrightarrow> name_bytes e \<noteq> nm)"
  by (auto simp: index_map_def)

lemma index_map_eqI:
  assumes "probe_inv x t" and "\<And>nm e. m nm = Some e \<longleftrightarrow> (\<exists>k. t k = Some e \<and> name_bytes e = nm)"
  shows "index_map t = m"
proof
  fix nm
  show "index_map t nm = m nm"
    using assms(2) [of nm] index_map_Some [OF assms(1), of nm] by (metis option.exhaust)
qed

lemma image_dom_ran: "t ` dom t = Some ` ran t"
proof
  show "t ` dom t \<subseteq> Some ` ran t" by (auto intro: ranI)
  show "Some ` ran t \<subseteq> t ` dom t"
  proof
    fix y
    assume "y \<in> Some ` ran t"
    then obtain v k where "y = t k" "t k = Some v" unfolding ran_def by force
    then show "y \<in> t ` dom t" by blast
  qed
qed

lemma index_map_ran:
  assumes "probe_inv x t"
  shows "index_map t nm = Some e \<longleftrightarrow> e \<in> ran t \<and> name_bytes e = nm"
  by (auto simp: index_map_Some [OF assms] ran_def)

section \<open>Table updates that keep the invariant\<close>

text \<open>\<open>upsert_slot\<close>: the slot is on the name's probe path, and it holds the name or is free for it.\<close>

definition upsert_slot :: "ext \<Rightarrow> 'i table \<Rightarrow> bytes \<Rightarrow> u64 \<Rightarrow> bool" where
  "upsert_slot x t nm s =
     (hash_filename x nm \<le> s \<and> (\<forall>j. hash_filename x nm \<le> j \<and> j < s \<longrightarrow> t j \<noteq> None) \<and>
      (\<forall>k e. t k = Some e \<longrightarrow> name_bytes e = nm \<longrightarrow> k = s) \<and>
      (\<forall>e. t s = Some e \<longrightarrow> name_bytes e = nm))"

lemma upsert_slotD:
  assumes "upsert_slot x t nm s"
  shows "hash_filename x nm \<le> s" "hash_filename x nm \<le> j \<Longrightarrow> j < s \<Longrightarrow> t j \<noteq> None"
    "t k = Some e \<Longrightarrow> name_bytes e = nm \<Longrightarrow> k = s" "t s = Some e \<Longrightarrow> name_bytes e = nm"
  using assms unfolding upsert_slot_def by simp_all

lemma upsert_slotI:
  assumes "hash_filename x nm \<le> s" "\<And>j. hash_filename x nm \<le> j \<Longrightarrow> j < s \<Longrightarrow> t j \<noteq> None"
    "\<And>k e. t k = Some e \<Longrightarrow> name_bytes e = nm \<Longrightarrow> k = s" "\<And>e. t s = Some e \<Longrightarrow> name_bytes e = nm"
  shows "upsert_slot x t nm s"
  unfolding upsert_slot_def using assms by blast

lemma probe_invI:
  assumes "\<And>k e. t k = Some e \<Longrightarrow> \<not> is_dummy e"
    and "\<And>k e. t k = Some e \<Longrightarrow> home x e \<le> k"
    and "\<And>k e j. t k = Some e \<Longrightarrow> home x e \<le> j \<Longrightarrow> j < k \<Longrightarrow> t j \<noteq> None"
    and "\<And>k1 k2 e1 e2. t k1 = Some e1 \<Longrightarrow> t k2 = Some e2 \<Longrightarrow> name_bytes e1 = name_bytes e2 \<Longrightarrow> k1 = k2"
  shows "probe_inv x t"
  unfolding probe_inv_def using assms by (intro conjI allI impI) simp_all

lemma upsert_slot_inv:
  assumes inv: "probe_inv x t" and slot: "upsert_slot x t nm s"
    and e: "name_bytes e = nm" "\<not> is_dummy e"
  shows "probe_inv x (t(s \<mapsto> e))"
proof (rule probe_invI)
  fix k e'
  assume k: "(t(s \<mapsto> e)) k = Some e'"
  show "\<not> is_dummy e'" "home x e' \<le> k"
    using k e probe_invD(1,2) [OF inv, of k e'] upsert_slotD(1) [OF slot]
    by (simp_all add: home_def split: if_split_asm)
  fix j
  assume "home x e' \<le> j" "j < k"
  then show "(t(s \<mapsto> e)) j \<noteq> None"
    using k e probe_invD(3) [OF inv, of k e' j] upsert_slotD(2) [OF slot, of j]
    by (simp add: home_def split: if_split_asm)
next
  fix k1 k2 e1 e2
  assume "(t(s \<mapsto> e)) k1 = Some e1" "(t(s \<mapsto> e)) k2 = Some e2" "name_bytes e1 = name_bytes e2"
  then show "k1 = k2"
    using e upsert_slotD(3) [OF slot, of k1 e1] upsert_slotD(3) [OF slot, of k2 e2]
      probe_invD(4) [OF inv, of k2 e2 k1 e1]
    by (simp split: if_split_asm)
qed

lemma upsert_slot_index_map:
  assumes inv: "probe_inv x t" and slot: "upsert_slot x t nm s"
    and e: "name_bytes e = nm" "\<not> is_dummy e"
  shows "index_map (t(s \<mapsto> e)) = (index_map t)(nm \<mapsto> e)"
proof
  fix nm'
  note inv' = upsert_slot_inv [OF assms]
  show "index_map (t(s \<mapsto> e)) nm' = ((index_map t)(nm \<mapsto> e)) nm'"
  proof (cases "nm' = nm")
    case True
    have "index_map (t(s \<mapsto> e)) nm = Some e"
      unfolding index_map_Some [OF inv'] using e by (intro exI [of _ s]) simp
    with True show ?thesis by simp
  next
    case False
    have "(\<exists>k. (t(s \<mapsto> e)) k = Some e' \<and> name_bytes e' = nm') \<longleftrightarrow>
        (\<exists>k. t k = Some e' \<and> name_bytes e' = nm')" for e'
    proof
      assume "\<exists>k. (t(s \<mapsto> e)) k = Some e' \<and> name_bytes e' = nm'"
      then obtain k where "(t(s \<mapsto> e)) k = Some e'" "name_bytes e' = nm'" by blast
      with False e show "\<exists>k. t k = Some e' \<and> name_bytes e' = nm'"
        by (intro exI [of _ k]) (simp split: if_split_asm)
    next
      assume "\<exists>k. t k = Some e' \<and> name_bytes e' = nm'"
      then obtain k where k: "t k = Some e'" "name_bytes e' = nm'" by blast
      with False upsert_slotD(4) [OF slot, of e'] have "k \<noteq> s" by auto
      with k show "\<exists>k. (t(s \<mapsto> e)) k = Some e' \<and> name_bytes e' = nm'"
        by (intro exI [of _ k]) simp
    qed
    then have "index_map (t(s \<mapsto> e)) nm' = Some e' \<longleftrightarrow> index_map t nm' = Some e'" for e'
      unfolding index_map_Some [OF inv'] index_map_Some [OF inv] .
    then show ?thesis using False by (metis fun_upd_other option.exhaust)
  qed
qed

text \<open>
  The invariant of the backward-shift loop. The hole still holds a stale value; \<open>ran\<close> of the
  table without it are the live entries. \<open>live_except\<close>: every live entry's probe path is
  occupied when the hole counts as occupied, and names are unique among the live entries.
  \<open>shift_inv\<close> adds that the slots from the hole to \<open>j\<close> are occupied and the entries scanned
  so far have their home after the hole. When that holds for all later entries
  (\<open>settled\<close>), the hole can be emptied.
\<close>

definition live_except :: "ext \<Rightarrow> 'i table \<Rightarrow> u64 \<Rightarrow> bool" where
  "live_except x t hole =
     ((\<forall>k e. k \<noteq> hole \<longrightarrow> t k = Some e \<longrightarrow>
         \<not> is_dummy e \<and> home x e \<le> k \<and> (\<forall>i. home x e \<le> i \<and> i < k \<longrightarrow> t i \<noteq> None)) \<and>
      (\<forall>k1 k2 e1 e2. k1 \<noteq> hole \<longrightarrow> k2 \<noteq> hole \<longrightarrow> t k1 = Some e1 \<longrightarrow> t k2 = Some e2 \<longrightarrow>
         name_bytes e1 = name_bytes e2 \<longrightarrow> k1 = k2))"

definition shift_inv :: "ext \<Rightarrow> 'i table \<Rightarrow> u64 \<Rightarrow> u64 \<Rightarrow> bool" where
  "shift_inv x t hole j =
     (hole < j \<and> live_except x t hole \<and> (\<forall>i. hole \<le> i \<and> i < j \<longrightarrow> t i \<noteq> None) \<and>
      (\<forall>k e. hole < k \<and> k < j \<longrightarrow> t k = Some e \<longrightarrow> hole < home x e))"

definition settled :: "ext \<Rightarrow> 'i table \<Rightarrow> u64 \<Rightarrow> bool" where
  "settled x t hole =
     (live_except x t hole \<and> (\<forall>k e. hole < k \<longrightarrow> t k = Some e \<longrightarrow> hole < home x e))"

lemma live_exceptD:
  assumes "live_except x t hole" and "k \<noteq> hole" and "t k = Some e"
  shows "\<not> is_dummy e" "home x e \<le> k" "home x e \<le> i \<Longrightarrow> i < k \<Longrightarrow> t i \<noteq> None"
    "k' \<noteq> hole \<Longrightarrow> t k' = Some e' \<Longrightarrow> name_bytes e' = name_bytes e \<Longrightarrow> k' = k"
  using assms unfolding live_except_def by simp_all

lemma live_exceptI:
  assumes "\<And>k e. k \<noteq> hole \<Longrightarrow> t k = Some e \<Longrightarrow> \<not> is_dummy e"
    and "\<And>k e. k \<noteq> hole \<Longrightarrow> t k = Some e \<Longrightarrow> home x e \<le> k"
    and "\<And>k e i. k \<noteq> hole \<Longrightarrow> t k = Some e \<Longrightarrow> home x e \<le> i \<Longrightarrow> i < k \<Longrightarrow> t i \<noteq> None"
    and "\<And>k1 k2 e1 e2. k1 \<noteq> hole \<Longrightarrow> k2 \<noteq> hole \<Longrightarrow> t k1 = Some e1 \<Longrightarrow> t k2 = Some e2 \<Longrightarrow>
      name_bytes e1 = name_bytes e2 \<Longrightarrow> k1 = k2"
  shows "live_except x t hole"
  unfolding live_except_def using assms by (intro conjI allI impI) simp_all

lemma shift_invD:
  assumes "shift_inv x t hole j"
  shows "hole < j" "live_except x t hole" "hole \<le> i \<Longrightarrow> i < j \<Longrightarrow> t i \<noteq> None"
    "hole < k \<Longrightarrow> k < j \<Longrightarrow> t k = Some e \<Longrightarrow> hole < home x e"
  using assms unfolding shift_inv_def by simp_all

lemma shift_invI:
  assumes "hole < j" "live_except x t hole" "\<And>i. hole \<le> i \<Longrightarrow> i < j \<Longrightarrow> t i \<noteq> None"
    "\<And>k e. hole < k \<Longrightarrow> k < j \<Longrightarrow> t k = Some e \<Longrightarrow> hole < home x e"
  shows "shift_inv x t hole j"
  unfolding shift_inv_def using assms by blast

lemma settledI:
  assumes "live_except x t hole" "\<And>k e. hole < k \<Longrightarrow> t k = Some e \<Longrightarrow> hole < home x e"
  shows "settled x t hole"
  unfolding settled_def using assms by (intro conjI allI impI) simp_all

lemma settled_probe_inv:
  assumes "settled x t hole"
  shows "probe_inv x (t(hole := None))"
proof -
  have live: "live_except x t hole"
    and after: "\<And>k e. hole < k \<Longrightarrow> t k = Some e \<Longrightarrow> hole < home x e"
    using assms by (simp_all add: settled_def)
  show ?thesis
  proof (rule probe_invI)
    fix k e
    assume "(t(hole := None)) k = Some e"
    then have k: "k \<noteq> hole" "t k = Some e" by (simp_all split: if_split_asm)
    then show "\<not> is_dummy e" "home x e \<le> k" using live_exceptD(1,2) [OF live k] by simp_all
    fix j
    assume j: "home x e \<le> j" "j < k"
    have "j \<noteq> hole" using after [OF _ k(2)] j by auto
    with live_exceptD(3) [OF live k j] show "(t(hole := None)) j \<noteq> None" by simp
  next
    fix k1 k2 e1 e2
    assume "(t(hole := None)) k1 = Some e1" "(t(hole := None)) k2 = Some e2"
      "name_bytes e1 = name_bytes e2"
    then show "k1 = k2"
      using live_exceptD(4) [OF live, of k2 e2 k1 e1] by (simp split: if_split_asm)
  qed
qed

lemma shift_inv_settled_gap:
  assumes inv: "shift_inv x t hole j" and gap: "t j = None"
  shows "settled x t hole"
proof (rule settledI [OF shift_invD(2) [OF inv]])
  fix k e
  assume k: "hole < k" "t k = Some e"
  show "hole < home x e"
  proof (cases "k < j")
    case True
    with k shift_invD(4) [OF inv] show ?thesis by simp
  next
    case False
    with gap k have "j < k" by (cases "k = j") simp_all
    with live_exceptD(3) [OF shift_invD(2) [OF inv] _ k(2), of j] gap k
    have "j < home x e" by (simp add: not_le [symmetric]) auto
    with shift_invD(1) [OF inv] show ?thesis by (rule order_less_trans)
  qed
qed

lemma shift_inv_keep:
  assumes inv: "shift_inv x t hole j" and j: "t j = Some e" and h: "hole < home x e"
  shows "checked_succ j = Some n \<Longrightarrow> shift_inv x t hole n"
    and "checked_succ j = None \<Longrightarrow> settled x t hole"
proof -
  have scanned: "hole < home x e'" if "hole < k" "k \<le> j" "t k = Some e'" for k e'
    using shift_invD(4) [OF inv, of k e'] that j h by (cases "k = j") simp_all
  have occ: "t i \<noteq> None" if "hole \<le> i" "i \<le> j" for i
    using shift_invD(3) [OF inv, of i] that j by (cases "i = j") simp_all
  { assume "checked_succ j = Some n"
    then have n: "i < n \<longleftrightarrow> i \<le> j" for i by (simp add: checked_succ_Some word_less_succ)
    show "shift_inv x t hole n"
      by (rule shift_invI) (use shift_invD(1,2) [OF inv] scanned occ n in simp_all) }
  { assume "checked_succ j = None"
    then have "k \<le> j" for k by (simp add: checked_succ_None)
    with scanned show "settled x t hole"
      by (intro settledI shift_invD(2) [OF inv]) simp }
qed

lemma live_except_move:
  assumes inv: "shift_inv x t hole j" and j: "t j = Some e" and h: "home x e \<le> hole"
  shows "live_except x (t(hole \<mapsto> e)) j"
proof (rule live_exceptI)
  note live = shift_invD(2) [OF inv] and lt = shift_invD(1) [OF inv]
  have jh: "j \<noteq> hole" using lt by simp
  fix k e'
  assume k: "k \<noteq> j" "(t(hole \<mapsto> e)) k = Some e'"
  show "\<not> is_dummy e'" "home x e' \<le> k"
  proof -
    show "\<not> is_dummy e'"
      using k(2) live_exceptD(1) [OF live jh j] live_exceptD(1) [OF live, of k e']
      by (cases "k = hole") simp_all
    show "home x e' \<le> k"
      using k(2) h live_exceptD(2) [OF live, of k e'] by (cases "k = hole") simp_all
  qed
  fix i
  assume i: "home x e' \<le> i" "i < k"
  show "(t(hole \<mapsto> e)) i \<noteq> None"
  proof (cases "k = hole")
    case True
    with k(2) have "e' = e" by simp
    moreover from i(2) [unfolded True] lt have "i < j" by (rule order_less_trans)
    ultimately have "t i \<noteq> None" using live_exceptD(3) [OF live jh j, of i] i(1) by simp
    then show ?thesis by simp
  next
    case False
    with k(2) have "t k = Some e'" by simp
    from live_exceptD(3) [OF live False this i] show ?thesis by simp
  qed
next
  note live = shift_invD(2) [OF inv] and lt = shift_invD(1) [OF inv]
  have jh: "j \<noteq> hole" using lt by simp
  fix k1 k2 e1 e2
  assume ne: "k1 \<noteq> j" "k2 \<noteq> j" and k1: "(t(hole \<mapsto> e)) k1 = Some e1"
    and k2: "(t(hole \<mapsto> e)) k2 = Some e2" and eq: "name_bytes e1 = name_bytes e2"
  have clash: False if "k \<noteq> j" "k \<noteq> hole" "t k = Some e'" "name_bytes e' = name_bytes e" for k e'
    using live_exceptD(4) [OF live jh j that(2-4)] that(1) by simp
  consider "k1 = hole" "k2 = hole" | "k1 = hole" "k2 \<noteq> hole" | "k1 \<noteq> hole" "k2 = hole"
    | "k1 \<noteq> hole" "k2 \<noteq> hole" by blast
  then show "k1 = k2"
  proof cases
    case 2
    with k1 k2 eq clash [OF ne(2), of e2] show ?thesis by simp
  next
    case 3
    with k1 k2 eq clash [OF ne(1), of e1] show ?thesis by simp
  next
    case 4
    with k1 k2 have "t k1 = Some e1" "t k2 = Some e2" by simp_all
    from live_exceptD(4) [OF live 4(2) this(2) 4(1) this(1) eq] show ?thesis .
  qed simp
qed

lemma shift_inv_move:
  assumes inv: "shift_inv x t hole j" and j: "t j = Some e" and h: "home x e \<le> hole"
  shows "checked_succ j = Some n \<Longrightarrow> shift_inv x (t(hole \<mapsto> e)) j n"
    and "checked_succ j = None \<Longrightarrow> settled x (t(hole \<mapsto> e)) j"
proof -
  note live = live_except_move [OF assms] and lt = shift_invD(1) [OF inv]
  { assume "checked_succ j = Some n"
    then have n: "i < n \<longleftrightarrow> i \<le> j" for i by (simp add: checked_succ_Some word_less_succ)
    show "shift_inv x (t(hole \<mapsto> e)) j n"
      by (rule shift_invI [OF _ live]) (use n lt j in \<open>auto simp del: not_None_eq\<close>) }
  { assume "checked_succ j = None"
    then have "\<not> j < k" for k by (simp add: checked_succ_None)
    then show "settled x (t(hole \<mapsto> e)) j" by (intro settledI live) simp }
qed

lemma ran_move:
  assumes "t j = Some e" and "hole \<noteq> j"
  shows "ran ((t(hole \<mapsto> e))(j := None)) = ran (t(hole := None))"
proof
  show "ran ((t(hole \<mapsto> e))(j := None)) \<subseteq> ran (t(hole := None))"
  proof
    fix v
    assume "v \<in> ran ((t(hole \<mapsto> e))(j := None))"
    then obtain a where a: "((t(hole \<mapsto> e))(j := None)) a = Some v" by (auto simp: ran_def)
    show "v \<in> ran (t(hole := None))"
    proof (cases "a = hole")
      case True
      with a assms have "(t(hole := None)) j = Some v" by simp
      then show ?thesis by (rule ranI)
    next
      case False
      with a have "(t(hole := None)) a = Some v" by (simp split: if_split_asm)
      then show ?thesis by (rule ranI)
    qed
  qed
  show "ran (t(hole := None)) \<subseteq> ran ((t(hole \<mapsto> e))(j := None))"
  proof
    fix v
    assume "v \<in> ran (t(hole := None))"
    then obtain a where a: "(t(hole := None)) a = Some v" by (auto simp: ran_def)
    show "v \<in> ran ((t(hole \<mapsto> e))(j := None))"
    proof (cases "a = j")
      case True
      with a assms have "((t(hole \<mapsto> e))(j := None)) hole = Some v" by simp
      then show ?thesis by (rule ranI)
    next
      case False
      with a have "((t(hole \<mapsto> e))(j := None)) a = Some v" by (simp split: if_split_asm)
      then show ?thesis by (rule ranI)
    qed
  qed
qed

section \<open>Probing over any lawful B-tree\<close>

locale entry_tree = btree api tab
  for api :: "('i dir_file_entry_raw, 'b) btree_api" and tab :: "'b \<Rightarrow> 'i table" +
  fixes x :: ext
begin

text \<open>\<open>absent_below\<close>: no slot of the probe path before \<open>k\<close> holds the name.\<close>

definition absent_below :: "'b \<Rightarrow> bytes \<Rightarrow> u64 \<Rightarrow> bool" where
  "absent_below b nm k =
     (hash_filename x nm \<le> k \<and>
      (\<forall>j e. hash_filename x nm \<le> j \<and> j < k \<longrightarrow> tab b j = Some e \<longrightarrow> name_bytes e \<noteq> nm))"

lemma absent_below_start: "absent_below b nm (hash_filename x nm)"
  by (auto simp: absent_below_def)

lemma absent_below_step:
  assumes "absent_below b nm k" and "checked_succ k = Some n"
    and "\<And>e. tab b k = Some e \<Longrightarrow> name_bytes e \<noteq> nm"
  shows "absent_below b nm n"
proof -
  from assms(2) have n: "k \<noteq> - 1" "n = k + 1" by (simp_all add: checked_succ_Some)
  have "k \<le> n" using n word_less_succ [of k k] by simp
  moreover have "hash_filename x nm \<le> k" using assms(1) by (simp add: absent_below_def)
  ultimately have "hash_filename x nm \<le> n" by (rule order_trans [rotated])
  have "name_bytes e \<noteq> nm" if "hash_filename x nm \<le> j" "j < n" "tab b j = Some e" for j e
  proof (cases "j = k")
    case False
    with that n have "j < k" by (simp add: word_less_succ)
    with that assms(1) show ?thesis by (simp add: absent_below_def)
  qed (use that assms(3) in simp)
  with \<open>hash_filename x nm \<le> n\<close> show ?thesis by (auto simp: absent_below_def)
qed

lemma absent_at_gap:
  assumes "probe_inv x (tab b)" and "absent_below b nm k" and "tab b k = None"
    and "tab b s = Some e"
  shows "name_bytes e \<noteq> nm"
proof
  assume nm: "name_bytes e = nm"
  then have h: "hash_filename x nm \<le> s"
    using probe_invD(2) [OF assms(1,4)] by (simp add: home_def)
  have "k \<noteq> s" using assms(3,4) by auto
  then consider "s < k" | "k < s" by fastforce
  then show False
  proof cases
    case 1
    with assms(2,4) h nm show ?thesis by (simp add: absent_below_def)
  next
    case 2
    with probe_invD(3) [OF assms(1,4), of k] assms(2,3) nm show ?thesis
      by (simp add: absent_below_def home_def)
  qed
qed

lemma absent_at_end:
  assumes "probe_inv x (tab b)" and "absent_below b nm (- 1)"
    and "\<And>e. tab b (- 1) = Some e \<Longrightarrow> name_bytes e \<noteq> nm" and "tab b s = Some e"
  shows "name_bytes e \<noteq> nm"
proof
  assume nm: "name_bytes e = nm"
  then have "hash_filename x nm \<le> s"
    using probe_invD(2) [OF assms(1,4)] by (simp add: home_def)
  moreover from nm assms(3,4) have "s \<noteq> - 1" by auto
  then have "s < - 1" by (metis word_le_minus_one order_le_imp_less_or_eq)
  ultimately show False using assms(2,4) nm by (simp add: absent_below_def)
qed

lemma probe_lookup_from:
  assumes inv: "probe_inv x (tab b)"
  shows "absent_below b nm k \<Longrightarrow> probe_lookup_in api b nm k = Ok r \<Longrightarrow>
    (case r of Some (s, e) \<Rightarrow> tab b s = Some e \<and> name_bytes e = nm
     | None \<Rightarrow> (\<forall>s e. tab b s = Some e \<longrightarrow> name_bytes e \<noteq> nm))"
proof (induction k rule: word_up_induct)
  case (step k)
  note unf = probe_lookup_in.simps [of api b nm k]
  show ?case
  proof (cases "bm_lookup api b k")
    case (Ok entry)
    note t = lookup_Ok [OF Ok]
    have nd: "\<not> is_dummy entry" using probe_invD(1) [OF inv t] .
    show ?thesis
    proof (cases "name_eq entry nm")
      case True
      with Ok nd step.prems(2) t show ?thesis by (auto simp: unf name_eq_def)
    next
      case False
      then have neq: "\<And>e. tab b k = Some e \<Longrightarrow> name_bytes e \<noteq> nm" using t by (simp add: name_eq_def)
      show ?thesis
      proof (cases "checked_succ k")
        case None
        with Ok False step.prems(2) have "r = None" by (simp add: unf)
        with None absent_at_end [OF inv] step.prems(1) neq show ?thesis
          by (simp add: checked_succ_None)
      next
        case (Some n)
        from absent_below_step [OF step.prems(1) Some neq] have "absent_below b nm n" .
        moreover from False Ok Some step.prems(2) have "probe_lookup_in api b nm n = Ok r"
          by (simp add: unf)
        ultimately show ?thesis by (rule step.IH [OF Some])
      qed
    qed
  next
    case (Err e)
    with step.prems(2) have "e = NotFound" "r = None" by (simp_all add: unf split: if_splits)
    with Err have "tab b k = None" by (simp add: lookup_NotFound)
    with absent_at_gap [OF inv step.prems(1)] \<open>r = None\<close> show ?thesis by simp
  next
    case Panic
    with step.prems(2) show ?thesis by (simp add: unf)
  qed
qed

lemma probe_lookup_sound:
  assumes inv: "probe_inv x (tab b)"
    and ret: "probe_lookup_in api b nm (hash_filename x nm) = Ok r"
  shows "map_option snd r = index_map (tab b) nm"
    and "r = Some (s, e) \<Longrightarrow> tab b s = Some e \<and> name_bytes e = nm"
proof -
  note main = probe_lookup_from [OF inv absent_below_start ret]
  then show "r = Some (s, e) \<Longrightarrow> tab b s = Some e \<and> name_bytes e = nm" by simp
  show "map_option snd r = index_map (tab b) nm"
  proof (cases r)
    case None
    with main have "index_map (tab b) nm = None" by (simp add: index_map_None)
    with None show ?thesis by simp
  next
    case (Some p)
    with main have "tab b (fst p) = Some (snd p) \<and> name_bytes (snd p) = nm" by (cases p) simp
    then have "index_map (tab b) nm = Some (snd p)"
      unfolding index_map_Some [OF inv] by blast
    with Some show ?thesis by simp
  qed
qed

lemma probe_upsert_slot_from:
  assumes inv: "probe_inv x (tab b)"
  shows "absent_below b nm k \<Longrightarrow> (\<And>j. hash_filename x nm \<le> j \<Longrightarrow> j < k \<Longrightarrow> tab b j \<noteq> None) \<Longrightarrow>
    probe_upsert_slot api b nm k = Ok s \<Longrightarrow> upsert_slot x (tab b) nm s"
proof (induction k rule: word_up_induct)
  case (step k)
  note unf = probe_upsert_slot.simps [of api b nm k]
  have hk: "hash_filename x nm \<le> k" using step.prems(1) by (simp add: absent_below_def)
  show ?case
  proof (cases "bm_lookup api b k")
    case (Ok entry)
    note t = lookup_Ok [OF Ok]
    have nd: "\<not> is_dummy entry" using probe_invD(1) [OF inv t] .
    show ?thesis
    proof (cases "name_eq entry nm")
      case True
      with Ok nd step.prems(3) have "s = k" by (simp add: unf)
      show ?thesis unfolding \<open>s = k\<close>
      proof (rule upsert_slotI [OF hk])
        fix k' e
        assume "tab b k' = Some e" "name_bytes e = nm"
        with True probe_invD(4) [OF inv t, of k' e] show "k' = k" by (simp add: name_eq_def)
      qed (use True t step.prems(2) in \<open>simp_all add: name_eq_def\<close>)
    next
      case False
      then have neq: "\<And>e. tab b k = Some e \<Longrightarrow> name_bytes e \<noteq> nm" using t by (simp add: name_eq_def)
      from False Ok step.prems(3) obtain n where n: "checked_succ k = Some n"
        and ret: "probe_upsert_slot api b nm n = Ok s"
        by (auto simp: unf split: option.splits)
      have "tab b j \<noteq> None" if "hash_filename x nm \<le> j" "j < n" for j
        using that n t step.prems(2) [of j] by (cases "j = k") (auto simp: checked_succ_Some word_less_succ)
      from step.IH [OF n absent_below_step [OF step.prems(1) n neq] this ret] show ?thesis .
    qed
  next
    case (Err e)
    with step.prems(3) have "e = NotFound" "s = k" by (simp_all add: unf split: if_splits)
    with Err have "tab b k = None" by (simp add: lookup_NotFound)
    note gap = absent_at_gap [OF inv step.prems(1) this] and free = this
    show ?thesis unfolding \<open>s = k\<close>
    proof (rule upsert_slotI [OF hk step.prems(2)])
      fix k' e
      assume "tab b k' = Some e" "name_bytes e = nm"
      with gap [of k' e] show "k' = k" by simp
    qed (use free in simp_all)
  next
    case Panic
    with step.prems(3) show ?thesis by (simp add: unf)
  qed
qed

lemma probe_upsert_sound:
  assumes inv: "probe_inv x (tab b)" and e: "name_bytes e = nm" "\<not> is_dummy e"
    and ret: "probe_upsert x api nm e b = (Ok u, b')"
  shows "probe_inv x (tab b')" and "index_map (tab b') = (index_map (tab b))(nm \<mapsto> e)"
proof -
  from ret obtain s old where s: "probe_upsert_slot api b nm (hash_filename x nm) = Ok s"
    and ins: "bm_insert api s e b = (Ok old, b')"
    unfolding probe_upsert_def
    by (auto elim!: io_bind_OkE simp: io_simps)
  from probe_upsert_slot_from [OF inv absent_below_start _ s]
  have slot: "upsert_slot x (tab b) nm s" by auto
  show "probe_inv x (tab b')" "index_map (tab b') = (index_map (tab b))(nm \<mapsto> e)"
    unfolding insert_Ok [OF ins]
    by (rule upsert_slot_inv [OF inv slot e], rule upsert_slot_index_map [OF inv slot e])
qed

lemma shift_loop_sound:
  "shift_inv x (tab b) hole j \<Longrightarrow> slot < j \<Longrightarrow> shift_loop x api slot hole j b = (Ok h, b') \<Longrightarrow>
    settled x (tab b') h \<and> ran ((tab b')(h := None)) = ran ((tab b)(hole := None))"
proof (induction j arbitrary: b hole rule: word_up_induct)
  case (step j)
  note unf = shift_loop.simps [of x api slot hole j b] and inv = step.prems(1)
  have js: "j \<noteq> slot" using step.prems(2) by simp
  show ?case
  proof (cases "bm_lookup api b j")
    case (Ok e)
    note t = lookup_Ok [OF Ok]
    have nd: "\<not> is_dummy e"
      using live_exceptD(1) [OF shift_invD(2) [OF inv] _ t] shift_invD(1) [OF inv] by simp
    show ?thesis
    proof (cases "home x e \<le> hole")
      case True
      from True Ok js nd step.prems(3) obtain old b1 where ins: "bm_insert api hole e b = (Ok old, b1)"
        and cont: "(case checked_succ j of Some n \<Rightarrow> shift_loop x api slot j n b1 | None \<Rightarrow> (Ok j, b1)) = (Ok h, b')"
        by (auto simp: unf home_def split: prod.splits result.splits)
      note t1 = insert_Ok [OF ins] and r = ran_move [of "tab b" j e hole, OF t]
      show ?thesis
      proof (cases "checked_succ j")
        case None
        with cont shift_inv_move(2) [OF inv t True None] t1 r shift_invD(1) [OF inv] show ?thesis
          by (simp del: fun_upd_apply)
      next
        case (Some n)
        from shift_inv_move(1) [OF inv t True Some] have "shift_inv x (tab b1) j n" by (simp add: t1)
        moreover have "slot < n" using Some step.prems(2) by (auto simp: checked_succ_Some word_less_succ)
        ultimately show ?thesis using step.IH [OF Some, of b1 j] cont Some t1 r shift_invD(1) [OF inv]
          by (simp del: fun_upd_apply)
      qed
    next
      case False
      with Ok js nd step.prems(3)
      have cont: "(case checked_succ j of Some n \<Rightarrow> shift_loop x api slot hole n b | None \<Rightarrow> (Ok hole, b)) = (Ok h, b')"
        by (simp add: unf home_def)
      from False have h: "hole < home x e" by simp
      show ?thesis
      proof (cases "checked_succ j")
        case None
        with cont shift_inv_keep(2) [OF inv t h None] show ?thesis by simp
      next
        case (Some n)
        have "slot < n" using Some step.prems(2) by (auto simp: checked_succ_Some word_less_succ)
        with step.IH [OF Some shift_inv_keep(1) [OF inv t h Some]] cont Some show ?thesis by simp
      qed
    qed
  next
    case (Err e)
    with js step.prems(3) have "e = NotFound" "h = hole" "b' = b"
      by (simp_all add: unf split: if_splits)
    with Err shift_inv_settled_gap [OF inv] show ?thesis by (simp add: lookup_NotFound)
  next
    case Panic
    with js step.prems(3) show ?thesis by (simp add: unf)
  qed
qed

lemma probe_inv_live_except:
  "probe_inv x t \<Longrightarrow> live_except x t hole"
  unfolding probe_inv_def live_except_def by blast

lemma shift_from_slot:
  assumes inv: "probe_inv x (tab b)" and t: "tab b slot = Some e"
    and ret: "shift_loop x api slot slot (case checked_succ slot of Some v \<Rightarrow> v | None \<Rightarrow> slot) b = (Ok h, b')"
  shows "settled x (tab b') h \<and> ran ((tab b')(h := None)) = ran ((tab b)(slot := None))"
proof (cases "checked_succ slot")
  case None
  with ret have "h = slot" "b' = b" by (simp_all add: shift_loop.simps)
  moreover have "settled x (tab b) slot"
    using None by (intro settledI probe_inv_live_except inv) (simp add: checked_succ_None)
  ultimately show ?thesis by simp
next
  case (Some n)
  have n: "i < n \<longleftrightarrow> i \<le> slot" for i using Some by (simp add: checked_succ_Some word_less_succ)
  have "shift_inv x (tab b) slot n"
  proof (rule shift_invI)
    show "live_except x (tab b) slot" by (rule probe_inv_live_except [OF inv])
    show "tab b i \<noteq> None" if "slot \<le> i" "i < n" for i
      using that n t by (simp add: antisym)
    show "slot < home x e'" if "slot < k" "k < n" for k e'
      using that n [of k] by simp
  qed (simp add: n)
  then show ?thesis using shift_loop_sound [of b slot n slot h b'] ret Some n by simp
qed

lemma probe_delete_sound:
  assumes inv: "probe_inv x (tab b)" and ret: "probe_delete x api nm b = (Ok removed, b')"
  shows "probe_inv x (tab b')" and "index_map (tab b') = (index_map (tab b))(nm := None)"
    and "removed \<longleftrightarrow> index_map (tab b) nm \<noteq> None" and "\<not> removed \<Longrightarrow> b' = b"
proof -
  from ret obtain r where r: "probe_lookup_in api b nm (hash_filename x nm) = Ok r"
    and cont: "(case r of None \<Rightarrow> io_return False
        | Some (slot, _) \<Rightarrow> io_bind (shift_loop x api slot slot
              (case checked_succ slot of Some v \<Rightarrow> v | None \<Rightarrow> slot))
            (\<lambda>hole. io_bind (bm_delete api hole) (\<lambda>_. io_return True))) b = (Ok removed, b')"
    unfolding probe_delete_def by (auto elim!: io_bind_OkE simp: io_simps)
  note look = probe_lookup_sound [OF inv r]
  have "probe_inv x (tab b') \<and> index_map (tab b') = (index_map (tab b))(nm := None) \<and>
    (removed \<longleftrightarrow> index_map (tab b) nm \<noteq> None) \<and> (\<not> removed \<longrightarrow> b' = b)"
  proof (cases r)
    case None
    with look(1) have "index_map (tab b) nm = None" by simp
    with cont None inv show ?thesis by (auto simp: io_simps)
  next
    case (Some p)
    obtain slot e where p: "p = (slot, e)" by (cases p)
    with Some look(2) have t: "tab b slot = Some e" "name_bytes e = nm" by simp_all
    from cont Some p obtain h b1 where sh: "shift_loop x api slot slot
          (case checked_succ slot of Some v \<Rightarrow> v | None \<Rightarrow> slot) b = (Ok h, b1)"
      and del: "bm_delete api h b1 = (Ok (), b')" and removed
      by (auto elim!: io_bind_OkE simp: io_simps)
    from shift_from_slot [OF inv t(1) sh]
    have s: "settled x (tab b1) h" and rn: "ran ((tab b1)(h := None)) = ran ((tab b)(slot := None))"
      by simp_all
    note t' = erase_Ok [OF del]
    have inv': "probe_inv x (tab b')" unfolding t' by (rule settled_probe_inv [OF s])
    have ran': "ran (tab b') = {e' \<in> ran (tab b). name_bytes e' \<noteq> nm}"
    proof -
      have "ran ((tab b)(slot := None)) = {e' \<in> ran (tab b). name_bytes e' \<noteq> nm}"
      proof (intro set_eqI iffI)
        fix v
        assume "v \<in> ran ((tab b)(slot := None))"
        then obtain k where "k \<noteq> slot" "tab b k = Some v" by (auto simp: ran_def split: if_splits)
        with probe_invD(4) [OF inv t(1), of k v] t(2) show "v \<in> {e' \<in> ran (tab b). name_bytes e' \<noteq> nm}"
          by (auto intro: ranI)
      next
        fix v
        assume "v \<in> {e' \<in> ran (tab b). name_bytes e' \<noteq> nm}"
        then obtain k where "tab b k = Some v" "name_bytes v \<noteq> nm" by (auto simp: ran_def)
        with t have "((tab b)(slot := None)) k = Some v" by auto
        then show "v \<in> ran ((tab b)(slot := None))" by (rule ranI)
      qed
      with rn show ?thesis by (simp add: t')
    qed
    have "index_map (tab b') = (index_map (tab b))(nm := None)"
    proof
      fix n
      have "index_map (tab b') n = Some v \<longleftrightarrow> ((index_map (tab b))(nm := None)) n = Some v" for v
        by (auto simp: index_map_ran [OF inv'] index_map_ran [OF inv] ran')
      then show "index_map (tab b') n = ((index_map (tab b))(nm := None)) n"
        by (metis option.exhaust)
    qed
    moreover have "index_map (tab b) nm = Some (snd p)" using look(1) Some by simp
    ultimately show ?thesis using inv' \<open>removed\<close> by simp
  qed
  then show "probe_inv x (tab b')" "index_map (tab b') = (index_map (tab b))(nm := None)"
    "removed \<longleftrightarrow> index_map (tab b) nm \<noteq> None" "\<not> removed \<Longrightarrow> b' = b" by simp_all
qed

text \<open>The enumeration visits the occupied slots in increasing order, each once.\<close>

lemma walk_loop_sound:
  assumes inv: "probe_inv x (tab b)" and last: "\<And>j. tab b j \<noteq> None \<Longrightarrow> j \<le> last_key"
  shows "walk_loop api b last_key n out = Ok r \<Longrightarrow>
    \<exists>ks. sorted_wrt (<) ks \<and> set ks = {k. n \<le> k \<and> tab b k \<noteq> None} \<and>
      map Some r = map Some out @ map (tab b) ks"
proof (induction n arbitrary: out rule: measure_induct_rule [where f = "\<lambda>n. 2 ^ 64 - unat n"])
  case (less n)
  note unf = walk_loop.simps [of api b last_key n out]
  show ?case
  proof (cases "bm_seek_key api b n")
    case (Ok key)
    from seek_key_Ok [OF Ok] have key: "n \<le> key" "tab b key \<noteq> None"
      and before: "\<And>j. n \<le> j \<Longrightarrow> j < key \<Longrightarrow> tab b j = None" by blast+
    have le: "key \<le> last_key" using last key(2) .
    from less.prems Ok le key(1) obtain val where val: "bm_lookup api b key = Ok val"
      by (auto simp: unf not_less [symmetric] split: result.splits)
    note t = lookup_Ok [OF val]
    have nd: "\<not> is_dummy val" using probe_invD(1) [OF inv t] .
    have dom: "{k. n \<le> k \<and> tab b k \<noteq> None} = insert key {k. key < k \<and> tab b k \<noteq> None}"
    proof (intro set_eqI iffI)
      fix k
      assume "k \<in> {k. n \<le> k \<and> tab b k \<noteq> None}"
      then show "k \<in> insert key {k. key < k \<and> tab b k \<noteq> None}"
        using before [of k] by (cases "k < key") (auto simp: not_less order_le_less)
    next
      fix k
      assume "k \<in> insert key {k. key < k \<and> tab b k \<noteq> None}"
      then show "k \<in> {k. n \<le> k \<and> tab b k \<noteq> None}"
        using key by (auto dest: order_less_imp_le intro: order_trans)
    qed
    show ?thesis
    proof (cases "checked_succ key")
      case None
      then have "\<And>k. \<not> key < k" by (simp add: checked_succ_None)
      with less.prems Ok le key(1) val nd None t dom show ?thesis
        by (intro exI [of _ "[key]"]) (auto simp: unf not_less [symmetric])
    next
      case (Some n')
      have "walk_loop api b last_key n' (out @ [val]) = Ok r"
        using less.prems Ok le key(1) val nd Some by (simp add: unf not_less [symmetric])
      moreover have "2 ^ 64 - unat n' < 2 ^ 64 - unat n"
        using checked_succ_measure [OF Some] key(1) by (simp add: word_le_nat_alt)
      ultimately obtain ks where ks: "sorted_wrt (<) ks" "set ks = {k. n' \<le> k \<and> tab b k \<noteq> None}"
        "map Some r = map Some (out @ [val]) @ map (tab b) ks"
        using less.IH by blast
      have n': "n' \<le> k \<longleftrightarrow> key < k" for k
        using Some by (simp add: checked_succ_Some word_less_succ flip: not_less)
      show ?thesis
        using ks t dom by (intro exI [of _ "key # ks"]) (auto simp: n')
    qed
  next
    case (Err e)
    with less.prems have "e = NotFound" "r = out" by (simp_all add: unf split: if_splits)
    with Err seek_key_NotFound [of b n] show ?thesis by (intro exI [of _ "[]"]) auto
  next
    case Panic
    with less.prems show ?thesis by (simp add: unf)
  qed
qed

lemma walk_bmap_sound:
  assumes inv: "probe_inv x (tab b)" and ret: "walk_bmap api b = Ok r"
  shows "\<exists>ks. sorted_wrt (<) ks \<and> set ks = dom (tab b) \<and> map Some r = map (tab b) ks"
proof (cases "bm_last_key api b")
  case (Ok l)
  with ret have "walk_loop api b l 0 [] = Ok r" by (simp add: walk_bmap_def)
  from walk_loop_sound [OF inv last_key_Ok [OF Ok] this] show ?thesis by (auto simp: dom_def)
next
  case (Err e)
  with ret have "e = NotFound" "r = []" by (simp_all add: walk_bmap_def split: if_splits)
  with Err last_key_NotFound [of b] show ?thesis by (intro exI [of _ "[]"]) (auto simp: dom_def)
next
  case Panic
  with ret show ?thesis by (simp add: walk_bmap_def)
qed

lemma walk_bmap_view:
  assumes inv: "probe_inv x (tab b)" and ret: "walk_bmap api b = Ok r"
  shows "set r = ran (tab b)" and "distinct (map name_bytes r)"
proof -
  from walk_bmap_sound [OF assms] obtain ks where ks: "sorted_wrt (<) ks" "set ks = dom (tab b)"
    and r: "map Some r = map (tab b) ks" by blast
  have "Some ` set r = tab b ` set ks" using arg_cong [OF r, of set] by simp
  also have "\<dots> = Some ` ran (tab b)" unfolding ks(2) by (rule image_dom_ran)
  finally show "set r = ran (tab b)" by (simp add: inj_image_eq_iff)
  have len: "length r = length ks" using arg_cong [OF r, of length] by simp
  have nth: "tab b (ks ! i) = Some (r ! i)" if "i < length r" for i
    using arg_cong [OF r, of "\<lambda>l. l ! i"] that len by simp
  show "distinct (map name_bytes r)"
  proof (unfold distinct_conv_nth, intro allI impI)
    fix i j
    assume ij: "i < length (map name_bytes r)" "j < length (map name_bytes r)" "i \<noteq> j"
    have "distinct ks" using ks(1) by (simp add: strict_sorted_iff)
    then have "ks ! i \<noteq> ks ! j" using ij len by (simp add: nth_eq_iff_index_eq)
    then show "map name_bytes r ! i \<noteq> map name_bytes r ! j"
      using probe_invD(4) [OF inv nth [of j] nth [of i]] ij by auto
  qed
qed

end

text \<open>On a healthy store every operation returns; an upsert needs a free slot on its path.\<close>

locale entry_tree_total = btree_total api tab
  for api :: "('i dir_file_entry_raw, 'b) btree_api" and tab :: "'b \<Rightarrow> 'i table" +
  fixes x :: ext

sublocale entry_tree_total \<subseteq> entry_tree api tab x
  by unfold_locales

context entry_tree_total
begin

lemma lookup_cases: "bm_lookup api b k = (case tab b k of Some v \<Rightarrow> Ok v | None \<Rightarrow> Err NotFound)"
  using lookup_hit lookup_miss by (cases "tab b k") simp_all

lemma probe_lookup_returns: "\<exists>r. probe_lookup_in api b nm k = Ok r"
proof (induction k rule: word_up_induct)
  case (step k)
  show ?case
    by (subst probe_lookup_in.simps)
      (auto simp: lookup_cases split: option.splits dest: step)
qed

lemma probe_upsert_slot_returns:
  "k \<le> s \<Longrightarrow> tab b s = None \<Longrightarrow> \<exists>r. probe_upsert_slot api b nm k = Ok r"
proof (induction k rule: word_up_induct)
  case (step k)
  note unf = probe_upsert_slot.simps [of api b nm k]
  show ?case
  proof (cases "tab b k")
    case None
    then show ?thesis by (simp add: unf lookup_cases)
  next
    case (Some e)
    with step.prems have "k < s" by (cases "k = s") simp_all
    then have "k \<noteq> - 1" by (metis word_le_minus_one not_less)
    then have n: "checked_succ k = Some (k + 1)" by (simp add: checked_succ_Some)
    have "k + 1 \<le> s" using \<open>k < s\<close> \<open>k \<noteq> - 1\<close> by (simp add: word_less_succ flip: not_less)
    from step.IH [OF n this step.prems(2)] Some n show ?thesis by (simp add: unf lookup_cases)
  qed
qed

lemma probe_upsert_returns:
  assumes "hash_filename x nm \<le> s" and "tab b s = None"
  shows "\<exists>b'. probe_upsert x api nm e b = (Ok (), b')"
proof -
  from probe_upsert_slot_returns [OF assms] obtain k
    where k: "probe_upsert_slot api b nm (hash_filename x nm) = Ok k" by blast
  from insert_total obtain old b' where "bm_insert api k e b = (Ok old, b')" by blast
  with k show ?thesis by (simp add: probe_upsert_def io_bind_def io_lift_def io_return_def)
qed

lemma shift_loop_returns:
  assumes "tab b hole \<noteq> None"
  shows "\<exists>h b'. shift_loop x api slot hole j b = (Ok h, b') \<and> tab b' h \<noteq> None"
  using assms
proof (induction j arbitrary: b hole rule: word_up_induct)
  case (step j)
  note unf = shift_loop.simps [of x api slot hole j b]
  show ?case
  proof (cases "j = slot \<or> tab b j = None")
    case True
    with step.prems show ?thesis by (auto simp: unf lookup_cases)
  next
    case False
    then obtain e where e: "tab b j = Some e" "j \<noteq> slot" by auto
    obtain old b1 where ins: "bm_insert api hole e b = (Ok old, b1)" using insert_total by blast
    note t1 = insert_Ok [OF ins]
    show ?thesis
    proof (cases "(if is_dummy e then j else hash_filename x (name_bytes e)) \<le> hole")
      case True
      have "tab b1 j \<noteq> None" using e by (simp add: t1)
      with step.IH [of _ b1 j] True e ins show ?thesis
        by (cases "checked_succ j") (simp_all add: unf lookup_cases Let_def)
    next
      case False
      with step.IH [of _ b hole] step.prems e show ?thesis
        by (cases "checked_succ j") (simp_all add: unf lookup_cases Let_def)
    qed
  qed
qed

lemma probe_delete_returns:
  assumes inv: "probe_inv x (tab b)"
  shows "\<exists>r b'. probe_delete x api nm b = (Ok r, b')"
proof -
  obtain r where r: "probe_lookup_in api b nm (hash_filename x nm) = Ok r"
    using probe_lookup_returns by blast
  show ?thesis
  proof (cases r)
    case None
    with r show ?thesis
      by (intro exI [of _ False] exI [of _ b]) (simp add: probe_delete_def io_simps io_bind_def)
  next
    case (Some p)
    obtain slot e where p: "p = (slot, e)" by (cases p)
    have "tab b slot \<noteq> None" using probe_lookup_sound(2) [OF inv r] Some p by simp
    from shift_loop_returns [OF this] obtain h b1 where
      "shift_loop x api slot slot (case checked_succ slot of Some v \<Rightarrow> v | None \<Rightarrow> slot) b = (Ok h, b1)"
      "tab b1 h \<noteq> None" by blast
    moreover from delete_total [OF this(2)] obtain b' where "bm_delete api h b1 = (Ok (), b')" by blast
    ultimately show ?thesis using r Some p
      by (intro exI [of _ True] exI [of _ b'])
        (simp add: probe_delete_def io_bind_def io_lift_def io_return_def)
  qed
qed

lemma walk_loop_returns: "\<exists>r. walk_loop api b last_key n out = Ok r"
proof (induction n arbitrary: out rule: measure_induct_rule [where f = "\<lambda>n. 2 ^ 64 - unat n"])
  case (less n)
  note unf = walk_loop.simps [of api b last_key n out]
  show ?case
  proof (cases "\<exists>j. n \<le> j \<and> tab b j \<noteq> None")
    case True
    then obtain key where key: "bm_seek_key api b n = Ok key" using seek_key_hit by blast
    from seek_key_Ok [OF key] obtain v where v: "n \<le> key" "tab b key = Some v" by auto
    have "\<exists>r. walk_loop api b last_key n' out' = Ok r" if "checked_succ key = Some n'" for n' out'
    proof (rule less)
      show "2 ^ 64 - unat n' < 2 ^ 64 - unat n"
        using checked_succ_measure [OF that] v(1) by (simp add: word_le_nat_alt)
    qed
    with key v show ?thesis
      by (cases "checked_succ key") (auto simp: unf lookup_cases Let_def)
  next
    case False
    then have "bm_seek_key api b n = Err NotFound" by (intro seek_key_miss) blast
    then show ?thesis by (simp add: unf)
  qed
qed

lemma walk_bmap_returns: "\<exists>r. walk_bmap api b = Ok r"
proof (cases "\<exists>j. tab b j \<noteq> None")
  case True
  then obtain k where "bm_last_key api b = Ok k" using last_key_hit by blast
  then show ?thesis using walk_loop_returns by (simp add: walk_bmap_def)
next
  case False
  then have "bm_last_key api b = Err NotFound" by (intro last_key_miss) blast
  then show ?thesis by (simp add: walk_bmap_def)
qed

end

section \<open>A directory with two colliding names\<close>

text \<open>The names \<open>a\<close> and \<open>b\<close> share the home slot 5: \<open>b\<close> was pushed to slot 6.\<close>

definition collide_ext :: ext where
  "collide_ext = ref_ext\<lparr>crc64 := (\<lambda>_. 5)\<rparr>"

definition wit_a :: "nat dir_file_entry_raw" where "wit_a = entry_from 0 1 ''a''"
definition wit_b :: "nat dir_file_entry_raw" where "wit_b = entry_from 0 2 ''b''"

definition wit_tree :: "(u64 \<times> nat dir_file_entry_raw) list" where
  "wit_tree = [(5, wit_a), (6, wit_b)]"

lemma storable_short: "length nm \<le> 250 \<Longrightarrow> CHR 0x00 \<notin> set nm \<Longrightarrow> storable nm"
  by (auto simp: storable_def DEFAULT_NAME_LEN_def)

lemma wit_names [simp]: "name_bytes wit_a = ''a''" "name_bytes wit_b = ''b''"
  "\<not> is_dummy wit_a" "\<not> is_dummy wit_b"
  using name_bytes_storable [OF storable_short, of "''a''"] name_bytes_storable [OF storable_short, of "''b''"]
    entry_from_not_dummy [OF storable_short, of "''a''"] entry_from_not_dummy [OF storable_short, of "''b''"]
  by (simp_all add: wit_a_def wit_b_def)

lemma hash_collide [simp]: "hash_filename collide_ext nm = 5"
  by (simp add: hash_filename_def collide_ext_def)

lemma between_5_6: "(5 :: u64) \<le> j \<Longrightarrow> j < 6 \<Longrightarrow> j = 5"
  using word_less_succ [of "5 :: u64" j] by simp

lemma wit_inv: "probe_inv collide_ext (map_of wit_tree)"
proof (rule probe_invI)
  fix k e
  assume k: "map_of wit_tree k = Some e"
  then have e: "k = 5 \<and> e = wit_a \<or> k = 6 \<and> e = wit_b" by (auto simp: wit_tree_def split: if_splits)
  then show "\<not> is_dummy e" "home collide_ext e \<le> k" by (auto simp: home_def)
  fix j
  assume "home collide_ext e \<le> j" "j < k"
  with e have "j = 5" by (auto simp: home_def intro: between_5_6)
  then show "map_of wit_tree j \<noteq> None" by (simp add: wit_tree_def)
next
  fix k1 k2 e1 e2
  assume "map_of wit_tree k1 = Some e1" "map_of wit_tree k2 = Some e2" "name_bytes e1 = name_bytes e2"
  then show "k1 = k2" by (auto simp: wit_tree_def split: if_splits)
qed

lemma wit_lookup_b: "probe_lookup_in mem_btree wit_tree ''b'' 5 = Ok (Some (6, wit_b))"
  using probe_lookup_in.simps [of mem_btree wit_tree "''b''" 5]
    probe_lookup_in.simps [of mem_btree wit_tree "''b''" 6]
  by (simp add: wit_tree_def name_eq_def checked_succ_def)

lemma wit_lookup_a: "probe_lookup_in mem_btree wit_tree ''a'' 5 = Ok (Some (5, wit_a))"
  by (subst probe_lookup_in.simps) (simp add: wit_tree_def name_eq_def)

lemma wit_delete_a: "probe_delete collide_ext mem_btree ''a'' wit_tree = (Ok True, [(5, wit_b)])"
proof -
  have "shift_loop collide_ext mem_btree 5 5 6 wit_tree = (Ok 6, [(5, wit_b), (6, wit_b)])"
    by (subst shift_loop.simps, subst shift_loop.simps)
      (simp add: wit_tree_def name_eq_def checked_succ_def)
  then show ?thesis
    by (simp add: probe_delete_def wit_lookup_a io_bind_def io_lift_def io_return_def checked_succ_def)
qed

section \<open>Properties\<close>

lemma walk_index_map:
  assumes "probe_inv x t" and "set r = ran t" and "distinct (map name_bytes r)"
  shows "map_of (map (\<lambda>e. (name_bytes e, e)) r) = index_map t"
proof (rule sym, rule index_map_eqI [OF assms(1)])
  fix nm e
  have "map_of (map (\<lambda>e. (name_bytes e, e)) r) nm = Some e \<longleftrightarrow> e \<in> set r \<and> name_bytes e = nm"
    using assms(3) by (subst map_of_eq_Some_iff) (auto simp: comp_def)
  then show "map_of (map (\<lambda>e. (name_bytes e, e)) r) nm = Some e \<longleftrightarrow> (\<exists>k. t k = Some e \<and> name_bytes e = nm)"
    by (auto simp: assms(2) ran_def)
qed

text \<open>C26. A point lookup is a lookup in the name map: on a well-formed index, over any B-tree that keeps
  its laws, \<open>probe_lookup_in\<close> from the name's home slot returns the entry stored under exactly
  that name, also when other names have the same CRC-64.\<close>

theorem probe_lookup_correct:
  assumes "btree api tab" and "probe_inv x (tab b)"
    and "probe_lookup_in api b nm (hash_filename x nm) = Ok r"
  shows "map_option snd r = index_map (tab b) nm"
  using assms by (intro entry_tree.probe_lookup_sound(1)) (simp_all add: entry_tree_def)

theorem probe_lookup_correct_witness:
  "probe_lookup_in mem_btree wit_tree ''b'' (hash_filename collide_ext ''b'') = Ok (Some (6, wit_b)) \<and>
   index_map (map_of wit_tree) ''b'' = Some wit_b"
  using probe_lookup_correct [OF mem.btree_axioms wit_inv, of "''b''" "Some (6, wit_b)"] wit_lookup_b
  by simp

text \<open>C25. \<open>probe_upsert\<close> of a storable name keeps the index well-formed and updates the name map at that
  name only.\<close>

theorem probe_upsert_correct:
  assumes "btree api tab" and "probe_inv x (tab b)" and "storable nm"
    and "probe_upsert x api nm (entry_from i u nm) b = (Ok (), b')"
  shows "probe_inv x (tab b') \<and> index_map (tab b') = (index_map (tab b))(nm \<mapsto> entry_from i u nm)"
proof -
  have "entry_tree api tab" using assms(1) by (simp add: entry_tree_def)
  from entry_tree.probe_upsert_sound [OF this assms(2) name_bytes_storable [OF assms(3)]
      entry_from_not_dummy [OF assms(3)] assms(4)] show ?thesis by simp
qed

theorem probe_upsert_correct_witness:
  "let b' = snd (probe_upsert collide_ext mem_btree ''c'' (entry_from 0 3 ''c'') wit_tree) in
   b' = wit_tree @ [(7, entry_from 0 3 ''c'')] \<and> probe_inv collide_ext (map_of b') \<and>
   index_map (map_of b') = (index_map (map_of wit_tree))(''c'' \<mapsto> entry_from 0 3 ''c'')"
proof -
  let ?e = "entry_from 0 3 ''c'' :: nat dir_file_entry_raw"
  have "probe_upsert_slot mem_btree wit_tree ''c'' 5 = Ok 7"
    using probe_upsert_slot.simps [of mem_btree wit_tree "''c''" 5]
      probe_upsert_slot.simps [of mem_btree wit_tree "''c''" 6]
      probe_upsert_slot.simps [of mem_btree wit_tree "''c''" 7]
    by (simp add: wit_tree_def name_eq_def checked_succ_def)
  then have run: "probe_upsert collide_ext mem_btree ''c'' ?e wit_tree = (Ok (), wit_tree @ [(7, ?e)])"
    by (simp add: probe_upsert_def io_bind_def io_lift_def io_return_def wit_tree_def)
  have "storable ''c''" by (rule storable_short) simp_all
  from probe_upsert_correct [OF mem.btree_axioms wit_inv this run] run show ?thesis by simp
qed

text \<open>C7. \<open>probe_delete\<close> removes exactly the named entry: the backward shift keeps the index
  well-formed, so every other name, colliding ones included, is still found; the result says
  whether the name was present.\<close>

theorem probe_delete_correct:
  assumes "btree api tab" and "probe_inv x (tab b)" and "probe_delete x api nm b = (Ok removed, b')"
  shows "probe_inv x (tab b') \<and> index_map (tab b') = (index_map (tab b))(nm := None) \<and>
    (removed \<longleftrightarrow> index_map (tab b) nm \<noteq> None)"
proof -
  have "entry_tree api tab" using assms(1) by (simp add: entry_tree_def)
  from entry_tree.probe_delete_sound [OF this assms(2,3)] show ?thesis by simp
qed

theorem probe_delete_correct_witness:
  "probe_delete collide_ext mem_btree ''a'' wit_tree = (Ok True, [(5, wit_b)]) \<and>
   probe_inv collide_ext (map_of [(5, wit_b)]) \<and>
   index_map (map_of [(5, wit_b)]) = (index_map (map_of wit_tree))(''a'' := None)"
  using probe_delete_correct [OF mem.btree_axioms wit_inv wit_delete_a] wit_delete_a by blast

text \<open>\<open>walk_bmap\<close> enumerates the whole name map: every entry once, no other.\<close>

theorem walk_bmap_correct:
  assumes "btree api tab" and "probe_inv x (tab b)" and "walk_bmap api b = Ok r"
  shows "distinct (map name_bytes r) \<and> map_of (map (\<lambda>e. (name_bytes e, e)) r) = index_map (tab b)"
proof -
  have "entry_tree api tab" using assms(1) by (simp add: entry_tree_def)
  from entry_tree.walk_bmap_view [OF this assms(2,3)] walk_index_map [OF assms(2)] show ?thesis by simp
qed

theorem walk_bmap_correct_witness:
  "walk_bmap mem_btree wit_tree = Ok [wit_a, wit_b] \<and>
   map_of [(''a'', wit_a), (''b'', wit_b)] = index_map (map_of wit_tree)"
proof -
  have "walk_loop mem_btree wit_tree 6 0 [] = Ok [wit_a, wit_b]"
    by (subst walk_loop.simps, subst walk_loop.simps, subst walk_loop.simps)
      (simp add: wit_tree_def keys_from_def checked_succ_def)
  then have run: "walk_bmap mem_btree wit_tree = Ok [wit_a, wit_b]"
    by (simp add: walk_bmap_def wit_tree_def)
  from walk_bmap_correct [OF mem.btree_axioms wit_inv this] run show ?thesis by simp
qed

text \<open>C32. The probe loops end and return a value on a healthy store: lookup and delete always, an upsert
  whenever a slot at or after the name's home is free, a walk always.\<close>

theorem probe_ops_return:
  assumes "btree_total api tab" and "probe_inv x (tab b)"
    and "hash_filename x nm \<le> s" and "tab b s = None"
  shows "(\<exists>r. probe_lookup_in api b nm (hash_filename x nm) = Ok r) \<and>
    (\<exists>b'. probe_upsert x api nm e b = (Ok (), b')) \<and>
    (\<exists>r b'. probe_delete x api nm b = (Ok r, b')) \<and>
    (\<exists>r. walk_bmap api b = Ok r)"
  using assms entry_tree_total.probe_lookup_returns [of api tab b nm]
    entry_tree_total.probe_upsert_returns [of api tab x nm s b e]
    entry_tree_total.probe_delete_returns [of api tab x b nm]
    entry_tree_total.walk_bmap_returns [of api tab b]
  by (simp add: entry_tree_total_def)

theorem probe_ops_return_witness:
  "\<exists>b'. probe_upsert collide_ext mem_btree ''c'' (entry_from 0 3 ''c'') wit_tree = (Ok (), b')"
  using probe_ops_return [OF mem.btree_total_axioms wit_inv, of "''c''" 7] by (simp add: wit_tree_def)

end
