(* ===== verification/Name_Index.thy ===== *)
theory Name_Index
  imports Probe_Index
begin

text \<open>
  The directory index as its clients see it: a map from names to entries with an upsert and a
  removal. The locale \<open>name_index\<close> states that contract; \<open>entry_tree\<close> (the probing of
  \<open>src/file.rs\<close> over a lawful B-tree) fulfils it. The loops that fold a batch of changes into an
  index (\<open>compact_inner\<close>) are written over the two operations and verified in the locale.
\<close>

section \<open>Folding a batch of changes\<close>

text \<open>The upsert loop returns how many entries it wrote, the removal loop which names it removed.\<close>

fun upsert_all :: "(string \<Rightarrow> 'e \<Rightarrow> ('b, unit) io) \<Rightarrow> (string \<times> 'e) list \<Rightarrow> nat \<Rightarrow> ('b, nat) io" where
  "upsert_all up [] entries_added = io_return entries_added"
| "upsert_all up ((name, entry) # items) entries_added =
     io_bind (up name entry) (\<lambda>_. upsert_all up items (entries_added + 1))"

fun remove_all :: "(string \<Rightarrow> ('b, bool) io) \<Rightarrow> (string \<times> 'a) list \<Rightarrow> (string \<times> 'a) list \<Rightarrow>
    ('b, (string \<times> 'a) list) io" where
  "remove_all rm [] removed = io_return removed"
| "remove_all rm ((name, v) # items) removed =
     io_bind (rm name) (\<lambda>hit. remove_all rm items (if hit then removed @ [(name, v)] else removed))"

section \<open>The contract\<close>

locale name_index =
  fixes upsert :: "string \<Rightarrow> 'e \<Rightarrow> ('b, unit) io"
    and remove :: "string \<Rightarrow> ('b, bool) io"
    and invar :: "'b \<Rightarrow> bool"
    and view :: "'b \<Rightarrow> string \<Rightarrow> 'e option"
    and fits :: "string \<Rightarrow> 'e \<Rightarrow> bool"
  assumes upsert_view: "invar b \<Longrightarrow> fits nm e \<Longrightarrow> upsert nm e b = (Ok u, b') \<Longrightarrow>
      invar b' \<and> view b' = (view b)(nm \<mapsto> e)"
    and remove_view: "invar b \<Longrightarrow> remove nm b = (Ok hit, b') \<Longrightarrow>
      invar b' \<and> view b' = (view b)(nm := None) \<and> (hit \<longleftrightarrow> view b nm \<noteq> None)"
    and view_fits: "invar b \<Longrightarrow> view b nm = Some e \<Longrightarrow> fits nm e"
begin

lemma upsert_all_view:
  assumes "invar b" and "\<And>nm e. (nm, e) \<in> set items \<Longrightarrow> fits nm e" and "distinct (map fst items)"
    and "upsert_all upsert items n b = (Ok m, b')"
  shows "invar b' \<and> view b' = view b ++ map_of items \<and> m = n + length items"
  using assms
proof (induction items arbitrary: b n)
  case (Cons item items)
  obtain nm e where item: "item = (nm, e)" by (cases item)
  from Cons.prems(4) obtain u b1 where up: "upsert nm e b = (Ok u, b1)"
    and rest: "upsert_all upsert items (n + 1) b1 = (Ok m, b')"
    unfolding item by (auto elim: io_bind_OkE)
  have b1: "invar b1" "view b1 = (view b)(nm \<mapsto> e)"
    using upsert_view [OF Cons.prems(1) _ up] Cons.prems(2) [of nm e] item by simp_all
  have IH: "invar b' \<and> view b' = view b1 ++ map_of items \<and> m = (n + 1) + length items"
    by (rule Cons.IH [OF b1(1) _ _ rest]) (use Cons.prems(2,3) in auto)
  have "map_of items nm = None" using Cons.prems(3) by (simp add: item map_of_eq_None_iff)
  then have eq: "(view b)(nm \<mapsto> e) ++ map_of items = view b ++ map_of (item # items)"
    by (auto simp: item map_add_def fun_eq_iff split: option.splits)
  show ?case
  proof (intro conjI)
    show "view b' = view b ++ map_of (item # items)"
      using IH unfolding b1(2) eq by (elim conjE)
  qed (use IH in simp_all)
qed (simp add: io_return_def)

lemma remove_all_view:
  assumes "invar b" and "distinct (map fst items)" and "remove_all remove items acc b = (Ok r, b')"
  shows "invar b' \<and> view b' = view b |` (- set (map fst items)) \<and>
    r = acc @ filter (\<lambda>(nm, _). view b nm \<noteq> None) items"
  using assms
proof (induction items arbitrary: b acc)
  case Nil
  then show ?case by (auto simp: io_return_def restrict_map_def)
next
  case (Cons item items)
  obtain nm v where item: "item = (nm, v)" by (cases item)
  from Cons.prems(3) obtain hit b1 where rm: "remove nm b = (Ok hit, b1)"
    and rest: "remove_all remove items (if hit then acc @ [(nm, v)] else acc) b1 = (Ok r, b')"
    unfolding item by (auto elim: io_bind_OkE)
  from remove_view [OF Cons.prems(1) rm]
  have b1: "invar b1" "view b1 = (view b)(nm := None)" "hit \<longleftrightarrow> view b nm \<noteq> None" by simp_all
  have IH: "invar b' \<and> view b' = view b1 |` (- set (map fst items)) \<and>
      r = (if hit then acc @ [(nm, v)] else acc) @ filter (\<lambda>(nm, _). view b1 nm \<noteq> None) items"
    by (rule Cons.IH [OF b1(1) _ rest]) (use Cons.prems(2) in simp)
  have "filter (\<lambda>(nm, _). view b1 nm \<noteq> None) items = filter (\<lambda>(nm, _). view b nm \<noteq> None) items"
    using Cons.prems(2) unfolding item b1(2) by (intro filter_cong) (force split: if_splits)+
  moreover have "view b1 |` (- set (map fst items)) = view b |` (- set (map fst (item # items)))"
    unfolding b1(2) item by (auto simp: restrict_map_def fun_eq_iff)
  ultimately show ?case using IH b1(3) item by auto
qed

end

section \<open>The probing index fulfils the contract\<close>

text \<open>
  What a directory stores under a name: an entry built for that name, which is UTF-8, at most 255
  bytes and without NUL.
\<close>

definition fits_name :: "string \<Rightarrow> 'i dir_file_entry_raw \<Rightarrow> bool" where
  "fits_name nm e = ((\<exists>i u. e = entry_from i u nm) \<and> storable nm \<and> utf8_valid nm)"

definition dir_inv :: "ext \<Rightarrow> 'i table \<Rightarrow> bool" where
  "dir_inv x t = (probe_inv x t \<and> (\<forall>nm e. index_map t nm = Some e \<longrightarrow> fits_name nm e))"

lemma dir_inv_probe: "dir_inv x t \<Longrightarrow> probe_inv x t"
  by (simp add: dir_inv_def)

lemma fits_name_entry: "storable nm \<Longrightarrow> utf8_valid nm \<Longrightarrow> fits_name nm (entry_from i u nm)"
  by (auto simp: fits_name_def)

lemma fits_nameD:
  assumes "fits_name nm e"
  shows "name_bytes e = nm" "\<not> is_dummy e" "d_name (entry_from_raw e) = nm" "utf8_valid nm" "storable nm"
  using assms by (auto simp: fits_name_def name_bytes_storable entry_from_not_dummy from_raw_entry_from)

sublocale entry_tree \<subseteq> idx: name_index "probe_upsert x api" "probe_delete x api"
  "\<lambda>b. dir_inv x (tab b)" "\<lambda>b. index_map (tab b)" fits_name
proof
  fix b nm e u b'
  assume inv: "dir_inv x (tab b)" and fit: "fits_name nm e" and run: "probe_upsert x api nm e b = (Ok u, b')"
  from probe_upsert_sound [OF dir_inv_probe [OF inv] fits_nameD(1,2) [OF fit] run]
  show "dir_inv x (tab b') \<and> index_map (tab b') = (index_map (tab b))(nm \<mapsto> e)"
    using inv fit by (auto simp: dir_inv_def)
next
  fix b nm hit b'
  assume inv: "dir_inv x (tab b)" and run: "probe_delete x api nm b = (Ok hit, b')"
  from probe_delete_sound [OF dir_inv_probe [OF inv] run]
  show "dir_inv x (tab b') \<and> index_map (tab b') = (index_map (tab b))(nm := None) \<and>
      (hit \<longleftrightarrow> index_map (tab b) nm \<noteq> None)"
    using inv by (auto simp: dir_inv_def)
next
  fix b nm e
  assume "dir_inv x (tab b)" and "index_map (tab b) nm = Some e"
  then show "fits_name nm e" by (simp add: dir_inv_def)
qed

interpretation mem_idx: entry_tree_total mem_btree map_of ref_ext
  by unfold_locales

end
