(* ===== verification/Hyperfile.thy ===== *)
theory Hyperfile
  imports S3_Staging Name_Index
begin

text \<open>
  The \<open>hyperfile\<close> library that a directory is stored in, as a parameter: opening a staging,
  loading the inode object, reading the B-tree an inode points to, flushing a handle, writing an
  inode under optimistic concurrency, and removing a whole prefix.

  The state of a directory handle (\<open>HyperDirFile\<close> of \<open>src/file.rs\<close>) is the record \<open>dir_handle\<close>;
  an operation on a handle threads the handle and the world.

  The locale \<open>hyperfile\<close> states what the code relies on: \<open>com w root\<close> is the table of the directory
  at \<open>root\<close> that the last successful flush committed, \<open>ino w root\<close> its inode object. A load shows
  the current inode, the B-tree read from it holds the committed table, a flush that succeeds
  commits the handle's table, one that fails has committed it or nothing, and hyperdir's own
  objects (scatters, lease, locks, attributes) are not hyperfile's. At the end, an instance in memory.
\<close>

section \<open>The interface\<close>

datatype flush_inode_flag = FlagCreate | FlagUpdate | FlagDelete | FlagIgnore | FlagUnknown

datatype flush_conflict_policy = RetryLastWriterWins | FailFast

record ('i, 'b, 'd) dir_handle =
  h_bmap :: 'b
  h_root :: string
  h_rdonly :: bool
  h_policy :: flush_conflict_policy
  h_inode :: 'i
  h_od :: 'd

record ('w, 'i, 'b, 'd) hf_api =
  hf_staging_from :: "string \<Rightarrow> ('w, string) io"
  hf_load_inode :: "string \<Rightarrow> ('w, 'i \<times> 'd) io"
  hf_load_inode_from_segment :: "string \<Rightarrow> u64 \<Rightarrow> ('w, 'i \<times> 'd) io"
  hf_bmap_read :: "string \<Rightarrow> 'i \<Rightarrow> ('w, 'b) io"
  hf_refresh_bmap :: "(('i, 'b, 'd) dir_handle \<times> 'w, unit) io"
  hf_flush :: "(('i, 'b, 'd) dir_handle \<times> 'w, u64) io"
  hf_flush_inode :: "string \<Rightarrow> 'i \<Rightarrow> 'd \<Rightarrow> flush_inode_flag \<Rightarrow> ('w, 'd) io"
  hf_unlink :: "string \<Rightarrow> ('w, unit) io"

text \<open>Everything a directory operation calls, in one record.\<close>

record ('w, 'i, 'b, 'd) deps =
  dp_ext :: ext
  dp_s3 :: "'w s3_api"
  dp_ino :: "'i inode_api"
  dp_bt :: "('i dir_file_entry_raw, 'b) btree_api"
  dp_hf :: "('w, 'i, 'b, 'd) hf_api"
  dp_hm :: "string list \<Rightarrow> string list"

text \<open>Running an operation of the world, or of the handle's B-tree, on a handle.\<close>

definition on_world :: "('w, 'a) io \<Rightarrow> ('h \<times> 'w, 'a) io" where
  "on_world m = (\<lambda>(h, w). case m w of (r, w') \<Rightarrow> (r, (h, w')))"

definition on_bmap :: "('b, 'a) io \<Rightarrow> (('i, 'b, 'd) dir_handle \<times> 'w, 'a) io" where
  "on_bmap m = (\<lambda>(h, w). case m (h_bmap h) of (r, b') \<Rightarrow> (r, (h\<lparr>h_bmap := b'\<rparr>, w)))"

lemma on_worldE:
  assumes "on_world m (h, w) = (r, hw)"
  obtains w' where "m w = (r, w')" "hw = (h, w')"
  using assms by (auto simp: on_world_def split: prod.splits)

lemma on_bmapE:
  assumes "on_bmap m (h, w) = (r, hw)"
  obtains b' where "m (h_bmap h) = (r, b')" "hw = (h\<lparr>h_bmap := b'\<rparr>, w)"
  using assms by (auto simp: on_bmap_def split: prod.splits)

section \<open>Laws\<close>

text \<open>The keys under a directory's prefix that hyperdir, not hyperfile, owns.\<close>

definition hyperdir_key :: "string \<Rightarrow> string \<Rightarrow> bool" where
  "hyperdir_key root k =
     (prefix (scatter_inodes_path root) k \<or> k = compact_lease_path root \<or>
      k = root @ ''/'' @ LOCK_OBJECT \<or> prefix (root @ ''/_xattr/'') k)"

definition hf_owned :: "string \<Rightarrow> string \<Rightarrow> bool" where
  "hf_owned root k = (prefix (root @ ''/'') k \<and> \<not> hyperdir_key root k)"

locale hyperfile = dir_store s3 objs env x + entry_tree api tab x
  for s3 :: "'w s3_api" and objs env and x :: ext
    and api :: "('i dir_file_entry_raw, 'b) btree_api" and tab +
  fixes hf :: "('w, 'i, 'b, 'd) hf_api"
    and com :: "'w \<Rightarrow> string \<Rightarrow> 'i table"
    and ino :: "'w \<Rightarrow> string \<Rightarrow> 'i option"
  assumes com_env: "env w w' \<Longrightarrow> com w' = com w \<and> ino w' = ino w"
    and put_com: "put_object s3 k b c w = (pr, w') \<Longrightarrow> \<not> hf_owned root k \<Longrightarrow>
      com w' root = com w root \<and> ino w' root = ino w root"
    and delete_com: "delete_obj s3 k m w = (dr, w') \<Longrightarrow> \<not> hf_owned root k \<Longrightarrow>
      com w' root = com w root \<and> ino w' root = ino w root"
    and delete_objs_com: "delete_objs s3 ks w = (dsr, w') \<Longrightarrow> (\<And>k. k \<in> set ks \<Longrightarrow> \<not> hf_owned root k) \<Longrightarrow>
      com w' root = com w root \<and> ino w' root = ino w root"
    and load_env: "hf_load_inode hf root w = (lr, w') \<Longrightarrow> env w w'"
    and load_Ok: "hf_load_inode hf root w = (Ok (i, d), w') \<Longrightarrow> ino w' root = Some i"
    and load_NotFound: "hf_load_inode hf root w = (Err NotFound, w') \<Longrightarrow> ino w' root = None"
    and read_env: "hf_bmap_read hf root i w = (rr, w') \<Longrightarrow> env w w'"
    and read_Ok: "hf_bmap_read hf root i w = (Ok t, w') \<Longrightarrow> ino w root = Some i \<Longrightarrow> tab t = com w root"
    and flush_Ok: "hf_flush hf (h, w) = (Ok n, (h', w')) \<Longrightarrow>
      com w' (h_root h) = tab (h_bmap h) \<and> tab (h_bmap h') = tab (h_bmap h)"
    and flush_any: "hf_flush hf (h, w) = (fr, (h', w')) \<Longrightarrow>
      h_root h' = h_root h \<and> com w' (h_root h) \<in> {com w (h_root h), tab (h_bmap h)} \<and>
      (\<forall>k. \<not> hf_owned (h_root h) k \<longrightarrow> objs w' k = objs w k) \<and>
      (\<forall>root. root \<noteq> h_root h \<longrightarrow> com w' root = com w root \<and> ino w' root = ino w root)"
    and refresh_env: "hf_refresh_bmap hf (h, w) = (fr2, (h', w')) \<Longrightarrow> env w w' \<and> h_root h' = h_root h"
    and refresh_Ok: "hf_refresh_bmap hf (h, w) = (Ok u, (h', w')) \<Longrightarrow> tab (h_bmap h) = com w (h_root h) \<Longrightarrow>
      tab (h_bmap h') = com w (h_root h)"
begin

lemma scatter_not_owned: "prefix (scatter_inodes_path root) k \<Longrightarrow> \<not> hf_owned root k"
  by (simp add: hf_owned_def hyperdir_key_def)

lemma lease_not_owned: "\<not> hf_owned root (compact_lease_path root)"
  by (simp add: hf_owned_def hyperdir_key_def)

end

section \<open>An instance in memory\<close>

record 'i hf_world = mem_world +
  fw_dirs :: "(string \<times> 'i \<times> (u64 \<times> 'i dir_file_entry_raw) list) list"

definition mem_com :: "('i, 'm) hf_world_scheme \<Rightarrow> string \<Rightarrow> 'i table" where
  "mem_com w root = (case map_of (fw_dirs w) root of Some (_, t) \<Rightarrow> map_of t | None \<Rightarrow> Map.empty)"

definition mem_ino :: "('i, 'm) hf_world_scheme \<Rightarrow> string \<Rightarrow> 'i option" where
  "mem_ino w root = map_option fst (map_of (fw_dirs w) root)"

text \<open>The on-disk state that guards an inode write is the inode seen at load time.\<close>

definition mem_load :: "string \<Rightarrow> (('i, 'm) hf_world_scheme, 'i \<times> 'i option) io" where
  "mem_load root w =
     (case map_of (fw_dirs w) root of Some (i, _) \<Rightarrow> (Ok (i, Some i), w) | None \<Rightarrow> (Err NotFound, w))"

definition mem_read :: "string \<Rightarrow> 'i \<Rightarrow> (('i, 'm) hf_world_scheme, (u64 \<times> 'i dir_file_entry_raw) list) io" where
  "mem_read root i w =
     (case map_of (fw_dirs w) root of
        Some (j, t) \<Rightarrow> if j = i then (Ok t, w) else (Err NotFound, w)
      | None \<Rightarrow> (Err NotFound, w))"

definition mem_flush ::
  "(('i, (u64 \<times> 'i dir_file_entry_raw) list, 'i option) dir_handle \<times> ('i, 'm) hf_world_scheme, u64) io" where
  "mem_flush = (\<lambda>(h, w). (Ok 1, (h, w\<lparr>fw_dirs := AList.update (h_root h) (h_inode h, h_bmap h) (fw_dirs w)\<rparr>)))"

definition mem_flush_inode ::
  "string \<Rightarrow> 'i \<Rightarrow> 'i option \<Rightarrow> flush_inode_flag \<Rightarrow> (('i, 'm) hf_world_scheme, 'i option) io" where
  "mem_flush_inode root i od flag w =
     (if od = mem_ino w root
      then (Ok (Some i), w\<lparr>fw_dirs := AList.update root
              (i, case map_of (fw_dirs w) root of Some (_, t) \<Rightarrow> t | None \<Rightarrow> []) (fw_dirs w)\<rparr>)
      else (Err AlreadyExists, w))"

definition mem_unlink :: "string \<Rightarrow> (('i, 'm) hf_world_scheme, unit) io" where
  "mem_unlink root w =
     (Ok (), w\<lparr>mw_objs := filter (\<lambda>(k, _). \<not> prefix (root @ ''/'') k) (mw_objs w),
             fw_dirs := AList.delete root (fw_dirs w)\<rparr>)"

text \<open>A URI is \<open>s3://bucket/key\<close>; the staging's root path is the key.\<close>

definition mem_staging_from :: "string \<Rightarrow> ('w, string) io" where
  "mem_staging_from uri w =
     (case strip_prefix ''s3://'' uri of
        None \<Rightarrow> (Err InvalidInput, w)
      | Some rest \<Rightarrow> (case split_once (CHR ''/'') rest of Some (_, key) \<Rightarrow> (Ok key, w) | None \<Rightarrow> (Err InvalidInput, w)))"

definition mem_hf ::
  "(('i, 'm) hf_world_scheme, 'i, (u64 \<times> 'i dir_file_entry_raw) list, 'i option) hf_api" where
  "mem_hf = \<lparr> hf_staging_from = mem_staging_from, hf_load_inode = mem_load,
     hf_load_inode_from_segment = (\<lambda>root _. mem_load root), hf_bmap_read = mem_read,
     hf_refresh_bmap = io_return (), hf_flush = mem_flush, hf_flush_inode = mem_flush_inode,
     hf_unlink = mem_unlink \<rparr>"

lemma mem_hf_sel [simp]:
  "hf_staging_from mem_hf = mem_staging_from" "hf_load_inode mem_hf = mem_load"
  "hf_bmap_read mem_hf = mem_read" "hf_refresh_bmap mem_hf = io_return ()" "hf_flush mem_hf = mem_flush"
  "hf_flush_inode mem_hf = mem_flush_inode" "hf_unlink mem_hf = mem_unlink"
  by (simp_all add: mem_hf_def)

lemma mem_fw_same:
  assumes "mem_world.more w' = mem_world.more (w :: ('i, 'm) hf_world_scheme)"
  shows "mem_com w' = mem_com w" "mem_ino w' = mem_ino w"
proof -
  have "fw_dirs w' = fw_dirs w" using assms by (cases w, cases w') simp
  then show "mem_com w' = mem_com w" "mem_ino w' = mem_ino w"
    by (simp_all add: mem_com_def mem_ino_def fun_eq_iff)
qed

lemma mem_objs_dirs [simp]: "mem_objs (w\<lparr>fw_dirs := d\<rparr>) = mem_objs w"
  by (rule ext) (simp add: mem_objs_def)

lemma mem_more_objs [simp]: "mem_world.more (w\<lparr>mw_objs := o'\<rparr>) = mem_world.more w"
  by (cases w) simp

interpretation mem_hyper: hyperfile mem_s3 mem_objs mem_env ref_ext mem_btree map_of mem_hf mem_com mem_ino
proof (unfold_locales, goal_cases)
  case (1 w w')
  then show ?case using mem_fw_same [of w' w] by (simp add: mem_env_def)
next
  case (2 k b c w pr w' root)
  then have "mem_world.more w' = mem_world.more w" by (auto simp: mem_put_def split: if_splits)
  from mem_fw_same [OF this] show ?case by simp
next
  case (3 k m w dr w' root)
  then have "mem_world.more w' = mem_world.more w"
    by (auto simp: mem_delete_def split: if_splits option.splits)
  from mem_fw_same [OF this] show ?case by simp
next
  case (4 ks w dsr w' root)
  then have "mem_world.more w' = mem_world.more w" by (auto simp: mem_delete_objs_def)
  from mem_fw_same [OF this] show ?case by simp
next
  case (5 root w lr w')
  then show ?case by (auto simp: mem_load_def mem_env_def split: option.splits)
next
  case (6 root w i d w')
  then show ?case by (auto simp: mem_load_def mem_ino_def split: option.splits)
next
  case (7 root w w')
  then show ?case by (auto simp: mem_load_def mem_ino_def split: option.splits)
next
  case (8 root i w rr w')
  then show ?case by (auto simp: mem_read_def mem_env_def split: option.splits if_splits)
next
  case (9 root i w b w')
  then show ?case by (auto simp: mem_read_def mem_com_def mem_ino_def split: option.splits if_splits)
next
  case (10 h w n h' w')
  then show ?case by (auto simp: mem_flush_def mem_com_def update_conv')
next
  case (11 h w fr h' w')
  then show ?case by (auto simp: mem_flush_def mem_com_def mem_ino_def update_conv')
next
  case (12 h w fr2 h' w')
  then show ?case by (auto simp: io_return_def mem_env_def)
next
  case (13 h w u h' w')
  then show ?case by (auto simp: io_return_def)
qed

section \<open>Inodes\<close>

text \<open>The byte image of an inode is read back, and setting one field keeps the others.\<close>

locale inode_laws =
  fixes ia :: "'i inode_api"
  assumes slice_inverse: "ino_from_slice ia (ino_as_slice ia i) = Ok i"
    and nlink_set [simp]: "ino_nlink ia (ino_set_nlink ia n i) = n"
    and nlink_ctime [simp]: "ino_nlink ia (ino_set_ctime ia s ns i) = ino_nlink ia i"
    and mode_nlink [simp]: "ino_mode ia (ino_set_nlink ia n i) = ino_mode ia i"
    and mode_ctime [simp]: "ino_mode ia (ino_set_ctime ia s ns i) = ino_mode ia i"

record mem_inode =
  mi_mode :: u32
  mi_nlink :: u64
  mi_ctime :: u64
  mi_ctime_nsec :: u32

definition mem_inode_bytes :: "mem_inode \<Rightarrow> bytes" where
  "mem_inode_bytes i =
     le_bytes 4 (unat (mi_mode i)) @ le_bytes 8 (unat (mi_nlink i)) @ le_bytes 8 (unat (mi_ctime i)) @
     le_bytes 4 (unat (mi_ctime_nsec i))"

definition mem_inode_parse :: "bytes \<Rightarrow> mem_inode result" where
  "mem_inode_parse b =
     (if length b \<noteq> 24 then Panic
      else Ok \<lparr> mi_mode = of_nat (le_value (take 4 b)), mi_nlink = of_nat (le_value (take 8 (drop 4 b))),
                mi_ctime = of_nat (le_value (take 8 (drop 12 b))), mi_ctime_nsec = of_nat (le_value (drop 20 b)) \<rparr>)"

definition mem_inode_api :: "mem_inode inode_api" where
  "mem_inode_api = \<lparr> ino_default = \<lparr> mi_mode = 0, mi_nlink = 0, mi_ctime = 0, mi_ctime_nsec = 0 \<rparr>,
     ino_mode = mi_mode, ino_nlink = mi_nlink, ino_set_nlink = (\<lambda>n i. i\<lparr>mi_nlink := n\<rparr>),
     ino_set_ctime = (\<lambda>s ns i. i\<lparr>mi_ctime := s, mi_ctime_nsec := ns\<rparr>),
     ino_from_slice = mem_inode_parse, ino_as_slice = mem_inode_bytes \<rparr>"

lemma mem_inode_api_sel [simp]:
  "ino_mode mem_inode_api = mi_mode" "ino_nlink mem_inode_api = mi_nlink"
  "ino_set_nlink mem_inode_api = (\<lambda>n i. i\<lparr>mi_nlink := n\<rparr>)"
  "ino_set_ctime mem_inode_api = (\<lambda>s ns i. i\<lparr>mi_ctime := s, mi_ctime_nsec := ns\<rparr>)"
  "ino_from_slice mem_inode_api = mem_inode_parse" "ino_as_slice mem_inode_api = mem_inode_bytes"
  by (simp_all add: mem_inode_api_def)

lemma of_nat_le_value_word: "2 ^ LENGTH('a) = (256 :: nat) ^ k \<Longrightarrow>
    of_nat (le_value (le_bytes k (unat (v :: 'a::len word)))) = v"
proof -
  assume "2 ^ LENGTH('a) = (256 :: nat) ^ k"
  then have "unat v < 256 ^ k" using unsigned_less [of v] by metis
  then show ?thesis by (simp add: le_value_bytes)
qed

interpretation mem_inodes: inode_laws mem_inode_api
proof (unfold_locales, goal_cases)
  case (1 i)
  have "of_nat (le_value (le_bytes 4 (unat v))) = v" for v :: u32 by (rule of_nat_le_value_word) simp
  moreover have "of_nat (le_value (le_bytes 8 (unat v))) = v" for v :: u64 by (rule of_nat_le_value_word) simp
  ultimately show ?case by (simp add: mem_inode_parse_def mem_inode_bytes_def)
qed simp_all

definition mem_deps :: "(mem_inode hf_world, mem_inode, (u64 \<times> mem_inode dir_file_entry_raw) list, mem_inode option) deps" where
  "mem_deps = \<lparr> dp_ext = ref_ext, dp_s3 = mem_s3, dp_ino = mem_inode_api, dp_bt = mem_btree,
     dp_hf = mem_hf, dp_hm = rev \<rparr>"

lemma mem_deps_sel [simp]:
  "dp_ext mem_deps = ref_ext" "dp_s3 mem_deps = mem_s3" "dp_ino mem_deps = mem_inode_api"
  "dp_bt mem_deps = mem_btree" "dp_hf mem_deps = mem_hf" "dp_hm mem_deps = rev"
  by (simp_all add: mem_deps_def)

end
