(* ===== verification/Entry_Image.thy ===== *)
theory Entry_Image
  imports Hyperfile
begin

text \<open>
  The byte image of a directory entry in \<open>src/ondisk.rs\<close>: \<open>as_u8_slice\<close> and \<open>from_slice\<close> reinterpret the
  \<open>repr(C, align(8))\<close> struct, so the image is the image of the inode, the 16 bytes of the UUID and the
  256 bytes of the name field, padded with zero bytes to a multiple of 8. The image of \<open>InodeRaw\<close> is the
  library's; its size is the length of the image of the default inode. With \<open>Display\<close>, the text form.
\<close>

definition uuid_image :: "uuid \<Rightarrow> bytes" where
  "uuid_image u = rev (le_bytes 16 (unat u))"

definition uuid_of_image :: "bytes \<Rightarrow> uuid" where
  "uuid_of_image b = of_nat (le_value (rev b))"

definition inode_size :: "'i inode_api \<Rightarrow> nat" where
  "inode_size ia = length (ino_as_slice ia (ino_default ia))"

definition entry_size :: "'i inode_api \<Rightarrow> nat" where
  "entry_size ia = (inode_size ia + 16 + (DEFAULT_NAME_LEN + 1) + 7) div 8 * 8"

definition entry_as_slice :: "'i inode_api \<Rightarrow> 'i dir_file_entry_raw \<Rightarrow> bytes" where
  "entry_as_slice ia e =
     (let b = ino_as_slice ia (e_inode e) @ uuid_image (e_uuid e) @ e_name e in
      b @ replicate (entry_size ia - length b) (CHR 0x00))"

text \<open>\<open>from_slice\<close> copies the first bytes of the buffer over a zeroed entry and panics on a short buffer.\<close>

definition entry_from_slice :: "'i inode_api \<Rightarrow> bytes \<Rightarrow> 'i dir_file_entry_raw result" where
  "entry_from_slice ia buf =
     (if entry_size ia > length buf then Panic
      else
        let trimed = take (entry_size ia) buf; n = inode_size ia in
        res_bind (ino_from_slice ia (take n trimed)) (\<lambda>i.
          Ok \<lparr> e_inode = i, e_uuid = uuid_of_image (take 16 (drop n trimed)),
               e_name = take (DEFAULT_NAME_LEN + 1) (drop (n + 16) trimed) \<rparr>))"

text \<open>\<open>Display\<close>: the whole name field, an \<open>unwrap\<close> of its decoding.\<close>

definition entry_display :: "'i dir_file_entry_raw \<Rightarrow> string result" where
  "entry_display e =
     (if is_dummy e then Ok ''[DUMMRY VALUE ENTRY]''
      else case from_utf8 (e_name e) of Some s \<Rightarrow> Ok s | None \<Rightarrow> Panic)"

lemma uuid_image_length [simp]: "length (uuid_image u) = 16"
  by (simp add: uuid_image_def)

lemma uuid_image_inverse [simp]: "uuid_of_image (uuid_image u) = u"
  unfolding uuid_of_image_def uuid_image_def rev_rev_ident by (rule of_nat_le_value_word) simp

context inode_laws
begin

text \<open>An entry is read back from its image, whatever follows it in the buffer, when inodes have one size.\<close>

lemma entry_image_roundtrip:
  assumes size: "\<And>i. length (ino_as_slice ia i) = inode_size ia" and nm: "length (e_name e) = DEFAULT_NAME_LEN + 1"
  shows "entry_from_slice ia (entry_as_slice ia e @ rest) = Ok e" "length (entry_as_slice ia e) = entry_size ia"
proof -
  have fits: "inode_size ia + 16 + (DEFAULT_NAME_LEN + 1) \<le> entry_size ia" unfolding entry_size_def by simp
  then show len: "length (entry_as_slice ia e) = entry_size ia" using size nm by (simp add: entry_as_slice_def Let_def)
  have img: "entry_as_slice ia e = ino_as_slice ia (e_inode e) @ uuid_image (e_uuid e) @ e_name e @
      replicate (entry_size ia - (inode_size ia + 16 + (DEFAULT_NAME_LEN + 1))) (CHR 0x00)"
    using size nm by (simp add: entry_as_slice_def Let_def)
  have "take (inode_size ia) (entry_as_slice ia e) = ino_as_slice ia (e_inode e)"
    "take 16 (drop (inode_size ia) (entry_as_slice ia e)) = uuid_image (e_uuid e)"
    "take (DEFAULT_NAME_LEN + 1) (drop (inode_size ia + 16) (entry_as_slice ia e)) = e_name e"
    unfolding img using size nm by simp_all
  with len show "entry_from_slice ia (entry_as_slice ia e @ rest) = Ok e"
    by (simp add: entry_from_slice_def Let_def slice_inverse)
qed

end

text \<open>A name within the limit is displayed with the padding of the field, a name cut inside a character panics.\<close>

lemma display_short:
  assumes "utf8_valid nm" and "storable nm"
  shows "entry_display (entry_from i u nm) = Ok (nm @ replicate (DEFAULT_NAME_LEN + 1 - length nm) (CHR 0x00))"
proof -
  have nul: "utf8_valid (replicate n (CHR 0x00))" for n by (rule ascii_utf8_valid) (simp add: ascii_def list_all_iff)
  from assms show ?thesis
    using entry_from_not_dummy [OF assms(2), of i u] utf8_valid_append [OF assms(1) nul]
    by (simp add: entry_display_def entry_from_def storable_def from_utf8_def)
qed

lemma display_cut_panics:
  "entry_display (entry_from i u (replicate 254 (CHR ''a'') @ [CHR 0xC3, CHR 0xA9])) = Panic"
proof -
  let ?nm = "replicate 254 (CHR ''a'') @ [CHR 0xC3, CHR 0xA9]"
  have "utf8_valid (replicate n (CHR ''a'') @ r) = utf8_valid r" for n r
    by (induction n) (simp_all add: utf8_valid_ascii_Cons)
  moreover have "\<not> utf8_valid [CHR 0xC3, CHR 0x00]"
    by (subst utf8_valid.simps) (simp add: utf8_step_def utf8_width_def utf8_second_ok_def utf8_cont_def)
  moreover have name: "e_name (entry_from i u ?nm) = replicate 254 (CHR ''a'') @ [CHR 0xC3, CHR 0x00]"
    by (simp add: entry_from_def DEFAULT_NAME_LEN_def)
  moreover have "\<not> is_dummy (entry_from i u ?nm)"
    unfolding is_dummy_def name by (simp add: DUMMY_FILENAME_def DEFAULT_NAME_LEN_def numeral_eq_Suc)
  ultimately show ?thesis by (simp add: entry_display_def from_utf8_def)
qed

end
