(* ===== verification/Dir_File.thy ===== *)
theory Dir_File
  imports Hyperfile
begin

text \<open>
  \<open>HyperDirFile\<close> of \<open>src/file.rs\<close>: opening a directory, reading it (the committed index overlaid by
  the outstanding scatter objects), changing single entries, renaming within the directory, and
  compacting the scatter objects into the index.

  An operation that only uses the directory's staging takes its root path; one that changes the
  handle threads \<open>dir_handle\<close> and the world. A \<open>HashMap\<close> is an association list whose iteration order
  \<open>dp_hm\<close> decides.
\<close>

section \<open>Data\<close>

record compact_stats =
  scatters_processed :: nat
  entries_added :: nat
  entries_removed :: nat
  tombstones_kept :: nat
  no_op :: bool
  removed_children :: "uuid list"
  predeleted :: "(string \<times> uuid \<times> bool \<times> int) list"

record 'i scatter_changes =
  all_keys :: "string list"
  upserts :: "(string \<times> 'i dir_file_entry_raw) list"
  deletes :: "(string \<times> uuid) list"
  predeletes :: "(string \<times> uuid \<times> bool \<times> int) list"
  tombstone_keys :: "string list"

text \<open>The entries of a hash map in its iteration order.\<close>

definition hm_items :: "(string list \<Rightarrow> string list) \<Rightarrow> (string \<times> 'v) list \<Rightarrow> (string \<times> 'v) list" where
  "hm_items hm m = map (\<lambda>k. (k, the (map_of m k))) (hm (map fst m))"

text \<open>Running a handle operation on a fresh handle and keeping the handle.\<close>

definition with_handle :: "'h \<Rightarrow> ('h \<times> 'w, 'a) io \<Rightarrow> ('w, 'a \<times> 'h) io" where
  "with_handle h m w = (case m (h, w) of (r, (h', w')) \<Rightarrow> (res_bind r (\<lambda>a. Ok (a, h')), w'))"

section \<open>Opening\<close>

definition do_open ::
  "('w, 'i, 'b, 'd) deps \<Rightarrow> string \<Rightarrow> bool \<Rightarrow> flush_conflict_policy \<Rightarrow> u64 \<Rightarrow> ('w, ('i, 'b, 'd) dir_handle) io" where
  "do_open D root rdonly policy cno =
     io_bind (if cno = 0 then hf_load_inode (dp_hf D) root else hf_load_inode_from_segment (dp_hf D) root cno)
       (\<lambda>(raw_inode, inode_state).
     io_bind (hf_bmap_read (dp_hf D) root raw_inode) (\<lambda>bmap.
     io_bind (with_handle
        \<lparr> h_bmap = bmap, h_root = root, h_rdonly = rdonly, h_policy = policy,
          h_inode = raw_inode, h_od = inode_state \<rparr> (hf_refresh_bmap (dp_hf D))) (\<lambda>(_, file).
     io_return file)))"

definition dir_open ::
  "('w, 'i, 'b, 'd) deps \<Rightarrow> string \<Rightarrow> bool \<Rightarrow> flush_conflict_policy \<Rightarrow> ('w, ('i, 'b, 'd) dir_handle) io" where
  "dir_open D root rdonly policy = do_open D root rdonly policy 0"

definition open_cno ::
  "('w, 'i, 'b, 'd) deps \<Rightarrow> string \<Rightarrow> bool \<Rightarrow> flush_conflict_policy \<Rightarrow> u64 \<Rightarrow> ('w, ('i, 'b, 'd) dir_handle) io" where
  "open_cno D root rdonly policy cno =
     (if \<not> rdonly then io_fail ReadOnlyFilesystem else do_open D root rdonly policy cno)"

text \<open>The latest persisted index, independent of the handle's snapshot; and moving the handle to it.\<close>

definition load_latest_bmap :: "('w, 'i, 'b, 'd) deps \<Rightarrow> string \<Rightarrow> ('w, 'b) io" where
  "load_latest_bmap D root =
     io_bind (hf_load_inode (dp_hf D) root) (\<lambda>(raw_inode, _). hf_bmap_read (dp_hf D) root raw_inode)"

definition reload_to_latest :: "('w, 'i, 'b, 'd) deps \<Rightarrow> (('i, 'b, 'd) dir_handle \<times> 'w, unit) io" where
  "reload_to_latest D = (\<lambda>(h, w).
     io_bind (on_world (hf_load_inode (dp_hf D) (h_root h))) (\<lambda>(raw_inode, od_state).
     io_bind (on_world (hf_bmap_read (dp_hf D) (h_root h) raw_inode)) (\<lambda>bmap.
       (\<lambda>(h, w). (Ok (), (h\<lparr>h_bmap := bmap, h_inode := raw_inode, h_od := od_state\<rparr>, w))))) (h, w))"

section \<open>Collecting the outstanding changes\<close>

fun build_upserts ::
  "'i inode_api \<Rightarrow> (dir_scatter_inode \<times> bytes) list \<Rightarrow> (string \<times> 'i dir_file_entry_raw) list \<Rightarrow>
     (string \<times> 'i dir_file_entry_raw) list result" where
  "build_upserts ia [] ups = Ok ups"
| "build_upserts ia ((s, body) # fetched) ups =
     res_bind (ino_from_slice ia body) (\<lambda>inode_raw.
       build_upserts ia fetched
         (AList.update (s_filename s) (entry_from inode_raw (s_uuid s) (s_filename s)) ups))"

definition build_deletes :: "dir_scatter_inode list \<Rightarrow> (string \<times> uuid) list" where
  "build_deletes to_remove = fold (\<lambda>s. AList.update (s_filename s) (s_uuid s)) to_remove []"

definition build_predeletes :: "(dir_scatter_inode \<times> bytes) list \<Rightarrow> (string \<times> uuid \<times> bool \<times> int) list" where
  "build_predeletes fetched =
     fold (\<lambda>(s, body). case parse_predelete_body body of (is_dir, retention) \<Rightarrow>
        AList.update (s_filename s) (s_uuid s, is_dir, retention)) fetched []"

definition collect_scatter_changes :: "('w, 'i, 'b, 'd) deps \<Rightarrow> string \<Rightarrow> ('w, 'i scatter_changes) io" where
  "collect_scatter_changes D root =
     io_bind (list_scatter_inodes (dp_ext D) (dp_s3 D) root) (\<lambda>scatters.
     io_bind (io_lift (filter_last_view (dp_hm D) scatters)) (\<lambda>last_view.
       let to_remove = filter (\<lambda>s. s_op s = Delete) last_view;
           to_fetch = filter (\<lambda>s. s_op s = Create \<or> s_op s = Update) last_view;
           to_fetch_pre = filter (\<lambda>s. s_op s = PreDelete) last_view in
       io_bind (collect_scatter_inodes (dp_s3 D) to_fetch) (\<lambda>fetched.
       io_bind (io_lift (build_upserts (dp_ino D) fetched [])) (\<lambda>ups.
       io_bind (collect_scatter_inodes (dp_s3 D) to_fetch_pre) (\<lambda>fetched_pre.
       io_return
         \<lparr> all_keys = map s_key scatters, upserts = ups, deletes = build_deletes to_remove,
           predeletes = build_predeletes fetched_pre, tombstone_keys = remdups (map s_key to_remove) \<rparr>)))))"

section \<open>Reading\<close>

definition read_dir :: "('w, 'i, 'b, 'd) deps \<Rightarrow> string \<Rightarrow> ('w, 'i dir_file_entry list) io" where
  "read_dir D root =
     io_bind (collect_scatter_changes D root) (\<lambda>changes.
     io_bind (load_latest_bmap D root) (\<lambda>latest_bmap.
     io_bind (io_lift (walk_bmap (dp_bt D) latest_bmap)) (\<lambda>entries.
       let view1 = fold (\<lambda>e. AList.update (from_utf8_lossy (name_bytes e)) e) entries [];
           view2 = fold (\<lambda>(name, e). AList.update name e) (hm_items (dp_hm D) (upserts changes)) view1;
           view3 = fold AList.delete (dp_hm D (map fst (deletes changes))) view2;
           view4 = fold AList.delete (dp_hm D (map fst (predeletes changes))) view3 in
       io_return (map (\<lambda>(_, raw). entry_from_raw raw) (hm_items (dp_hm D) view4)))))"

definition probe_lookup_latest ::
  "('w, 'i, 'b, 'd) deps \<Rightarrow> string \<Rightarrow> bytes \<Rightarrow> u64 \<Rightarrow> ('w, (u64 \<times> 'i dir_file_entry_raw) option) io" where
  "probe_lookup_latest D root nm hm =
     io_bind (load_latest_bmap D root) (\<lambda>bmap. io_lift (probe_lookup_in (dp_bt D) bmap nm hm))"

definition read_entry :: "('w, 'i, 'b, 'd) deps \<Rightarrow> string \<Rightarrow> string \<Rightarrow> ('w, 'i dir_file_entry) io" where
  "read_entry D root name =
     io_bind (probe_lookup_latest D root name (hash_filename (dp_ext D) name)) (\<lambda>r.
       case r of Some (_, entry) \<Rightarrow> io_return (entry_from_raw entry) | None \<Rightarrow> io_fail NotFound)"

text \<open>The raw entry of the handle's own snapshot.\<close>

definition read_entry_raw ::
  "('w, 'i, 'b, 'd) deps \<Rightarrow> ('i, 'b, 'd) dir_handle \<Rightarrow> string \<Rightarrow> 'i dir_file_entry_raw result" where
  "read_entry_raw D h name =
     res_bind (probe_lookup_in (dp_bt D) (h_bmap h) name (hash_filename (dp_ext D) name)) (\<lambda>r.
       case r of Some (_, entry) \<Rightarrow> Ok entry | None \<Rightarrow> Err NotFound)"

text \<open>The resolve of one name: its latest scatter if it has one, else the committed index.\<close>

definition resolve_fallback :: "('w, 'i, 'b, 'd) deps \<Rightarrow> string \<Rightarrow> string \<Rightarrow> ('w, 'i dir_file_entry option) io" where
  "resolve_fallback D root name =
     io_bind (load_latest_bmap D root) (\<lambda>bmap.
     io_bind (io_lift (probe_lookup_in (dp_bt D) bmap name (hash_filename (dp_ext D) name))) (\<lambda>r.
     io_return (map_option (\<lambda>(_, e). entry_from_raw e) r)))"

definition resolve_fast :: "('w, 'i, 'b, 'd) deps \<Rightarrow> string \<Rightarrow> string \<Rightarrow> ('w, 'i dir_file_entry option) io" where
  "resolve_fast D root name =
     io_bind (list_scatter_inodes_for_name (dp_ext D) (dp_s3 D) root name) (\<lambda>scatters.
       if scatters = [] then resolve_fallback D root name
       else io_bind (io_lift (filter_last_view (dp_hm D) scatters)) (\<lambda>lv.
         case lv of
           [] \<Rightarrow> resolve_fallback D root name
         | latest # _ \<Rightarrow>
             if s_op latest = Create \<or> s_op latest = Update then
               io_bind (collect_scatter_inodes (dp_s3 D) [latest]) (\<lambda>fetched.
                 case fetched of
                   (s, body) # _ \<Rightarrow>
                     io_bind (io_lift (ino_from_slice (dp_ino D) body)) (\<lambda>inode_raw.
                     io_return (Some (entry_from_raw (entry_from inode_raw (s_uuid s) (s_filename s)))))
                 | [] \<Rightarrow> resolve_fallback D root name)
             else if s_op latest = Delete \<or> s_op latest = PreDelete then io_return None
             else resolve_fallback D root name))"

definition resolve_entry ::
  "('w, 'i, 'b, 'd) deps \<Rightarrow> ('i, 'b, 'd) dir_handle \<Rightarrow> string \<Rightarrow> ('w, 'i dir_file_entry option) io" where
  "resolve_entry D h name = resolve_fast D (h_root h) name"

section \<open>Changing one entry\<close>

definition insert_entry ::
  "('w, 'i, 'b, 'd) deps \<Rightarrow> string \<Rightarrow> 'i dir_file_entry_raw \<Rightarrow> (('i, 'b, 'd) dir_handle \<times> 'w, unit) io" where
  "insert_entry D name entry =
     io_bind (reload_to_latest D) (\<lambda>_.
     io_bind (on_bmap (probe_upsert (dp_ext D) (dp_bt D) name entry)) (\<lambda>_.
     io_bind (hf_flush (dp_hf D)) (\<lambda>_.
     io_return ())))"

definition insert_entry_excl ::
  "('w, 'i, 'b, 'd) deps \<Rightarrow> string \<Rightarrow> 'i dir_file_entry_raw \<Rightarrow> (('i, 'b, 'd) dir_handle \<times> 'w, bool) io" where
  "insert_entry_excl D name entry =
     io_bind (reload_to_latest D) (\<lambda>_.
     io_bind (\<lambda>(h, w). (probe_lookup_in (dp_bt D) (h_bmap h) name (hash_filename (dp_ext D) name), (h, w))) (\<lambda>r.
       if r \<noteq> None then io_return False
       else
         io_bind (on_bmap (probe_upsert (dp_ext D) (dp_bt D) name entry)) (\<lambda>_.
         io_bind (hf_flush (dp_hf D)) (\<lambda>_.
         io_return True))))"

definition remove_entry ::
  "('w, 'i, 'b, 'd) deps \<Rightarrow> string \<Rightarrow> (('i, 'b, 'd) dir_handle \<times> 'w, bool) io" where
  "remove_entry D name =
     io_bind (reload_to_latest D) (\<lambda>_.
     io_bind (on_bmap (probe_delete (dp_ext D) (dp_bt D) name)) (\<lambda>removed.
     io_bind (hf_flush (dp_hf D)) (\<lambda>_.
     io_return removed)))"

definition rename_within ::
  "('w, 'i, 'b, 'd) deps \<Rightarrow> string \<Rightarrow> string \<Rightarrow> (('i, 'b, 'd) dir_handle \<times> 'w, unit) io" where
  "rename_within D old_name new_name =
     (if old_name = new_name then io_return ()
      else
        io_bind (\<lambda>(h, w). (probe_lookup_in (dp_bt D) (h_bmap h) old_name (hash_filename (dp_ext D) old_name), (h, w)))
          (\<lambda>r. case r of
             None \<Rightarrow> io_fail NotFound
           | Some (_, entry) \<Rightarrow>
               io_bind (on_bmap (probe_delete (dp_ext D) (dp_bt D) old_name)) (\<lambda>_.
               io_bind (on_bmap (probe_upsert (dp_ext D) (dp_bt D) new_name
                   (entry_from (e_inode entry) (e_uuid entry) new_name))) (\<lambda>_.
               io_bind (hf_flush (dp_hf D)) (\<lambda>_.
               io_return ())))))"

section \<open>Compaction\<close>

definition stats_no_op :: compact_stats where
  "stats_no_op = \<lparr> scatters_processed = 0, entries_added = 0, entries_removed = 0, tombstones_kept = 0,
     no_op = True, removed_children = [], predeleted = [] \<rparr>"

definition compact_inner :: "('w, 'i, 'b, 'd) deps \<Rightarrow> (('i, 'b, 'd) dir_handle \<times> 'w, compact_stats) io" where
  "compact_inner D =
     io_bind (reload_to_latest D) (\<lambda>_.
     io_bind (\<lambda>(h, w). on_world (collect_scatter_changes D (h_root h)) (h, w)) (\<lambda>changes.
       if all_keys changes = [] then io_return stats_no_op
       else
         io_bind (on_bmap (upsert_all (probe_upsert (dp_ext D) (dp_bt D))
             (hm_items (dp_hm D) (upserts changes)) 0)) (\<lambda>added.
         io_bind (on_bmap (remove_all (probe_delete (dp_ext D) (dp_bt D))
             (hm_items (dp_hm D) (deletes changes)) [])) (\<lambda>removed.
         io_bind (on_bmap (remove_all (probe_delete (dp_ext D) (dp_bt D))
             (hm_items (dp_hm D) (predeletes changes)) [])) (\<lambda>pre.
         io_bind (hf_flush (dp_hf D)) (\<lambda>_.
           let to_delete = filter (\<lambda>k. k \<notin> set (tombstone_keys changes)) (all_keys changes) in
           io_bind (if to_delete \<noteq> [] then on_world (remove_scatter_inodes (dp_s3 D) to_delete) else io_return ()) (\<lambda>_.
           io_return
             \<lparr> scatters_processed = length (all_keys changes), entries_added = added,
               entries_removed = length removed + length pre,
               tombstones_kept = length (tombstone_keys changes), no_op = False,
               removed_children = map snd removed, predeleted = pre \<rparr>)))))))"

text \<open>The lease is taken first and released on success and on error; after a panic it is left to expire.\<close>

definition compact :: "('w, 'i, 'b, 'd) deps \<Rightarrow> (('i, 'b, 'd) dir_handle \<times> 'w, compact_stats) io" where
  "compact D = (\<lambda>(h, w).
     io_bind (on_world (acquire_compact_lease (dp_ext D) (dp_s3 D) (h_root h) DEFAULT_COMPACT_LEASE_TTL_MS)) (\<lambda>lease.
       (\<lambda>hw. case compact_inner D hw of (result, hw') \<Rightarrow>
          if result = Panic then (Panic, hw')
          else (case on_world (release_compact_lease (dp_s3 D) lease) hw' of (_, hw'') \<Rightarrow> (result, hw'')))) (h, w))"

end
