(* ===== verification/Dir_View.thy ===== *)
theory Dir_View
  imports Dir_File
begin

text \<open>
  What a directory contains: the committed index overlaid by the latest outstanding scatter of each
  name. \<open>dir_lookup\<close> is that specification; the lemmas show that \<open>read_dir\<close>, \<open>resolve_fast\<close> and
  \<open>read_entry\<close> read it, and what the writing operations do to it.
\<close>

section \<open>Association lists as hash maps\<close>

lemma map_of_fold_update:
  assumes "distinct (map f xs)"
  shows "map_of (fold (\<lambda>e. AList.update (f e) (g e)) xs m) = map_of m ++ map_of (map (\<lambda>e. (f e, g e)) xs)"
  using assms
proof (induction xs arbitrary: m)
  case (Cons a xs)
  have none: "map_of (map (\<lambda>e. (f e, g e)) xs) (f a) = None"
    using Cons.prems by (simp add: map_of_eq_None_iff image_image)
  have "map_of (fold (\<lambda>e. AList.update (f e) (g e)) (a # xs) m) =
      (map_of m)(f a \<mapsto> g a) ++ map_of (map (\<lambda>e. (f e, g e)) xs)"
    using Cons by (simp add: update_conv')
  also have "\<dots> = map_of m ++ map_of (map (\<lambda>e. (f e, g e)) (a # xs))"
    using none by (auto simp: map_add_def fun_eq_iff split: option.splits)
  finally show ?case .
qed simp

lemma distinct_fold_update:
  "distinct (map fst m) \<Longrightarrow> distinct (map fst (fold (\<lambda>e. AList.update (f e) (g e)) xs m))"
  by (induction xs arbitrary: m) (simp_all add: distinct_update)

lemma map_of_fold_delete: "map_of (fold AList.delete ks m) = map_of m |` (- set ks)"
  by (induction ks arbitrary: m) (auto simp: delete_conv' restrict_map_def fun_eq_iff)

lemma distinct_fold_delete: "distinct (map fst m) \<Longrightarrow> distinct (map fst (fold AList.delete ks m))"
  by (induction ks arbitrary: m) (simp_all add: distinct_delete)

context hash_iteration
begin

lemma hm_items_keys: "map fst (hm_items hm m) = hm (map fst m)"
  by (simp add: hm_items_def comp_def)

lemma distinct_hm_items: "distinct (map fst (hm_items hm m)) = distinct (map fst m)"
  by (simp add: hm_items_keys)

lemma map_of_hm_items: "map_of (hm_items hm m) = map_of m"
proof
  fix nm
  have "map_of (hm_items hm m) nm = (if nm \<in> set (map fst m) then Some (the (map_of m nm)) else None)"
    by (simp add: hm_items_def map_of_map_restrict restrict_map_def flip: set_map)
  also have "\<dots> = map_of m nm"
    using map_of_dom [of m nm] by (cases "map_of m nm") auto
  finally show "map_of (hm_items hm m) nm = map_of m nm" .
qed

lemma set_hm_items: "distinct (map fst m) \<Longrightarrow> set (hm_items hm m) = set m"
  by (metis distinct_hm_items map_of_eq_Some_iff map_of_hm_items set_eqI surj_pair)

end

section \<open>Reading calls\<close>

lemma io_bind_lift: "io_bind (io_lift (Ok a)) f = f a"
  by (rule ext) (simp add: io_bind_def io_lift_def)

text \<open>A reading call changes nothing but what other clients do.\<close>

definition reads :: "('w \<Rightarrow> 'w \<Rightarrow> bool) \<Rightarrow> ('w, 'a) io \<Rightarrow> bool" where
  "reads env m = (\<forall>w r w'. m w = (r, w') \<longrightarrow> env w w')"

lemma readsD: "reads env m \<Longrightarrow> m w = (r, w') \<Longrightarrow> env w w'"
  by (simp add: reads_def)

lemma readsI: "(\<And>w r w'. m w = (r, w') \<Longrightarrow> env w w') \<Longrightarrow> reads env m"
  by (simp add: reads_def)

context object_store
begin

lemma reads_lift [intro!]: "reads env (io_lift r)" "reads env (io_return a)" "reads env (io_fail e)"
  by (auto simp: reads_def io_lift_def io_return_def io_fail_def env_refl)

lemma reads_bind [intro!]: "reads env m \<Longrightarrow> (\<And>a. reads env (f a)) \<Longrightarrow> reads env (io_bind m f)"
  unfolding reads_def io_bind_def
  by (auto split: prod.splits result.splits) (meson env_trans)

lemma get_env: "get_object s3 k w = (q, w') \<Longrightarrow> env w w'"
  using get_Ok get_Err by (cases q) blast+

lemma reads_list [intro!]: "reads env (list_scatter_with_prefix x s3 p)"
  by (rule readsI) (auto simp: list_scatter_with_prefix_def split: prod.splits dest: list_env)

lemma reads_collect [intro!]: "reads env (collect_scatter_inodes s3 ss)"
proof (induction ss)
  case (Cons s ss)
  have bind: "reads env (io_bind (collect_scatter_inodes s3 ss) (\<lambda>rest. io_return ((s, b) # rest)))" for b
    using Cons by (intro reads_bind reads_lift)
  show ?case
  proof (rule readsI)
    fix w r w' assume run: "collect_scatter_inodes s3 (s # ss) w = (r, w')"
    obtain q w1 where get: "get_object s3 (s_key s) w = (q, w1)" by (cases "get_object s3 (s_key s) w")
    have "env w1 w'"
      using run get readsD [OF bind] readsD [OF Cons] env_refl
      by (auto split: sum.splits option.splits if_splits)
    with get_env [OF get] show "env w w'" by (rule env_trans)
  qed
qed auto

end

section \<open>The contents of a directory\<close>

definition latest_scatter :: "dir_scatter_inode set \<Rightarrow> string \<Rightarrow> dir_scatter_inode option" where
  "latest_scatter S nm =
     (if \<exists>s \<in> S. s_filename s = nm
      then Some (THE s. s \<in> S \<and> s_filename s = nm \<and>
        (\<forall>s' \<in> S. s_filename s' = nm \<longrightarrow> scatter_rank s' \<le> scatter_rank s))
      else None)"

definition scatter_entry ::
  "'i inode_api \<Rightarrow> (string \<Rightarrow> s3_object option) \<Rightarrow> dir_scatter_inode \<Rightarrow> 'i dir_file_entry_raw option" where
  "scatter_entry ia m s =
     (case ino_from_slice ia (ob_body (the (m (s_key s)))) of
        Ok i \<Rightarrow> Some (entry_from i (s_uuid s) (s_filename s)) | _ \<Rightarrow> None)"

text \<open>The overlay of one name: \<open>m\<close> the objects of the bucket, \<open>t\<close> the committed index.\<close>

definition overlay ::
  "'i inode_api \<Rightarrow> (string \<Rightarrow> s3_object option) \<Rightarrow> dir_scatter_inode set \<Rightarrow> (string \<Rightarrow> 'i dir_file_entry_raw option) \<Rightarrow>
     string \<Rightarrow> 'i dir_file_entry_raw option" where
  "overlay ia m S v nm =
     (case latest_scatter S nm of
        None \<Rightarrow> v nm
      | Some s \<Rightarrow> if s_op s = Create \<or> s_op s = Update then scatter_entry ia m s else None)"

definition dir_lookup ::
  "ext \<Rightarrow> 'i inode_api \<Rightarrow> (string \<Rightarrow> s3_object option) \<Rightarrow> 'i table \<Rightarrow> string \<Rightarrow> string \<Rightarrow> 'i dir_file_entry_raw option" where
  "dir_lookup x ia m t root = overlay ia m (pending x m (scatter_inodes_path root)) (index_map t)"

definition dir_view ::
  "ext \<Rightarrow> 'i inode_api \<Rightarrow> (string \<Rightarrow> s3_object option) \<Rightarrow> 'i table \<Rightarrow> string \<Rightarrow> string \<Rightarrow> 'i dir_file_entry option" where
  "dir_view x ia m t root nm = map_option entry_from_raw (dir_lookup x ia m t root nm)"

text \<open>A well-formed directory: its finitely many scatter objects are ones hyperdir wrote, for storable names.\<close>

definition dir_ok :: "ext \<Rightarrow> (string \<Rightarrow> s3_object option) \<Rightarrow> 'i table \<Rightarrow> string \<Rightarrow> bool" where
  "dir_ok x m t root =
     (folder_ok x root m \<and> dir_inv x t \<and> finite (pending x m (scatter_inodes_path root)) \<and>
      (\<forall>s \<in> pending x m (scatter_inodes_path root). storable (s_filename s)))"

lemma dir_okD:
  assumes "dir_ok x m t root"
  shows "folder_ok x root m" "dir_inv x t" "s \<in> pending x m (scatter_inodes_path root) \<Longrightarrow> storable (s_filename s)"
    "finite (pending x m (scatter_inodes_path root))"
  using assms by (simp_all add: dir_ok_def)

lemma path_decode_key: "path_decode x k t = Ok s \<Longrightarrow> s_key s = k \<and> s_last_modified s = t"
  by (auto simp: path_decode_def Let_def elim!: res_bind_OkE split: if_splits option.splits list.splits prod.splits)

lemma pending_inj: "inj_on s_key (pending x m p)"
proof (rule inj_onI)
  fix a b assume "a \<in> pending x m p" "b \<in> pending x m p" and eq: "s_key a = s_key b"
  then obtain ka oa kb ob where "m ka = Some oa" "path_decode x ka (ob_mtime oa) = Ok a"
    "m kb = Some ob" "path_decode x kb (ob_mtime ob) = Ok b" by (auto simp: pending_def)
  then show "a = b" using eq path_decode_key by (metis option.inject result.inject(1))
qed

lemma latest_scatter_eq:
  assumes "set ss = S" and "inj_on s_key S"
  shows "latest_scatter S nm = (if nm \<in> s_filename ` S then Some (latest_of ss nm) else None)"
proof (cases "nm \<in> s_filename ` S")
  case True
  then have "nm \<in> s_filename ` set ss" using assms(1) by simp
  note l = latest_of_latest [OF this]
  have "(THE s. s \<in> S \<and> s_filename s = nm \<and> (\<forall>s' \<in> S. s_filename s' = nm \<longrightarrow> scatter_rank s' \<le> scatter_rank s)) =
      latest_of ss nm"
  proof (rule the_equality)
    show "latest_of ss nm \<in> S \<and> s_filename (latest_of ss nm) = nm \<and>
        (\<forall>s' \<in> S. s_filename s' = nm \<longrightarrow> scatter_rank s' \<le> scatter_rank (latest_of ss nm))"
      using l assms(1) by (simp add: is_latest_def)
    fix s assume s: "s \<in> S \<and> s_filename s = nm \<and> (\<forall>s' \<in> S. s_filename s' = nm \<longrightarrow> scatter_rank s' \<le> scatter_rank s)"
    with l assms(1) have "scatter_rank s = scatter_rank (latest_of ss nm)"
      by (intro order_antisym) (simp_all add: is_latest_def)
    then have "s_key s = s_key (latest_of ss nm)" by (simp add: scatter_rank_def)
    then show "s = latest_of ss nm"
      using s l(1) assms by (auto simp: is_latest_def dest: inj_onD)
  qed
  with True show ?thesis by (auto simp: latest_scatter_def)
qed (auto simp: latest_scatter_def)

lemma latest_scatter_Some:
  assumes "finite S" and "inj_on s_key S" and "latest_scatter S nm = Some s"
  shows "s \<in> S" "s_filename s = nm"
proof -
  obtain ss where ss: "set ss = S" using assms(1) by (metis finite_list)
  with latest_scatter_eq [OF ss assms(2), of nm] assms(3)
  have "nm \<in> s_filename ` set ss" "s = latest_of ss nm" by (auto split: if_splits)
  from latest_of_latest [OF this(1)] this(2) ss show "s \<in> S" "s_filename s = nm"
    by (auto simp: is_latest_def)
qed

lemma build_upserts_Ok:
  assumes "build_upserts ia fetched ups = Ok r"
  shows "\<exists>f. (\<forall>(s, body) \<in> set fetched. ino_from_slice ia body = Ok (f body)) \<and>
    r = fold (\<lambda>p. AList.update (s_filename (fst p)) (entry_from (f (snd p)) (s_uuid (fst p)) (s_filename (fst p)))) fetched ups"
proof -
  define f where "f body = (case ino_from_slice ia body of Ok i \<Rightarrow> i | _ \<Rightarrow> undefined)" for body
  have "(\<forall>(s, body) \<in> set fetched. ino_from_slice ia body = Ok (f body)) \<and>
    r = fold (\<lambda>p. AList.update (s_filename (fst p)) (entry_from (f (snd p)) (s_uuid (fst p)) (s_filename (fst p)))) fetched ups"
    using assms
  proof (induction fetched arbitrary: ups)
    case (Cons p fetched)
    obtain s body where p: "p = (s, body)" by (cases p)
    from Cons.prems obtain i where i: "ino_from_slice ia body = Ok i" by (auto simp: p elim: res_bind_OkE)
    then have f: "f body = i" by (simp add: f_def)
    from Cons.IH Cons.prems i f show ?case by (simp add: p)
  qed simp
  then show ?thesis by blast
qed

text \<open>What a batch of changes holds, in terms of the latest scatter of each name.\<close>

definition per_name ::
  "(string \<Rightarrow> dir_scatter_inode option) \<Rightarrow> (dir_scatter_inode \<Rightarrow> bool) \<Rightarrow> (dir_scatter_inode \<Rightarrow> 'v) \<Rightarrow> string \<Rightarrow> 'v option" where
  "per_name L P g nm = (case L nm of Some s \<Rightarrow> if P s then Some (g s) else None | None \<Rightarrow> None)"

definition live :: "dir_scatter_inode \<Rightarrow> bool" where
  "live s = (s_op s = Create \<or> s_op s = Update)"

definition body_at :: "(string \<Rightarrow> s3_object option) \<Rightarrow> dir_scatter_inode \<Rightarrow> bytes" where
  "body_at m s = ob_body (the (m (s_key s)))"

definition changes_ok ::
  "'i inode_api \<Rightarrow> (string \<Rightarrow> s3_object option) \<Rightarrow> dir_scatter_inode set \<Rightarrow> 'i scatter_changes \<Rightarrow> bool" where
  "changes_ok ia m S c =
     (distinct (all_keys c) \<and> set (all_keys c) = s_key ` S \<and>
      distinct (map fst (upserts c)) \<and> distinct (map fst (deletes c)) \<and> distinct (map fst (predeletes c)) \<and>
      distinct (tombstone_keys c) \<and>
      (\<forall>nm s. latest_scatter S nm = Some s \<longrightarrow> live s \<longrightarrow> scatter_entry ia m s \<noteq> None) \<and>
      map_of (upserts c) = per_name (latest_scatter S) live (the \<circ> scatter_entry ia m) \<and>
      map_of (deletes c) = per_name (latest_scatter S) (\<lambda>s. s_op s = Delete) s_uuid \<and>
      map_of (predeletes c) =
        per_name (latest_scatter S) (\<lambda>s. s_op s = PreDelete) (\<lambda>s. (s_uuid s, parse_predelete_body (body_at m s))) \<and>
      set (tombstone_keys c) = {s_key s | s nm. latest_scatter S nm = Some s \<and> s_op s = Delete})"

lemma map_of_last_view:
  assumes "distinct (map s_filename lv)" and "\<And>nm s. L nm = Some s \<longleftrightarrow> s \<in> set lv \<and> s_filename s = nm"
  shows "map_of (map (\<lambda>s. (s_filename s, g s)) (filter P lv)) = per_name L P g"
proof
  fix nm
  show "map_of (map (\<lambda>s. (s_filename s, g s)) (filter P lv)) nm = per_name L P g nm"
  proof (cases "per_name L P g nm")
    case None
    have "\<not> P s" if "s \<in> set lv" "s_filename s = nm" for s
    proof -
      have "L nm = Some s" using assms(2) that by blast
      with None show ?thesis by (auto simp: per_name_def split: if_splits)
    qed
    then have "nm \<notin> s_filename ` {s \<in> set lv. P s}" by blast
    with None show ?thesis by (simp add: map_of_eq_None_iff image_image)
  next
    case (Some v)
    then obtain s where "L nm = Some s" "P s" "v = g s" by (auto simp: per_name_def split: option.splits if_splits)
    with assms show ?thesis unfolding Some
      by (intro map_of_is_SomeI) (auto simp: comp_def distinct_map_filter)
  qed
qed

lemma pending_object: "s \<in> pending x m p \<Longrightarrow> m (s_key s) \<noteq> None \<and> prefix p (s_key s)"
  by (auto simp: pending_def dest: path_decode_key)

context hash_iteration
begin

lemma last_view_latest:
  assumes "set ss = S" and "inj_on s_key S" and "filter_last_view hm ss = Ok lv"
  shows "latest_scatter S nm = Some s \<longleftrightarrow> s \<in> set lv \<and> s_filename s = nm"
proof -
  note spec = filter_last_view_spec [OF assms(3)]
  have "(\<exists>s' \<in> set lv. s_filename s' = nm) \<longleftrightarrow> nm \<in> s_filename ` S" using spec(2) assms(1) by (metis image_iff)
  then show ?thesis
    unfolding latest_scatter_eq [OF assms(1,2)] using spec(4) by (metis option.distinct(1) option.inject)
qed

end

lemma map_of_build_deletes:
  "distinct (map s_filename ss) \<Longrightarrow> map_of (build_deletes ss) = map_of (map (\<lambda>s. (s_filename s, s_uuid s)) ss)"
  "distinct (map fst (build_deletes ss))"
  unfolding build_deletes_def
  by (simp add: map_of_fold_update, rule distinct_fold_update) simp

lemma map_of_build_predeletes:
  assumes "fetched = map (\<lambda>s. (s, f s)) ss"
  shows "distinct (map s_filename ss) \<Longrightarrow>
    map_of (build_predeletes fetched) = map_of (map (\<lambda>s. (s_filename s, s_uuid s, parse_predelete_body (f s))) ss)"
    "distinct (map fst (build_predeletes fetched))"
proof -
  have eq: "build_predeletes fetched =
      fold (\<lambda>s. AList.update (s_filename s) (s_uuid s, parse_predelete_body (f s))) ss []"
    unfolding build_predeletes_def assms fold_map by (rule fold_cong) (auto simp: comp_def split: prod.splits)
  show "distinct (map s_filename ss) \<Longrightarrow>
    map_of (build_predeletes fetched) = map_of (map (\<lambda>s. (s_filename s, s_uuid s, parse_predelete_body (f s))) ss)"
    unfolding eq by (simp add: map_of_fold_update)
  show "distinct (map fst (build_predeletes fetched))" unfolding eq by (rule distinct_fold_update) simp
qed

lemma map_of_build_upserts:
  assumes "build_upserts ia (map (\<lambda>s. (s, body_at m s)) ss) [] = Ok r"
  shows "s \<in> set ss \<Longrightarrow> scatter_entry ia m s \<noteq> None"
    "distinct (map s_filename ss) \<Longrightarrow> map_of r = map_of (map (\<lambda>s. (s_filename s, the (scatter_entry ia m s))) ss)"
    "distinct (map fst r)"
proof -
  from build_upserts_Ok [OF assms] obtain f where f: "\<And>s. s \<in> set ss \<Longrightarrow> ino_from_slice ia (body_at m s) = Ok (f (body_at m s))"
    and r: "r = fold (\<lambda>p. AList.update (s_filename (fst p)) (entry_from (f (snd p)) (s_uuid (fst p)) (s_filename (fst p))))
        (map (\<lambda>s. (s, body_at m s)) ss) []" by auto
  have e: "scatter_entry ia m s = Some (entry_from (f (body_at m s)) (s_uuid s) (s_filename s))" if "s \<in> set ss" for s
    using f [OF that] by (simp add: scatter_entry_def body_at_def)
  then show "s \<in> set ss \<Longrightarrow> scatter_entry ia m s \<noteq> None" by simp
  have r': "r = fold (\<lambda>s. AList.update (s_filename s) (entry_from (f (body_at m s)) (s_uuid s) (s_filename s))) ss []"
    unfolding r fold_map by (simp add: comp_def)
  show "distinct (map fst r)" unfolding r' by (rule distinct_fold_update) simp
  assume "distinct (map s_filename ss)"
  then show "map_of r = map_of (map (\<lambda>s. (s_filename s, the (scatter_entry ia m s))) ss)"
    unfolding r' using e by (simp add: map_of_fold_update cong: map_cong)
qed

lemma changes_okD:
  assumes "changes_ok ia m S c"
  shows "distinct (all_keys c)" "set (all_keys c) = s_key ` S"
    "distinct (map fst (upserts c))" "distinct (map fst (deletes c))" "distinct (map fst (predeletes c))"
    "distinct (tombstone_keys c)"
    "latest_scatter S nm = Some s \<Longrightarrow> live s \<Longrightarrow> scatter_entry ia m s \<noteq> None"
    "map_of (upserts c) = per_name (latest_scatter S) live (the \<circ> scatter_entry ia m)"
    "map_of (deletes c) = per_name (latest_scatter S) (\<lambda>s. s_op s = Delete) s_uuid"
    "map_of (predeletes c) =
      per_name (latest_scatter S) (\<lambda>s. s_op s = PreDelete) (\<lambda>s. (s_uuid s, parse_predelete_body (body_at m s)))"
    "set (tombstone_keys c) = {s_key s | s nm. latest_scatter S nm = Some s \<and> s_op s = Delete}"
  using assms unfolding changes_ok_def by blast+

text \<open>Applying a batch, upserts first and then both kinds of deletes, gives the overlay.\<close>

lemma changes_overlay:
  assumes "changes_ok ia m S c" and "\<And>nm s. latest_scatter S nm = Some s \<Longrightarrow> s_op s \<noteq> Unknown"
  shows "((v ++ map_of (upserts c)) |` (- set (map fst (deletes c)))) |` (- set (map fst (predeletes c))) =
    overlay ia m S v"
proof
  fix nm
  note c = changes_okD [OF assms(1)]
  have keys: "nm \<in> set (map fst (deletes c)) \<longleftrightarrow> map_of (deletes c) nm \<noteq> None"
    "nm \<in> set (map fst (predeletes c)) \<longleftrightarrow> map_of (predeletes c) nm \<noteq> None"
    by (simp_all only: map_of_dom)
  show "(((v ++ map_of (upserts c)) |` (- set (map fst (deletes c)))) |` (- set (map fst (predeletes c)))) nm =
      overlay ia m S v nm"
  proof (cases "latest_scatter S nm")
    case None
    then show ?thesis
      by (simp only: restrict_map_def keys c(8-10) Compl_iff)
        (simp add: overlay_def per_name_def map_add_def)
  next
    case (Some s)
    from c(7) [OF Some] have "live s \<Longrightarrow> \<exists>e. scatter_entry ia m s = Some e" by auto
    with Some assms(2) [OF Some] show ?thesis
      by (simp only: restrict_map_def keys c(8-10) Compl_iff)
        (cases "s_op s", auto simp: overlay_def per_name_def map_add_def live_def)
  qed
qed

section \<open>A directory over lawful libraries\<close>

locale directory =
  hyperfile "dp_s3 D" objs env "dp_ext D" "dp_bt D" tab "dp_hf D" com ino + hash_iteration "dp_hm D"
  for D :: "('w, 'i, 'b, 'd) deps" and objs env tab com ino
begin

lemma reads_load [intro!]: "reads env (hf_load_inode (dp_hf D) root)" "reads env (hf_bmap_read (dp_hf D) root i)"
  by (auto intro: readsI load_env read_env)

lemma reads_load_latest [intro!]: "reads env (load_latest_bmap D root)"
  unfolding load_latest_bmap_def by auto

lemma reads_collect_changes [intro!]: "reads env (collect_scatter_changes D root)"
  unfolding collect_scatter_changes_def list_scatter_inodes_def Let_def by auto

lemma reads_same:
  assumes "reads env m" and "m w = (r, w')"
  shows "objs w' = objs w" "com w' = com w" "ino w' = ino w"
  using env_quiet com_env readsD [OF assms] by simp_all

lemma load_latest_Ok:
  assumes "load_latest_bmap D root w = (Ok b, w')"
  shows "tab b = com w root"
proof -
  from assms obtain i d w1 where l: "hf_load_inode (dp_hf D) root w = (Ok (i, d), w1)"
    and r: "hf_bmap_read (dp_hf D) root i w1 = (Ok b, w')"
    unfolding load_latest_bmap_def by (auto elim!: io_bind_OkE)
  from read_Ok [OF r load_Ok [OF l]] com_env [OF load_env [OF l]] show ?thesis by simp
qed

lemma collect_changes_sound:
  assumes ok: "folder_ok (dp_ext D) root (objs w)"
    and pages: "pages_ok (fst (list_objects (dp_s3 D) (scatter_inodes_path root) w))"
    and run: "collect_scatter_changes D root w = (Ok c, w')"
  shows "changes_ok (dp_ino D) (objs w) (pending (dp_ext D) (objs w) (scatter_inodes_path root)) c"
proof -
  let ?S = "pending (dp_ext D) (objs w) (scatter_inodes_path root)"
  let ?L = "latest_scatter ?S"
  let ?cu = "\<lambda>s. s_op s = Create \<or> s_op s = Update"
  from run obtain ss w1 lv fe w2 ups pr where
    l: "list_scatter_inodes (dp_ext D) (dp_s3 D) root w = (Ok ss, w1)"
    and lv: "filter_last_view (dp_hm D) ss = Ok lv"
    and fe: "collect_scatter_inodes (dp_s3 D) (filter ?cu lv) w1 = (Ok fe, w2)"
    and ups: "build_upserts (dp_ino D) fe [] = Ok ups"
    and pr: "collect_scatter_inodes (dp_s3 D) (filter (\<lambda>s. s_op s = PreDelete) lv) w2 = (Ok pr, w')"
    and c: "c = \<lparr> all_keys = map s_key ss, upserts = ups, deletes = build_deletes (filter (\<lambda>s. s_op s = Delete) lv),
           predeletes = build_predeletes pr, tombstone_keys = remdups (map s_key (filter (\<lambda>s. s_op s = Delete) lv)) \<rparr>"
    unfolding collect_scatter_changes_def Let_def by (auto elim!: io_bind_OkE simp: io_lift_def io_return_def)
  note list = list_scatter_sound [OF ok _ pages l [unfolded list_scatter_inodes_def]]
  have ss: "set ss = ?S" "distinct (map s_key ss)" and o1: "objs w1 = objs w" using list by auto
  note spec = filter_last_view_spec [OF lv]
  note L = last_view_latest [OF ss(1) pending_inj lv]
  have sub: "set lv \<subseteq> ?S" using spec(3) ss(1) by (auto simp: is_latest_def)
  have bodies: "v = map (\<lambda>s. (s, body_at (objs w) s)) (filter P lv)"
    if "collect_scatter_inodes (dp_s3 D) (filter P lv) u = (Ok v, u')" "objs u = objs w" for v u u' P
  proof -
    have "filter (\<lambda>s. objs w (s_key s) \<noteq> None) (filter P lv) = filter P lv"
      using sub pending_object by (intro filter_True) auto
    with collect_sound [OF that(1)] that(2) show ?thesis by (simp add: body_at_def)
  qed
  have fe': "fe = map (\<lambda>s. (s, body_at (objs w) s)) (filter live lv)"
    using bodies [OF fe o1] by (simp add: live_def cong: filter_cong)
  have o2: "objs w2 = objs w" using collect_sound [OF fe] o1 by simp
  have dist: "distinct (map s_filename (filter P lv))" for P
    using spec(1) by (simp add: distinct_map_filter)
  note u = map_of_build_upserts [OF ups [unfolded fe']]
  note pb = map_of_build_predeletes [OF bodies [OF pr o2]]
  have maps: "map_of ups = per_name ?L live (the \<circ> scatter_entry (dp_ino D) (objs w))"
    "map_of (deletes c) = per_name ?L (\<lambda>s. s_op s = Delete) s_uuid"
    "map_of (predeletes c) = per_name ?L (\<lambda>s. s_op s = PreDelete)
       (\<lambda>s. (s_uuid s, parse_predelete_body (body_at (objs w) s)))"
    using u(2) [OF dist] map_of_build_deletes(1) [OF dist] pb(1) [OF dist]
      map_of_last_view [OF spec(1) L] by (simp_all add: c comp_def)
  have entries: "scatter_entry (dp_ino D) (objs w) s \<noteq> None" if "?L nm = Some s" "live s" for nm s
    using u(1) [of s] that L by simp
  have tomb: "set (tombstone_keys c) = {s_key s | s nm. ?L nm = Some s \<and> s_op s = Delete}"
    unfolding L by (auto simp: c)
  show ?thesis
    unfolding changes_ok_def
  proof (intro conjI allI impI)
    show "map_of (upserts c) = per_name ?L live (the \<circ> scatter_entry (dp_ino D) (objs w))"
      using maps(1) by (simp add: c)
  qed (use maps entries tomb ss u(3) pb(2) map_of_build_deletes(2) in \<open>simp_all add: c\<close>)
qed

lemma pending_facts:
  assumes "folder_ok (dp_ext D) root m" and "s \<in> pending (dp_ext D) m (scatter_inodes_path root)"
  shows "s_op s \<noteq> Unknown" "utf8_valid (s_filename s)" "s_filename s \<noteq> []"
proof -
  from assms(2) obtain k ob where k: "m k = Some ob" "prefix (scatter_inodes_path root) k"
    "path_decode (dp_ext D) k (ob_mtime ob) = Ok s" by (auto simp: pending_def)
  with assms(1) have "CHR ''!'' \<notin> set root" "scatter_key_ok (dp_ext D) root k" by (simp_all add: folder_ok_def)
  from scatter_key_decode [OF this, of "ob_mtime ob"] k(3)
  show "s_op s \<noteq> Unknown" "utf8_valid (s_filename s)" "s_filename s \<noteq> []" by (metis result.inject(1))+
qed

lemma overlay_fits:
  assumes ok: "folder_ok (dp_ext D) root m" "\<And>s. s \<in> S \<Longrightarrow> storable (s_filename s)"
    and S: "S \<subseteq> pending (dp_ext D) m (scatter_inodes_path root)" "finite S"
    and v: "\<And>nm e. v nm = Some e \<Longrightarrow> fits_name nm e" and e: "overlay ia m S v nm = Some e"
  shows "fits_name nm e"
proof (cases "latest_scatter S nm")
  case None
  with e v show ?thesis by (simp add: overlay_def)
next
  case (Some s)
  from latest_scatter_Some [OF S(2) inj_on_subset [OF pending_inj S(1)] Some]
  have s: "s \<in> S" "s_filename s = nm" .
  from Some e s(2) obtain i where "e = entry_from i (s_uuid s) nm"
    by (auto simp: overlay_def scatter_entry_def split: if_splits result.splits)
  then show ?thesis
    using fits_name_entry ok(2) [OF s(1)] pending_facts(2) [OF ok(1) subsetD [OF S(1) s(1)]] s(2) by simp
qed

lemma changes_finite: "changes_ok ia m (pending x m p) c \<Longrightarrow> finite (pending x m p)"
  by (rule finite_imageD [OF _ pending_inj]) (metis changes_okD(2) finite_set)

lemma walk_names:
  assumes inv: "dir_inv (dp_ext D) (tab b)" and walk: "walk_bmap (dp_bt D) b = Ok entries"
  shows "map_of (fold (\<lambda>e. AList.update (from_utf8_lossy (name_bytes e)) e) entries []) = index_map (tab b)"
proof -
  note p = dir_inv_probe [OF inv]
  note v = walk_bmap_view [OF p walk]
  have lossy: "from_utf8_lossy (name_bytes e) = name_bytes e" if "e \<in> set entries" for e
  proof (rule from_utf8_lossy_valid)
    have "index_map (tab b) (name_bytes e) = Some e" using that v(1) by (simp add: index_map_ran [OF p])
    with inv show "utf8_valid (name_bytes e)" by (auto simp: dir_inv_def fits_name_def)
  qed
  have "fold (\<lambda>e. AList.update (from_utf8_lossy (name_bytes e)) e) entries [] =
      fold (\<lambda>e. AList.update (name_bytes e) e) entries []"
    using lossy by (intro fold_cong) simp_all
  then show ?thesis
    using map_of_fold_update [of name_bytes entries "\<lambda>e. e" "[]"] v walk_index_map [OF p v] by simp
qed

lemma view_entries:
  assumes "distinct (map fst items)" and "\<And>nm raw. map_of items nm = Some raw \<Longrightarrow> fits_name nm raw"
  shows "distinct (map d_name (map (\<lambda>(_, raw). entry_from_raw raw) items))"
    "map_of (map (\<lambda>e. (d_name e, e)) (map (\<lambda>(_, raw). entry_from_raw raw) items)) nm =
      map_option entry_from_raw (map_of items nm)"
proof -
  have "fits_name n r" if "(n, r) \<in> set items" for n r
    using assms that by (auto intro: map_of_is_SomeI)
  then have n: "d_name (entry_from_raw r) = n" if "(n, r) \<in> set items" for n r
    using that by (blast dest: fits_nameD(3))
  have "map d_name (map (\<lambda>(_, raw). entry_from_raw raw) items) = map fst items"
    using n by (auto simp: case_prod_unfold)
  with assms(1) show "distinct (map d_name (map (\<lambda>(_, raw). entry_from_raw raw) items))"
    by (simp only: not_False_eq_True)
  have "map (\<lambda>e. (d_name e, e)) (map (\<lambda>(_, raw). entry_from_raw raw) items) =
      map (\<lambda>(n, r). (n, entry_from_raw r)) items"
    using n by (auto simp: case_prod_unfold)
  then show "map_of (map (\<lambda>e. (d_name e, e)) (map (\<lambda>(_, raw). entry_from_raw raw) items)) nm =
      map_option entry_from_raw (map_of items nm)"
    by (simp only: map_of_map o_apply)
qed

lemma read_dir_sound:
  assumes ok: "dir_ok (dp_ext D) (objs w) (com w root) root"
    and pages: "pages_ok (fst (list_objects (dp_s3 D) (scatter_inodes_path root) w))"
    and run: "read_dir D root w = (Ok es, w')"
  shows "distinct (map d_name es)"
    "map_of (map (\<lambda>e. (d_name e, e)) es) = dir_view (dp_ext D) (dp_ino D) (objs w) (com w root) root"
proof -
  let ?S = "pending (dp_ext D) (objs w) (scatter_inodes_path root)"
  from run obtain c w1 b w2 entries where
    c: "collect_scatter_changes D root w = (Ok c, w1)" and b: "load_latest_bmap D root w1 = (Ok b, w2)"
    and walk: "walk_bmap (dp_bt D) b = Ok entries"
    and es: "es = map (\<lambda>(_, raw). entry_from_raw raw) (hm_items (dp_hm D)
       (fold AList.delete (dp_hm D (map fst (predeletes c)))
         (fold AList.delete (dp_hm D (map fst (deletes c)))
           (fold (\<lambda>(name, e). AList.update name e) (hm_items (dp_hm D) (upserts c))
             (fold (\<lambda>e. AList.update (from_utf8_lossy (name_bytes e)) e) entries [])))))"
    unfolding read_dir_def Let_def by (auto elim!: io_bind_OkE simp: io_lift_def io_return_def)
  note ch = collect_changes_sound [OF dir_okD(1) [OF ok] pages c]
  note chD = changes_okD [OF ch]
  have tab: "tab b = com w root" using load_latest_Ok [OF b] reads_same(2) [OF reads_collect_changes c] by simp
  let ?v1 = "fold (\<lambda>e. AList.update (from_utf8_lossy (name_bytes e)) e) entries []"
  let ?v2 = "fold (\<lambda>p. AList.update (fst p) (snd p)) (hm_items (dp_hm D) (upserts c)) ?v1"
  let ?v4 = "fold AList.delete (dp_hm D (map fst (predeletes c))) (fold AList.delete (dp_hm D (map fst (deletes c))) ?v2)"
  have v1: "map_of ?v1 = index_map (com w root)"
    using walk_names [OF _ walk] dir_okD(2) [OF ok] tab by simp
  have v2: "map_of ?v2 = index_map (com w root) ++ map_of (upserts c)"
    using map_of_fold_update [of fst "hm_items (dp_hm D) (upserts c)" snd ?v1] chD(3) v1
    by (simp add: distinct_hm_items map_of_hm_items)
  have v4: "map_of ?v4 = overlay (dp_ino D) (objs w) ?S (index_map (com w root))"
    unfolding map_of_fold_delete v2 set_hm
  proof (rule changes_overlay [OF ch])
    fix nm s assume "latest_scatter ?S nm = Some s"
    from latest_scatter_Some(1) [OF changes_finite [OF ch] pending_inj this]
    show "s_op s \<noteq> Unknown" by (rule pending_facts(1) [OF dir_okD(1) [OF ok]])
  qed
  have dist: "distinct (map fst (hm_items (dp_hm D) ?v4))"
    unfolding distinct_hm_items by (intro distinct_fold_delete distinct_fold_update) simp
  have es': "es = map (\<lambda>(_, raw). entry_from_raw raw) (hm_items (dp_hm D) ?v4)"
    unfolding es by (simp add: case_prod_unfold)
  have fits: "fits_name nm raw" if "map_of (hm_items (dp_hm D) ?v4) nm = Some raw" for nm raw
  proof (rule overlay_fits [OF dir_okD(1) [OF ok] dir_okD(3) [OF ok] subset_refl changes_finite [OF ch]])
    show "overlay (dp_ino D) (objs w) ?S (index_map (com w root)) nm = Some raw"
      using that unfolding map_of_hm_items v4 .
    show "fits_name n e" if "index_map (com w root) n = Some e" for n e
      using that dir_okD(2) [OF ok] by (simp add: dir_inv_def)
  qed
  note ve = view_entries [OF dist fits]
  show "distinct (map d_name es)" unfolding es' by (rule ve(1))
  show "map_of (map (\<lambda>e. (d_name e, e)) es) = dir_view (dp_ext D) (dp_ino D) (objs w) (com w root) root"
  proof
    show "map_of (map (\<lambda>e. (d_name e, e)) es) nm = dir_view (dp_ext D) (dp_ino D) (objs w) (com w root) root nm" for nm
      using ve(2) [of nm] unfolding es' map_of_hm_items v4 dir_view_def dir_lookup_def .
  qed
qed

lemma latest_scatter_name: "latest_scatter {s \<in> S. s_filename s = nm} nm = latest_scatter S nm"
proof -
  let ?A = "{s \<in> S. s_filename s = nm}"
  have "(\<exists>s \<in> ?A. s_filename s = nm) \<longleftrightarrow> (\<exists>s \<in> S. s_filename s = nm)" by auto
  moreover have "(\<lambda>s. s \<in> ?A \<and> s_filename s = nm \<and> (\<forall>s' \<in> ?A. s_filename s' = nm \<longrightarrow> scatter_rank s' \<le> scatter_rank s)) =
      (\<lambda>s. s \<in> S \<and> s_filename s = nm \<and> (\<forall>s' \<in> S. s_filename s' = nm \<longrightarrow> scatter_rank s' \<le> scatter_rank s))"
    by (rule ext) auto
  ultimately show ?thesis unfolding latest_scatter_def by presburger
qed

lemma resolve_fallback_sound:
  assumes inv: "dir_inv (dp_ext D) (com w root)" and run: "resolve_fallback D root nm w = (Ok r, w')"
  shows "r = map_option entry_from_raw (index_map (com w root) nm)"
proof -
  from run obtain b w1 q where b: "load_latest_bmap D root w = (Ok b, w1)"
    and q: "probe_lookup_in (dp_bt D) b nm (hash_filename (dp_ext D) nm) = Ok q"
    and r: "r = map_option (\<lambda>(_, e). entry_from_raw e) q"
    unfolding resolve_fallback_def by (auto elim!: io_bind_OkE simp: io_lift_def io_return_def)
  have "map_option snd q = index_map (com w root) nm"
    using probe_lookup_sound(1) [OF _ q] load_latest_Ok [OF b] dir_inv_probe [OF inv] by simp
  moreover have "r = map_option entry_from_raw (map_option snd q)" unfolding r by (cases q) auto
  ultimately show ?thesis by (simp only:)
qed

lemma resolve_fast_sound:
  assumes ok: "dir_ok (dp_ext D) (objs w) (com w root) root"
    and pages: "pages_ok (fst (list_objects (dp_s3 D)
      (scatter_inodes_path root @ encode_filename (dp_ext D) nm @ ''/'') w))"
    and run: "resolve_fast D root nm w = (Ok r, w')"
  shows "r = dir_view (dp_ext D) (dp_ino D) (objs w) (com w root) root nm"
proof -
  let ?p = "scatter_inodes_path root @ encode_filename (dp_ext D) nm @ ''/''"
  let ?S = "pending (dp_ext D) (objs w) (scatter_inodes_path root)"
  note f = dir_okD(1) [OF ok]
  from run obtain ss w1 where l: "list_scatter_inodes_for_name (dp_ext D) (dp_s3 D) root nm w = (Ok ss, w1)"
    and cont: "(if ss = [] then resolve_fallback D root nm
       else io_bind (io_lift (filter_last_view (dp_hm D) ss)) (\<lambda>lv.
         case lv of
           [] \<Rightarrow> resolve_fallback D root nm
         | latest # _ \<Rightarrow>
             if s_op latest = Create \<or> s_op latest = Update then
               io_bind (collect_scatter_inodes (dp_s3 D) [latest]) (\<lambda>fetched.
                 case fetched of
                   (s, body) # _ \<Rightarrow>
                     io_bind (io_lift (ino_from_slice (dp_ino D) body)) (\<lambda>inode_raw.
                     io_return (Some (entry_from_raw (entry_from inode_raw (s_uuid s) (s_filename s)))))
                 | [] \<Rightarrow> resolve_fallback D root nm)
             else if s_op latest = Delete \<or> s_op latest = PreDelete then io_return None
             else resolve_fallback D root nm)) w1 = (Ok r, w')"
    unfolding resolve_fast_def by (rule io_bind_OkE)
  note list = list_scatter_sound [OF f _ pages l [unfolded list_scatter_inodes_for_name_def]]
  have ss: "set ss = {s \<in> ?S. s_filename s = nm}"
    using list(1) pending_name [OF f, of nm] by auto
  have inj: "inj_on s_key {s \<in> ?S. s_filename s = nm}" by (rule inj_on_subset [OF pending_inj]) blast
  have o1: "objs w1 = objs w" and c1: "com w1 = com w"
    using reads_same [OF reads_list l [unfolded list_scatter_inodes_for_name_def]] by simp_all
  have L: "latest_scatter ?S nm = (if ss = [] then None else Some (latest_of ss nm))"
    unfolding latest_scatter_name [of ?S nm, symmetric] latest_scatter_eq [OF ss inj]
    using ss by (cases ss) auto
  show ?thesis
  proof (cases "ss = []")
    case True
    with cont have "resolve_fallback D root nm w1 = (Ok r, w')" by simp
    from resolve_fallback_sound [OF _ this] dir_okD(2) [OF ok] L True c1
    show ?thesis by (simp add: dir_view_def dir_lookup_def overlay_def)
  next
    case False
    obtain lv where lv: "filter_last_view (dp_hm D) ss = Ok lv" using filter_last_view_eq by blast
    note spec = filter_last_view_spec [OF lv]
    have names: "s_filename ` set lv = {nm}" using spec(2) ss False by (cases ss) auto
    then obtain s rest where lv': "lv = s # rest" by (cases lv) auto
    have s: "s = latest_of ss nm" using spec(4) [of s] names lv' by auto
    have sS: "s \<in> ?S" "s_filename s = nm" using spec(3) [of s] ss lv' by (auto simp: is_latest_def)
    have view: "dir_lookup (dp_ext D) (dp_ino D) (objs w) (com w root) root nm =
        (if s_op s = Create \<or> s_op s = Update then scatter_entry (dp_ino D) (objs w) s else None)"
      using L False s by (simp add: dir_lookup_def overlay_def)
    show ?thesis
    proof (cases "s_op s = Create \<or> s_op s = Update")
      case True
      from cont False lv lv' True obtain fetched w2 where
        fe: "collect_scatter_inodes (dp_s3 D) [s] w1 = (Ok fetched, w2)"
        and rest: "(case fetched of
                   (s, body) # _ \<Rightarrow>
                     io_bind (io_lift (ino_from_slice (dp_ino D) body)) (\<lambda>inode_raw.
                     io_return (Some (entry_from_raw (entry_from inode_raw (s_uuid s) (s_filename s)))))
                 | [] \<Rightarrow> resolve_fallback D root nm) w2 = (Ok r, w')"
        by (auto elim!: io_bind_OkE simp: io_bind_lift simp del: collect_scatter_inodes.simps)
      have "fetched = [(s, body_at (objs w) s)]"
        using collect_sound [OF fe] o1 pending_object [OF sS(1)] by (simp add: body_at_def)
      with rest obtain i where "ino_from_slice (dp_ino D) (body_at (objs w) s) = Ok i"
        "r = Some (entry_from_raw (entry_from i (s_uuid s) (s_filename s)))"
        by (auto elim!: io_bind_OkE simp: io_lift_def io_return_def)
      with True view show ?thesis by (simp add: dir_view_def scatter_entry_def body_at_def)
    next
      case op: False
      have "s_op s \<noteq> Unknown" using pending_facts(1) [OF f sS(1)] .
      then have "s_op s = Delete \<or> s_op s = PreDelete" using op by (cases "s_op s") simp_all
      with cont False lv lv' op have "r = None"
        by (auto elim!: io_bind_OkE simp: io_lift_def io_return_def)
      with op view show ?thesis by (simp add: dir_view_def)
    qed
  qed
qed

end

text \<open>The libraries in memory make a directory.\<close>

interpretation mem_directory: directory mem_deps mem_objs mem_env map_of mem_com mem_ino
  unfolding directory_def mem_deps_sel
  by (intro conjI mem_hyper.hyperfile_axioms hm_rev.hash_iteration_axioms)

end
