(* ===== verification/Compaction.thy ===== *)
theory Compaction
  imports Dir_View
begin

text \<open>
  What \<open>compact\<close> of \<open>src/file.rs\<close> does to a directory: the lemmas follow the stages of the
  operation (lease, reload, collect, fold into the index, flush, delete the folded scatters) and show
  that no stage changes what the directory contains.
\<close>

section \<open>The overlay\<close>

lemma io_bind_run:
  assumes "io_bind m f s = (r, s')"
  obtains a s1 where "m s = (Ok a, s1)" "f a s1 = (r, s')"
    | e where "m s = (Err e, s')" "r = Err e"
    | "m s = (Panic, s')" "r = Panic"
  using assms by (auto simp: io_bind_def split: prod.splits result.splits)

lemma pending_cong:
  assumes "\<And>k. prefix p k \<Longrightarrow> m' k = m k"
  shows "pending x m' p = pending x m p"
  using assms unfolding pending_def by (metis (lifting))

lemma overlay_cong:
  assumes "finite S" and "inj_on s_key S" and "\<And>s. s \<in> S \<Longrightarrow> m' (s_key s) = m (s_key s)"
  shows "overlay ia m' S v = overlay ia m S v"
proof
  show "overlay ia m' S v nm = overlay ia m S v nm" for nm
    using assms(3) latest_scatter_Some(1) [OF assms(1,2), of nm]
    by (auto simp: overlay_def scatter_entry_def split: option.splits)
qed

text \<open>Objects outside the scatter folder do not matter.\<close>

lemma dir_lookup_cong:
  assumes "finite (pending x m (scatter_inodes_path root))"
    and "\<And>k. prefix (scatter_inodes_path root) k \<Longrightarrow> m' k = m k"
  shows "dir_lookup x ia m' t root = dir_lookup x ia m t root"
proof -
  have P: "pending x m' (scatter_inodes_path root) = pending x m (scatter_inodes_path root)"
    by (rule pending_cong) (rule assms(2))
  show ?thesis unfolding dir_lookup_def P
    by (rule overlay_cong [OF assms(1) pending_inj]) (use assms(2) pending_object in blast)
qed

lemma dir_ok_cong:
  assumes "\<And>k. prefix (scatter_inodes_path root) k \<Longrightarrow> m' k = m k" and "dir_inv x t'" and "dir_ok x m t root"
  shows "dir_ok x m' t' root"
proof -
  have P: "pending x m' (scatter_inodes_path root) = pending x m (scatter_inodes_path root)"
    by (rule pending_cong) (rule assms(1))
  have "folder_ok x root m'" using dir_okD(1) [OF assms(3)] assms(1) by (auto simp: folder_ok_def)
  with assms(2,3) show ?thesis unfolding dir_ok_def P by blast
qed

lemma overlay_idem: "overlay ia m S (overlay ia m S v) = overlay ia m S v"
  by (rule ext) (simp add: overlay_def split: option.splits)

text \<open>The tombstones of a folder: the deletes that are the latest scatter of their name.\<close>

definition tombstones :: "dir_scatter_inode set \<Rightarrow> dir_scatter_inode set" where
  "tombstones S = {s. \<exists>nm. latest_scatter S nm = Some s \<and> s_op s = Delete}"

lemma latest_tombstone:
  assumes "finite S" and "inj_on s_key S"
  shows "latest_scatter (tombstones S) nm =
    (case latest_scatter S nm of Some s \<Rightarrow> if s_op s = Delete then Some s else None | None \<Rightarrow> None)"
proof (cases "\<exists>s \<in> tombstones S. s_filename s = nm")
  case True
  then obtain s nm' where s: "latest_scatter S nm' = Some s" "s_op s = Delete" "s_filename s = nm"
    by (auto simp: tombstones_def)
  with latest_scatter_Some(2) [OF assms s(1)] have L: "latest_scatter S nm = Some s" by simp
  have uniq: "s' = s" if s': "s' \<in> tombstones S" "s_filename s' = nm" for s'
  proof -
    from s' obtain n where n: "latest_scatter S n = Some s'" by (auto simp: tombstones_def)
    with latest_scatter_Some(2) [OF assms n] s'(2) L show ?thesis by simp
  qed
  have mem: "s \<in> tombstones S" using s by (auto simp: tombstones_def)
  have "(THE s. s \<in> tombstones S \<and> s_filename s = nm \<and>
      (\<forall>s' \<in> tombstones S. s_filename s' = nm \<longrightarrow> scatter_rank s' \<le> scatter_rank s)) = s"
  proof (rule the_equality)
    show "s \<in> tombstones S \<and> s_filename s = nm \<and>
        (\<forall>s' \<in> tombstones S. s_filename s' = nm \<longrightarrow> scatter_rank s' \<le> scatter_rank s)"
      using mem s(3) uniq by blast
  qed (use uniq in blast)
  with True have "latest_scatter (tombstones S) nm = Some s"
    unfolding latest_scatter_def [of "tombstones S"] by (simp only: if_True)
  with L s(2) show ?thesis by simp
next
  case False
  then have "latest_scatter (tombstones S) nm = None" by (auto simp: latest_scatter_def)
  moreover have "s_op s \<noteq> Delete" if "latest_scatter S nm = Some s" for s
    using that False latest_scatter_Some(2) [OF assms that] by (auto simp: tombstones_def)
  ultimately show ?thesis by (auto split: option.splits)
qed

lemma overlay_tombstones:
  assumes "finite S" and "inj_on s_key S"
  shows "overlay ia m' (tombstones S) (overlay ia m S v) = overlay ia m S v"
  by (rule ext)
    (auto simp: overlay_def [of ia m' "tombstones S"] latest_tombstone [OF assms] overlay_def split: option.splits)

text \<open>Deleting every scatter object that is not a tombstone leaves the tombstones.\<close>

lemma pending_restrict:
  "pending x (m |` (- K)) p = {s \<in> pending x m p. s_key s \<notin> K}"
  by (auto simp: pending_def restrict_map_def dest: path_decode_key split: if_splits)

lemma pending_tombstones:
  assumes "S = pending x m p" and "finite S" and "K = s_key ` S - s_key ` tombstones S"
  shows "pending x (m |` (- K)) p = tombstones S"
proof -
  have inj: "inj_on s_key S" unfolding assms(1) by (rule pending_inj)
  have sub: "tombstones S \<subseteq> S" using latest_scatter_Some(1) [OF assms(2) inj] by (auto simp: tombstones_def)
  show ?thesis
    unfolding pending_restrict assms(3) assms(1) [symmetric] using sub inj by (auto dest: inj_onD)
qed

section \<open>Effects on hyperdir's own keys\<close>

text \<open>The step changed objects of \<open>K\<close> only, and not the committed index at \<open>root\<close>.\<close>

definition only_at ::
  "('w \<Rightarrow> string \<Rightarrow> s3_object option) \<Rightarrow> ('w \<Rightarrow> string \<Rightarrow> 'i table) \<Rightarrow> string \<Rightarrow> string set \<Rightarrow> 'w \<Rightarrow> 'w \<Rightarrow> bool" where
  "only_at objs com root K w w' = ((\<forall>k. k \<notin> K \<longrightarrow> objs w' k = objs w k) \<and> com w' root = com w root)"

lemma only_at_trans:
  "only_at objs com root K w w1 \<Longrightarrow> only_at objs com root K w1 w2 \<Longrightarrow> only_at objs com root K w w2"
  by (simp add: only_at_def)

context object_store_quiet
begin

lemma put_other:
  assumes "put_object s3 k b c w = (r, w')" and "j \<noteq> k"
  shows "objs w' j = objs w j"
proof (cases r)
  case (Inl e)
  with assms(1) have "put_object s3 k b c w = (Inl e, w')" by simp
  from put_Err [OF this] env_quiet assms(2) show ?thesis by (metis fun_upd_other)
next
  case (Inr et)
  with assms(1) have "put_object s3 k b c w = (Inr et, w')" by simp
  from put_Ok [OF this] env_quiet assms(2) show ?thesis by (metis fun_upd_other)
qed

lemma delete_other:
  assumes "delete_obj s3 k m w = (r, w')" and "j \<noteq> k"
  shows "objs w' j = objs w j"
proof (cases r)
  case (Inl e)
  with assms(1) have "delete_obj s3 k m w = (Inl e, w')" by simp
  from delete_Err [OF this] env_quiet assms(2) show ?thesis by (metis fun_upd_other)
next
  case (Inr u)
  with assms(1) have "delete_obj s3 k m w = (Inr u, w')" by simp
  from delete_Ok [OF this] env_quiet assms(2) show ?thesis by (metis fun_upd_other)
qed

end

context hyperfile
begin

lemma only_at_env: "env w w' \<Longrightarrow> only_at objs com root K w w'"
  using env_quiet com_env by (simp add: only_at_def)

lemma only_at_put:
  assumes "put_object s3 k b c w = (r, w')" and "\<not> hf_owned root k" and "k \<in> K"
  shows "only_at objs com root K w w'"
  unfolding only_at_def using put_other [OF assms(1)] put_com [OF assms(1,2)] assms(3) by metis

lemma only_at_delete:
  assumes "delete_obj s3 k m w = (r, w')" and "\<not> hf_owned root k" and "k \<in> K"
  shows "only_at objs com root K w w'"
  unfolding only_at_def using delete_other [OF assms(1)] delete_com [OF assms(1,2)] assms(3) by metis

lemma take_over_only:
  assumes "try_take_over_compact_lease s3 (compact_lease_path root) holder ttl now w = (r, w')"
  shows "only_at objs com root {compact_lease_path root} w w'"
proof -
  obtain q w1 where get: "get_object s3 (compact_lease_path root) w = (q, w1)"
    by (cases "get_object s3 (compact_lease_path root) w")
  note e = only_at_env [OF get_env [OF get]]
  note put = only_at_put [OF _ lease_not_owned singletonI]
  from assms get have "w' = w1 \<or> (\<exists>b c p. put_object s3 (compact_lease_path root) b c w1 = (p, w'))"
    by (auto simp: try_take_over_compact_lease_def Let_def
        split: sum.splits option.splits result.splits prod.splits if_splits)
  then show ?thesis using e only_at_trans [OF e put] by metis
qed

lemma acquire_only:
  assumes "acquire_compact_lease x s3 root ttl w = (r, w')"
  shows "only_at objs com root {compact_lease_path root} w w'"
    and "r = Ok g \<Longrightarrow> cl_lease_key g = compact_lease_path root"
proof -
  let ?k = "compact_lease_path root"
  obtain ul w1 where ul: "new_ulid s3 w = (ul, w1)" by (cases "new_ulid s3 w")
  obtain c w2 where c: "clock_ms s3 w1 = (c, w2)" by (cases "clock_ms s3 w1")
  let ?b = "format_lease_body (ulid_fmt x ul) (expiry (unix_now_ms c) ttl)"
  obtain q w3 where put: "put_object s3 ?k ?b IfNoneMatch w2 = (q, w3)" by (cases "put_object s3 ?k ?b IfNoneMatch w2")
  note o = only_at_trans [OF only_at_trans [OF only_at_env [OF ulid_env [OF ul]] only_at_env [OF clock_env [OF c]]]
      only_at_put [OF put lease_not_owned singletonI]]
  from assms ul c put have "w' = w3 \<or>
      try_take_over_compact_lease s3 ?k (ulid_fmt x ul) ttl (unix_now_ms c) w3 = (r, w')"
    by (auto simp: acquire_compact_lease_def Let_def split: sum.splits if_splits)
  then show "only_at objs com root {?k} w w'" using o only_at_trans [OF o take_over_only] by metis
  show "cl_lease_key g = ?k" if "r = Ok g"
    using assms that ul c put
    by (auto simp: acquire_compact_lease_def try_take_over_compact_lease_def Let_def
        split: sum.splits if_splits option.splits result.splits prod.splits)
qed

lemma release_only:
  assumes "release_compact_lease s3 g w = (r, w')" and "cl_lease_key g = compact_lease_path root"
  shows "only_at objs com root {compact_lease_path root} w w'"
proof -
  from assms obtain q where "delete_obj s3 (compact_lease_path root) (Some (cl_etag g)) w = (q, w')"
    by (auto simp: release_compact_lease_def split: prod.splits)
  from only_at_delete [OF this lease_not_owned singletonI] show ?thesis .
qed

lemma remove_chunks_shrinks: "remove_chunks s3 cs err w = (r, w') \<Longrightarrow> objs w' k = objs w k \<or> objs w' k = None"
proof (induction cs arbitrary: err w)
  case Nil
  then show ?case by (auto simp: io_return_def io_fail_def split: if_splits)
next
  case (Cons c cs)
  obtain q w1 where del: "delete_objs s3 c w = (q, w1)" by (cases "delete_objs s3 c w")
  have "objs w1 k = objs w k \<or> objs w1 k = None"
  proof (cases q)
    case (Inl e)
    from delete_objs_Err [OF del [unfolded Inl]] obtain w2 D where "env w w2" "objs w1 = (objs w2) |` (- D)" by blast
    with env_quiet [of w w2] show ?thesis by (simp add: restrict_map_def)
  next
    case (Inr f)
    from delete_objs_Ok [OF del [unfolded Inr]] obtain w2 where "env w w2" "objs w1 = (objs w2) |` (- (set c - set f))" by blast
    with env_quiet [of w w2] show ?thesis by (simp add: restrict_map_def)
  qed
  moreover obtain err' where "remove_chunks s3 cs err' w1 = (r, w')" using Cons.prems del by (auto split: sum.splits)
  ultimately show ?case using Cons.IH [of err' w1] by auto
qed

lemma remove_scatter_shrinks: "remove_scatter_inodes s3 ks w = (r, w') \<Longrightarrow> objs w' k = objs w k \<or> objs w' k = None"
  unfolding remove_scatter_inodes_def by (rule remove_chunks_shrinks)

lemma remove_chunks_com:
  assumes "remove_chunks s3 cs err w = (r, w')" and "\<And>k. k \<in> set (concat cs) \<Longrightarrow> \<not> hf_owned root k"
  shows "com w' root = com w root"
  using assms
proof (induction cs arbitrary: err w)
  case (Cons c cs)
  obtain q w1 where del: "delete_objs s3 c w = (q, w1)" by (cases "delete_objs s3 c w")
  have "com w1 root = com w root" using delete_objs_com [OF del] Cons.prems(2) by simp
  moreover obtain err' where "remove_chunks s3 cs err' w1 = (r, w')"
    using Cons.prems(1) del by (auto split: sum.splits)
  then have "com w' root = com w1 root" using Cons.IH Cons.prems(2) by auto
  ultimately show ?case by simp
qed (auto simp: io_return_def io_fail_def split: if_splits)

lemma remove_scatter_com:
  assumes "remove_scatter_inodes s3 ks w = (r, w')" and "\<And>k. k \<in> set ks \<Longrightarrow> \<not> hf_owned root k"
  shows "com w' root = com w root"
  using remove_chunks_com [OF assms(1) [unfolded remove_scatter_inodes_def], of root] assms(2)
    concat_chunks [of 1000 ks] by simp

end

section \<open>The stages of a compaction\<close>

text \<open>
  What a compaction reports, in terms of the latest scatter \<open>L\<close> of each name and the index \<open>v\<close> it
  started from: a removal is reported for exactly the names that the index held and whose latest
  scatter is a delete or a pre-delete.
\<close>

definition compact_report ::
  "(string \<Rightarrow> s3_object option) \<Rightarrow> dir_scatter_inode set \<Rightarrow> (string \<Rightarrow> 'i dir_file_entry_raw option) \<Rightarrow> compact_stats \<Rightarrow> bool" where
  "compact_report m S v st =
     (let L = latest_scatter S in
      \<not> no_op st \<and> scatters_processed st = card S \<and> tombstones_kept st = card (tombstones S) \<and>
      entries_added st = card {nm. \<exists>s. L nm = Some s \<and> live s} \<and>
      distinct (map fst (predeleted st)) \<and>
      set (predeleted st) = {(nm, s_uuid s, parse_predelete_body (body_at m s)) | nm s.
        L nm = Some s \<and> s_op s = PreDelete \<and> v nm \<noteq> None} \<and>
      (\<exists>ns. distinct ns \<and> set ns = {nm. \<exists>s. L nm = Some s \<and> s_op s = Delete \<and> v nm \<noteq> None} \<and>
        removed_children st = map (\<lambda>nm. s_uuid (the (L nm))) ns \<and>
        entries_removed st = length ns + length (predeleted st)))"

lemma compact_report_cong:
  assumes "finite S" and "inj_on s_key S" and "\<And>s. s \<in> S \<Longrightarrow> m' (s_key s) = m (s_key s)"
  shows "compact_report m' S v st = compact_report m S v st"
proof -
  have "body_at m' s = body_at m s" if "latest_scatter S nm = Some s" for nm s
    using assms(3) [OF latest_scatter_Some(1) [OF assms(1,2) that]] by (simp add: body_at_def)
  then have "{(nm, s_uuid s, parse_predelete_body (body_at m' s)) | nm s.
        latest_scatter S nm = Some s \<and> s_op s = PreDelete \<and> v nm \<noteq> None} =
      {(nm, s_uuid s, parse_predelete_body (body_at m s)) | nm s.
        latest_scatter S nm = Some s \<and> s_op s = PreDelete \<and> v nm \<noteq> None}"
    by (intro Collect_cong) (metis (no_types, lifting))
  then show ?thesis unfolding compact_report_def Let_def by presburger
qed

lemma lease_not_scatter: "\<not> prefix (scatter_inodes_path root) (compact_lease_path root)"
  by (simp add: scatter_inodes_path_def compact_lease_path_def DEFAULT_DIR_INODE_SCATTER_FOLDER_def
      DEFAULT_COMPACT_LEASE_FILE_def)

text \<open>The directory at \<open>root\<close> is well-formed after the step and contains what it contained before.\<close>

definition same_dir ::
  "ext \<Rightarrow> 'i inode_api \<Rightarrow> ('w \<Rightarrow> string \<Rightarrow> s3_object option) \<Rightarrow> ('w \<Rightarrow> string \<Rightarrow> 'i table) \<Rightarrow> string \<Rightarrow> 'w \<Rightarrow> 'w \<Rightarrow> bool" where
  "same_dir x ia objs com root w w' =
     (dir_ok x (objs w') (com w' root) root \<and>
      dir_lookup x ia (objs w') (com w' root) root = dir_lookup x ia (objs w) (com w root) root)"

lemma same_dir_trans:
  "same_dir x ia objs com root w w1 \<Longrightarrow> same_dir x ia objs com root w1 w2 \<Longrightarrow> same_dir x ia objs com root w w2"
  by (simp add: same_dir_def)

lemma same_dir_only_at:
  assumes "only_at objs com root K w w'" and "\<And>k. k \<in> K \<Longrightarrow> \<not> prefix (scatter_inodes_path root) k"
    and "dir_ok x (objs w) (com w root) root"
  shows "same_dir x ia objs com root w w'"
proof -
  have o: "objs w' k = objs w k" if "prefix (scatter_inodes_path root) k" for k
    using assms(1,2) that by (auto simp: only_at_def)
  have c: "com w' root = com w root" using assms(1) by (simp add: only_at_def)
  show ?thesis unfolding same_dir_def c
    using dir_ok_cong [OF o dir_okD(2) [OF assms(3)] assms(3)] dir_lookup_cong [OF dir_okD(4) [OF assms(3)] o] by blast
qed

text \<open>
  What a compaction may leave of the directory at \<open>root\<close>: it is well-formed, no scatter object is new,
  and every name shows what it showed. When the deletion of the folded scatters failed midway, this
  holds for the names whose latest scatter is still there and for the names without any; a name of
  which only an older scatter is left shows that one again.
\<close>

definition compacted ::
  "ext \<Rightarrow> 'i inode_api \<Rightarrow> ('w \<Rightarrow> string \<Rightarrow> s3_object option) \<Rightarrow> ('w \<Rightarrow> string \<Rightarrow> 'i table) \<Rightarrow> string \<Rightarrow> bool \<Rightarrow> 'w \<Rightarrow> 'w \<Rightarrow> bool" where
  "compacted x ia objs com root failed w w' =
     (let S = pending x (objs w) (scatter_inodes_path root); S' = pending x (objs w') (scatter_inodes_path root) in
      dir_ok x (objs w') (com w' root) root \<and> S' \<subseteq> S \<and>
      (\<forall>nm. \<not> failed \<or> latest_scatter S' nm \<in> {None, latest_scatter S nm} \<longrightarrow>
        dir_lookup x ia (objs w') (com w' root) root nm = dir_lookup x ia (objs w) (com w root) root nm))"

lemma compacted_same:
  assumes "same_dir x ia objs com root w w'"
    and "pending x (objs w') (scatter_inodes_path root) \<subseteq> pending x (objs w) (scatter_inodes_path root)"
  shows "compacted x ia objs com root failed w w'"
  using assms by (simp add: compacted_def Let_def same_dir_def)

lemma compacted_trans:
  assumes "pending x (objs w1) (scatter_inodes_path root) = pending x (objs w) (scatter_inodes_path root)"
    and "same_dir x ia objs com root w w1" and "compacted x ia objs com root failed w1 w2"
  shows "compacted x ia objs com root failed w w2"
  using assms by (simp add: compacted_def Let_def same_dir_def)

lemma compacted_then:
  assumes "compacted x ia objs com root failed w w1" and "same_dir x ia objs com root w1 w2"
    and "pending x (objs w2) (scatter_inodes_path root) = pending x (objs w1) (scatter_inodes_path root)"
  shows "compacted x ia objs com root failed w w2"
  using assms by (simp add: compacted_def Let_def same_dir_def)

lemma pending_shrink:
  assumes "\<And>k. prefix p k \<Longrightarrow> m' k = m k \<or> m' k = None"
  shows "pending x m' p \<subseteq> pending x m p"
  using assms unfolding pending_def by fastforce

lemma dir_ok_shrink:
  assumes ok: "dir_ok x m t root" and o: "\<And>k. prefix (scatter_inodes_path root) k \<Longrightarrow> m' k = m k \<or> m' k = None" and t: "t' = t \<or> dir_inv x t'"
  shows "dir_ok x m' t' root"
proof -
  note d = dir_okD [OF ok]
  have sub: "pending x m' (scatter_inodes_path root) \<subseteq> pending x m (scatter_inodes_path root)" by (rule pending_shrink) (rule o)
  have "folder_ok x root m'" using d(1) o unfolding folder_ok_def by (metis option.distinct(1))
  with d sub t show ?thesis unfolding dir_ok_def by (auto intro: finite_subset)
qed

text \<open>Deleting only some of the scatters that the committed index already holds.\<close>

lemma compacted_partly:
  assumes ok: "dir_ok x (objs w) (com w root) root" and c: "com w' root = com w root"
    and del: "\<And>k. objs w' k = objs w k \<or> objs w' k = None"
    and idx: "index_map (com w root) = dir_lookup x ia (objs w) (com w root) root"
  shows "compacted x ia objs com root True w w'"
proof -
  let ?S = "pending x (objs w) (scatter_inodes_path root)" and ?S' = "pending x (objs w') (scatter_inodes_path root)"
  have sub: "?S' \<subseteq> ?S" by (rule pending_shrink) (rule del)
  have ok': "dir_ok x (objs w') (com w' root) root" by (rule dir_ok_shrink [OF ok]) (use del c in simp_all)
  have "dir_lookup x ia (objs w') (com w' root) root nm = dir_lookup x ia (objs w) (com w root) root nm"
    if keep: "latest_scatter ?S' nm \<in> {None, latest_scatter ?S nm}" for nm
  proof (cases "latest_scatter ?S' nm")
    case None
    then have "dir_lookup x ia (objs w') (com w' root) root nm = index_map (com w root) nm"
      by (simp add: dir_lookup_def overlay_def c)
    with idx show ?thesis by simp
  next
    case (Some s)
    have s: "latest_scatter ?S nm = Some s" using keep Some by simp
    have "s \<in> ?S'" using latest_scatter_Some(1) [OF dir_okD(4) [OF ok'] pending_inj Some] .
    then have "objs w' (s_key s) = objs w (s_key s)" using pending_object del by metis
    then show ?thesis using Some s by (simp add: dir_lookup_def overlay_def scatter_entry_def)
  qed
  with ok' sub show ?thesis by (simp add: compacted_def Let_def)
qed

lemma remove_chunks_result: "remove_chunks s3 cs err w = (r, w') \<Longrightarrow> r = Ok () \<or> r = Err Interrupted"
  by (induction cs arbitrary: err w) (auto simp: io_return_def io_fail_def split: if_splits sum.splits prod.splits)

context directory
begin

lemma same_dir_env:
  assumes "env w w'" and "dir_ok (dp_ext D) (objs w) (com w root) root"
  shows "same_dir (dp_ext D) ia objs com root w w'"
  by (rule same_dir_only_at [OF only_at_env [OF assms(1)] _ assms(2), of "{}"]) simp

lemma compacted_env:
  assumes "env w w'" and "dir_ok (dp_ext D) (objs w) (com w root) root"
  shows "compacted (dp_ext D) ia objs com root failed w w'"
  by (rule compacted_same [where objs = objs, OF same_dir_env [OF assms]]) (simp add: env_quiet [OF assms(1)])

text \<open>A flush of an index that holds the folded changes, successful or not.\<close>

lemma same_dir_flush:
  assumes run: "hf_flush (dp_hf D) (h, w) = (r, (h', w'))" and ok: "dir_ok (dp_ext D) (objs w) (com w (h_root h)) (h_root h)"
    and inv: "dir_inv (dp_ext D) (tab (h_bmap h))"
    and idx: "index_map (tab (h_bmap h)) = dir_lookup (dp_ext D) ia (objs w) (com w (h_root h)) (h_root h)"
  shows "same_dir (dp_ext D) ia objs com (h_root h) w w'"
proof -
  let ?root = "h_root h"
  note f = flush_any [OF run]
  have o: "objs w' k = objs w k" if "prefix (scatter_inodes_path ?root) k" for k
    using f scatter_not_owned [OF that] by blast
  have inv': "dir_inv (dp_ext D) (com w' ?root)" using f inv dir_okD(2) [OF ok] by auto
  have "dir_lookup (dp_ext D) ia (objs w) (com w' ?root) ?root = dir_lookup (dp_ext D) ia (objs w) (com w ?root) ?root"
    using f idx overlay_idem by (auto simp: dir_lookup_def)
  then show ?thesis unfolding same_dir_def
    using dir_ok_cong [OF o inv' ok] dir_lookup_cong [OF dir_okD(4) [OF ok] o, where ia = ia] by simp
qed

text \<open>Deleting the folded scatters of a flushed directory.\<close>

lemma same_dir_cleanup:
  assumes ok: "dir_ok (dp_ext D) (objs w) (com w root) root"
    and S: "S = pending (dp_ext D) (objs w) (scatter_inodes_path root)"
    and idx: "index_map (com w root) = dir_lookup (dp_ext D) ia (objs w) (com w root) root"
    and del: "objs w' = objs w |` (- (s_key ` S - s_key ` tombstones S))" and c: "com w' root = com w root"
  shows "same_dir (dp_ext D) ia objs com root w w'"
    "pending (dp_ext D) (objs w') (scatter_inodes_path root) = tombstones S"
proof -
  have fin: "finite S" using dir_okD(4) [OF ok] S by simp
  have inj: "inj_on s_key S" unfolding S by (rule pending_inj)
  have sub: "tombstones S \<subseteq> S" using latest_scatter_Some(1) [OF fin inj] by (auto simp: tombstones_def)
  show P: "pending (dp_ext D) (objs w') (scatter_inodes_path root) = tombstones S"
    unfolding del by (rule pending_tombstones [OF S fin refl])
  have v: "index_map (com w root) = overlay ia (objs w) S (index_map (com w root))"
    using idx by (simp add: dir_lookup_def S)
  have "dir_lookup (dp_ext D) ia (objs w') (com w' root) root =
      overlay ia (objs w') (tombstones S) (overlay ia (objs w) S (index_map (com w root)))"
    unfolding dir_lookup_def P c by (rule arg_cong [OF v])
  then have "dir_lookup (dp_ext D) ia (objs w') (com w' root) root = dir_lookup (dp_ext D) ia (objs w) (com w root) root"
    unfolding overlay_tombstones [OF fin inj] by (simp add: dir_lookup_def S)
  moreover have "folder_ok (dp_ext D) root (objs w')"
    using dir_okD(1) [OF ok] unfolding folder_ok_def del by (auto simp: restrict_map_def split: if_splits)
  then have "dir_ok (dp_ext D) (objs w') (com w' root) root"
    unfolding dir_ok_def P c using dir_okD(2,3) [OF ok] sub fin S finite_subset by auto
  ultimately show "same_dir (dp_ext D) ia objs com root w w'" by (simp add: same_dir_def)
qed

lemma reload_run:
  assumes "reload_to_latest D (h, w) = (r, (h', w'))"
  shows "env w w'" "h_root h' = h_root h" "r = Ok u \<Longrightarrow> tab (h_bmap h') = com w (h_root h)"
proof -
  from assms have run: "io_bind (on_world (hf_load_inode (dp_hf D) (h_root h))) (\<lambda>(raw_inode, od_state).
     io_bind (on_world (hf_bmap_read (dp_hf D) (h_root h) raw_inode)) (\<lambda>bmap (h, w).
       (Ok (), h\<lparr>h_bmap := bmap, h_inode := raw_inode, h_od := od_state\<rparr>, w))) (h, w) = (r, (h', w'))"
    by (simp add: reload_to_latest_def)
  have "env w w' \<and> h_root h' = h_root h \<and> (\<forall>u. r = Ok u \<longrightarrow> tab (h_bmap h') = com w (h_root h))"
  proof (cases rule: io_bind_run [OF run])
    case (1 p s1)
    obtain i d where p: "p = (i, d)" by (cases p)
    from 1(1) obtain w1 where l: "hf_load_inode (dp_hf D) (h_root h) w = (Ok (i, d), w1)" "s1 = (h, w1)"
      unfolding p by (rule on_worldE)
    note e1 = load_env [OF l(1)]
    from 1(2) l(2) have run2: "io_bind (on_world (hf_bmap_read (dp_hf D) (h_root h) i)) (\<lambda>bmap (h, w).
       (Ok (), h\<lparr>h_bmap := bmap, h_inode := i, h_od := d\<rparr>, w)) (h, w1) = (r, (h', w'))" by (simp add: p)
    show ?thesis
    proof (cases rule: io_bind_run [OF run2])
      case (1 b s2)
      from 1(1) obtain w2 where b: "hf_bmap_read (dp_hf D) (h_root h) i w1 = (Ok b, w2)" "s2 = (h, w2)"
        by (rule on_worldE)
      have "tab b = com w (h_root h)" using read_Ok [OF b(1) load_Ok [OF l(1)]] com_env [OF e1] by simp
      moreover have "env w w2" using e1 read_env [OF b(1)] by (rule env_trans)
      ultimately show ?thesis using 1(2) b(2) by auto
    next
      case (2 e)
      from 2(1) obtain w2 where "hf_bmap_read (dp_hf D) (h_root h) i w1 = (Err e, w2)" "(h', w') = (h, w2)"
        by (rule on_worldE)
      with env_trans [OF e1 read_env] 2(2) show ?thesis by auto
    next
      case 3
      from 3(1) obtain w2 where "hf_bmap_read (dp_hf D) (h_root h) i w1 = (Panic, w2)" "(h', w') = (h, w2)"
        by (rule on_worldE)
      with env_trans [OF e1 read_env] 3(2) show ?thesis by auto
    qed
  next
    case (2 e)
    then show ?thesis by (auto elim!: on_worldE intro: load_env)
  next
    case 3
    then show ?thesis by (auto elim!: on_worldE intro: load_env)
  qed
  then show "env w w'" "h_root h' = h_root h" "r = Ok u \<Longrightarrow> tab (h_bmap h') = com w (h_root h)" by auto
qed

lemma changes_fits:
  assumes ok: "dir_ok (dp_ext D) m t root" and ch: "changes_ok ia m (pending (dp_ext D) m (scatter_inodes_path root)) c"
    and mem: "(nm, e) \<in> set (hm_items (dp_hm D) (upserts c))"
  shows "fits_name nm e"
proof -
  let ?S = "pending (dp_ext D) m (scatter_inodes_path root)"
  note chD = changes_okD [OF ch]
  have "map_of (upserts c) nm = Some e"
    using mem chD(3) by (simp add: set_hm_items)
  then obtain s where s: "latest_scatter ?S nm = Some s" "live s" "e = the (scatter_entry ia m s)"
    unfolding chD(8) per_name_def by (auto split: option.splits if_splits)
  with chD(7) [OF s(1,2)] have "overlay ia m ?S Map.empty nm = Some e" by (auto simp: overlay_def live_def)
  from overlay_fits [OF dir_okD(1) [OF ok] dir_okD(3) [OF ok] subset_refl dir_okD(4) [OF ok] _ this]
  show ?thesis by simp
qed

lemma fold_changes:
  assumes ok: "dir_ok (dp_ext D) m (tab b) root"
    and ch: "changes_ok ia m (pending (dp_ext D) m (scatter_inodes_path root)) c"
    and up: "upsert_all (probe_upsert (dp_ext D) (dp_bt D)) (hm_items (dp_hm D) (upserts c)) 0 b = (Ok n, b1)"
    and rm: "remove_all (probe_delete (dp_ext D) (dp_bt D)) (hm_items (dp_hm D) (deletes c)) [] b1 = (Ok rs, b2)"
    and pre: "remove_all (probe_delete (dp_ext D) (dp_bt D)) (hm_items (dp_hm D) (predeletes c)) [] b2 = (Ok ps, b3)"
  shows "dir_inv (dp_ext D) (tab b3)" "index_map (tab b3) = dir_lookup (dp_ext D) ia m (tab b) root"
    "n = length (upserts c)"
    "rs = filter (\<lambda>(nm, _). index_map (tab b) nm \<noteq> None) (hm_items (dp_hm D) (deletes c))"
    "ps = filter (\<lambda>(nm, _). index_map (tab b) nm \<noteq> None) (hm_items (dp_hm D) (predeletes c))"
proof -
  let ?S = "pending (dp_ext D) m (scatter_inodes_path root)"
  note chD = changes_okD [OF ch]
  from idx.upsert_all_view [OF dir_okD(2) [OF ok] changes_fits [OF ok ch] _ up] chD(3)
  have b1: "dir_inv (dp_ext D) (tab b1)" "index_map (tab b1) = index_map (tab b) ++ map_of (upserts c)"
    "n = length (hm_items (dp_hm D) (upserts c))" by (simp_all add: distinct_hm_items map_of_hm_items)
  from idx.remove_all_view [OF b1(1) _ rm] chD(4)
  have b2: "dir_inv (dp_ext D) (tab b2)" "index_map (tab b2) = index_map (tab b1) |` (- set (map fst (deletes c)))"
    "rs = filter (\<lambda>(nm, _). index_map (tab b1) nm \<noteq> None) (hm_items (dp_hm D) (deletes c))"
    by (simp_all only: hm_items_keys distinct_hm set_hm append_Nil)
  from idx.remove_all_view [OF b2(1) _ pre] chD(5)
  have b3: "dir_inv (dp_ext D) (tab b3)" "index_map (tab b3) = index_map (tab b2) |` (- set (map fst (predeletes c)))"
    "ps = filter (\<lambda>(nm, _). index_map (tab b2) nm \<noteq> None) (hm_items (dp_hm D) (predeletes c))"
    by (simp_all only: hm_items_keys distinct_hm set_hm append_Nil)
  show "dir_inv (dp_ext D) (tab b3)" by (rule b3(1))
  show "n = length (upserts c)" using b1(3) by (simp add: hm_items_def)
  have known: "s_op s \<noteq> Unknown" if "latest_scatter ?S nm = Some s" for nm s
    using latest_scatter_Some(1) [OF dir_okD(4) [OF ok] pending_inj that] pending_facts(1) [OF dir_okD(1) [OF ok]] by blast
  show "index_map (tab b3) = dir_lookup (dp_ext D) ia m (tab b) root"
    unfolding b3(2) b2(2) b1(2) dir_lookup_def by (rule changes_overlay [OF ch known])
  have del: "map_of (upserts c) nm = None" "map_of (predeletes c) nm = None" if "(nm, v) \<in> set (hm_items (dp_hm D) (deletes c))" for nm v
  proof -
    from that chD(4) have "map_of (deletes c) nm = Some v" by (simp add: set_hm_items)
    then show "map_of (upserts c) nm = None" "map_of (predeletes c) nm = None"
      unfolding chD(8-10) per_name_def by (auto simp: live_def split: option.splits if_splits)
  qed
  have pdel: "map_of (upserts c) nm = None" "map_of (deletes c) nm = None" if "(nm, v) \<in> set (hm_items (dp_hm D) (predeletes c))" for nm v
  proof -
    from that chD(5) have "map_of (predeletes c) nm = Some v" by (simp add: set_hm_items)
    then show "map_of (upserts c) nm = None" "map_of (deletes c) nm = None"
      unfolding chD(8-10) per_name_def by (auto simp: live_def split: option.splits if_splits)
  qed
  show "rs = filter (\<lambda>(nm, _). index_map (tab b) nm \<noteq> None) (hm_items (dp_hm D) (deletes c))"
    unfolding b2(3) b1(2) using del(1) by (intro filter_cong) (auto simp: map_add_def)
  show "ps = filter (\<lambda>(nm, _). index_map (tab b) nm \<noteq> None) (hm_items (dp_hm D) (predeletes c))"
    unfolding b3(3) b2(2) b1(2) using pdel map_of_eq_None_iff [of "deletes c"]
    by (intro filter_cong) (auto simp: map_add_def restrict_map_def)
qed

lemma card_names:
  assumes "map_of xs = per_name L P g" and "distinct (map fst xs)"
  shows "length xs = card {nm. \<exists>s. L nm = Some s \<and> P s}"
proof -
  have "set (map fst xs) = {nm. \<exists>s. L nm = Some s \<and> P s}"
  proof (intro set_eqI)
    fix nm
    have "nm \<in> set (map fst xs) \<longleftrightarrow> per_name L P g nm \<noteq> None" by (simp only: map_of_dom [symmetric] assms(1))
    then show "nm \<in> set (map fst xs) \<longleftrightarrow> nm \<in> {nm. \<exists>s. L nm = Some s \<and> P s}"
      by (auto simp: per_name_def split: option.splits if_splits)
  qed
  with distinct_card [OF assms(2)] show ?thesis by simp
qed

lemma report_names:
  assumes "map_of xs = per_name L P g" and "distinct (map fst xs)"
    and "ys = filter (\<lambda>(nm, _). v nm \<noteq> None) (hm_items (dp_hm D) xs)"
  shows "distinct (map fst ys)" "set ys = {(nm, g s) | nm s. L nm = Some s \<and> P s \<and> v nm \<noteq> None}"
    "set (map fst ys) = {nm. \<exists>s. L nm = Some s \<and> P s \<and> v nm \<noteq> None}"
    "map snd ys = map (\<lambda>nm. g (the (L nm))) (map fst ys)"
proof -
  have d: "distinct (map fst (hm_items (dp_hm D) xs))" using assms(2) by (simp add: distinct_hm_items)
  then show "distinct (map fst ys)" unfolding assms(3) by (rule distinct_map_filter)
  have mem: "(nm, u) \<in> set ys \<longleftrightarrow> (\<exists>s. L nm = Some s \<and> P s \<and> u = g s) \<and> v nm \<noteq> None" for nm u
  proof -
    have "(nm, u) \<in> set xs \<longleftrightarrow> per_name L P g nm = Some u" using assms(1,2) by (metis map_of_eq_Some_iff)
    then show ?thesis unfolding assms(3) using set_hm_items [OF assms(2)]
      by (auto simp: per_name_def split: option.splits if_splits)
  qed
  show "set ys = {(nm, g s) | nm s. L nm = Some s \<and> P s \<and> v nm \<noteq> None}" using mem by auto
  show "set (map fst ys) = {nm. \<exists>s. L nm = Some s \<and> P s \<and> v nm \<noteq> None}" using mem by force
  show "map snd ys = map (\<lambda>nm. g (the (L nm))) (map fst ys)" using mem by auto
qed

lemma fold_report:
  assumes ch: "changes_ok ia m S c" and fin: "finite S" and inj: "inj_on s_key S"
    and rs: "rs = filter (\<lambda>(nm, _). v nm \<noteq> None) (hm_items (dp_hm D) (deletes c))"
    and ps: "ps = filter (\<lambda>(nm, _). v nm \<noteq> None) (hm_items (dp_hm D) (predeletes c))"
  shows "compact_report m S v
     \<lparr> scatters_processed = length (all_keys c), entries_added = length (upserts c),
       entries_removed = length rs + length ps, tombstones_kept = length (tombstone_keys c), no_op = False,
       removed_children = map snd rs, predeleted = ps \<rparr>"
proof -
  let ?L = "latest_scatter S"
  note chD = changes_okD [OF ch]
  note r = report_names [OF chD(9) chD(4) rs] and p = report_names [OF chD(10) chD(5) ps]
  have sub: "tombstones S \<subseteq> S" using latest_scatter_Some(1) [OF fin inj] by (auto simp: tombstones_def)
  have "length (all_keys c) = card S" using distinct_card [OF chD(1)] chD(2) card_image [OF inj] by simp
  moreover have "set (tombstone_keys c) = s_key ` tombstones S" unfolding chD(11) tombstones_def by auto
  then have "length (tombstone_keys c) = card (tombstones S)"
    using distinct_card [OF chD(6)] card_image [OF inj_on_subset [OF inj sub]] by simp
  moreover have "length (upserts c) = card {nm. \<exists>s. ?L nm = Some s \<and> live s}" by (rule card_names [OF chD(8) chD(3)])
  moreover have "\<exists>ns. distinct ns \<and> set ns = {nm. \<exists>s. ?L nm = Some s \<and> s_op s = Delete \<and> v nm \<noteq> None} \<and>
      map snd rs = map (\<lambda>nm. s_uuid (the (?L nm))) ns \<and> length rs + length ps = length ns + length ps"
    using r by (intro exI [of _ "map fst rs"] conjI) simp_all
  ultimately show ?thesis using p(1,2) by (simp add: compact_report_def Let_def)
qed

text \<open>The part after the fold: flush the index, then delete the folded scatters.\<close>

lemma flush_and_clean:
  assumes ok: "dir_ok (dp_ext D) (objs w) (com w root) root" and root: "root = h_root h"
    and S: "S = pending (dp_ext D) (objs w) (scatter_inodes_path root)"
    and inv: "dir_inv (dp_ext D) (tab (h_bmap h))"
    and idx: "index_map (tab (h_bmap h)) = dir_lookup (dp_ext D) ia (objs w) (com w root) root"
    and keys: "set ks = s_key ` S - s_key ` tombstones S"
    and run: "io_bind (hf_flush (dp_hf D)) (\<lambda>_.
        io_bind (if ks \<noteq> [] then on_world (remove_scatter_inodes (dp_s3 D) ks) else io_return ()) (\<lambda>_.
        io_return st)) (h, w) = (r, (h', w'))"
  shows "h_root h' = root" "compacted (dp_ext D) ia objs com root (r = Err Interrupted) w w'"
    "r = Ok st' \<Longrightarrow> st' = st \<and> tab (h_bmap h') = com w' root \<and> pending (dp_ext D) (objs w') (scatter_inodes_path root) = tombstones S \<and>
      index_map (com w' root) = dir_lookup (dp_ext D) ia (objs w) (com w root) root"
proof -
  let ?P = "\<lambda>w. pending (dp_ext D) (objs w) (scatter_inodes_path root)"
  let ?goal = "h_root h' = root \<and> compacted (dp_ext D) ia objs com root (r = Err Interrupted) w w' \<and>
    (\<forall>st'. r = Ok st' \<longrightarrow> st' = st \<and> tab (h_bmap h') = com w' root \<and> pending (dp_ext D) (objs w') (scatter_inodes_path root) = tombstones S \<and>
      index_map (com w' root) = dir_lookup (dp_ext D) ia (objs w) (com w root) root)"
  have flushed: "h_root h1 = root \<and> same_dir (dp_ext D) ia objs com root w w1 \<and> ?P w1 = ?P w"
    if "hf_flush (dp_hf D) (h, w) = (q, (h1, w1))" for q h1 w1
  proof -
    have "?P w1 = ?P w" by (rule pending_cong) (use flush_any [OF that] scatter_not_owned root in blast)
    then show ?thesis
      using same_dir_flush [OF that ok [unfolded root] inv idx [unfolded root]] flush_any [OF that] root by simp
  qed
  have ?goal
  proof (cases rule: io_bind_run [OF run])
    case (1 n s1)
    obtain h1 w1 where s1: "s1 = (h1, w1)" by (cases s1)
    note fl = 1(1) [unfolded s1]
    have h1: "h_root h1 = root" and same: "same_dir (dp_ext D) ia objs com root w w1" and P1: "?P w1 = ?P w"
      using flushed [OF fl] by simp_all
    have ok1: "dir_ok (dp_ext D) (objs w1) (com w1 root) root" using same by (simp add: same_dir_def)
    have idx1: "index_map (com w1 root) = dir_lookup (dp_ext D) ia (objs w1) (com w1 root) root"
      using flush_Ok [OF fl] same idx root by (simp add: same_dir_def)
    have S1: "S = ?P w1" unfolding S by (rule P1 [symmetric])
    have rem: "(r = Ok st \<and> objs w' = objs w1 |` (- set ks) \<or> r = Err Interrupted \<and> (\<forall>k. objs w' k = objs w1 k \<or> objs w' k = None)) \<and>
        com w' root = com w1 root \<and> h' = h1"
    proof (cases "ks = []")
      case True
      with 1(2) s1 have "r = Ok st" "h' = h1" "w' = w1" by (simp_all add: io_bind_def io_return_def)
      moreover have "objs w1 |` (- set ks) = objs w1" unfolding True by (simp add: restrict_map_def)
      ultimately show ?thesis by simp
    next
      case False
      have own: "\<not> hf_owned root k" if "k \<in> set ks" for k
      proof -
        from that keys obtain s where s: "s \<in> S" "k = s_key s" by blast
        from pending_object [OF s(1) [unfolded S]] s(2) show ?thesis by (intro scatter_not_owned) simp
      qed
      from 1(2) s1 False have run2: "io_bind (on_world (remove_scatter_inodes (dp_s3 D) ks)) (\<lambda>_. io_return st) (h1, w1) =
          (r, (h', w'))" by simp
      obtain q w2 where rm: "remove_scatter_inodes (dp_s3 D) ks w1 = (q, w2)"
        by (cases "remove_scatter_inodes (dp_s3 D) ks w1")
      have q: "h' = h1 \<and> w' = w2 \<and> r = res_bind q (\<lambda>_. Ok st)"
        using run2 rm by (cases q) (simp_all add: io_bind_def io_return_def on_world_def)
      consider "q = Ok ()" | "q = Err Interrupted"
        using remove_chunks_result [OF rm [unfolded remove_scatter_inodes_def]] by blast
      then show ?thesis
      proof cases
        case 1
        with q remove_scatter_sound(2) [OF rm] remove_scatter_com [OF rm own] show ?thesis by simp
      qed (use q remove_scatter_shrinks [OF rm] remove_scatter_com [OF rm own] in simp)
    qed
    then consider "r = Ok st" "objs w' = objs w1 |` (- (s_key ` S - s_key ` tombstones S))" "com w' root = com w1 root"
      | "r = Err Interrupted" "\<And>k. objs w' k = objs w1 k \<or> objs w' k = None" "com w' root = com w1 root" using keys by auto
    then show ?thesis
    proof cases
      case 1
      note cl = same_dir_cleanup [OF ok1 S1 idx1 1(2,3)]
      have "index_map (com w' root) = dir_lookup (dp_ext D) ia (objs w) (com w root) root"
        using 1(3) idx1 same by (simp add: same_dir_def)
      moreover have "tab (h_bmap h') = com w' root" using 1(3) rem flush_Ok [OF fl] root by simp
      moreover have "tombstones S \<subseteq> S"
        using latest_scatter_Some(1) [of S] dir_okD(4) [OF ok1] pending_inj unfolding S1 by (auto simp: tombstones_def)
      then have "compacted (dp_ext D) ia objs com root False w w'"
        using cl P1 S1 by (intro compacted_same [OF same_dir_trans [OF same cl(1)]]) simp
      ultimately show ?thesis using cl 1 rem h1 by simp
    next
      case 2
      from compacted_trans [where objs = objs, OF P1 same compacted_partly [where objs = objs and com = com, OF ok1 2(3,2) idx1]] 2(1) rem h1
      show ?thesis by simp
    qed
  next
    case (2 e)
    note f = flushed [OF 2(1)]
    from compacted_same [where objs = objs and com = com and failed = "r = Err Interrupted", OF conjunct1 [OF conjunct2 [OF f]]] f 2(2)
    show ?thesis by simp
  next
    case 3
    note f = flushed [OF 3(1)]
    from compacted_same [where objs = objs and com = com and failed = "r = Err Interrupted", OF conjunct1 [OF conjunct2 [OF f]]] f 3(2)
    show ?thesis by simp
  qed
  then show "h_root h' = root" "compacted (dp_ext D) ia objs com root (r = Err Interrupted) w w'"
    "r = Ok st' \<Longrightarrow> st' = st \<and> tab (h_bmap h') = com w' root \<and> pending (dp_ext D) (objs w') (scatter_inodes_path root) = tombstones S \<and>
      index_map (com w' root) = dir_lookup (dp_ext D) ia (objs w) (com w root) root" by simp_all
qed

lemma on_bmap_run:
  assumes "io_bind (on_bmap m) f (h, w) = (r, (h', w'))"
  obtains a b' where "m (h_bmap h) = (Ok a, b')" "f a (h\<lparr>h_bmap := b'\<rparr>, w) = (r, (h', w'))"
    | "w' = w" "h_root h' = h_root h" "r = Panic \<or> (\<exists>e. r = Err e)"
proof (cases rule: io_bind_run [OF assms])
  case (1 a s1)
  from 1(1) obtain b' where "m (h_bmap h) = (Ok a, b')" "s1 = (h\<lparr>h_bmap := b'\<rparr>, w)" by (rule on_bmapE)
  with 1(2) that(1) show thesis by simp
next
  case (2 e)
  then show thesis by (intro that(2)) (auto elim!: on_bmapE)
next
  case 3
  then show thesis by (intro that(2)) (auto elim!: on_bmapE)
qed

text \<open>Everything after the changes are collected: the three fold loops, then flush and clean.\<close>

lemma fold_and_flush:
  assumes ok: "dir_ok (dp_ext D) (objs w) (com w root) root" and root: "root = h_root h"
    and S: "S = pending (dp_ext D) (objs w) (scatter_inodes_path root)"
    and tab: "tab (h_bmap h) = com w root" and ch: "changes_ok (dp_ino D) (objs w) S c"
    and run: "io_bind (on_bmap (upsert_all (probe_upsert (dp_ext D) (dp_bt D)) (hm_items (dp_hm D) (upserts c)) 0)) (\<lambda>added.
         io_bind (on_bmap (remove_all (probe_delete (dp_ext D) (dp_bt D)) (hm_items (dp_hm D) (deletes c)) [])) (\<lambda>removed.
         io_bind (on_bmap (remove_all (probe_delete (dp_ext D) (dp_bt D)) (hm_items (dp_hm D) (predeletes c)) [])) (\<lambda>pre.
         io_bind (hf_flush (dp_hf D)) (\<lambda>_.
         io_bind (if ks \<noteq> [] then on_world (remove_scatter_inodes (dp_s3 D) ks) else io_return ()) (\<lambda>_.
         io_return
             \<lparr> scatters_processed = length (all_keys c), entries_added = added,
               entries_removed = length removed + length pre,
               tombstones_kept = length (tombstone_keys c), no_op = False,
               removed_children = map snd removed, predeleted = pre \<rparr>))))) (h, w) = (r, (h', w'))"
    and ks: "ks = filter (\<lambda>k. k \<notin> set (tombstone_keys c)) (all_keys c)"
  shows "h_root h' = root \<and> compacted (dp_ext D) (dp_ino D) objs com root (r = Err Interrupted) w w' \<and>
    (\<forall>st. r = Ok st \<longrightarrow> tab (h_bmap h') = com w' root \<and>
      pending (dp_ext D) (objs w') (scatter_inodes_path root) = tombstones S \<and>
      index_map (com w' root) = dir_lookup (dp_ext D) (dp_ino D) (objs w) (com w root) root \<and>
      compact_report (objs w) S (index_map (com w root)) st)"
    (is ?goal)
proof (cases rule: on_bmap_run [OF run])
  case (1 n b1)
  note run2 = 1(2) and up = 1(1)
  show ?thesis
  proof (cases rule: on_bmap_run [OF run2])
    case (1 rs b2)
    note run3 = 1(2) and rm = 1(1) [simplified]
    show ?thesis
    proof (cases rule: on_bmap_run [OF run3])
      case (1 ps b3)
      note fold = fold_changes [OF ok [folded tab] ch [unfolded S] up rm 1(1) [simplified], folded S, unfolded tab]
      have keys: "set ks = s_key ` S - s_key ` tombstones S"
        using changes_okD(2,11) [OF ch] by (auto simp: ks tombstones_def)
      have fin: "finite S" and inj: "inj_on s_key S" using dir_okD(4) [OF ok] S pending_inj by simp_all
      note fc = flush_and_clean [OF ok _ S _ _ keys 1(2) [simplified], of "dp_ino D"]
      have fc': "h_root h' = root" "compacted (dp_ext D) (dp_ino D) objs com root (r = Err Interrupted) w w'"
        using fc(1,2) fold(1,2) root by simp_all
      have "st = \<lparr> scatters_processed = length (all_keys c), entries_added = length (upserts c),
           entries_removed = length rs + length ps, tombstones_kept = length (tombstone_keys c), no_op = False,
           removed_children = map snd rs, predeleted = ps \<rparr> \<and> tab (h_bmap h') = com w' root \<and>
          pending (dp_ext D) (objs w') (scatter_inodes_path root) = tombstones S \<and>
          index_map (com w' root) = dir_lookup (dp_ext D) (dp_ino D) (objs w) (com w root) root" if "r = Ok st" for st
        using fc(3) [OF _ _ _ that] fold(1-3) root by simp
      with fold_report [OF ch fin inj fold(4,5)] fc' show ?thesis by blast
    qed (use root compacted_env [OF env_refl ok] in auto)
  qed (use root compacted_env [OF env_refl ok] in auto)
qed (use root compacted_env [OF env_refl ok] in auto)

lemma collect_stage:
  assumes "h_root h = root"
  shows "io_bind (\<lambda>(h, w). on_world (collect_scatter_changes D (h_root h)) (h, w)) F (h, w) =
    io_bind (on_world (collect_scatter_changes D root)) F (h, w)"
  by (simp add: io_bind_def assms)

lemma compact_inner_run:
  assumes ok: "dir_ok (dp_ext D) (objs w) (com w root) root" and root: "root = h_root h"
    and S: "S = pending (dp_ext D) (objs w) (scatter_inodes_path root)"
    and pages: "\<And>u. pages_ok (fst (list_objects (dp_s3 D) (scatter_inodes_path root) u))"
    and run: "compact_inner D (h, w) = (r, (h', w'))"
  shows "h_root h' = root \<and> compacted (dp_ext D) (dp_ino D) objs com root (r = Err Interrupted) w w' \<and>
    (\<forall>st. r = Ok st \<longrightarrow> tab (h_bmap h') = com w' root \<and>
      pending (dp_ext D) (objs w') (scatter_inodes_path root) = tombstones S \<and>
      index_map (com w' root) = dir_lookup (dp_ext D) (dp_ino D) (objs w) (com w root) root \<and>
      (if S = {} then st = stats_no_op else compact_report (objs w) S (index_map (com w root)) st))"
proof (cases rule: io_bind_run [OF run [unfolded compact_inner_def]])
  case (1 u s1)
  obtain h1 w1 where s1: "s1 = (h1, w1)" by (cases s1)
  note rel = reload_run [OF 1(1) [unfolded s1]]
  have h1: "root = h_root h1" and e1: "env w w1" and t1: "tab (h_bmap h1) = com w root" using rel root by simp_all
  have reads: "compacted (dp_ext D) (dp_ino D) objs com root failed w w2" if "collect_scatter_changes D root w1 = (q, w2)" for q w2 failed
    using compacted_env [OF env_trans [OF e1 readsD [OF reads_collect_changes that]] ok] .
  show ?thesis
  proof (cases rule: io_bind_run [OF 1(2) [unfolded s1 collect_stage [OF h1 [symmetric]]]])
    case (1 c s2)
    from 1(1) obtain w2 where c: "collect_scatter_changes D root w1 = (Ok c, w2)" and s2: "s2 = (h1, w2)"
      by (rule on_worldE)
    have e2: "env w w2" by (rule env_trans [OF e1 readsD [OF reads_collect_changes c]])
    note o2 = env_quiet [OF e2] and c2 = com_env [OF e2, THEN conjunct1]
    have ch: "changes_ok (dp_ino D) (objs w) S c"
      using collect_changes_sound [OF _ pages c] dir_okD(1) [OF ok] env_quiet [OF e1] S by simp
    show ?thesis
    proof (cases "all_keys c = []")
      case True
      with 1(2) s2 have "r = Ok stats_no_op" "h' = h1" "w' = w2" by (simp_all add: io_return_def)
      moreover have "S = {}" using changes_okD(2) [OF ch] True by simp
      moreover have "tombstones {} = {}" by (simp add: tombstones_def latest_scatter_def)
      moreover have "dir_lookup (dp_ext D) (dp_ino D) (objs w) (com w root) root = index_map (com w root)"
        using \<open>S = {}\<close> S by (simp add: dir_lookup_def overlay_def latest_scatter_def fun_eq_iff)
      ultimately show ?thesis using reads [OF c] h1 S t1 by (simp add: o2 c2)
    next
      case False
      then have "S \<noteq> {}" using changes_okD(2) [OF ch] by auto
      with fold_and_flush [of w2 root h1 S c, unfolded o2 c2, OF ok h1 S t1 ch
          1(2) [unfolded s2 if_not_P [OF False] Let_def] refl]
        compacted_trans [where objs = objs and w = w and ?w1.0 = w2, OF _ same_dir_env [OF e2 ok]]
      show ?thesis by (simp add: o2)
    qed
  qed (use reads h1 in \<open>auto elim!: on_worldE\<close>)
next
  case (2 e)
  from reload_run(1,2) [OF 2(1)] compacted_env [OF _ ok] root 2(2) show ?thesis by simp
next
  case 3
  from reload_run(1,2) [OF 3(1)] compacted_env [OF _ ok] root 3(2) show ?thesis by simp
qed

lemma lease_step:
  assumes "only_at objs com root {compact_lease_path root} w w'"
  shows "prefix (scatter_inodes_path root) k \<Longrightarrow> objs w' k = objs w k" "com w' root = com w root"
    "pending x (objs w') (scatter_inodes_path root) = pending x (objs w) (scatter_inodes_path root)"
    "dir_ok x (objs w) (com w root) root \<Longrightarrow> same_dir x ia objs com root w w'"
proof -
  show o: "objs w' k = objs w k" if "prefix (scatter_inodes_path root) k" for k
    using assms that lease_not_scatter [of root] unfolding only_at_def by (metis singletonD)
  show "com w' root = com w root" using assms by (simp add: only_at_def)
  show "pending x (objs w') (scatter_inodes_path root) = pending x (objs w) (scatter_inodes_path root)"
    by (rule pending_cong) (rule o)
  show "dir_ok x (objs w) (com w root) root \<Longrightarrow> same_dir x ia objs com root w w'"
    by (rule same_dir_only_at [OF assms]) (use lease_not_scatter in auto)
qed

lemma compact_run:
  assumes ok: "dir_ok (dp_ext D) (objs w) (com w root) root" and root: "root = h_root h"
    and S: "S = pending (dp_ext D) (objs w) (scatter_inodes_path root)"
    and pages: "\<And>u. pages_ok (fst (list_objects (dp_s3 D) (scatter_inodes_path root) u))"
    and run: "compact D (h, w) = (r, (h', w'))"
  shows "h_root h' = root" "r \<noteq> Err Interrupted \<Longrightarrow> same_dir (dp_ext D) (dp_ino D) objs com root w w'"
    "r = Ok st \<Longrightarrow> tab (h_bmap h') = com w' root \<and> pending (dp_ext D) (objs w') (scatter_inodes_path root) = tombstones S \<and>
      index_map (com w' root) = dir_lookup (dp_ext D) (dp_ino D) (objs w) (com w root) root \<and>
      (if S = {} then st = stats_no_op else compact_report (objs w) S (index_map (com w root)) st)"
    "compacted (dp_ext D) (dp_ino D) objs com root (r = Err Interrupted) w w'"
proof -
  obtain q w1 where acq: "acquire_compact_lease (dp_ext D) (dp_s3 D) root DEFAULT_COMPACT_LEASE_TTL_MS w = (q, w1)"
    by (cases "acquire_compact_lease (dp_ext D) (dp_s3 D) root DEFAULT_COMPACT_LEASE_TTL_MS w")
  note l1 = lease_step [OF acquire_only(1) [OF acq]]
  note same1 = l1(4) [OF ok, where ia = "dp_ino D"]
  have goal: "h_root h' = root \<and> compacted (dp_ext D) (dp_ino D) objs com root (r = Err Interrupted) w w' \<and>
    (\<forall>st. r = Ok st \<longrightarrow> tab (h_bmap h') = com w' root \<and> pending (dp_ext D) (objs w') (scatter_inodes_path root) = tombstones S \<and>
      index_map (com w' root) = dir_lookup (dp_ext D) (dp_ino D) (objs w) (com w root) root \<and>
      (if S = {} then st = stats_no_op else compact_report (objs w) S (index_map (com w root)) st))"
  proof (cases "\<exists>g. q = Ok g")
    case False
    with run acq root have "h' = h \<and> w' = w1 \<and> (\<forall>st. r \<noteq> Ok st)"
      by (cases q) (auto simp: compact_def io_bind_def on_world_def)
    with compacted_same [where objs = objs, OF same1] l1(3) root show ?thesis by simp
  next
    case True
    then obtain g where g: "q = Ok g" by blast
    obtain r1 h2 w2 where inner: "compact_inner D (h, w1) = (r1, (h2, w2))" by (metis prod.exhaust)
    have ok1: "dir_ok (dp_ext D) (objs w1) (com w1 root) root" using same1 by (simp add: same_dir_def)
    note ci = compact_inner_run [OF ok1 root S [folded l1(3) [where x = "dp_ext D"]] pages inner]
    obtain rr w3 where rel: "release_compact_lease (dp_s3 D) g w2 = (rr, w3)" by (cases "release_compact_lease (dp_s3 D) g w2")
    note l2 = lease_step [OF release_only [OF rel acquire_only(2) [OF acq g]]]
    have fin: "finite S" and inj: "inj_on s_key S" using dir_okD(4) [OF ok] S pending_inj by simp_all
    have rep: "compact_report (objs w1) S (index_map (com w root)) st = compact_report (objs w) S (index_map (com w root)) st" for st
      by (rule compact_report_cong [OF fin inj]) (use S pending_object l1(1) in blast)
    have w': "r = r1 \<and> h' = h2 \<and> (if r1 = Panic then w' = w2 else w' = w3)"
      using run acq root g inner rel by (auto simp: compact_def io_bind_def on_world_def split: if_splits)
    have ok2: "dir_ok (dp_ext D) (objs w2) (com w2 root) root" using ci by (simp add: compacted_def Let_def)
    have same3: "same_dir (dp_ext D) (dp_ino D) objs com root w2 w'"
      using w' l2(4) [OF ok2] ok2 by (auto simp: same_dir_def split: if_splits)
    have P3: "pending (dp_ext D) (objs w') (scatter_inodes_path root) = pending (dp_ext D) (objs w2) (scatter_inodes_path root)"
      using w' l2(3) by (auto split: if_splits)
    have lk: "dir_lookup (dp_ext D) (dp_ino D) (objs w1) (com w1 root) root =
        dir_lookup (dp_ext D) (dp_ino D) (objs w) (com w root) root" using same1 by (simp add: same_dir_def)
    have post: "tab (h_bmap h') = com w' root \<and> pending (dp_ext D) (objs w') (scatter_inodes_path root) = tombstones S \<and>
      index_map (com w' root) = dir_lookup (dp_ext D) (dp_ino D) (objs w) (com w root) root \<and>
      (if S = {} then st = stats_no_op else compact_report (objs w) S (index_map (com w root)) st)" if "r = Ok st" for st
    proof -
      from ci [THEN conjunct2, THEN conjunct2, rule_format, of st] w' that
      have "tab (h_bmap h2) = com w2 root" "pending (dp_ext D) (objs w2) (scatter_inodes_path root) = tombstones S"
        "index_map (com w2 root) = dir_lookup (dp_ext D) (dp_ino D) (objs w1) (com w1 root) root"
        "if S = {} then st = stats_no_op else compact_report (objs w1) S (index_map (com w1 root)) st" by simp_all
      moreover have "w' = w3" "h' = h2" using w' that by auto
      ultimately show ?thesis using l2(2,3) l1(2) lk by (cases "S = {}") (simp_all add: rep)
    qed
    have "compacted (dp_ext D) (dp_ino D) objs com root (r1 = Err Interrupted) w w2"
      using compacted_trans [where objs = objs, OF l1(3) same1] ci by blast
    from compacted_then [where objs = objs, OF this same3 P3] w'
    have "compacted (dp_ext D) (dp_ino D) objs com root (r = Err Interrupted) w w'" by simp
    with post ci w' show ?thesis by simp
  qed
  show "h_root h' = root" "r \<noteq> Err Interrupted \<Longrightarrow> same_dir (dp_ext D) (dp_ino D) objs com root w w'"
    "r = Ok st \<Longrightarrow> tab (h_bmap h') = com w' root \<and> pending (dp_ext D) (objs w') (scatter_inodes_path root) = tombstones S \<and>
      index_map (com w' root) = dir_lookup (dp_ext D) (dp_ino D) (objs w) (com w root) root \<and>
      (if S = {} then st = stats_no_op else compact_report (objs w) S (index_map (com w root)) st)"
    "compacted (dp_ext D) (dp_ino D) objs com root (r = Err Interrupted) w w'"
    using goal by (simp_all add: compacted_def same_dir_def Let_def fun_eq_iff)
qed

end

end
