(* ===== verification/Dir_Updates.thy ===== *)
theory Dir_Updates
  imports Compaction
begin

text \<open>
  The operations of \<open>src/file.rs\<close> that change single entries of the committed index: \<open>insert_entry\<close>,
  \<open>insert_entry_excl\<close>, \<open>remove_entry\<close> and \<open>rename_within\<close>. Each updates the index at the names it is
  given and leaves the scatter objects alone, so a name with an outstanding scatter keeps showing it.
\<close>

text \<open>The directory's committed index became \<open>v\<close>; its scatter objects are what they were.\<close>

definition index_becomes ::
  "ext \<Rightarrow> ('w \<Rightarrow> string \<Rightarrow> s3_object option) \<Rightarrow> ('w \<Rightarrow> string \<Rightarrow> 'i table) \<Rightarrow> string \<Rightarrow>
     (string \<Rightarrow> 'i dir_file_entry_raw option) \<Rightarrow> 'w \<Rightarrow> 'w \<Rightarrow> bool" where
  "index_becomes x objs com root v w w' =
     (dir_ok x (objs w') (com w' root) root \<and> index_map (com w' root) = v \<and>
      (\<forall>k. prefix (scatter_inodes_path root) k \<longrightarrow> objs w' k = objs w k))"

text \<open>What the change does to the directory's contents.\<close>

lemma index_becomes_lookup:
  assumes "index_becomes x objs com root v w w'" and "dir_ok x (objs w) (com w root) root"
  shows "dir_lookup x ia (objs w') (com w' root) root =
    overlay ia (objs w) (pending x (objs w) (scatter_inodes_path root)) v"
proof -
  from assms(1) have o: "\<And>k. prefix (scatter_inodes_path root) k \<Longrightarrow> objs w' k = objs w k"
    and v: "index_map (com w' root) = v" by (simp_all add: index_becomes_def)
  have "dir_lookup x ia (objs w') (com w' root) root = dir_lookup x ia (objs w) (com w' root) root"
    by (rule dir_lookup_cong [OF dir_okD(4) [OF assms(2)]]) (rule o)
  then show ?thesis by (simp add: dir_lookup_def v)
qed

text \<open>Name by name: a name with an outstanding scatter keeps showing what it showed, every other name shows
  the new index.\<close>

lemma index_becomes_at:
  assumes "index_becomes x objs com root v w w'" and "dir_ok x (objs w) (com w root) root"
  shows "dir_lookup x ia (objs w') (com w' root) root nm =
    (if latest_scatter (pending x (objs w) (scatter_inodes_path root)) nm = None then v nm
     else dir_lookup x ia (objs w) (com w root) root nm)"
  unfolding index_becomes_lookup [OF assms] by (auto simp: dir_lookup_def overlay_def split: option.splits)

lemma overlay_update:
  "latest_scatter S nm = None \<Longrightarrow> overlay ia m S (v(nm := e)) = (overlay ia m S v)(nm := e)"
  by (rule ext) (simp add: overlay_def split: option.splits)

lemma overlay_masked:
  "latest_scatter S nm = Some s \<Longrightarrow> overlay ia m S (v(nm := e)) = overlay ia m S v"
  by (rule ext) (simp add: overlay_def split: option.splits)

context directory
begin

lemma flush_becomes:
  assumes "hf_flush (dp_hf D) (h, w) = (Ok n, (h', w'))" and "dir_ok (dp_ext D) (objs w) (com w root) root"
    and "root = h_root h" and "dir_inv (dp_ext D) (tab (h_bmap h))"
  shows "index_becomes (dp_ext D) objs com root (index_map (tab (h_bmap h))) w w'"
proof -
  have o: "objs w' k = objs w k" if "prefix (scatter_inodes_path root) k" for k
    using flush_any [OF assms(1)] scatter_not_owned [OF that] assms(3) by blast
  have c: "com w' root = tab (h_bmap h)" using flush_Ok [OF assms(1)] assms(3) by simp
  show ?thesis unfolding index_becomes_def c
    using dir_ok_cong [OF o assms(4,2)] o by blast
qed

lemma index_becomes_env:
  assumes "env w w1" and "index_becomes (dp_ext D) objs com root v w1 w'"
  shows "index_becomes (dp_ext D) objs com root v w w'"
  using assms(2) env_quiet [OF assms(1)] by (simp add: index_becomes_def)

lemma dir_ok_env: "env w w1 \<Longrightarrow> dir_ok (dp_ext D) (objs w) (com w root) root \<Longrightarrow> dir_ok (dp_ext D) (objs w1) (com w1 root) root"
  using env_quiet [of w w1] com_env [of w w1] by simp

text \<open>Every operation is: reload, change the index, flush.\<close>

lemma update_run:
  assumes ok: "dir_ok (dp_ext D) (objs w) (com w root) root" and root: "root = h_root h"
    and step: "\<And>b a b'. dir_inv (dp_ext D) (tab b) \<Longrightarrow> m b = (Ok a, b') \<Longrightarrow>
      dir_inv (dp_ext D) (tab b') \<and> index_map (tab b') = f (index_map (tab b)) \<and> P a (index_map (tab b))"
    and run: "io_bind (reload_to_latest D) (\<lambda>_. io_bind (on_bmap m) (\<lambda>a.
      io_bind (hf_flush (dp_hf D)) (\<lambda>_. io_return (g a)))) (h, w) = (Ok r, (h', w'))"
  shows "index_becomes (dp_ext D) objs com root (f (index_map (com w root))) w w' \<and>
    (\<exists>a. r = g a \<and> P a (index_map (com w root)))"
proof -
  from run obtain u s1 where rel: "reload_to_latest D (h, w) = (Ok u, s1)" and
    rest: "io_bind (on_bmap m) (\<lambda>a. io_bind (hf_flush (dp_hf D)) (\<lambda>_. io_return (g a))) s1 = (Ok r, (h', w'))"
    by (rule io_bind_OkE)
  obtain h1 w1 where s1: "s1 = (h1, w1)" by (cases s1)
  note rl = reload_run [OF rel [unfolded s1]]
  from rest obtain a s2 where bm: "on_bmap m (h1, w1) = (Ok a, s2)" and
    rest2: "io_bind (hf_flush (dp_hf D)) (\<lambda>_. io_return (g a)) s2 = (Ok r, (h', w'))"
    unfolding s1 by (rule io_bind_OkE)
  from bm obtain b' where b': "m (h_bmap h1) = (Ok a, b')" "s2 = (h1\<lparr>h_bmap := b'\<rparr>, w1)" by (rule on_bmapE)
  from rest2 obtain n where fl: "hf_flush (dp_hf D) (h1\<lparr>h_bmap := b'\<rparr>, w1) = (Ok n, (h', w'))" and r: "r = g a"
    unfolding b'(2) by (auto elim!: io_bind_OkE simp: io_return_def)
  have t1: "tab (h_bmap h1) = com w root" using rl(3) root by simp
  have st: "dir_inv (dp_ext D) (tab b')" "index_map (tab b') = f (index_map (com w root))" "P a (index_map (com w root))"
    using step [OF _ b'(1)] t1 dir_okD(2) [OF ok] by simp_all
  have "index_becomes (dp_ext D) objs com root (index_map (tab b')) w1 w'"
    using flush_becomes [OF fl dir_ok_env [OF rl(1) ok]] rl(2) root st(1) by simp
  from index_becomes_env [OF rl(1) this] st(2,3) r show ?thesis by auto
qed

lemma insert_entry_run:
  assumes "dir_ok (dp_ext D) (objs w) (com w root) root" and "root = h_root h" and "fits_name nm e"
    and "insert_entry D nm e (h, w) = (Ok u, (h', w'))"
  shows "index_becomes (dp_ext D) objs com root ((index_map (com w root))(nm \<mapsto> e)) w w'"
proof -
  have step: "dir_inv (dp_ext D) (tab b') \<and> index_map (tab b') = (index_map (tab b))(nm \<mapsto> e) \<and> True"
    if "dir_inv (dp_ext D) (tab b)" "probe_upsert (dp_ext D) (dp_bt D) nm e b = (Ok a, b')" for b a b'
    using idx.upsert_view [OF that(1) assms(3) that(2)] by simp
  from update_run [where f = "\<lambda>v. v(nm \<mapsto> e)" and P = "\<lambda>_ _. True",
      OF assms(1,2) step assms(4) [unfolded insert_entry_def]] show ?thesis by simp
qed

lemma remove_entry_run:
  assumes "dir_ok (dp_ext D) (objs w) (com w root) root" and "root = h_root h"
    and "remove_entry D nm (h, w) = (Ok hit, (h', w'))"
  shows "index_becomes (dp_ext D) objs com root ((index_map (com w root))(nm := None)) w w'"
    "hit \<longleftrightarrow> index_map (com w root) nm \<noteq> None"
proof -
  have "index_becomes (dp_ext D) objs com root ((\<lambda>v. v(nm := None)) (index_map (com w root))) w w' \<and>
      (\<exists>a. hit = a \<and> (a \<longleftrightarrow> index_map (com w root) nm \<noteq> None))"
    by (rule update_run [OF assms(1,2) _ assms(3) [unfolded remove_entry_def], where P = "\<lambda>a v. a \<longleftrightarrow> v nm \<noteq> None"])
      (use idx.remove_view in blast)
  then show "index_becomes (dp_ext D) objs com root ((index_map (com w root))(nm := None)) w w'"
    "hit \<longleftrightarrow> index_map (com w root) nm \<noteq> None" by simp_all
qed

lemma insert_entry_excl_run:
  assumes ok: "dir_ok (dp_ext D) (objs w) (com w root) root" and root: "root = h_root h" and fit: "fits_name nm e"
    and run: "insert_entry_excl D nm e (h, w) = (Ok new, (h', w'))"
  shows "new \<longleftrightarrow> index_map (com w root) nm = None"
    "new \<Longrightarrow> index_becomes (dp_ext D) objs com root ((index_map (com w root))(nm \<mapsto> e)) w w'"
    "\<not> new \<Longrightarrow> env w w'"
proof -
  from run [unfolded insert_entry_excl_def] obtain u s1 where rel: "reload_to_latest D (h, w) = (Ok u, s1)" and
    rest: "io_bind (\<lambda>(h, w). (probe_lookup_in (dp_bt D) (h_bmap h) nm (hash_filename (dp_ext D) nm), (h, w))) (\<lambda>r.
       if r \<noteq> None then io_return False
       else io_bind (on_bmap (probe_upsert (dp_ext D) (dp_bt D) nm e)) (\<lambda>_.
         io_bind (hf_flush (dp_hf D)) (\<lambda>_. io_return True))) s1 = (Ok new, (h', w'))"
    by (rule io_bind_OkE)
  obtain h1 w1 where s1: "s1 = (h1, w1)" by (cases s1)
  note rl = reload_run [OF rel [unfolded s1]]
  have t1: "tab (h_bmap h1) = com w root" using rl(3) root by simp
  from rest obtain r where q: "probe_lookup_in (dp_bt D) (h_bmap h1) nm (hash_filename (dp_ext D) nm) = Ok r"
    and cont: "(if r \<noteq> None then io_return False
       else io_bind (on_bmap (probe_upsert (dp_ext D) (dp_bt D) nm e)) (\<lambda>_.
         io_bind (hf_flush (dp_hf D)) (\<lambda>_. io_return True))) (h1, w1) = (Ok new, (h', w'))"
    unfolding s1 by (auto elim!: io_bind_OkE)
  have look: "r = None \<longleftrightarrow> index_map (com w root) nm = None"
    using probe_lookup_sound(1) [OF _ q] t1 dir_inv_probe [OF dir_okD(2) [OF ok]] by (metis option.map_disc_iff)
  have main: "(new \<longleftrightarrow> r = None) \<and> (if new then
      index_becomes (dp_ext D) objs com root ((index_map (com w root))(nm \<mapsto> e)) w w' else env w w')"
  proof (cases "r = None")
    case False
    with cont rl(1) show ?thesis by (simp add: io_return_def)
  next
    case True
    with cont obtain b' n where b': "probe_upsert (dp_ext D) (dp_bt D) nm e (h_bmap h1) = (Ok (), b')"
      and fl: "hf_flush (dp_hf D) (h1\<lparr>h_bmap := b'\<rparr>, w1) = (Ok n, (h', w'))" and new
      by (auto elim!: io_bind_OkE on_bmapE simp: io_return_def)
    have st: "dir_inv (dp_ext D) (tab b')" "index_map (tab b') = (index_map (com w root))(nm \<mapsto> e)"
      using idx.upsert_view [OF _ fit b'] t1 dir_okD(2) [OF ok] by simp_all
    have "index_becomes (dp_ext D) objs com root (index_map (tab b')) w1 w'"
      using flush_becomes [OF fl dir_ok_env [OF rl(1) ok]] rl(2) root st(1) by simp
    from index_becomes_env [OF rl(1) this] st(2) True \<open>new\<close> show ?thesis by simp
  qed
  with look show "new \<longleftrightarrow> index_map (com w root) nm = None"
    "new \<Longrightarrow> index_becomes (dp_ext D) objs com root ((index_map (com w root))(nm \<mapsto> e)) w w'" "\<not> new \<Longrightarrow> env w w'"
    by auto
qed

text \<open>\<open>rename_within\<close> does not reload: it works on the index of the handle and commits that.\<close>

lemma rename_within_run:
  assumes ok: "dir_ok (dp_ext D) (objs w) (com w root) root" and root: "root = h_root h"
    and inv: "dir_inv (dp_ext D) (tab (h_bmap h))" and new: "storable nw" "utf8_valid nw" and ne: "old \<noteq> nw"
    and run: "rename_within D old nw (h, w) = (Ok u, (h', w'))"
  shows "\<exists>e. index_map (tab (h_bmap h)) old = Some e \<and>
    index_becomes (dp_ext D) objs com root
      ((index_map (tab (h_bmap h)))(old := None, nw \<mapsto> entry_from (e_inode e) (e_uuid e) nw)) w w'"
proof -
  from run ne obtain q where q: "probe_lookup_in (dp_bt D) (h_bmap h) old (hash_filename (dp_ext D) old) = Ok q"
    and cont: "(case q of None \<Rightarrow> io_fail NotFound
       | Some (_, entry) \<Rightarrow> io_bind (on_bmap (probe_delete (dp_ext D) (dp_bt D) old)) (\<lambda>_.
           io_bind (on_bmap (probe_upsert (dp_ext D) (dp_bt D) nw (entry_from (e_inode entry) (e_uuid entry) nw))) (\<lambda>_.
           io_bind (hf_flush (dp_hf D)) (\<lambda>_. io_return ())))) (h, w) = (Ok u, (h', w'))"
    by (auto simp: rename_within_def elim!: io_bind_OkE)
  then obtain slot e where qe: "q = Some (slot, e)" by (cases q) (auto simp: io_fail_def)
  have old: "index_map (tab (h_bmap h)) old = Some e"
    using probe_lookup_sound(1) [OF dir_inv_probe [OF inv] q] qe by simp
  let ?e = "entry_from (e_inode e) (e_uuid e) nw"
  from cont qe obtain hit b1 b2 n where
    b1: "probe_delete (dp_ext D) (dp_bt D) old (h_bmap h) = (Ok hit, b1)"
    and b2: "probe_upsert (dp_ext D) (dp_bt D) nw ?e b1 = (Ok (), b2)"
    and fl: "hf_flush (dp_hf D) (h\<lparr>h_bmap := b2\<rparr>, w) = (Ok n, (h', w'))"
    by (auto elim!: io_bind_OkE on_bmapE simp: io_return_def)
  have i1: "dir_inv (dp_ext D) (tab b1)" "index_map (tab b1) = (index_map (tab (h_bmap h)))(old := None)"
    using idx.remove_view [OF inv b1] by simp_all
  have "dir_inv (dp_ext D) (tab b2)" "index_map (tab b2) = (index_map (tab (h_bmap h)))(old := None, nw \<mapsto> ?e)"
    using idx.upsert_view [OF i1(1) fits_name_entry [OF new] b2] i1(2) by simp_all
  with flush_becomes [OF fl ok] root old show ?thesis by auto
qed

end

end
