(* ===== verification/Intents.thy ===== *)
theory Intents
  imports Scatter Layout
begin

text \<open>
  The small pure parts of \<open>src/fs.rs\<close>: the durable intents of a rename (what is moved) and of a
  reclaim (what a rename displaced) with their text form, the extended-attribute keys, the test of a
  mode word, and the age of a reclaim intent.
\<close>

section \<open>Base64 engines\<close>

definition std_alphabet :: string where
  "std_alphabet = ''ABCDEFGHIJKLMNOPQRSTUVWXYZabcdefghijklmnopqrstuvwxyz0123456789+/''"

definition url_alphabet :: string where
  "url_alphabet = ''ABCDEFGHIJKLMNOPQRSTUVWXYZabcdefghijklmnopqrstuvwxyz0123456789-_''"

definition B64 :: b64_engine where
  "B64 = \<lparr> eng_alphabet = std_alphabet, eng_encode_padding = True, eng_decode_mode = RequireCanonical \<rparr>"

definition B64URL :: b64_engine where
  "B64URL = \<lparr> eng_alphabet = url_alphabet, eng_encode_padding = False, eng_decode_mode = RequireNone \<rparr>"

section \<open>Rename intents\<close>

record rename_intent =
  ri_src_parent :: uuid
  ri_src_name :: string
  ri_dst_parent :: uuid
  ri_dst_name :: string
  ri_child :: uuid
  ri_inode :: bytes

definition rename_serialize :: "ext \<Rightarrow> rename_intent \<Rightarrow> string" where
  "rename_serialize x i =
     ''src_parent='' @ uuid_fmt x (ri_src_parent i) @ [CHR 0x0A] @
     ''src_name='' @ b64_encode x B64 (ri_src_name i) @ [CHR 0x0A] @
     ''dst_parent='' @ uuid_fmt x (ri_dst_parent i) @ [CHR 0x0A] @
     ''dst_name='' @ b64_encode x B64 (ri_dst_name i) @ [CHR 0x0A] @
     ''child='' @ uuid_fmt x (ri_child i) @ [CHR 0x0A] @
     ''inode='' @ b64_encode x B64 (ri_inode i) @ [CHR 0x0A]"

definition intent_b64s :: "ext \<Rightarrow> string \<Rightarrow> string result" where
  "intent_b64s x v =
     (case b64_decode x B64 v of
        None \<Rightarrow> Err InvalidData
      | Some bs \<Rightarrow> (case from_utf8 bs of None \<Rightarrow> Err InvalidData | Some s \<Rightarrow> Ok s))"

definition intent_uuid :: "ext \<Rightarrow> string \<Rightarrow> uuid result" where
  "intent_uuid x v = (case uuid_parse x v of None \<Rightarrow> Err InvalidData | Some u \<Rightarrow> Ok u)"

text \<open>The fields found so far.\<close>

record rename_fields =
  rf_src_parent :: "uuid option"
  rf_src_name :: "string option"
  rf_dst_parent :: "uuid option"
  rf_dst_name :: "string option"
  rf_child :: "uuid option"
  rf_inode :: "bytes option"

definition rename_line :: "ext \<Rightarrow> string \<Rightarrow> rename_fields \<Rightarrow> rename_fields result" where
  "rename_line x line f =
     (case strip_prefix ''src_parent='' line of
        Some v \<Rightarrow> res_bind (intent_uuid x v) (\<lambda>u. Ok (f\<lparr>rf_src_parent := Some u\<rparr>))
      | None \<Rightarrow>
     (case strip_prefix ''src_name='' line of
        Some v \<Rightarrow> res_bind (intent_b64s x v) (\<lambda>s. Ok (f\<lparr>rf_src_name := Some s\<rparr>))
      | None \<Rightarrow>
     (case strip_prefix ''dst_parent='' line of
        Some v \<Rightarrow> res_bind (intent_uuid x v) (\<lambda>u. Ok (f\<lparr>rf_dst_parent := Some u\<rparr>))
      | None \<Rightarrow>
     (case strip_prefix ''dst_name='' line of
        Some v \<Rightarrow> res_bind (intent_b64s x v) (\<lambda>s. Ok (f\<lparr>rf_dst_name := Some s\<rparr>))
      | None \<Rightarrow>
     (case strip_prefix ''child='' line of
        Some v \<Rightarrow> res_bind (intent_uuid x v) (\<lambda>u. Ok (f\<lparr>rf_child := Some u\<rparr>))
      | None \<Rightarrow>
     (case strip_prefix ''inode='' line of
        Some v \<Rightarrow> (case b64_decode x B64 v of
                     None \<Rightarrow> Err InvalidData | Some b \<Rightarrow> Ok (f\<lparr>rf_inode := Some b\<rparr>))
      | None \<Rightarrow> Ok f))))))"

fun rename_lines :: "ext \<Rightarrow> string list \<Rightarrow> rename_fields \<Rightarrow> rename_fields result" where
  "rename_lines x [] f = Ok f"
| "rename_lines x (line # ls) f = res_bind (rename_line x line f) (rename_lines x ls)"

definition rename_parse :: "ext \<Rightarrow> bytes \<Rightarrow> rename_intent result" where
  "rename_parse x buf =
     (case from_utf8 buf of
        None \<Rightarrow> Err InvalidData
      | Some s \<Rightarrow>
          res_bind (rename_lines x (str_lines s)
              \<lparr> rf_src_parent = None, rf_src_name = None, rf_dst_parent = None, rf_dst_name = None,
                rf_child = None, rf_inode = None \<rparr>) (\<lambda>f.
            case (rf_src_parent f, rf_src_name f, rf_dst_parent f, rf_dst_name f, rf_child f, rf_inode f) of
              (Some sp, Some sn, Some dp, Some dn, Some c, Some i) \<Rightarrow>
                Ok \<lparr> ri_src_parent = sp, ri_src_name = sn, ri_dst_parent = dp, ri_dst_name = dn,
                     ri_child = c, ri_inode = i \<rparr>
            | _ \<Rightarrow> Err InvalidData))"

section \<open>Reclaim intents\<close>

record reclaim_intent =
  rc_dst_parent :: uuid
  rc_dst_name :: string
  rc_displaced :: uuid
  rc_displaced_is_dir :: bool

definition reclaim_serialize :: "ext \<Rightarrow> reclaim_intent \<Rightarrow> string" where
  "reclaim_serialize x i =
     ''dst_parent='' @ uuid_fmt x (rc_dst_parent i) @ [CHR 0x0A] @
     ''dst_name='' @ b64_encode x B64 (rc_dst_name i) @ [CHR 0x0A] @
     ''displaced='' @ uuid_fmt x (rc_displaced i) @ [CHR 0x0A] @
     ''is_dir='' @ (if rc_displaced_is_dir i then ''1'' else ''0'') @ [CHR 0x0A]"

record reclaim_fields =
  cf_dst_parent :: "uuid option"
  cf_dst_name :: "string option"
  cf_displaced :: "uuid option"
  cf_is_dir :: bool

definition reclaim_line :: "ext \<Rightarrow> string \<Rightarrow> reclaim_fields \<Rightarrow> reclaim_fields result" where
  "reclaim_line x line f =
     (case strip_prefix ''dst_parent='' line of
        Some v \<Rightarrow> res_bind (intent_uuid x v) (\<lambda>u. Ok (f\<lparr>cf_dst_parent := Some u\<rparr>))
      | None \<Rightarrow>
     (case strip_prefix ''dst_name='' line of
        Some v \<Rightarrow> res_bind (intent_b64s x v) (\<lambda>s. Ok (f\<lparr>cf_dst_name := Some s\<rparr>))
      | None \<Rightarrow>
     (case strip_prefix ''displaced='' line of
        Some v \<Rightarrow> res_bind (intent_uuid x v) (\<lambda>u. Ok (f\<lparr>cf_displaced := Some u\<rparr>))
      | None \<Rightarrow>
     (case strip_prefix ''is_dir='' line of
        Some v \<Rightarrow> Ok (f\<lparr>cf_is_dir := (v = ''1'')\<rparr>)
      | None \<Rightarrow> Ok f))))"

fun reclaim_lines :: "ext \<Rightarrow> string list \<Rightarrow> reclaim_fields \<Rightarrow> reclaim_fields result" where
  "reclaim_lines x [] f = Ok f"
| "reclaim_lines x (line # ls) f = res_bind (reclaim_line x line f) (reclaim_lines x ls)"

definition reclaim_parse :: "ext \<Rightarrow> bytes \<Rightarrow> reclaim_intent result" where
  "reclaim_parse x buf =
     (case from_utf8 buf of
        None \<Rightarrow> Err InvalidData
      | Some s \<Rightarrow>
          res_bind (reclaim_lines x (str_lines s)
              \<lparr> cf_dst_parent = None, cf_dst_name = None, cf_displaced = None, cf_is_dir = False \<rparr>) (\<lambda>f.
            case (cf_dst_parent f, cf_dst_name f, cf_displaced f) of
              (Some dp, Some dn, Some d) \<Rightarrow>
                Ok \<lparr> rc_dst_parent = dp, rc_dst_name = dn, rc_displaced = d, rc_displaced_is_dir = cf_is_dir f \<rparr>
            | _ \<Rightarrow> Err InvalidData))"

text \<open>
  The age test: the key's last path component without its suffix is a ULID whose time is compared with
  the clock; a key that is no ULID counts as stale.
\<close>

definition reclaim_intent_stale :: "ext \<Rightarrow> string \<Rightarrow> int \<Rightarrow> bool" where
  "reclaim_intent_stale x key now_ms =
     (let stem0 = last (split_char (CHR ''/'') key);
          stem = (case strip_suffix ''.reclaim'' stem0 of Some s \<Rightarrow> s | None \<Rightarrow> stem0) in
      case ulid_parse x stem of
        Some u \<Rightarrow> now_ms - wrap_i64 (int (ulid_timestamp_ms x u)) > 60000
      | None \<Rightarrow> True)"

section \<open>Modes and extended-attribute keys\<close>

definition S_IFMT :: u32 where "S_IFMT = 0xF000"
definition S_IFDIR :: u32 where "S_IFDIR = 0x4000"

definition is_dir_mode :: "u32 \<Rightarrow> bool" where
  "is_dir_mode mode = (and mode S_IFMT = S_IFDIR)"

definition xattr_prefix :: "ext \<Rightarrow> hyper_dir_layout \<Rightarrow> uuid \<Rightarrow> bool \<Rightarrow> string" where
  "xattr_prefix x layout u is_dir = child_key x layout is_dir u @ ''/_xattr/''"

definition xattr_key :: "ext \<Rightarrow> hyper_dir_layout \<Rightarrow> uuid \<Rightarrow> bool \<Rightarrow> string \<Rightarrow> string" where
  "xattr_key x layout u is_dir name = xattr_prefix x layout u is_dir @ b64_encode x B64URL name"

section \<open>Lemmas\<close>

text \<open>Text bodies made of lines without line breaks.\<close>

definition plain_text :: "string \<Rightarrow> bool" where
  "plain_text s = (CHR 0x0A \<notin> set s \<and> CHR 0x0D \<notin> set s \<and> ascii s)"

lemma plain_text_append [simp]: "plain_text (a @ b) \<longleftrightarrow> plain_text a \<and> plain_text b"
  by (auto simp: plain_text_def ascii_def)

lemma plain_text_sub: "set s \<subseteq> set t \<Longrightarrow> plain_text t \<Longrightarrow> plain_text s"
  by (auto simp: plain_text_def ascii_def list_all_iff)

lemma plain_lines:
  assumes "\<And>l. l \<in> set ls \<Longrightarrow> plain_text l"
  shows "str_lines (concat (map (\<lambda>l. l @ [CHR 0x0A]) ls)) = ls"
    "from_utf8 (concat (map (\<lambda>l. l @ [CHR 0x0A]) ls)) = Some (concat (map (\<lambda>l. l @ [CHR 0x0A]) ls))"
proof -
  have "CHR 0x0A \<notin> set l \<and> (l = [] \<or> last l \<noteq> CHR 0x0D)" if "l \<in> set ls" for l
    using assms [OF that] by (metis last_in_set plain_text_def)
  then show "str_lines (concat (map (\<lambda>l. l @ [CHR 0x0A]) ls)) = ls" by (intro str_lines_concat) blast
  have "ascii (concat (map (\<lambda>l. l @ [CHR 0x0A]) ls))"
    using assms by (auto simp: ascii_def plain_text_def list_all_iff)
  then show "from_utf8 (concat (map (\<lambda>l. l @ [CHR 0x0A]) ls)) = Some (concat (map (\<lambda>l. l @ [CHR 0x0A]) ls))"
    by (simp add: from_utf8_def ascii_utf8_valid)
qed

lemma B64_ok: "engine_ok B64" "engines_match B64 B64"
  by (simp_all add: engine_ok_def B64_def engines_match_def std_alphabet_def)

lemma B64URL_ok: "engine_ok B64URL" "engines_match B64URL B64URL"
  by (simp_all add: engine_ok_def B64URL_def engines_match_def url_alphabet_def)

context codecs
begin

lemma plain_uuid: "plain_text (uuid_fmt x u)"
  by (rule plain_text_sub [OF uuid_chars]) (simp add: plain_text_def uuid_alphabet_def ascii_def)

lemma plain_b64: "plain_text (b64_encode x B64 bs)"
proof (rule plain_text_sub)
  show "set (b64_encode x B64 bs) \<subseteq> set (std_alphabet @ ''='')"
    using b64_chars [OF B64_ok(1), of bs] by (simp add: B64_def)
qed (simp add: plain_text_def std_alphabet_def ascii_def)

lemma intent_fields [simp]:
  "intent_uuid x (uuid_fmt x u) = Ok u"
  "utf8_valid nm \<Longrightarrow> intent_b64s x (b64_encode x B64 nm) = Ok nm"
  "b64_decode x B64 (b64_encode x B64 bs) = Some bs"
  by (simp_all add: intent_uuid_def intent_b64s_def uuid_inverse b64_inverse [OF B64_ok] from_utf8_def)

lemma plain_field: "plain_text k \<Longrightarrow> plain_text (k @ uuid_fmt x u)"
  "plain_text k \<Longrightarrow> plain_text (k @ b64_encode x B64 bs)"
  by (simp_all add: plain_uuid plain_b64)

lemma rename_roundtrip:
  assumes "utf8_valid (ri_src_name i)" and "utf8_valid (ri_dst_name i)"
  shows "rename_parse x (rename_serialize x i) = Ok i"
proof -
  let ?ls = "[''src_parent='' @ uuid_fmt x (ri_src_parent i), ''src_name='' @ b64_encode x B64 (ri_src_name i),
    ''dst_parent='' @ uuid_fmt x (ri_dst_parent i), ''dst_name='' @ b64_encode x B64 (ri_dst_name i),
    ''child='' @ uuid_fmt x (ri_child i), ''inode='' @ b64_encode x B64 (ri_inode i)]"
  have eq: "rename_serialize x i = concat (map (\<lambda>l. l @ [CHR 0x0A]) ?ls)" by (simp add: rename_serialize_def)
  have "\<forall>l \<in> set ?ls. plain_text l"
    unfolding list.set ball_simps by (intro conjI plain_field TrueI) (simp_all add: plain_text_def ascii_def)
  then have lines: "str_lines (rename_serialize x i) = ?ls"
    "from_utf8 (rename_serialize x i) = Some (rename_serialize x i)"
    unfolding eq using plain_lines [of ?ls] by blast+
  have "rename_lines x ?ls \<lparr> rf_src_parent = None, rf_src_name = None, rf_dst_parent = None,
      rf_dst_name = None, rf_child = None, rf_inode = None \<rparr>
    = Ok \<lparr> rf_src_parent = Some (ri_src_parent i), rf_src_name = Some (ri_src_name i),
        rf_dst_parent = Some (ri_dst_parent i), rf_dst_name = Some (ri_dst_name i),
        rf_child = Some (ri_child i), rf_inode = Some (ri_inode i) \<rparr>"
    using assms by (simp add: rename_line_def strip_prefix_def)
  then show ?thesis by (simp add: rename_parse_def lines)
qed

lemma reclaim_roundtrip:
  assumes "utf8_valid (rc_dst_name i)"
  shows "reclaim_parse x (reclaim_serialize x i) = Ok i"
proof -
  let ?ls = "[''dst_parent='' @ uuid_fmt x (rc_dst_parent i), ''dst_name='' @ b64_encode x B64 (rc_dst_name i),
    ''displaced='' @ uuid_fmt x (rc_displaced i), ''is_dir='' @ (if rc_displaced_is_dir i then ''1'' else ''0'')]"
  have eq: "reclaim_serialize x i = concat (map (\<lambda>l. l @ [CHR 0x0A]) ?ls)" by (simp add: reclaim_serialize_def)
  have "\<forall>l \<in> set ?ls. plain_text l"
    unfolding list.set ball_simps by (intro conjI plain_field TrueI) (simp_all add: plain_text_def ascii_def)
  then have lines: "str_lines (reclaim_serialize x i) = ?ls"
    "from_utf8 (reclaim_serialize x i) = Some (reclaim_serialize x i)"
    unfolding eq using plain_lines [of ?ls] by blast+
  have "reclaim_lines x ?ls \<lparr> cf_dst_parent = None, cf_dst_name = None, cf_displaced = None, cf_is_dir = False \<rparr>
    = Ok \<lparr> cf_dst_parent = Some (rc_dst_parent i), cf_dst_name = Some (rc_dst_name i),
        cf_displaced = Some (rc_displaced i), cf_is_dir = rc_displaced_is_dir i \<rparr>"
    using assms by (simp add: reclaim_line_def strip_prefix_def)
  then show ?thesis by (simp add: reclaim_parse_def lines)
qed

end

section \<open>Properties\<close>

text \<open>C36. Intents survive their text form: parsing the body that \<open>serialize\<close> wrote gives back the rename
  intent (parents, names, child and raw inode bytes) and the reclaim intent (destination, displaced
  child and its kind), for all names that are UTF-8 strings, line breaks and equals signs included.\<close>

theorem intents_roundtrip:
  assumes "codecs x" and "utf8_valid (ri_src_name i)" and "utf8_valid (ri_dst_name i)"
    and "utf8_valid (rc_dst_name j)"
  shows "rename_parse x (rename_serialize x i) = Ok i \<and> reclaim_parse x (reclaim_serialize x j) = Ok j"
  using codecs.rename_roundtrip [OF assms(1-3)] codecs.reclaim_roundtrip [OF assms(1,4)] by simp

definition sample_rename_intent :: rename_intent where
  "sample_rename_intent = \<lparr> ri_src_parent = 1, ri_src_name = ''a='' @ [CHR 0x0A], ri_dst_parent = 2,
     ri_dst_name = ''b'', ri_child = 3, ri_inode = [CHR 0x00, CHR 0xFF] \<rparr>"

definition sample_reclaim_intent :: reclaim_intent where
  "sample_reclaim_intent = \<lparr> rc_dst_parent = 2, rc_dst_name = ''b'', rc_displaced = 4, rc_displaced_is_dir = True \<rparr>"

theorem intents_roundtrip_witness:
  "rename_parse ref_ext (rename_serialize ref_ext sample_rename_intent) = Ok sample_rename_intent \<and>
   reclaim_parse ref_ext (reclaim_serialize ref_ext sample_reclaim_intent) = Ok sample_reclaim_intent"
proof (rule intents_roundtrip [OF refc.codecs_axioms])
  show "utf8_valid (ri_src_name sample_rename_intent)"
    by (rule ascii_utf8_valid) (simp add: ascii_def sample_rename_intent_def)
  show "utf8_valid (ri_dst_name sample_rename_intent)"
    by (rule ascii_utf8_valid) (simp add: ascii_def sample_rename_intent_def)
  show "utf8_valid (rc_dst_name sample_reclaim_intent)"
    by (rule ascii_utf8_valid) (simp add: ascii_def sample_reclaim_intent_def)
qed

end
