(* ===== verification/Fs_Api.thy ===== *)
theory Fs_Api
  imports Dir_Updates Intents
begin

text \<open>
  What the file-system operations of \<open>src/fs.rs\<close> call beside the directory operations, as a parameter:
  creating a staging, flushing an inode through an interceptor, the file handle of the \<open>hyperfile\<close>
  library, its conversion of inodes to \<open>libc::stat\<close>, a delimited LIST, the clock and fresh UUIDs.

  A staging is identified by its root path. \<open>StagingConfig::new_s3_uri\<close> keeps the URI as the root, and
  \<open>to_dir_staging_config\<close> only places the inode object at \<open><root>/inode\<close>.
\<close>

section \<open>The interface\<close>

text \<open>The fields of \<open>libc::stat\<close> that the code reads or writes.\<close>

record stat =
  st_mode :: u32
  st_uid :: u32
  st_gid :: u32
  st_ctime :: int
  st_dev :: u64
  st_rdev :: u64

record delim_page =
  pg_contents :: "list_object list"
  pg_common_prefixes :: "string option list"

type_synonym 'w flush_hook = "bytes \<Rightarrow> flush_inode_flag \<Rightarrow> ('w, unit) io"

record ('w, 'i, 'b, 'd, 'f) fs_api =
  fa_dir :: "('w, 'i, 'b, 'd) deps"
  fa_now :: "'w \<Rightarrow> (u64 \<times> u32) option \<times> 'w"
  fa_new_uuid :: "'w \<Rightarrow> uuid \<times> 'w"
  fa_list_delim :: "string \<Rightarrow> string \<Rightarrow> 'w \<Rightarrow> (s3_error + delim_page) list \<times> 'w"
  fa_new_s3_uri :: "string \<Rightarrow> staging_config"
  fa_staging_create :: "string \<Rightarrow> ('w, string) io"
  fa_flush_inode :: "'w flush_hook option \<Rightarrow> string \<Rightarrow> 'i \<Rightarrow> 'd \<Rightarrow> flush_inode_flag \<Rightarrow> ('w, 'd) io"
  fa_bmap_new :: "'b result"
  fa_default_dir :: "u32 \<Rightarrow> 'i"
  fa_no_state :: 'd
  fa_clear_attr_dirty :: "'i \<Rightarrow> 'i"
  fa_get_last_cno :: "'i \<Rightarrow> u64"
  fa_set_last_ondisk_cno :: "u64 \<Rightarrow> 'i \<Rightarrow> 'i"
  fa_to_raw :: "'i \<Rightarrow> 'b \<Rightarrow> 'i"
  fa_to_stat :: "u64 \<Rightarrow> u64 \<Rightarrow> 'i \<Rightarrow> stat"
  fa_update_stat :: "stat \<Rightarrow> 'i \<Rightarrow> stat \<times> 'i"
  fa_file_create :: "'w flush_hook \<Rightarrow> string \<Rightarrow> bool \<Rightarrow> u32 \<Rightarrow> ('w, 'f) io"
  fa_file_flush :: "('f \<times> 'w, u64) io"

abbreviation fa_ext :: "('w, 'i, 'b, 'd, 'f) fs_api \<Rightarrow> ext" where "fa_ext F \<equiv> dp_ext (fa_dir F)"
abbreviation fa_s3 :: "('w, 'i, 'b, 'd, 'f) fs_api \<Rightarrow> 'w s3_api" where "fa_s3 F \<equiv> dp_s3 (fa_dir F)"
abbreviation fa_hf :: "('w, 'i, 'b, 'd, 'f) fs_api \<Rightarrow> ('w, 'i, 'b, 'd) hf_api" where "fa_hf F \<equiv> dp_hf (fa_dir F)"
abbreviation fa_ino :: "('w, 'i, 'b, 'd, 'f) fs_api \<Rightarrow> 'i inode_api" where "fa_ino F \<equiv> dp_ino (fa_dir F)"

section \<open>Small pieces\<close>

text \<open>A handler that maps the error kind \<open>NotFound\<close> to a value, and one that keeps going after any error.\<close>

definition not_found_as :: "'a \<Rightarrow> ('w, 'a) io \<Rightarrow> ('w, 'a) io" where
  "not_found_as a m w = (case m w of (Err NotFound, w') \<Rightarrow> (Ok a, w') | rw \<Rightarrow> rw)"

definition ignore_err :: "('w, 'a) io \<Rightarrow> ('w, unit) io" where
  "ignore_err m w = (case m w of (Panic, w') \<Rightarrow> (Panic, w') | (_, w') \<Rightarrow> (Ok (), w'))"

definition io_try :: "('w, 'a) io \<Rightarrow> ('w, 'a result) io" where
  "io_try m w = (case m w of (Panic, w') \<Rightarrow> (Panic, w') | (r, w') \<Rightarrow> (Ok r, w'))"

text \<open>A handle operation on a handle that is dropped afterwards.\<close>

definition on_handle :: "'h \<Rightarrow> ('h \<times> 'w, 'a) io \<Rightarrow> ('w, 'a) io" where
  "on_handle h m w = (case m (h, w) of (r, (_, w')) \<Rightarrow> (r, w'))"

definition staging_from :: "('w, 'i, 'b, 'd, 'f) fs_api \<Rightarrow> staging_config \<Rightarrow> ('w, string) io" where
  "staging_from F config = hf_staging_from (fa_hf F) (root_uri config)"

definition get_object_raw :: "'w s3_api \<Rightarrow> string \<Rightarrow> ('w, bytes) io" where
  "get_object_raw s3 key w =
     (case get_object s3 key w of
        (Inl _, w') \<Rightarrow> (Err Other, w')
      | (Inr res, w') \<Rightarrow> (case g_body res of Some b \<Rightarrow> (Ok b, w') | None \<Rightarrow> (Err Other, w')))"

definition get_object_bytes :: "'w s3_api \<Rightarrow> string \<Rightarrow> ('w, bytes) io" where
  "get_object_bytes s3 key w =
     (case get_object s3 key w of
        (Inl _, w') \<Rightarrow> (Err Other, w')
      | (Inr res, w') \<Rightarrow> (case g_body res of Some b \<Rightarrow> (Ok b, w') | None \<Rightarrow> (Err Other, w')))"

definition delete_object :: "'w s3_api \<Rightarrow> string \<Rightarrow> ('w, unit) io" where
  "delete_object s3 key w =
     (case delete_obj s3 key None w of (Inl _, w') \<Rightarrow> (Err Other, w') | (Inr _, w') \<Rightarrow> (Ok (), w'))"

section \<open>Link counts and physical reclamation\<close>

definition NLINK_RETRIES :: nat where "NLINK_RETRIES = 5"

text \<open>The new count: \<open>(i_nlink as i64 + delta).max(0) as u64\<close>, with the wrap-around of a release build.\<close>

definition nlink_after :: "u64 \<Rightarrow> int \<Rightarrow> u64" where
  "nlink_after n delta = of_int (max 0 (wrap_i64 (wrap_i64 (uint n) + delta)))"

fun nlink_loop ::
  "('w, 'i, 'b, 'd, 'f) fs_api \<Rightarrow> string \<Rightarrow> int \<Rightarrow> u64 \<times> u32 \<Rightarrow> nat \<Rightarrow> ('w, u64) io" where
  "nlink_loop F root delta now 0 = io_fail ResourceBusy"
| "nlink_loop F root delta now (Suc n) =
     io_bind (hf_load_inode (fa_hf F) root) (\<lambda>(raw, od_state).
     io_bind (io_try (hf_flush_inode (fa_hf F) root
         (ino_set_ctime (fa_ino F) (fst now) (snd now)
           (ino_set_nlink (fa_ino F) (nlink_after (ino_nlink (fa_ino F) raw) delta) raw)) od_state FlagUpdate)) (\<lambda>r.
       case r of
         Ok _ \<Rightarrow> io_return (nlink_after (ino_nlink (fa_ino F) raw) delta)
       | Err e \<Rightarrow> if e = AlreadyExists then nlink_loop F root delta now n else io_fail e
       | Panic \<Rightarrow> io_lift Panic))"

definition adjust_nlink :: "('w, 'i, 'b, 'd, 'f) fs_api \<Rightarrow> string \<Rightarrow> int \<Rightarrow> ('w, u64) io" where
  "adjust_nlink F child_uri delta =
     io_bind (staging_from F (fa_new_s3_uri F child_uri)) (\<lambda>root.
     io_bind (\<lambda>w. case fa_now F w of (t, w') \<Rightarrow> (Ok (case t of Some n \<Rightarrow> n | None \<Rightarrow> (0, 0)), w')) (\<lambda>now.
       nlink_loop F root delta now NLINK_RETRIES))"

definition current_nlink :: "('w, 'i, 'b, 'd, 'f) fs_api \<Rightarrow> string \<Rightarrow> ('w, u64 option) io" where
  "current_nlink F child_uri =
     not_found_as None
       (io_bind (staging_from F (fa_new_s3_uri F child_uri)) (\<lambda>root.
        io_bind (hf_load_inode (fa_hf F) root) (\<lambda>(raw, _). io_return (Some (ino_nlink (fa_ino F) raw)))))"

definition reclaim_child_prefix :: "('w, 'i, 'b, 'd, 'f) fs_api \<Rightarrow> string \<Rightarrow> ('w, unit) io" where
  "reclaim_child_prefix F child_uri =
     not_found_as () (io_bind (staging_from F (fa_new_s3_uri F child_uri)) (hf_unlink (fa_hf F)))"

definition fs_reclaim ::
  "('w, 'i, 'b, 'd, 'f) fs_api \<Rightarrow> hyper_dir_layout \<Rightarrow> string \<Rightarrow> uuid \<Rightarrow> bool \<Rightarrow> ('w, unit) io" where
  "fs_reclaim F layout bucket child_uuid child_is_dir =
     (if child_is_dir then reclaim_child_prefix F (dir_uri (fa_ext F) layout bucket child_uuid)
      else
        let uri = file_uri (fa_ext F) layout bucket child_uuid in
        io_bind (current_nlink F uri) (\<lambda>n.
          case n of
            None \<Rightarrow> io_return ()
          | Some n \<Rightarrow> if n \<le> 1 then reclaim_child_prefix F uri else io_return ()))"

section \<open>The interceptor\<close>

record scatter_first_interceptor =
  parent_dir_staging :: string
  ic_name :: string
  ic_uuid :: uuid

definition before_flush_inode ::
  "('w, 'i, 'b, 'd, 'f) fs_api \<Rightarrow> scatter_first_interceptor \<Rightarrow> 'w flush_hook" where
  "before_flush_inode F ic payload flag =
     (case flag of
        FlagCreate \<Rightarrow> emit_scatter_event (fa_ext F) (fa_s3 F) (parent_dir_staging ic) (ic_name ic) (ic_uuid ic) payload Create
      | FlagUpdate \<Rightarrow> emit_scatter_event (fa_ext F) (fa_s3 F) (parent_dir_staging ic) (ic_name ic) (ic_uuid ic) payload Update
      | FlagDelete \<Rightarrow> io_return ()
      | FlagIgnore \<Rightarrow> io_return ()
      | FlagUnknown \<Rightarrow> io_return ())"

definition after_flush_inode :: "scatter_first_interceptor \<Rightarrow> 'w flush_hook" where
  "after_flush_inode ic payload flag = io_return ()"

definition after_remove_inode :: "scatter_first_interceptor \<Rightarrow> ('w, unit) io" where
  "after_remove_inode ic = io_return ()"

section \<open>Directories\<close>

definition dir_flush_inode ::
  "('w, 'i, 'b, 'd, 'f) fs_api \<Rightarrow> 'w flush_hook option \<Rightarrow> flush_inode_flag \<Rightarrow> (('i, 'b, 'd) dir_handle \<times> 'w, unit) io" where
  "dir_flush_inode F hook flag = (\<lambda>(h, w).
     case fa_flush_inode F hook (h_root h) (fa_to_raw F (h_inode h) (h_bmap h)) (h_od h) flag w of
       (Ok od_state, w') \<Rightarrow>
         (let inode = fa_clear_attr_dirty F (h_inode h) in
          (Ok (), (h\<lparr>h_od := od_state, h_inode := fa_set_last_ondisk_cno F (fa_get_last_cno F inode) inode\<rparr>, w')))
     | (Err e, w') \<Rightarrow> (Err e, (h, w'))
     | (Panic, w') \<Rightarrow> (Panic, (h, w')))"

definition dir_new ::
  "('w, 'i, 'b, 'd, 'f) fs_api \<Rightarrow> 'w flush_hook option \<Rightarrow> string \<Rightarrow> bool \<Rightarrow> flush_conflict_policy \<Rightarrow> u32 \<Rightarrow>
     ('w, ('i, 'b, 'd) dir_handle) io" where
  "dir_new F hook root rdonly policy mode =
     io_bind (io_lift (fa_bmap_new F)) (\<lambda>bmap.
     io_bind (with_handle
        \<lparr> h_bmap = bmap, h_root = root, h_rdonly = rdonly, h_policy = policy,
          h_inode = fa_default_dir F mode, h_od = fa_no_state F \<rparr> (dir_flush_inode F hook FlagCreate)) (\<lambda>(_, file).
     io_return file))"

definition hyper_open ::
  "('w, 'i, 'b, 'd, 'f) fs_api \<Rightarrow> staging_config \<Rightarrow> bool \<Rightarrow> flush_conflict_policy \<Rightarrow> ('w, ('i, 'b, 'd) dir_handle) io" where
  "hyper_open F config rdonly policy =
     io_bind (io_lift (to_dir_staging_config config)) (\<lambda>dir_config.
     io_bind (staging_from F dir_config) (\<lambda>root. dir_open (fa_dir F) root rdonly policy))"

definition hyper_create ::
  "('w, 'i, 'b, 'd, 'f) fs_api \<Rightarrow> 'w flush_hook option \<Rightarrow> staging_config \<Rightarrow> bool \<Rightarrow> flush_conflict_policy \<Rightarrow> u32 \<Rightarrow>
     ('w, ('i, 'b, 'd) dir_handle) io" where
  "hyper_create F hook config rdonly policy mode =
     io_bind (io_lift (to_dir_staging_config config)) (\<lambda>dir_config.
     io_bind (fa_staging_create F (root_uri dir_config)) (\<lambda>root. dir_new F hook root rdonly policy mode))"

definition do_open_or_create ::
  "('w, 'i, 'b, 'd, 'f) fs_api \<Rightarrow> staging_config \<Rightarrow> bool \<Rightarrow> u32 \<Rightarrow> bool \<Rightarrow> ('w, ('i, 'b, 'd) dir_handle) io" where
  "do_open_or_create F config rdonly mode create =
     io_bind (io_try (hyper_open F config rdonly RetryLastWriterWins)) (\<lambda>r.
       case r of
         Ok hyper \<Rightarrow> io_return hyper
       | Err e \<Rightarrow>
           if create \<and> e = NotFound then hyper_create F None config rdonly RetryLastWriterWins mode else io_fail e
       | Panic \<Rightarrow> io_lift Panic)"

definition fs_create ::
  "('w, 'i, 'b, 'd, 'f) fs_api \<Rightarrow> string \<Rightarrow> bool \<Rightarrow> u32 \<Rightarrow> ('w, ('i, 'b, 'd) dir_handle) io" where
  "fs_create F uri rdonly mode = hyper_create F None (fa_new_s3_uri F uri) rdonly RetryLastWriterWins mode"

definition fs_create_with_interceptor ::
  "('w, 'i, 'b, 'd, 'f) fs_api \<Rightarrow> 'w flush_hook \<Rightarrow> string \<Rightarrow> bool \<Rightarrow> u32 \<Rightarrow> ('w, ('i, 'b, 'd) dir_handle) io" where
  "fs_create_with_interceptor F hook uri rdonly mode =
     hyper_create F (Some hook) (fa_new_s3_uri F uri) rdonly RetryLastWriterWins mode"

text \<open>A fresh child is announced in its parent by the interceptor of its first inode flush.\<close>

definition fresh_child ::
  "('w, 'i, 'b, 'd, 'f) fs_api \<Rightarrow> hyper_dir_layout \<Rightarrow> string \<Rightarrow> uuid \<Rightarrow> string \<Rightarrow>
     ('w, uuid \<times> scatter_first_interceptor) io" where
  "fresh_child F layout bucket parent_dir_uuid name =
     io_bind (\<lambda>w. case fa_new_uuid F w of (u, w') \<Rightarrow> (Ok u, w')) (\<lambda>uuid.
     io_bind (staging_from F (fa_new_s3_uri F (dir_uri (fa_ext F) layout bucket parent_dir_uuid))) (\<lambda>parent_staging.
     io_return (uuid, \<lparr> parent_dir_staging = parent_staging, ic_name = name, ic_uuid = uuid \<rparr>)))"

definition fs_create_default ::
  "('w, 'i, 'b, 'd, 'f) fs_api \<Rightarrow> hyper_dir_layout \<Rightarrow> string \<Rightarrow> uuid \<Rightarrow> string \<Rightarrow> bool \<Rightarrow> u32 \<Rightarrow>
     ('w, ('i, 'b, 'd) dir_handle \<times> uuid) io" where
  "fs_create_default F layout bucket parent_dir_uuid name rdonly mode =
     io_bind (fresh_child F layout bucket parent_dir_uuid name) (\<lambda>(uuid, ic).
     io_bind (fs_create_with_interceptor F (before_flush_inode F ic) (dir_uri (fa_ext F) layout bucket uuid) rdonly mode) (\<lambda>dir.
     io_return (dir, uuid)))"

definition fs_create_file ::
  "('w, 'i, 'b, 'd, 'f) fs_api \<Rightarrow> hyper_dir_layout \<Rightarrow> string \<Rightarrow> uuid \<Rightarrow> string \<Rightarrow> bool \<Rightarrow> u32 \<Rightarrow> ('w, 'f \<times> uuid) io" where
  "fs_create_file F layout bucket parent_dir_uuid name rdonly mode =
     io_bind (fresh_child F layout bucket parent_dir_uuid name) (\<lambda>(uuid, ic).
     io_bind (fa_file_create F (before_flush_inode F ic) (file_uri (fa_ext F) layout bucket uuid) rdonly mode) (\<lambda>file.
     io_bind (with_handle file (fa_file_flush F)) (\<lambda>(_, file).
     io_return (file, uuid))))"

definition fs_open ::
  "('w, 'i, 'b, 'd, 'f) fs_api \<Rightarrow> string \<Rightarrow> bool \<Rightarrow> ('w, ('i, 'b, 'd) dir_handle) io" where
  "fs_open F uri rdonly = hyper_open F (fa_new_s3_uri F uri) rdonly RetryLastWriterWins"

definition fs_open_opt ::
  "('w, 'i, 'b, 'd, 'f) fs_api \<Rightarrow> string \<Rightarrow> bool \<Rightarrow> flush_conflict_policy \<Rightarrow> ('w, ('i, 'b, 'd) dir_handle) io" where
  "fs_open_opt F uri rdonly policy = hyper_open F (fa_new_s3_uri F uri) rdonly policy"

definition fs_open_or_create_with_default_opt ::
  "('w, 'i, 'b, 'd, 'f) fs_api \<Rightarrow> string \<Rightarrow> bool \<Rightarrow> u32 \<Rightarrow> ('w, ('i, 'b, 'd) dir_handle) io" where
  "fs_open_or_create_with_default_opt F uri rdonly mode = do_open_or_create F (fa_new_s3_uri F uri) rdonly mode True"

definition fs_open_dir ::
  "('w, 'i, 'b, 'd, 'f) fs_api \<Rightarrow> hyper_dir_layout \<Rightarrow> string \<Rightarrow> uuid \<Rightarrow> bool \<Rightarrow> ('w, ('i, 'b, 'd) dir_handle) io" where
  "fs_open_dir F layout bucket u rdonly = fs_open F (dir_uri (fa_ext F) layout bucket u) rdonly"

definition fs_create_root ::
  "('w, 'i, 'b, 'd, 'f) fs_api \<Rightarrow> hyper_dir_layout \<Rightarrow> string \<Rightarrow> bool \<Rightarrow> u32 \<Rightarrow> ('w, ('i, 'b, 'd) dir_handle) io" where
  "fs_create_root F layout bucket rdonly mode = fs_create F (root_dir_uri (fa_ext F) layout bucket) rdonly mode"

definition fs_open_root ::
  "('w, 'i, 'b, 'd, 'f) fs_api \<Rightarrow> hyper_dir_layout \<Rightarrow> string \<Rightarrow> bool \<Rightarrow> ('w, ('i, 'b, 'd) dir_handle) io" where
  "fs_open_root F layout bucket rdonly = fs_open F (root_dir_uri (fa_ext F) layout bucket) rdonly"

definition fs_resolve_entry_fast ::
  "('w, 'i, 'b, 'd, 'f) fs_api \<Rightarrow> hyper_dir_layout \<Rightarrow> string \<Rightarrow> uuid \<Rightarrow> string \<Rightarrow> ('w, 'i dir_file_entry option) io" where
  "fs_resolve_entry_fast F layout bucket parent_uuid name =
     io_bind (io_lift (to_dir_staging_config (fa_new_s3_uri F (dir_uri (fa_ext F) layout bucket parent_uuid)))) (\<lambda>dir_config.
     io_bind (staging_from F dir_config) (\<lambda>root. resolve_fast (fa_dir F) root name))"

end
