(* ===== verification/Fs_Ops.thy ===== *)
theory Fs_Ops
  imports Fs_Api
begin

text \<open>
  The operations of \<open>src/fs.rs\<close> that add and remove names: unlink, rmdir and link, compaction with the
  second phase of a delete, and the garbage collection of tombstones. Each definition takes the library
  interface \<open>F\<close>, the layout and the bucket, as the code does.
\<close>

section \<open>Unlink and rmdir\<close>

text \<open>A retention is a duration in milliseconds.\<close>

definition retention_deadline :: "int \<Rightarrow> nat option \<Rightarrow> int" where
  "retention_deadline now retention =
     (case retention of
        None \<Rightarrow> 0
      | Some d \<Rightarrow> saturating_add_i64 now (if int d \<le> i64_max then int d else i64_max))"

definition fs_unlink ::
  "('w, 'i, 'b, 'd, 'f) fs_api \<Rightarrow> hyper_dir_layout \<Rightarrow> string \<Rightarrow> uuid \<Rightarrow> string \<Rightarrow> uuid \<Rightarrow> bool \<Rightarrow> nat option \<Rightarrow>
     ('w, unit) io" where
  "fs_unlink F layout bucket parent_dir_uuid name child_uuid child_is_dir retention =
     io_bind (now_ms (fa_s3 F)) (\<lambda>now.
     io_bind (staging_from F (fa_new_s3_uri F (dir_uri (fa_ext F) layout bucket parent_dir_uuid))) (\<lambda>parent_staging.
       emit_scatter_event (fa_ext F) (fa_s3 F) parent_staging name child_uuid
         (build_predelete_body child_is_dir (retention_deadline now retention)) PreDelete))"

definition fs_rmdir ::
  "('w, 'i, 'b, 'd, 'f) fs_api \<Rightarrow> hyper_dir_layout \<Rightarrow> string \<Rightarrow> uuid \<Rightarrow> string \<Rightarrow> uuid \<Rightarrow> nat option \<Rightarrow> ('w, unit) io" where
  "fs_rmdir F layout bucket parent_dir_uuid name child_dir_uuid retention =
     io_bind (fs_open F (dir_uri (fa_ext F) layout bucket child_dir_uuid) True) (\<lambda>child.
     io_bind (read_dir (fa_dir F) (h_root child)) (\<lambda>entries.
       if entries \<noteq> [] then io_fail DirectoryNotEmpty
       else fs_unlink F layout bucket parent_dir_uuid name child_dir_uuid True retention))"

section \<open>Hard links\<close>

fun link_loop ::
  "('w, 'i, 'b, 'd, 'f) fs_api \<Rightarrow> string \<Rightarrow> string \<Rightarrow> string \<Rightarrow> 'i dir_file_entry_raw \<Rightarrow>
     ('i, 'b, 'd) dir_handle \<Rightarrow> nat \<Rightarrow> ('w, unit) io" where
  "link_loop F child_uri dir_uri' new_name entry parent 0 =
     io_bind (ignore_err (adjust_nlink F child_uri (- 1))) (\<lambda>_. io_fail ResourceBusy)"
| "link_loop F child_uri dir_uri' new_name entry parent (Suc n) =
     io_bind (io_try (on_handle parent (insert_entry_excl (fa_dir F) new_name entry))) (\<lambda>r.
       case r of
         Ok True \<Rightarrow> io_return ()
       | Ok False \<Rightarrow> io_bind (ignore_err (adjust_nlink F child_uri (- 1))) (\<lambda>_. io_fail AlreadyExists)
       | Err e \<Rightarrow>
           if e = AlreadyExists then
             io_bind (fs_open_opt F dir_uri' False FailFast) (\<lambda>parent.
               link_loop F child_uri dir_uri' new_name entry parent n)
           else io_bind (ignore_err (adjust_nlink F child_uri (- 1))) (\<lambda>_. io_fail e)
       | Panic \<Rightarrow> io_lift Panic)"

definition fs_link ::
  "('w, 'i, 'b, 'd, 'f) fs_api \<Rightarrow> hyper_dir_layout \<Rightarrow> string \<Rightarrow> uuid \<Rightarrow> string \<Rightarrow> uuid \<Rightarrow> ('w, unit) io" where
  "fs_link F layout bucket parent_dir_uuid new_name target_file_uuid =
     (let child_uri = file_uri (fa_ext F) layout bucket target_file_uuid;
          dir_uri' = dir_uri (fa_ext F) layout bucket parent_dir_uuid in
      io_bind (fs_open_opt F dir_uri' False FailFast) (\<lambda>parent.
      io_bind (io_try (read_entry (fa_dir F) (h_root parent) new_name)) (\<lambda>found.
        case found of
          Ok _ \<Rightarrow> io_fail AlreadyExists
        | _ \<Rightarrow>
            io_bind (staging_from F (fa_new_s3_uri F child_uri)) (\<lambda>target_staging.
            io_bind (hf_load_inode (fa_hf F) target_staging) (\<lambda>(raw_inode, _).
              if is_dir_mode (ino_mode (fa_ino F) raw_inode) then io_fail InvalidInput
              else
                io_bind (adjust_nlink F child_uri 1) (\<lambda>new_nlink.
                  link_loop F child_uri dir_uri' new_name
                    (entry_from (ino_set_nlink (fa_ino F) new_nlink raw_inode) target_file_uuid new_name)
                    parent NLINK_RETRIES))))))"

section \<open>Compaction, second phase\<close>

text \<open>\<open>str::rfind\<close>: the byte position of the last occurrence.\<close>

fun rfind :: "string \<Rightarrow> string \<Rightarrow> nat option" where
  "rfind p [] = (if p = [] then Some 0 else None)"
| "rfind p (c # s) =
     (case rfind p s of
        Some n \<Rightarrow> Some (Suc n)
      | None \<Rightarrow> if prefix p (c # s) then Some 0 else None)"

definition layout_base_of :: "string \<Rightarrow> string" where
  "layout_base_of rp = take (case rfind ''DIR/'' rp of Some n \<Rightarrow> n | None \<Rightarrow> 0) rp"

definition compact_child_uri :: "ext \<Rightarrow> string \<Rightarrow> string \<Rightarrow> bool \<Rightarrow> uuid \<Rightarrow> string" where
  "compact_child_uri x bucket rp is_dir u =
     ''s3://'' @ bucket @ ''/'' @ layout_base_of rp @ (if is_dir then ''DIR/'' else ''FILE/'') @ uuid_fmt x u"

fun removed_loop :: "('w, 'i, 'b, 'd, 'f) fs_api \<Rightarrow> string \<Rightarrow> string \<Rightarrow> uuid list \<Rightarrow> ('w, unit) io" where
  "removed_loop F bucket rp [] = io_return ()"
| "removed_loop F bucket rp (uuid # us) =
     io_bind (ignore_err (adjust_nlink F (compact_child_uri (fa_ext F) bucket rp False uuid) (- 1))) (\<lambda>_.
       removed_loop F bucket rp us)"

definition predeleted_step ::
  "('w, 'i, 'b, 'd, 'f) fs_api \<Rightarrow> string \<Rightarrow> string \<Rightarrow> string \<times> uuid \<times> bool \<times> int \<Rightarrow> ('w, unit) io" where
  "predeleted_step F bucket rp = (\<lambda>(name, uuid, is_dir, retention_until).
     let child_uri = compact_child_uri (fa_ext F) bucket rp is_dir uuid in
     ignore_err
       (io_bind (staging_from F (fa_new_s3_uri F child_uri)) (\<lambda>staging.
        io_bind (hf_load_inode (fa_hf F) staging) (\<lambda>(raw, _).
        io_bind (now_ms (fa_s3 F)) (\<lambda>now.
        io_bind (emit_scatter_event (fa_ext F) (fa_s3 F) rp name uuid
            (build_tombstone_body now retention_until (ino_as_slice (fa_ino F) raw)) Delete) (\<lambda>_.
        if is_dir then io_return ()
        else ignore_err (adjust_nlink F child_uri (- 1))))))))"

fun predeleted_loop ::
  "('w, 'i, 'b, 'd, 'f) fs_api \<Rightarrow> string \<Rightarrow> string \<Rightarrow> (string \<times> uuid \<times> bool \<times> int) list \<Rightarrow> ('w, unit) io" where
  "predeleted_loop F bucket rp [] = io_return ()"
| "predeleted_loop F bucket rp (p # ps) = io_bind (predeleted_step F bucket rp p) (\<lambda>_. predeleted_loop F bucket rp ps)"

definition fs_compact ::
  "('w, 'i, 'b, 'd, 'f) fs_api \<Rightarrow> string \<Rightarrow> (('i, 'b, 'd) dir_handle \<times> 'w, compact_stats) io" where
  "fs_compact F bucket =
     io_bind (compact (fa_dir F)) (\<lambda>stats.
     io_bind (\<lambda>(h, w). on_world (removed_loop F bucket (h_root h) (removed_children stats)) (h, w)) (\<lambda>_.
     io_bind (\<lambda>(h, w). on_world (predeleted_loop F bucket (h_root h) (predeleted stats)) (h, w)) (\<lambda>_.
     io_return stats)))"

section \<open>Garbage collection of tombstones\<close>

record gc_stats =
  tombstones_visited :: nat
  tombstones_skipped_retention :: nat
  tombstones_skipped_unfolded :: nat
  tombstones_reclaimed :: nat
  gc_errors :: nat

text \<open>What happens to one tombstone; an error of a step counts as \<open>GcError\<close> and leaves it in place.\<close>

datatype gc_outcome = GcSkippedRetention | GcSkippedUnfolded | GcReclaimed | GcError

definition gc_error_as :: "('w, gc_outcome) io \<Rightarrow> ('w, gc_outcome) io" where
  "gc_error_as m = io_bind (io_try m) (\<lambda>r. case r of Ok out \<Rightarrow> io_return out | _ \<Rightarrow> io_return GcError)"

text \<open>Whether the delete has been folded out of the persisted index: the name is absent there or maps elsewhere.\<close>

definition gc_folded ::
  "('w, 'i, 'b, 'd, 'f) fs_api \<Rightarrow> string \<Rightarrow> dir_scatter_inode \<Rightarrow> ('w, bool) io" where
  "gc_folded F parent_root scatter =
     not_found_as True (io_bind (read_entry (fa_dir F) parent_root (s_filename scatter)) (\<lambda>entry.
       io_return (d_uuid entry \<noteq> s_uuid scatter)))"

text \<open>The end of a visit: reclaim the child unless a link remains, then drop the tombstone.\<close>

definition gc_reclaim ::
  "('w, 'i, 'b, 'd, 'f) fs_api \<Rightarrow> hyper_dir_layout \<Rightarrow> string \<Rightarrow> dir_scatter_inode \<Rightarrow> 'i \<Rightarrow> ('w, gc_outcome) io" where
  "gc_reclaim F layout bucket scatter inode_raw =
     (let is_dir = is_dir_mode (ino_mode (fa_ino F) inode_raw);
          child_uri = (if is_dir then dir_uri (fa_ext F) layout bucket (s_uuid scatter)
                       else file_uri (fa_ext F) layout bucket (s_uuid scatter)) in
      io_bind (if is_dir then io_return True
               else io_bind (current_nlink F child_uri) (\<lambda>n. io_return (case n of Some n \<Rightarrow> n = 0 | None \<Rightarrow> True)))
        (\<lambda>should_reclaim.
      io_bind (if should_reclaim then reclaim_child_prefix F child_uri else io_return ()) (\<lambda>_.
      io_bind (remove_scatter_inodes (fa_s3 F) [s_key scatter]) (\<lambda>_.
      io_return GcReclaimed))))"

definition gc_tombstone ::
  "('w, 'i, 'b, 'd, 'f) fs_api \<Rightarrow> hyper_dir_layout \<Rightarrow> string \<Rightarrow> string \<Rightarrow> int \<Rightarrow> dir_scatter_inode \<Rightarrow> ('w, gc_outcome) io" where
  "gc_tombstone F layout bucket parent_root now scatter = gc_error_as
     (io_bind (get_object_bytes (fa_s3 F) (s_key scatter)) (\<lambda>body.
      io_bind (io_lift (parse_tombstone_body body)) (\<lambda>(header, inode_raw_bytes).
        if retention_until_unix_ms header > now then io_return GcSkippedRetention
        else
          io_bind (gc_folded F parent_root scatter) (\<lambda>folded.
            if \<not> folded then io_return GcSkippedUnfolded
            else
              io_bind (io_lift (ino_from_slice (fa_ino F) inode_raw_bytes)) (gc_reclaim F layout bucket scatter)))))"

definition gc_count :: "gc_outcome \<Rightarrow> gc_stats \<Rightarrow> gc_stats" where
  "gc_count out stats =
     (let stats = stats\<lparr>tombstones_visited := Suc (tombstones_visited stats)\<rparr> in
      case out of
        GcSkippedRetention \<Rightarrow> stats\<lparr>tombstones_skipped_retention := Suc (tombstones_skipped_retention stats)\<rparr>
      | GcSkippedUnfolded \<Rightarrow> stats\<lparr>tombstones_skipped_unfolded := Suc (tombstones_skipped_unfolded stats)\<rparr>
      | GcReclaimed \<Rightarrow> stats\<lparr>tombstones_reclaimed := Suc (tombstones_reclaimed stats)\<rparr>
      | GcError \<Rightarrow> stats\<lparr>gc_errors := Suc (gc_errors stats)\<rparr>)"

fun gc_loop ::
  "('w, 'i, 'b, 'd, 'f) fs_api \<Rightarrow> hyper_dir_layout \<Rightarrow> string \<Rightarrow> string \<Rightarrow> int \<Rightarrow> dir_scatter_inode list \<Rightarrow> gc_stats \<Rightarrow>
     ('w, gc_stats) io" where
  "gc_loop F layout bucket parent_root now [] stats = io_return stats"
| "gc_loop F layout bucket parent_root now (s # ss) stats =
     (if s_op s \<noteq> Delete then gc_loop F layout bucket parent_root now ss stats
      else io_bind (gc_tombstone F layout bucket parent_root now s) (\<lambda>out.
        gc_loop F layout bucket parent_root now ss (gc_count out stats)))"

definition fs_gc ::
  "('w, 'i, 'b, 'd, 'f) fs_api \<Rightarrow> hyper_dir_layout \<Rightarrow> string \<Rightarrow> uuid \<Rightarrow> ('w, gc_stats) io" where
  "fs_gc F layout bucket parent_dir_uuid =
     (let parent_uri = dir_uri (fa_ext F) layout bucket parent_dir_uuid in
      io_bind (staging_from F (fa_new_s3_uri F parent_uri)) (\<lambda>parent_staging.
      io_bind (list_scatter_inodes (fa_ext F) (fa_s3 F) parent_staging) (\<lambda>scatters.
      io_bind (now_ms (fa_s3 F)) (\<lambda>now.
      io_bind (fs_open F parent_uri True) (\<lambda>dir.
        gc_loop F layout bucket (h_root dir) now scatters
          \<lparr> tombstones_visited = 0, tombstones_skipped_retention = 0, tombstones_skipped_unfolded = 0,
            tombstones_reclaimed = 0, gc_errors = 0 \<rparr>)))))"

end
