(* ===== verification/Fs_Rename.thy ===== *)
theory Fs_Rename
  imports Fs_Ops
begin

text \<open>
  The cross-directory rename of \<open>src/fs.rs\<close>: the intent object that is its commit point, the forward
  steps that any client can repeat, the recovery of what a crashed client left behind, and the intents
  that record a displaced child.
\<close>

section \<open>The commit point\<close>

definition RENAME_CLAIM_RETRIES :: nat where "RENAME_CLAIM_RETRIES = 8"

definition rename_txn_id :: "ext \<Rightarrow> uuid \<Rightarrow> string \<Rightarrow> string" where
  "rename_txn_id x src_parent_uuid src_name = uuid_fmt x src_parent_uuid @ ''_'' @ b64_encode x B64URL src_name"

text \<open>The entry of a name in a freshly opened directory.\<close>

definition open_and_read ::
  "('w, 'i, 'b, 'd, 'f) fs_api \<Rightarrow> hyper_dir_layout \<Rightarrow> string \<Rightarrow> uuid \<Rightarrow> string \<Rightarrow> ('w, 'i dir_file_entry_raw result) io" where
  "open_and_read F layout bucket u name =
     io_bind (fs_open_dir F layout bucket u True) (\<lambda>src.
     io_try (io_lift (read_entry_raw (fa_dir F) src name)))"

fun claim_loop ::
  "('w, 'i, 'b, 'd, 'f) fs_api \<Rightarrow> hyper_dir_layout \<Rightarrow> string \<Rightarrow> string \<Rightarrow> uuid \<Rightarrow> string \<Rightarrow> uuid \<Rightarrow> string \<Rightarrow> nat \<Rightarrow>
     ('w, string \<times> rename_intent) io" where
  "claim_loop F layout bucket key src_parent_uuid src_name dst_parent_uuid dst_name 0 = io_fail ResourceBusy"
| "claim_loop F layout bucket key src_parent_uuid src_name dst_parent_uuid dst_name (Suc n) =
     io_bind (open_and_read F layout bucket src_parent_uuid src_name) (\<lambda>r0.
     io_bind (io_lift r0) (\<lambda>entry_raw.
       let intent =
         \<lparr> ri_src_parent = src_parent_uuid, ri_src_name = src_name, ri_dst_parent = dst_parent_uuid,
           ri_dst_name = dst_name, ri_child = e_uuid entry_raw, ri_inode = ino_as_slice (fa_ino F) (e_inode entry_raw) \<rparr> in
       (\<lambda>w. case put_object (fa_s3 F) key (rename_serialize (fa_ext F) intent) IfNoneMatch w of
          (Inr _, w') \<Rightarrow>
            io_bind (open_and_read F layout bucket src_parent_uuid src_name) (\<lambda>still.
              case still of
                Ok e \<Rightarrow>
                  if e_uuid e = e_uuid entry_raw then io_return (key, intent)
                  else io_bind (ignore_err (delete_object (fa_s3 F) key)) (\<lambda>_. io_fail NotFound)
              | Err err \<Rightarrow> io_bind (ignore_err (delete_object (fa_s3 F) key)) (\<lambda>_. io_fail err)
              | Panic \<Rightarrow> io_lift Panic) w'
        | (Inl err, w') \<Rightarrow>
            if is_conflict err
            then claim_loop F layout bucket key src_parent_uuid src_name dst_parent_uuid dst_name n w'
            else (Err Other, w'))))"

definition emit_rename_intent ::
  "('w, 'i, 'b, 'd, 'f) fs_api \<Rightarrow> hyper_dir_layout \<Rightarrow> string \<Rightarrow> uuid \<Rightarrow> string \<Rightarrow> uuid \<Rightarrow> string \<Rightarrow>
     ('w, string \<times> rename_intent) io" where
  "emit_rename_intent F layout bucket src_parent_uuid src_name dst_parent_uuid dst_name =
     claim_loop F layout bucket (txn_key layout (rename_txn_id (fa_ext F) src_parent_uuid src_name))
       src_parent_uuid src_name dst_parent_uuid dst_name RENAME_CLAIM_RETRIES"

section \<open>The forward steps\<close>

definition apply_rename_intent ::
  "('w, 'i, 'b, 'd, 'f) fs_api \<Rightarrow> hyper_dir_layout \<Rightarrow> string \<Rightarrow> rename_intent \<Rightarrow> ('w, unit) io" where
  "apply_rename_intent F layout bucket intent =
     io_bind (io_lift (ino_from_slice (fa_ino F) (ri_inode intent))) (\<lambda>inode_raw.
     io_bind (fs_open_dir F layout bucket (ri_dst_parent intent) False) (\<lambda>dst.
     io_bind (on_handle dst (insert_entry (fa_dir F) (ri_dst_name intent)
         (entry_from inode_raw (ri_child intent) (ri_dst_name intent)))) (\<lambda>_.
     io_bind (fs_open_dir F layout bucket (ri_src_parent intent) False) (\<lambda>src.
     io_bind (on_handle src (remove_entry (fa_dir F) (ri_src_name intent))) (\<lambda>_.
     io_return ())))))"

definition fs_rename_across ::
  "('w, 'i, 'b, 'd, 'f) fs_api \<Rightarrow> hyper_dir_layout \<Rightarrow> string \<Rightarrow> uuid \<Rightarrow> string \<Rightarrow> uuid \<Rightarrow> string \<Rightarrow> ('w, unit) io" where
  "fs_rename_across F layout bucket src_parent_uuid src_name dst_parent_uuid dst_name =
     io_bind (emit_rename_intent F layout bucket src_parent_uuid src_name dst_parent_uuid dst_name) (\<lambda>(key, intent).
     io_bind (apply_rename_intent F layout bucket intent) (\<lambda>_.
     ignore_err (delete_object (fa_s3 F) key)))"

definition fs_rename :: "('w, 'i, 'b, 'd, 'f) fs_api \<Rightarrow> string \<Rightarrow> string \<Rightarrow> (('i, 'b, 'd) dir_handle \<times> 'w, unit) io" where
  "fs_rename F old_name new_name = rename_within (fa_dir F) old_name new_name"

section \<open>Crash points\<close>

text \<open>The entry points with which the tests stop a client between two steps.\<close>

definition fs_rename_emit_intent_only ::
  "('w, 'i, 'b, 'd, 'f) fs_api \<Rightarrow> hyper_dir_layout \<Rightarrow> string \<Rightarrow> uuid \<Rightarrow> string \<Rightarrow> uuid \<Rightarrow> string \<Rightarrow> ('w, unit) io" where
  "fs_rename_emit_intent_only F layout bucket src_parent_uuid src_name dst_parent_uuid dst_name =
     io_bind (emit_rename_intent F layout bucket src_parent_uuid src_name dst_parent_uuid dst_name) (\<lambda>_. io_return ())"

definition fs_rename_apply_partial ::
  "('w, 'i, 'b, 'd, 'f) fs_api \<Rightarrow> hyper_dir_layout \<Rightarrow> string \<Rightarrow> uuid \<Rightarrow> string \<Rightarrow> uuid \<Rightarrow> string \<Rightarrow> ('w, unit) io" where
  "fs_rename_apply_partial F layout bucket src_parent_uuid src_name dst_parent_uuid dst_name =
     io_bind (emit_rename_intent F layout bucket src_parent_uuid src_name dst_parent_uuid dst_name) (\<lambda>(_, intent).
     io_bind (io_lift (ino_from_slice (fa_ino F) (ri_inode intent))) (\<lambda>inode_raw.
     io_bind (fs_open_dir F layout bucket (ri_dst_parent intent) False) (\<lambda>dst.
     io_bind (on_handle dst (insert_entry (fa_dir F) (ri_dst_name intent)
         (entry_from inode_raw (ri_child intent) (ri_dst_name intent)))) (\<lambda>_.
     io_return ()))))"

definition fs_unlink_crash_after_tombstone ::
  "('w, 'i, 'b, 'd, 'f) fs_api \<Rightarrow> hyper_dir_layout \<Rightarrow> string \<Rightarrow> uuid \<Rightarrow> string \<Rightarrow> uuid \<Rightarrow> ('w, unit) io" where
  "fs_unlink_crash_after_tombstone F layout bucket parent_dir_uuid name child_uuid =
     io_bind (staging_from F (fa_new_s3_uri F (file_uri (fa_ext F) layout bucket child_uuid))) (\<lambda>staging.
     io_bind (hf_load_inode (fa_hf F) staging) (\<lambda>(raw, _).
     io_bind (now_ms (fa_s3 F)) (\<lambda>now.
     io_bind (staging_from F (fa_new_s3_uri F (dir_uri (fa_ext F) layout bucket parent_dir_uuid))) (\<lambda>parent_staging.
     io_bind (emit_scatter_event (fa_ext F) (fa_s3 F) parent_staging name child_uuid
         (build_tombstone_body now 0 (ino_as_slice (fa_ino F) raw)) Delete) (\<lambda>_.
     io_bind (fs_open_dir F layout bucket parent_dir_uuid False) (\<lambda>parent.
     io_bind (on_handle parent (remove_entry (fa_dir F) name)) (\<lambda>_.
     io_return ())))))))"

definition fs_link_bump_only ::
  "('w, 'i, 'b, 'd, 'f) fs_api \<Rightarrow> hyper_dir_layout \<Rightarrow> string \<Rightarrow> uuid \<Rightarrow> ('w, unit) io" where
  "fs_link_bump_only F layout bucket target_file_uuid =
     io_bind (adjust_nlink F (file_uri (fa_ext F) layout bucket target_file_uuid) 1) (\<lambda>_. io_return ())"

section \<open>Displaced children\<close>

definition fs_emit_reclaim_intent ::
  "('w, 'i, 'b, 'd, 'f) fs_api \<Rightarrow> hyper_dir_layout \<Rightarrow> uuid \<Rightarrow> string \<Rightarrow> uuid \<Rightarrow> bool \<Rightarrow> ('w, string) io" where
  "fs_emit_reclaim_intent F layout dst_parent dst_name displaced displaced_is_dir w =
     (let intent = \<lparr> rc_dst_parent = dst_parent, rc_dst_name = dst_name, rc_displaced = displaced,
            rc_displaced_is_dir = displaced_is_dir \<rparr> in
      case new_ulid (fa_s3 F) w of (ul, w1) \<Rightarrow>
      let key = reclaim_key layout (ulid_fmt (fa_ext F) ul) in
      case put_object (fa_s3 F) key (reclaim_serialize (fa_ext F) intent) IfNoneMatch w1 of
        (Inr _, w2) \<Rightarrow> (Ok key, w2)
      | (Inl _, w2) \<Rightarrow> (Err Other, w2))"

definition fs_delete_intent :: "('w, 'i, 'b, 'd, 'f) fs_api \<Rightarrow> string \<Rightarrow> ('w, unit) io" where
  "fs_delete_intent F key = delete_object (fa_s3 F) key"

section \<open>Recovery\<close>

definition recover_intent ::
  "('w, 'i, 'b, 'd, 'f) fs_api \<Rightarrow> hyper_dir_layout \<Rightarrow> string \<Rightarrow> string \<Rightarrow> ('w, nat) io" where
  "recover_intent F layout bucket key =
     io_bind (get_object_raw (fa_s3 F) key) (\<lambda>body.
       case rename_parse (fa_ext F) body of
         Ok intent \<Rightarrow>
           io_bind (apply_rename_intent F layout bucket intent) (\<lambda>_.
           io_bind (delete_object (fa_s3 F) key) (\<lambda>_. io_return 1))
       | Err e \<Rightarrow> io_return 0
       | Panic \<Rightarrow> io_lift Panic)"

text \<open>Whether the displaced child still has its name; an unreadable directory counts as \<open>no\<close>.\<close>

definition still_named ::
  "('w, 'i, 'b, 'd, 'f) fs_api \<Rightarrow> hyper_dir_layout \<Rightarrow> string \<Rightarrow> reclaim_intent \<Rightarrow> ('w, bool) io" where
  "still_named F layout bucket ri =
     io_bind (io_try (io_bind (fs_open_dir F layout bucket (rc_dst_parent ri) True) (\<lambda>dir.
         read_dir (fa_dir F) (h_root dir)))) (\<lambda>r.
       io_return (case r of
         Ok es \<Rightarrow> \<exists>e \<in> set es. d_name e = rc_dst_name ri \<and> d_uuid e = rc_displaced ri
       | _ \<Rightarrow> False))"

definition recover_reclaim ::
  "('w, 'i, 'b, 'd, 'f) fs_api \<Rightarrow> hyper_dir_layout \<Rightarrow> string \<Rightarrow> string \<Rightarrow> ('w, nat) io" where
  "recover_reclaim F layout bucket key =
     io_bind (get_object_raw (fa_s3 F) key) (\<lambda>body.
       case reclaim_parse (fa_ext F) body of
         Ok ri \<Rightarrow>
           io_bind (still_named F layout bucket ri) (\<lambda>still.
             if still then
               io_bind (now_ms (fa_s3 F)) (\<lambda>now.
                 if reclaim_intent_stale (fa_ext F) key now
                 then io_bind (delete_object (fa_s3 F) key) (\<lambda>_. io_return 0)
                 else io_return 0)
             else
               io_bind (fs_reclaim F layout bucket (rc_displaced ri) (rc_displaced_is_dir ri)) (\<lambda>_.
               io_bind (delete_object (fa_s3 F) key) (\<lambda>_. io_return 1)))
       | Err e \<Rightarrow> io_return 0
       | Panic \<Rightarrow> io_lift Panic)"

fun recover_objects ::
  "('w, 'i, 'b, 'd, 'f) fs_api \<Rightarrow> hyper_dir_layout \<Rightarrow> string \<Rightarrow> list_object list \<Rightarrow> nat \<Rightarrow> ('w, nat) io" where
  "recover_objects F layout bucket [] recovered = io_return recovered"
| "recover_objects F layout bucket (obj # objects) recovered =
     (case lo_key obj of
        None \<Rightarrow> recover_objects F layout bucket objects recovered
      | Some key \<Rightarrow>
          if ends_with key ''.intent'' then
            io_bind (recover_intent F layout bucket key) (\<lambda>n. recover_objects F layout bucket objects (recovered + n))
          else if ends_with key ''.reclaim'' then
            io_bind (recover_reclaim F layout bucket key) (\<lambda>n. recover_objects F layout bucket objects (recovered + n))
          else recover_objects F layout bucket objects recovered)"

fun recover_pages ::
  "('w, 'i, 'b, 'd, 'f) fs_api \<Rightarrow> hyper_dir_layout \<Rightarrow> string \<Rightarrow> (s3_error + list_object list) list \<Rightarrow> nat \<Rightarrow> ('w, nat) io" where
  "recover_pages F layout bucket [] recovered = io_return recovered"
| "recover_pages F layout bucket (page # pages) recovered =
     (case page of
        Inl _ \<Rightarrow> io_fail Other
      | Inr objects \<Rightarrow>
          io_bind (recover_objects F layout bucket objects recovered) (recover_pages F layout bucket pages))"

definition fs_recover_renames ::
  "('w, 'i, 'b, 'd, 'f) fs_api \<Rightarrow> hyper_dir_layout \<Rightarrow> string \<Rightarrow> ('w, nat) io" where
  "fs_recover_renames F layout bucket w =
     (case list_objects (fa_s3 F) (txn_prefix layout) w of (pages, w') \<Rightarrow> recover_pages F layout bucket pages 0 w')"

end
