(* ===== verification/Fs_Attr.thy ===== *)
theory Fs_Attr
  imports Fs_Rename
begin

text \<open>
  Attributes of \<open>src/fs.rs\<close> and \<open>src/file.rs\<close>: the stat calls, extended attributes as sidecar objects
  of a child, and the garbage collection of children that no directory references.
\<close>

section \<open>Stat\<close>

definition dir_stat :: "('w, 'i, 'b, 'd, 'f) fs_api \<Rightarrow> ('i, 'b, 'd) dir_handle \<Rightarrow> stat" where
  "dir_stat F h = fa_to_stat F 0 0 (h_inode h)"

definition stat_fast :: "('w, 'i, 'b, 'd, 'f) fs_api \<Rightarrow> string \<Rightarrow> ('w, stat) io" where
  "stat_fast F root =
     io_bind (hf_load_inode (fa_hf F) root) (\<lambda>(raw_inode, _). io_return (fa_to_stat F 0 0 raw_inode))"

definition update_stat_fast :: "('w, 'i, 'b, 'd, 'f) fs_api \<Rightarrow> string \<Rightarrow> stat \<Rightarrow> ('w, stat) io" where
  "update_stat_fast F root st =
     io_bind (hf_load_inode (fa_hf F) root) (\<lambda>(raw_inode, od_state).
       case fa_update_stat F st raw_inode of (_, inode) \<Rightarrow>
       io_bind (hf_flush_inode (fa_hf F) root inode od_state FlagUpdate) (\<lambda>_.
       io_return (fa_to_stat F (st_dev st) (st_rdev st) inode)))"

definition update_stat ::
  "('w, 'i, 'b, 'd, 'f) fs_api \<Rightarrow> stat \<Rightarrow> (('i, 'b, 'd) dir_handle \<times> 'w, stat) io" where
  "update_stat F st = (\<lambda>(h, w).
     case fa_update_stat F st (h_inode h) of (st', inode) \<Rightarrow>
     io_bind (hf_flush (fa_hf F)) (\<lambda>_. io_return st') (h\<lparr>h_inode := inode\<rparr>, w))"

definition fs_chmod ::
  "('w, 'i, 'b, 'd, 'f) fs_api \<Rightarrow> u32 \<Rightarrow> (('i, 'b, 'd) dir_handle \<times> 'w, stat) io" where
  "fs_chmod F mode = (\<lambda>(h, w).
     let st = dir_stat F h in
     update_stat F (st\<lparr>st_mode := or (and (st_mode st) S_IFMT) (and mode (not S_IFMT))\<rparr>) (h, w))"

definition fs_chown ::
  "('w, 'i, 'b, 'd, 'f) fs_api \<Rightarrow> u32 \<Rightarrow> u32 \<Rightarrow> (('i, 'b, 'd) dir_handle \<times> 'w, stat) io" where
  "fs_chown F uid gid = (\<lambda>(h, w). update_stat F ((dir_stat F h)\<lparr>st_uid := uid, st_gid := gid\<rparr>) (h, w))"

definition hyper_stat_fast :: "('w, 'i, 'b, 'd, 'f) fs_api \<Rightarrow> staging_config \<Rightarrow> ('w, stat) io" where
  "hyper_stat_fast F config =
     io_bind (io_lift (to_dir_staging_config config)) (\<lambda>dir_config.
     io_bind (staging_from F dir_config) (stat_fast F))"

definition hyper_update_stat_fast :: "('w, 'i, 'b, 'd, 'f) fs_api \<Rightarrow> staging_config \<Rightarrow> stat \<Rightarrow> ('w, stat) io" where
  "hyper_update_stat_fast F config st = io_bind (staging_from F config) (\<lambda>root. update_stat_fast F root st)"

definition fs_getattr :: "('w, 'i, 'b, 'd, 'f) fs_api \<Rightarrow> ('i, 'b, 'd) dir_handle \<Rightarrow> stat result" where
  "fs_getattr F h = Ok (dir_stat F h)"

definition fs_getattr_fast :: "('w, 'i, 'b, 'd, 'f) fs_api \<Rightarrow> string \<Rightarrow> ('w, stat) io" where
  "fs_getattr_fast F uri = hyper_stat_fast F (fa_new_s3_uri F uri)"

definition fs_setattr ::
  "('w, 'i, 'b, 'd, 'f) fs_api \<Rightarrow> stat \<Rightarrow> (('i, 'b, 'd) dir_handle \<times> 'w, stat) io" where
  "fs_setattr F st = update_stat F st"

definition fs_setattr_fast :: "('w, 'i, 'b, 'd, 'f) fs_api \<Rightarrow> string \<Rightarrow> stat \<Rightarrow> ('w, stat) io" where
  "fs_setattr_fast F uri st = hyper_update_stat_fast F (fa_new_s3_uri F uri) st"

section \<open>The calls on an open directory\<close>

definition dir_release :: "('w, 'i, 'b, 'd, 'f) fs_api \<Rightarrow> (('i, 'b, 'd) dir_handle \<times> 'w, u64) io" where
  "dir_release F = hf_flush (fa_hf F)"

definition fs_release :: "('w, 'i, 'b, 'd, 'f) fs_api \<Rightarrow> (('i, 'b, 'd) dir_handle \<times> 'w, u64) io" where
  "fs_release F = dir_release F"

definition fs_flush :: "('w, 'i, 'b, 'd, 'f) fs_api \<Rightarrow> (('i, 'b, 'd) dir_handle \<times> 'w, u64) io" where
  "fs_flush F = hf_flush (fa_hf F)"

definition fs_read_entry ::
  "('w, 'i, 'b, 'd, 'f) fs_api \<Rightarrow> ('i, 'b, 'd) dir_handle \<Rightarrow> string \<Rightarrow> ('w, 'i dir_file_entry) io" where
  "fs_read_entry F h name = read_entry (fa_dir F) (h_root h) name"

definition fs_resolve_entry ::
  "('w, 'i, 'b, 'd, 'f) fs_api \<Rightarrow> ('i, 'b, 'd) dir_handle \<Rightarrow> string \<Rightarrow> ('w, 'i dir_file_entry option) io" where
  "fs_resolve_entry F h name = resolve_entry (fa_dir F) h name"

definition fs_read_dir ::
  "('w, 'i, 'b, 'd, 'f) fs_api \<Rightarrow> ('i, 'b, 'd) dir_handle \<Rightarrow> ('w, 'i dir_file_entry list) io" where
  "fs_read_dir F h = read_dir (fa_dir F) (h_root h)"

section \<open>Extended attributes\<close>

definition fs_setxattr ::
  "('w, 'i, 'b, 'd, 'f) fs_api \<Rightarrow> hyper_dir_layout \<Rightarrow> uuid \<Rightarrow> bool \<Rightarrow> string \<Rightarrow> bytes \<Rightarrow> ('w, unit) io" where
  "fs_setxattr F layout uuid is_dir name value w =
     (case put_object (fa_s3 F) (xattr_key (fa_ext F) layout uuid is_dir name) value PutAlways w of
        (Inr _, w') \<Rightarrow> (Ok (), w')
      | (Inl _, w') \<Rightarrow> (Err Other, w'))"

definition fs_getxattr ::
  "('w, 'i, 'b, 'd, 'f) fs_api \<Rightarrow> hyper_dir_layout \<Rightarrow> uuid \<Rightarrow> bool \<Rightarrow> string \<Rightarrow> ('w, bytes option) io" where
  "fs_getxattr F layout uuid is_dir name w =
     (case get_object (fa_s3 F) (xattr_key (fa_ext F) layout uuid is_dir name) w of
        (Inr res, w') \<Rightarrow> (case g_body res of Some b \<Rightarrow> (Ok (Some b), w') | None \<Rightarrow> (Err Other, w'))
      | (Inl e, w') \<Rightarrow> if err_no_such_key e then (Ok None, w') else (Err Other, w'))"

definition xattr_name :: "ext \<Rightarrow> string \<Rightarrow> list_object \<Rightarrow> string option" where
  "xattr_name x pre obj =
     (case lo_key obj of
        None \<Rightarrow> None
      | Some k \<Rightarrow>
          (case strip_prefix pre k of
             None \<Rightarrow> None
           | Some seg \<Rightarrow>
               if seg = [] then None
               else (case b64_decode x B64URL seg of None \<Rightarrow> None | Some bs \<Rightarrow> from_utf8 bs)))"

fun xattr_pages :: "ext \<Rightarrow> string \<Rightarrow> (s3_error + delim_page) list \<Rightarrow> string list \<Rightarrow> string list result" where
  "xattr_pages x pre [] names = Ok names"
| "xattr_pages x pre (page # pages) names =
     (case page of
        Inl _ \<Rightarrow> Err Other
      | Inr pg \<Rightarrow> xattr_pages x pre pages (names @ List.map_filter (xattr_name x pre) (pg_contents pg)))"

definition fs_listxattr ::
  "('w, 'i, 'b, 'd, 'f) fs_api \<Rightarrow> hyper_dir_layout \<Rightarrow> uuid \<Rightarrow> bool \<Rightarrow> ('w, string list) io" where
  "fs_listxattr F layout uuid is_dir w =
     (let pre = xattr_prefix (fa_ext F) layout uuid is_dir in
      case fa_list_delim F pre ''/'' w of (pages, w') \<Rightarrow> (xattr_pages (fa_ext F) pre pages [], w'))"

definition fs_removexattr ::
  "('w, 'i, 'b, 'd, 'f) fs_api \<Rightarrow> hyper_dir_layout \<Rightarrow> uuid \<Rightarrow> bool \<Rightarrow> string \<Rightarrow> ('w, bool) io" where
  "fs_removexattr F layout uuid is_dir name =
     io_bind (fs_getxattr F layout uuid is_dir name) (\<lambda>v.
       if v = None then io_return False
       else
         io_bind (delete_object (fa_s3 F) (xattr_key (fa_ext F) layout uuid is_dir name)) (\<lambda>_.
         io_return True))"

section \<open>Garbage collection of orphans\<close>

definition namespace_uuid :: "ext \<Rightarrow> string \<Rightarrow> string option \<Rightarrow> uuid option" where
  "namespace_uuid x pre cp =
     (case cp of
        None \<Rightarrow> None
      | Some p \<Rightarrow>
          uuid_parse x (trim_end_matches (CHR ''/'') (case strip_prefix pre p of Some r \<Rightarrow> r | None \<Rightarrow> p)))"

fun namespace_pages :: "ext \<Rightarrow> string \<Rightarrow> (s3_error + delim_page) list \<Rightarrow> uuid list \<Rightarrow> uuid list result" where
  "namespace_pages x pre [] out = Ok out"
| "namespace_pages x pre (page # pages) out =
     (case page of
        Inl _ \<Rightarrow> Err Other
      | Inr pg \<Rightarrow> namespace_pages x pre pages (out @ List.map_filter (namespace_uuid x pre) (pg_common_prefixes pg)))"

definition list_namespace_uuids :: "('w, 'i, 'b, 'd, 'f) fs_api \<Rightarrow> string \<Rightarrow> ('w, uuid list) io" where
  "list_namespace_uuids F pre w =
     (case fa_list_delim F pre ''/'' w of (pages, w') \<Rightarrow> (namespace_pages (fa_ext F) pre pages [], w'))"

definition fs_list_dir_uuids :: "('w, 'i, 'b, 'd, 'f) fs_api \<Rightarrow> hyper_dir_layout \<Rightarrow> ('w, uuid list) io" where
  "fs_list_dir_uuids F layout = list_namespace_uuids F (layout_dir_prefix layout)"

definition fs_list_file_uuids :: "('w, 'i, 'b, 'd, 'f) fs_api \<Rightarrow> hyper_dir_layout \<Rightarrow> ('w, uuid list) io" where
  "fs_list_file_uuids F layout = list_namespace_uuids F (layout_file_prefix layout)"

text \<open>The UUIDs that directories reference; a directory that cannot be read contributes none.\<close>

fun referenced_loop ::
  "('w, 'i, 'b, 'd, 'f) fs_api \<Rightarrow> hyper_dir_layout \<Rightarrow> string \<Rightarrow> uuid list \<Rightarrow> uuid list \<Rightarrow> ('w, uuid list) io" where
  "referenced_loop F layout bucket [] referenced = io_return referenced"
| "referenced_loop F layout bucket (d # ds) referenced =
     io_bind (io_try (io_bind (fs_open_dir F layout bucket d True) (\<lambda>dir. read_dir (fa_dir F) (h_root dir)))) (\<lambda>r.
       referenced_loop F layout bucket ds
         (case r of Ok entries \<Rightarrow> referenced @ map d_uuid entries | _ \<Rightarrow> referenced))"

definition old_enough :: "int \<Rightarrow> int \<Rightarrow> stat \<Rightarrow> bool" where
  "old_enough now grace_ms st =
     (wrap_i64 (now - max i64_min (min i64_max (st_ctime st * 1000))) \<ge> grace_ms)"

text \<open>Purge the child at \<open>uri\<close> if its inode is older than the grace window.\<close>

definition purge_if_old ::
  "('w, 'i, 'b, 'd, 'f) fs_api \<Rightarrow> int \<Rightarrow> int \<Rightarrow> string \<Rightarrow> nat \<Rightarrow> ('w, nat) io" where
  "purge_if_old F now grace_ms uri reclaimed =
     io_bind (io_try (fs_getattr_fast F uri)) (\<lambda>r.
       case r of
         Ok st \<Rightarrow>
           if old_enough now grace_ms st then
             io_bind (io_try (reclaim_child_prefix F uri)) (\<lambda>q.
               io_return (case q of Ok _ \<Rightarrow> Suc reclaimed | _ \<Rightarrow> reclaimed))
           else io_return reclaimed
       | _ \<Rightarrow> io_return reclaimed)"

fun orphan_files ::
  "('w, 'i, 'b, 'd, 'f) fs_api \<Rightarrow> hyper_dir_layout \<Rightarrow> string \<Rightarrow> uuid list \<Rightarrow> int \<Rightarrow> int \<Rightarrow> uuid list \<Rightarrow> nat \<Rightarrow> ('w, nat) io" where
  "orphan_files F layout bucket referenced now grace_ms [] reclaimed = io_return reclaimed"
| "orphan_files F layout bucket referenced now grace_ms (fu # fus) reclaimed =
     (if fu \<in> set referenced then orphan_files F layout bucket referenced now grace_ms fus reclaimed
      else io_bind (purge_if_old F now grace_ms (file_uri (fa_ext F) layout bucket fu) reclaimed)
        (orphan_files F layout bucket referenced now grace_ms fus))"

fun orphan_dirs ::
  "('w, 'i, 'b, 'd, 'f) fs_api \<Rightarrow> hyper_dir_layout \<Rightarrow> string \<Rightarrow> uuid list \<Rightarrow> int \<Rightarrow> int \<Rightarrow> uuid list \<Rightarrow> nat \<Rightarrow> ('w, nat) io" where
  "orphan_dirs F layout bucket referenced now grace_ms [] reclaimed = io_return reclaimed"
| "orphan_dirs F layout bucket referenced now grace_ms (du # dus) reclaimed =
     (if du = 0 \<or> du \<in> set referenced then orphan_dirs F layout bucket referenced now grace_ms dus reclaimed
      else
        io_bind (io_try (io_bind (fs_open_dir F layout bucket du True) (\<lambda>dir. read_dir (fa_dir F) (h_root dir)))) (\<lambda>r.
          if (case r of Ok es \<Rightarrow> es = [] | _ \<Rightarrow> False) then
            io_bind (purge_if_old F now grace_ms (dir_uri (fa_ext F) layout bucket du) reclaimed)
              (orphan_dirs F layout bucket referenced now grace_ms dus)
          else orphan_dirs F layout bucket referenced now grace_ms dus reclaimed))"

definition fs_gc_orphans ::
  "('w, 'i, 'b, 'd, 'f) fs_api \<Rightarrow> hyper_dir_layout \<Rightarrow> string \<Rightarrow> nat \<Rightarrow> ('w, nat) io" where
  "fs_gc_orphans F layout bucket grace =
     io_bind (fs_list_dir_uuids F layout) (\<lambda>ds.
     io_bind (referenced_loop F layout bucket ds []) (\<lambda>referenced.
     io_bind (now_ms (fa_s3 F)) (\<lambda>now.
       let grace_ms = (if int grace \<le> i64_max then int grace else i64_max) in
     io_bind (fs_list_file_uuids F layout) (\<lambda>fus.
     io_bind (orphan_files F layout bucket referenced now grace_ms fus 0) (\<lambda>reclaimed.
     io_bind (fs_list_dir_uuids F layout) (\<lambda>dus.
       orphan_dirs F layout bucket referenced now grace_ms dus reclaimed))))))"

end
