(* ===== verification/Fs_Store.thy ===== *)
theory Fs_Store
  imports Fs_Attr
begin

text \<open>
  What the file-system operations rely on. The locale \<open>inode_store\<close> states the optimistic concurrency
  of inode objects with any interference by other clients: a load returns the current inode and a
  token, and a flush that succeeds replaced, in one instant and changing no other inode, exactly the
  inode that its token stands for. The locale
  \<open>fs_store\<close> adds, for a store without other clients, where the library's calls take effect: a staging's
  root is the key of its URI, a flush touches its own prefix only, and an unlink removes its prefix and
  nothing else. \<open>mem_fs\<close> is an instance in memory.
\<close>

section \<open>Inode objects under concurrency\<close>

locale inode_store = inode_laws "fa_ino F"
  for F :: "('w, 'i, 'b, 'd, 'f) fs_api" +
  fixes env :: "'w \<Rightarrow> 'w \<Rightarrow> bool"
    and ino :: "'w \<Rightarrow> string \<Rightarrow> 'i option"
    and seen :: "string \<Rightarrow> 'd \<Rightarrow> 'i \<Rightarrow> bool"
  assumes is_trans: "env w w1 \<Longrightarrow> env w1 w2 \<Longrightarrow> env w w2"
    and is_uri: "root_uri (fa_new_s3_uri F uri) = uri"
    and is_root: "hf_staging_from (fa_hf F) (''s3://'' @ bucket @ ''/'' @ key) w = (Ok root, w') \<Longrightarrow>
      CHR ''/'' \<notin> set bucket \<Longrightarrow> root = key"
    and is_staging: "hf_staging_from (fa_hf F) uri w = (ir, w') \<Longrightarrow> env w w'"
    and is_now: "fa_now F w = (t, w') \<Longrightarrow> env w w'"
    and is_load: "hf_load_inode (fa_hf F) root w = (il, w') \<Longrightarrow> env w w'"
    and is_load_Ok: "hf_load_inode (fa_hf F) root w = (Ok (i, d), w') \<Longrightarrow> ino w' root = Some i \<and> seen root d i"
    and is_flush_Ok: "hf_flush_inode (fa_hf F) root j d fl w = (Ok d', w') \<Longrightarrow> seen root d i \<Longrightarrow>
      \<exists>w1. env w w1 \<and> ino w1 root = Some i \<and> ino w' = (ino w1)(root \<mapsto> j)"
    and is_flush_conflict: "hf_flush_inode (fa_hf F) root j d fl w = (Err AlreadyExists, w') \<Longrightarrow> env w w'"

section \<open>A store of children without other clients\<close>

locale fs_store = directory "fa_dir F" objs env tab com ino + inode_laws "fa_ino F"
  for F :: "('w, 'i, 'b, 'd, 'f) fs_api" and objs env tab com ino +
  assumes new_uri [simp]: "root_uri (fa_new_s3_uri F uri) = uri"
    and staging_env: "hf_staging_from (fa_hf F) uri w = (sr, w') \<Longrightarrow> env w w'"
    and staging_Ok: "hf_staging_from (fa_hf F) (''s3://'' @ bucket @ ''/'' @ key) w = (Ok root, w') \<Longrightarrow>
      CHR ''/'' \<notin> set bucket \<Longrightarrow> root = key"
    and staging_NotFound: "hf_staging_from (fa_hf F) (''s3://'' @ bucket @ ''/'' @ key) w = (Err NotFound, w') \<Longrightarrow>
      CHR ''/'' \<notin> set bucket \<Longrightarrow> ino w' key = None"
    and flush_inode_Ok: "hf_flush_inode (fa_hf F) root i d fl w = (Ok d', w') \<Longrightarrow> ino w' root = Some i"
    and flush_inode_any: "hf_flush_inode (fa_hf F) root i d fl w = (fir, w') \<Longrightarrow>
      (\<forall>k. \<not> hf_owned root k \<longrightarrow> objs w' k = objs w k) \<and>
      (\<forall>c. c \<noteq> root \<longrightarrow> com w' c = com w c \<and> ino w' c = ino w c) \<and> ino w' root \<in> {ino w root, Some i}"
    and unlink_Ok: "hf_unlink (fa_hf F) root w = (Ok u, w') \<Longrightarrow> ino w' root = None"
    and read_NotFound: "hf_bmap_read (fa_hf F) root i w = (Err NotFound, w') \<Longrightarrow> ino w root \<noteq> Some i"
    and unlink_any: "hf_unlink (fa_hf F) root w = (ur, w') \<Longrightarrow>
      (\<forall>k. objs w' k = objs w k \<or> objs w' k = None \<and> prefix (root @ ''/'') k) \<and>
      (ino w' root = ino w root \<and> com w' root = com w root \<or> ino w' root = None) \<and>
      (\<forall>c. c \<noteq> root \<and> \<not> prefix (root @ ''/'') c \<longrightarrow> com w' c = com w c \<and> ino w' c = ino w c)"
    and put_refused: "put_object (fa_s3 F) k b IfNoneMatch w = (Inl e, w') \<Longrightarrow> is_conflict e \<Longrightarrow> objs w' k \<noteq> None"
    and now_env: "fa_now F w = (t, w') \<Longrightarrow> env w w'"
    and uuid_env: "fa_new_uuid F w = (nu, w') \<Longrightarrow> env w w'"
    and delim_env: "fa_list_delim F p dl w = (dp, w') \<Longrightarrow> env w w'"
    and flush_hook: "fa_flush_inode F (Some hook) root i d fl =
      io_bind (hook (ino_as_slice (fa_ino F) i) fl) (\<lambda>_. hf_flush_inode (fa_hf F) root i d fl)"
    and flush_no_hook: "fa_flush_inode F None = hf_flush_inode (fa_hf F)"
    and create_env: "fa_staging_create F uri w = (cr, w') \<Longrightarrow> env w w'"
    and create_Ok: "fa_staging_create F (''s3://'' @ bucket @ ''/'' @ key) w = (Ok root, w') \<Longrightarrow>
      CHR ''/'' \<notin> set bucket \<Longrightarrow> root = key"

section \<open>An instance in memory\<close>

type_synonym mem_fs_world = "mem_inode hf_world"

definition mem_delim :: "string \<Rightarrow> string \<Rightarrow> mem_fs_world \<Rightarrow> (s3_error + delim_page) list \<times> mem_fs_world" where
  "mem_delim p dl w =
     (let keys = filter (prefix p) (remdups (map fst (mw_objs w) @ map (\<lambda>(r, _). r @ ''/inode'') (fw_dirs w)));
          rest = (\<lambda>k. drop (length p) k) in
      ([Inr \<lparr> pg_contents = map (\<lambda>k. \<lparr> lo_key = Some k, lo_last_modified = Some 0 \<rparr>)
                 (filter (\<lambda>k. CHR ''/'' \<notin> set (rest k)) keys),
               pg_common_prefixes = map Some (remdups (map (\<lambda>k. p @ takeWhile (\<lambda>c. c \<noteq> CHR ''/'') (rest k) @ ''/'')
                 (filter (\<lambda>k. CHR ''/'' \<in> set (rest k)) keys))) \<rparr>], w))"

definition mem_flush_hook ::
  "mem_fs_world flush_hook option \<Rightarrow> string \<Rightarrow> mem_inode \<Rightarrow> mem_inode option \<Rightarrow> flush_inode_flag \<Rightarrow>
     (mem_fs_world, mem_inode option) io" where
  "mem_flush_hook hook root i d fl =
     (case hook of
        None \<Rightarrow> mem_flush_inode root i d fl
      | Some f \<Rightarrow> io_bind (f (mem_inode_bytes i) fl) (\<lambda>_. mem_flush_inode root i d fl))"

definition mem_stat :: "u64 \<Rightarrow> u64 \<Rightarrow> mem_inode \<Rightarrow> stat" where
  "mem_stat dev rdev i = \<lparr> st_mode = mi_mode i, st_uid = 0, st_gid = 0, st_ctime = sint (mi_ctime i), st_dev = dev, st_rdev = rdev \<rparr>"

definition mem_update_stat :: "stat \<Rightarrow> mem_inode \<Rightarrow> stat \<times> mem_inode" where
  "mem_update_stat st i =
     (let i' = i\<lparr>mi_mode := st_mode st, mi_ctime := of_int (st_ctime st)\<rparr> in (mem_stat (st_dev st) (st_rdev st) i', i'))"

definition mem_fs ::
  "(mem_fs_world, mem_inode, (u64 \<times> mem_inode dir_file_entry_raw) list, mem_inode option, string) fs_api" where
  "mem_fs = \<lparr> fa_dir = mem_deps,
     fa_now = (\<lambda>w. (Some (of_int (mw_now w div 1000), 0), w)),
     fa_new_uuid = (\<lambda>w. (of_nat (mw_next w), w\<lparr>mw_next := Suc (mw_next w)\<rparr>)),
     fa_list_delim = mem_delim,
     fa_new_s3_uri = (\<lambda>uri. \<lparr> root_uri = uri, inode_file_uri = uri @ ''/inode'' \<rparr>),
     fa_staging_create = mem_staging_from,
     fa_flush_inode = mem_flush_hook,
     fa_bmap_new = Ok [],
     fa_default_dir = (\<lambda>mode. \<lparr> mi_mode = mode, mi_nlink = 1, mi_ctime = 0, mi_ctime_nsec = 0 \<rparr>),
     fa_no_state = None, fa_clear_attr_dirty = (\<lambda>i. i), fa_get_last_cno = (\<lambda>_. 0), fa_set_last_ondisk_cno = (\<lambda>_ i. i),
     fa_to_raw = (\<lambda>i _. i), fa_to_stat = mem_stat, fa_update_stat = mem_update_stat,
     fa_file_create = (\<lambda>hook uri rdonly mode.
       io_bind (mem_staging_from uri) (\<lambda>root.
       io_bind (mem_flush_hook (Some hook) root \<lparr> mi_mode = mode, mi_nlink = 1, mi_ctime = 0, mi_ctime_nsec = 0 \<rparr> None FlagCreate)
         (\<lambda>_. io_return root))),
     fa_file_flush = io_return 1 \<rparr>"

lemma mem_fs_sel [simp]:
  "fa_dir mem_fs = mem_deps" "fa_list_delim mem_fs = mem_delim"
  "fa_now mem_fs = (\<lambda>w. (Some (of_int (mw_now w div 1000), 0), w))"
  "fa_new_uuid mem_fs = (\<lambda>w. (of_nat (mw_next w), w\<lparr>mw_next := Suc (mw_next w)\<rparr>))"
  "fa_new_s3_uri mem_fs = (\<lambda>uri. \<lparr> root_uri = uri, inode_file_uri = uri @ ''/inode'' \<rparr>)"
  "fa_staging_create mem_fs = mem_staging_from" "fa_flush_inode mem_fs = mem_flush_hook"
  "fa_bmap_new mem_fs = Ok []" "fa_no_state mem_fs = None" "fa_clear_attr_dirty mem_fs = (\<lambda>i. i)"
  "fa_get_last_cno mem_fs = (\<lambda>_. 0)" "fa_set_last_ondisk_cno mem_fs = (\<lambda>_ i. i)" "fa_to_raw mem_fs = (\<lambda>i _. i)"
  "fa_default_dir mem_fs = (\<lambda>mode. \<lparr> mi_mode = mode, mi_nlink = 1, mi_ctime = 0, mi_ctime_nsec = 0 \<rparr>)"
  "fa_to_stat mem_fs = mem_stat" "fa_update_stat mem_fs = mem_update_stat"
  by (simp_all add: mem_fs_def)

lemma mem_staging_uri:
  "CHR ''/'' \<notin> set bucket \<Longrightarrow> mem_staging_from (''s3://'' @ bucket @ ''/'' @ key) w = (Ok key, w)"
  using split_once_sep [of "CHR ''/''" bucket key] by (simp add: mem_staging_from_def strip_prefix_def)

lemma mem_staging_same: "mem_staging_from uri w = (r, w') \<Longrightarrow> w' = w"
  by (auto simp: mem_staging_from_def split: option.splits prod.splits)

lemma mem_fs_inodes: "inode_laws (fa_ino mem_fs)"
  using mem_inodes.inode_laws_axioms by simp

interpretation mem_inode_store: inode_store mem_fs mem_env mem_ino "\<lambda>root d i. d = Some i"
proof (intro inode_store.intro inode_store_axioms.intro mem_fs_inodes, goal_cases)
  case (1 w w1 w2)
  then show ?case by (simp add: mem_env_def)
next
  case (2 uri)
  show ?case by simp
next
  case (3 bucket key w root w')
  then show ?case using mem_staging_uri [of bucket key w] by simp
next
  case (4 uri w ir w')
  then show ?case by (auto simp: mem_env_def dest: mem_staging_same)
next
  case (5 w t w')
  then show ?case by (auto simp: mem_env_def)
next
  case (6 root w il w')
  then show ?case by (auto simp: mem_load_def mem_env_def split: option.splits)
next
  case (7 root w i d w')
  then show ?case by (auto simp: mem_load_def mem_ino_def split: option.splits)
next
  case (8 root j d fl w d' w' i)
  then show ?case
    by (cases "map_of (fw_dirs w) root")
      (auto simp: mem_flush_inode_def mem_ino_def mem_env_def update_conv' fun_eq_iff split: if_splits intro!: exI [of _ w])
next
  case (9 root j d fl w w')
  then show ?case by (auto simp: mem_flush_inode_def mem_env_def split: if_splits)
qed

interpretation mem_fs_store: fs_store mem_fs mem_objs mem_env map_of mem_com mem_ino
proof (intro fs_store.intro fs_store_axioms.intro mem_fs_inodes, goal_cases)
  case 1
  show ?case using mem_directory.directory_axioms by simp
next
  case (2 uri)
  show ?case by simp
next
  case (3 uri w sr w')
  then show ?case by (auto simp: mem_env_def dest: mem_staging_same)
next
  case (4 bucket key w root w')
  then show ?case using mem_staging_uri [of bucket key w] by simp
next
  case (5 bucket key w w')
  then show ?case using mem_staging_uri [of bucket key w] by simp
next
  case (6 root i d fl w d' w')
  then show ?case by (auto simp: mem_flush_inode_def mem_ino_def update_conv' split: if_splits)
next
  case (7 root i d fl w fir w')
  then show ?case
    by (auto simp: mem_flush_inode_def mem_ino_def mem_com_def update_conv' split: if_splits)
next
  case (8 root w u w')
  then show ?case by (auto simp: mem_unlink_def mem_ino_def delete_conv')
next
  case (9 root i w w')
  then show ?case by (auto simp: mem_read_def mem_ino_def split: option.splits if_splits)
next
  case (10 root w ur w')
  then have w': "w' = w\<lparr>mw_objs := filter (\<lambda>(k, _). \<not> prefix (root @ ''/'') k) (mw_objs w),
      fw_dirs := AList.delete root (fw_dirs w)\<rparr>" by (simp add: mem_unlink_def)
  have "map_of (filter (\<lambda>(k, _). \<not> prefix (root @ ''/'') k) os) k = (if prefix (root @ ''/'') k then None else map_of os k)"
    for k and os :: "(string \<times> bytes \<times> int) list"
    by (induction os) auto
  then show ?case unfolding w' by (auto simp: mem_objs_def mem_ino_def mem_com_def delete_conv')
next
  case (11 k b w e w')
  then show ?case by (auto simp: mem_put_def split: if_splits)
next
  case (12 w t w')
  then show ?case by (auto simp: mem_env_def)
next
  case (13 w nu w')
  then show ?case by (auto simp: mem_env_def mem_objs_def fun_eq_iff)
next
  case (14 p dl w dp w')
  then show ?case by (auto simp: mem_delim_def mem_env_def Let_def)
next
  case (15 hook root i d fl)
  show ?case by (simp add: mem_flush_hook_def)
next
  case 16
  show ?case by (simp add: mem_flush_hook_def fun_eq_iff)
next
  case (17 uri w cr w')
  then show ?case by (auto simp: mem_env_def dest: mem_staging_same)
next
  case (18 bucket key w root w')
  then show ?case using mem_staging_uri [of bucket key w] by simp
qed

end
