(* ===== verification/Fs_Links.thy ===== *)
theory Fs_Links
  imports Fs_Store
begin

text \<open>
  Link counts: \<open>adjust_nlink\<close> is one atomic read-modify-write of the child's inode, whatever other clients
  do: the inode it replaces is the one whose count it read, and the count it writes saturates at zero.
\<close>

section \<open>The new count\<close>

lemma nlink_after_exact:
  assumes "uint n < 2 ^ 63 - 1" and "delta \<in> {- 1, 1}"
  shows "uint (nlink_after n delta) = max 0 (uint n + delta)"
proof -
  have n: "0 \<le> uint n" by simp
  have d: "- 1 \<le> delta" "delta \<le> 1" using assms(2) by auto
  have i64: "is_i64 (uint n)" "is_i64 (uint n + delta)"
    using assms(1) n d unfolding is_i64_def i64_min_def i64_max_def by linarith+
  have "max 0 (uint n + delta) < 2 ^ 64" using assms by auto
  then show ?thesis
    using wrap_i64_id [OF i64(1)] wrap_i64_id [OF i64(2)]
    by (simp add: nlink_after_def unsigned_of_int take_bit_eq_mod)
qed

section \<open>One atomic step\<close>

lemma io_tryE:
  assumes "io_try m w = (Ok q, w')"
  shows "m w = (q, w')" "q \<noteq> Panic"
  using assms by (auto simp: io_try_def split: prod.splits result.splits)

text \<open>What an update of the count leaves behind: the inode objects of the instant of the write, with
  the one inode replaced by itself under the new count and a new change time.\<close>

definition nlink_written ::
  "'i inode_api \<Rightarrow> ('w \<Rightarrow> string \<Rightarrow> 'i option) \<Rightarrow> string \<Rightarrow> int \<Rightarrow> u64 \<Rightarrow> 'w \<Rightarrow> 'w \<Rightarrow> bool" where
  "nlink_written ia ino root delta n w1 w' =
     (\<exists>i s ns. ino w1 root = Some i \<and> n = nlink_after (ino_nlink ia i) delta \<and>
        ino w' = (ino w1)(root \<mapsto> ino_set_ctime ia s ns (ino_set_nlink ia n i)))"

context inode_store
begin

lemma nlink_loop_atomic:
  "nlink_loop F root delta now n w = (Ok m, w') \<Longrightarrow> \<exists>w1. env w w1 \<and> nlink_written (fa_ino F) ino root delta m w1 w'"
proof (induction n arbitrary: w)
  case (Suc n)
  let ?raw' = "\<lambda>raw. ino_set_ctime (fa_ino F) (fst now) (snd now)
           (ino_set_nlink (fa_ino F) (nlink_after (ino_nlink (fa_ino F) raw) delta) raw)"
  from Suc.prems obtain raw od w1 r w2 where
    l: "hf_load_inode (fa_hf F) root w = (Ok (raw, od), w1)" and
    t: "io_try (hf_flush_inode (fa_hf F) root (?raw' raw) od FlagUpdate) w1 = (Ok r, w2)" and
    rest: "(case r of Ok _ \<Rightarrow> io_return (nlink_after (ino_nlink (fa_ino F) raw) delta)
       | Err e \<Rightarrow> if e = AlreadyExists then nlink_loop F root delta now n else io_fail e
       | Panic \<Rightarrow> io_lift Panic) w2 = (Ok m, w')"
    by (auto elim!: io_bind_OkE)
  note e1 = is_load [OF l] and seen = is_load_Ok [OF l] and fl = io_tryE(1) [OF t]
  show ?case
  proof (cases r)
    case (Ok d')
    from is_flush_Ok [OF fl [unfolded Ok]] seen obtain w3 where
      w3: "env w1 w3" "ino w3 root = Some raw" "ino w2 = (ino w3)(root \<mapsto> ?raw' raw)" by blast
    have m: "m = nlink_after (ino_nlink (fa_ino F) raw) delta" "w' = w2" using rest Ok by (simp_all add: io_return_def)
    have "nlink_written (fa_ino F) ino root delta m w3 w'"
      unfolding nlink_written_def by (intro exI conjI) (use w3(2,3) m in simp_all)
    with is_trans [OF e1 w3(1)] show ?thesis by blast
  next
    case (Err e)
    with rest have "e = AlreadyExists" and again: "nlink_loop F root delta now n w2 = (Ok m, w')"
      by (auto simp: io_fail_def split: if_splits)
    with is_flush_conflict fl Err have "env w1 w2" by blast
    from Suc.IH [OF again] is_trans [OF e1 this] show ?thesis using is_trans by blast
  next
    case Panic
    with io_tryE(2) [OF t] show ?thesis by simp
  qed
qed (simp add: io_fail_def)

lemma adjust_nlink_run:
  assumes b: "CHR ''/'' \<notin> set bucket" and run: "adjust_nlink F (''s3://'' @ bucket @ ''/'' @ key) delta w = (Ok m, w')"
  shows "\<exists>w1. env w w1 \<and> nlink_written (fa_ino F) ino key delta m w1 w'"
proof -
  from run obtain root w0 now w2 where
    s: "hf_staging_from (fa_hf F) (''s3://'' @ bucket @ ''/'' @ key) w = (Ok root, w0)" and
    n: "(case fa_now F w0 of (t, w') \<Rightarrow> (Ok (case t of Some n \<Rightarrow> n | None \<Rightarrow> (0, 0)), w')) = (Ok now, w2)" and
    l: "nlink_loop F root delta now NLINK_RETRIES w2 = (Ok m, w')"
    unfolding adjust_nlink_def staging_from_def is_uri by (auto elim!: io_bind_OkE)
  from n is_now have "env w0 w2" by (auto split: prod.splits)
  with is_staging [OF s] have "env w w2" by (rule is_trans)
  with nlink_loop_atomic [OF l] is_root [OF s b] show ?thesis using is_trans by blast
qed

lemma nlink_written_sel:
  assumes "nlink_written (fa_ino F) ino root delta n w1 w'"
  obtains i j where "ino w1 root = Some i" "ino w' = (ino w1)(root \<mapsto> j)" "n = nlink_after (ino_nlink (fa_ino F) i) delta"
    "ino_nlink (fa_ino F) j = n" "ino_mode (fa_ino F) j = ino_mode (fa_ino F) i"
proof -
  from assms obtain i s ns where i: "ino w1 root = Some i" "n = nlink_after (ino_nlink (fa_ino F) i) delta"
    "ino w' = (ino w1)(root \<mapsto> ino_set_ctime (fa_ino F) s ns (ino_set_nlink (fa_ino F) n i))"
    unfolding nlink_written_def by blast
  show thesis by (rule that [OF i(1,3,2)]) simp_all
qed

end

section \<open>Properties\<close>

text \<open>C15. \<open>adjust_nlink\<close> on the URI of a child is one atomic step on that child's inode, whatever other
  clients do between its load and its write: if it returns a count, there was an instant, reached by
  other clients alone, at which the child had an inode, and the write took that instant's inode objects
  and replaced this one inode, and no other, by one with the returned count and the same mode. The
  returned count is the count of the inode replaced plus \<open>delta\<close>, saturating at zero, so no update by
  another client is lost.\<close>

theorem adjust_nlink_atomic:
  assumes "inode_store F env ino seen" and "delta \<in> {- 1, 1}" and "CHR ''/'' \<notin> set bucket"
    and "adjust_nlink F (''s3://'' @ bucket @ ''/'' @ key) delta w = (Ok m, w')"
  shows "\<exists>w1 i j. env w w1 \<and> ino w1 key = Some i \<and> ino w' = (ino w1)(key \<mapsto> j) \<and>
    ino_nlink (fa_ino F) j = m \<and> ino_mode (fa_ino F) j = ino_mode (fa_ino F) i \<and>
    m = nlink_after (ino_nlink (fa_ino F) i) delta \<and>
    (uint (ino_nlink (fa_ino F) i) < 2 ^ 63 - 1 \<longrightarrow> uint m = max 0 (uint (ino_nlink (fa_ino F) i) + delta))"
proof -
  from inode_store.adjust_nlink_run [OF assms(1,3,4)] obtain w1 where
    w1: "env w w1" "nlink_written (fa_ino F) ino key delta m w1 w'" by blast
  from inode_store.nlink_written_sel [OF assms(1) w1(2)] obtain i j where
    "ino w1 key = Some i" "ino w' = (ino w1)(key \<mapsto> j)" and m: "m = nlink_after (ino_nlink (fa_ino F) i) delta" and
    "ino_nlink (fa_ino F) j = m" "ino_mode (fa_ino F) j = ino_mode (fa_ino F) i" .
  with w1(1) nlink_after_exact [OF _ assms(2), of "ino_nlink (fa_ino F) i", folded m] show ?thesis
    by (intro exI [of _ w1] exI [of _ i] exI [of _ j]) simp
qed

definition link_world :: mem_fs_world where
  "link_world = \<lparr> mw_objs = [], mw_now = 5000, mw_next = 0,
     fw_dirs = [(''FILE/f'', \<lparr> mi_mode = 0x81A4, mi_nlink = 2, mi_ctime = 0, mi_ctime_nsec = 0 \<rparr>, []),
                (''FILE/g'', \<lparr> mi_mode = 0x81A4, mi_nlink = 7, mi_ctime = 0, mi_ctime_nsec = 0 \<rparr>, [])] \<rparr>"

lemma link_world_adjust:
  "adjust_nlink mem_fs (''s3://'' @ ''b'' @ ''/'' @ ''FILE/f'') (- 1) link_world =
     (Ok 1, link_world\<lparr>fw_dirs := [(''FILE/f'', \<lparr> mi_mode = 0x81A4, mi_nlink = 1, mi_ctime = 5, mi_ctime_nsec = 0 \<rparr>, []),
        (''FILE/g'', \<lparr> mi_mode = 0x81A4, mi_nlink = 7, mi_ctime = 0, mi_ctime_nsec = 0 \<rparr>, [])]\<rparr>)"
proof -
  have n: "nlink_after 2 (- 1) = 1" by (simp add: nlink_after_def wrap_i64_def)
  obtain r where r: "NLINK_RETRIES = Suc r" by (cases NLINK_RETRIES) (simp_all add: NLINK_RETRIES_def)
  have s: "mem_staging_from (''s3://'' @ ''b'' @ ''/'' @ ''FILE/f'') link_world = (Ok ''FILE/f'', link_world)"
    by (rule mem_staging_uri) simp
  show ?thesis
    unfolding adjust_nlink_def staging_from_def r using s
    by (simp add: io_bind_def n mem_load_def io_try_def mem_flush_inode_def mem_ino_def io_return_def link_world_def)
qed

text \<open>At a file with two links, beside another file: the instant of the write holds two links.\<close>

theorem adjust_nlink_atomic_witness:
  "\<exists>w1 i w'. mem_env link_world w1 \<and> mem_ino w1 ''FILE/f'' = Some i \<and> mi_nlink i = 2 \<and>
    adjust_nlink mem_fs (''s3://'' @ ''b'' @ ''/'' @ ''FILE/f'') (- 1) link_world = (Ok 1, w') \<and>
    mem_ino w' ''FILE/g'' = mem_ino w1 ''FILE/g'' \<and> map_option mi_nlink (mem_ino w' ''FILE/f'') = Some 1"
proof -
  have "CHR ''/'' \<notin> set ''b''" by simp
  from adjust_nlink_atomic [OF mem_inode_store.inode_store_axioms _ this link_world_adjust] obtain w1 i j where
    j: "mem_env link_world w1" "mem_ino w1 ''FILE/f'' = Some i" and
    w': "mem_ino (link_world\<lparr>fw_dirs := [(''FILE/f'', \<lparr> mi_mode = 0x81A4, mi_nlink = 1, mi_ctime = 5, mi_ctime_nsec = 0 \<rparr>, []),
        (''FILE/g'', \<lparr> mi_mode = 0x81A4, mi_nlink = 7, mi_ctime = 0, mi_ctime_nsec = 0 \<rparr>, [])]\<rparr>) = (mem_ino w1)(''FILE/f'' \<mapsto> j)"
      "mi_nlink j = 1" by auto
  have n: "mi_nlink i = 2" using j(2) mem_fs_store.com_env [OF j(1)] by (auto simp: mem_ino_def link_world_def)
  show ?thesis by (intro exI conjI, rule j(1), rule j(2), rule n, rule link_world_adjust) (use w' in simp_all)
qed

end
