(* ===== verification/Fs_Names.thy ===== *)
theory Fs_Names
  imports Fs_Links
begin

text \<open>
  Names that come and go: a scatter event that is the latest word on its name changes what the
  directory shows under that name and under no other. From this follow the properties of \<open>fs_unlink\<close>,
  \<open>fs_rmdir\<close> and \<open>fs_create_default\<close>.
\<close>

section \<open>One more scatter\<close>

definition newest :: "dir_scatter_inode set \<Rightarrow> dir_scatter_inode \<Rightarrow> bool" where
  "newest S s = (\<forall>s' \<in> S. s_filename s' = s_filename s \<longrightarrow> scatter_rank s' \<le> scatter_rank s)"

lemma latest_newest:
  assumes "inj_on s_key S" and "s \<in> S" and "newest S s"
  shows "latest_scatter S (s_filename s) = Some s"
proof -
  have "(THE r. r \<in> S \<and> s_filename r = s_filename s \<and>
      (\<forall>s' \<in> S. s_filename s' = s_filename s \<longrightarrow> scatter_rank s' \<le> scatter_rank r)) = s"
  proof (rule the_equality)
    fix r assume r: "r \<in> S \<and> s_filename r = s_filename s \<and>
      (\<forall>s' \<in> S. s_filename s' = s_filename s \<longrightarrow> scatter_rank s' \<le> scatter_rank r)"
    with assms(2,3) have "scatter_rank r = scatter_rank s" by (intro order_antisym) (auto simp: newest_def)
    then have "s_key r = s_key s" by (simp add: scatter_rank_def)
    with r assms(1,2) show "r = s" by (auto dest: inj_onD)
  qed (use assms in \<open>simp add: newest_def\<close>)
  with assms(2) show ?thesis by (auto simp: latest_scatter_def)
qed

lemma latest_other:
  assumes "nm \<noteq> s_filename s"
  shows "latest_scatter (insert s S) nm = latest_scatter S nm"
proof -
  have "(\<lambda>r. r \<in> insert s S \<and> s_filename r = nm \<and> (\<forall>s' \<in> insert s S. s_filename s' = nm \<longrightarrow> scatter_rank s' \<le> scatter_rank r)) =
      (\<lambda>r. r \<in> S \<and> s_filename r = nm \<and> (\<forall>s' \<in> S. s_filename s' = nm \<longrightarrow> scatter_rank s' \<le> scatter_rank r))"
    using assms by (intro ext) auto
  moreover have "(\<exists>s' \<in> insert s S. s_filename s' = nm) \<longleftrightarrow> (\<exists>s' \<in> S. s_filename s' = nm)" using assms by auto
  ultimately show ?thesis unfolding latest_scatter_def by presburger
qed

text \<open>The object of the scatter \<open>s\<close> was written, or was there before and nothing happened.\<close>

definition scatter_added ::
  "ext \<Rightarrow> ('w \<Rightarrow> string \<Rightarrow> s3_object option) \<Rightarrow> string \<Rightarrow> dir_scatter_inode \<Rightarrow> bytes \<Rightarrow> 'w \<Rightarrow> 'w \<Rightarrow> bool" where
  "scatter_added x objs root s buf w w' =
     (prefix (scatter_inodes_path root) (s_key s) \<and> scatter_key_ok x root (s_key s) \<and>
      (\<forall>k. k \<noteq> s_key s \<longrightarrow> objs w' k = objs w k) \<and>
      (if objs w (s_key s) = None
       then \<exists>ob. objs w' (s_key s) = Some ob \<and> ob_body ob = buf \<and> path_decode x (s_key s) (ob_mtime ob) = Ok s
       else objs w' = objs w \<and> s \<in> pending x (objs w) (scatter_inodes_path root)))"

lemma added_pending:
  assumes "scatter_added x objs root s buf w w'"
  shows "pending x (objs w') (scatter_inodes_path root) = insert s (pending x (objs w) (scatter_inodes_path root))"
proof (cases "objs w (s_key s) = None")
  case False
  with assms show ?thesis by (auto simp: scatter_added_def)
next
  case True
  with assms obtain ob where new: "objs w' (s_key s) = Some ob" "path_decode x (s_key s) (ob_mtime ob) = Ok s"
    "prefix (scatter_inodes_path root) (s_key s)" and old: "\<And>k. k \<noteq> s_key s \<Longrightarrow> objs w' k = objs w k"
    by (auto simp: scatter_added_def)
  show ?thesis
  proof (intro set_eqI iffI)
    fix r assume "r \<in> pending x (objs w') (scatter_inodes_path root)"
    then obtain k o' where r: "objs w' k = Some o'" "prefix (scatter_inodes_path root) k" "path_decode x k (ob_mtime o') = Ok r"
      by (auto simp: pending_def)
    show "r \<in> insert s (pending x (objs w) (scatter_inodes_path root))"
    proof (cases "k = s_key s")
      case True
      with r new show ?thesis by simp
    next
      case False
      with r old have "objs w k = Some o'" by simp
      with r(2,3) show ?thesis unfolding pending_def by blast
    qed
  next
    fix r assume r: "r \<in> insert s (pending x (objs w) (scatter_inodes_path root))"
    show "r \<in> pending x (objs w') (scatter_inodes_path root)"
    proof (cases "r = s")
      case True
      with new show ?thesis unfolding pending_def by blast
    next
      case False
      with r obtain k o' where k: "objs w k = Some o'" "prefix (scatter_inodes_path root) k" "path_decode x k (ob_mtime o') = Ok r"
        by (auto simp: pending_def)
      with \<open>objs w (s_key s) = None\<close> have "k \<noteq> s_key s" by auto
      with k old have "objs w' k = Some o'" by simp
      with k(2,3) show ?thesis unfolding pending_def by blast
    qed
  qed
qed

lemma added_dir_ok:
  assumes "scatter_added x objs root s buf w w'" and "dir_ok x (objs w) t root" and "storable (s_filename s)"
  shows "dir_ok x (objs w') t root"
proof -
  note d = dir_okD [OF assms(2)]
  have "folder_ok x root (objs w')"
    using d(1) assms(1) unfolding folder_ok_def scatter_added_def by metis
  with d(2,3,4) assms(3) show ?thesis
    unfolding dir_ok_def added_pending [OF assms(1)] by auto
qed

lemma added_lookup_other:
  assumes "scatter_added x objs root s buf w w'" and "dir_ok x (objs w) t root" and "nm \<noteq> s_filename s"
  shows "dir_lookup x ia (objs w') t root nm = dir_lookup x ia (objs w) t root nm"
proof -
  let ?S = "pending x (objs w) (scatter_inodes_path root)"
  have "objs w' (s_key r) = objs w (s_key r)" if r: "latest_scatter ?S nm = Some r" for r
  proof (cases "s_key r = s_key s")
    case True
    have "r \<in> ?S" using latest_scatter_Some(1) [OF dir_okD(4) [OF assms(2)] pending_inj r] .
    from pending_object [OF this] True have "objs w (s_key s) \<noteq> None" by simp
    with assms(1) show ?thesis by (simp add: scatter_added_def)
  next
    case False
    with assms(1) show ?thesis by (simp add: scatter_added_def)
  qed
  then show ?thesis
    unfolding dir_lookup_def added_pending [OF assms(1)] overlay_def latest_other [OF assms(3)]
    by (auto simp: scatter_entry_def split: option.splits)
qed

lemma added_lookup_newest:
  assumes "scatter_added x objs root s buf w w'" and "newest (pending x (objs w) (scatter_inodes_path root)) s"
  shows "dir_lookup x ia (objs w') t root (s_filename s) =
    (if s_op s = Create \<or> s_op s = Update then scatter_entry ia (objs w') s else None)"
proof -
  let ?S' = "pending x (objs w') (scatter_inodes_path root)"
  have "newest ?S' s" using assms(2) unfolding added_pending [OF assms(1)] newest_def by simp
  from latest_newest [OF pending_inj _ this] have "latest_scatter ?S' (s_filename s) = Some s"
    unfolding added_pending [OF assms(1)] by simp
  then show ?thesis by (simp add: dir_lookup_def overlay_def)
qed

section \<open>Emitting and opening\<close>

context fs_store
begin

lemma emit_any:
  assumes root: "CHR ''!'' \<notin> set root" and nm: "nm \<noteq> []" "utf8_valid nm" and op: "op \<noteq> Unknown"
    and run: "emit_scatter_event (fa_ext F) (fa_s3 F) root nm u buf op w = (r, w')"
  shows "env w w' \<and> r \<noteq> Ok () \<or>
    (\<exists>s. s_op s = op \<and> s_uuid s = u \<and> s_filename s = nm \<and> scatter_added (fa_ext F) objs root s buf w w' \<and>
      (\<forall>c. \<not> hf_owned c (s_key s) \<longrightarrow> com w' c = com w c \<and> ino w' c = ino w c))"
proof -
  obtain ul w1 where ul: "new_ulid (fa_s3 F) w = (ul, w1)" by (cases "new_ulid (fa_s3 F) w")
  note e1 = ulid_env [OF ul]
  have o1: "objs w1 = objs w" "com w1 = com w" "ino w1 = ino w" using env_quiet [OF e1] com_env [OF e1] by simp_all
  show ?thesis
  proof (cases "path_encode (fa_ext F) ul root nm u (op_u8 op)")
    case (Ok key)
    obtain pr w2 where put: "put_object (fa_s3 F) key buf IfNoneMatch w1 = (pr, w2)"
      by (cases "put_object (fa_s3 F) key buf IfNoneMatch w1")
    have w': "w' = w2" and r: "r = Ok () \<longleftrightarrow> (case pr of Inr _ \<Rightarrow> True | Inl e \<Rightarrow> is_conflict e)"
      using run ul Ok put op by (auto simp: emit_scatter_event_def split: sum.splits if_splits)
    let ?s = "\<lambda>t. \<lparr> s_key = key, s_op = op, s_ulid = ul, s_uuid = u, s_filename = nm, s_last_modified = t \<rparr>"
    have dec: "path_decode (fa_ext F) key t = Ok (?s t)" for t
      using path_roundtrip [OF root nm op_u8_less Ok] by simp
    have kp: "prefix (scatter_inodes_path root) key" "scatter_key_ok (fa_ext F) root key"
      using Ok nm op by (auto simp: path_encode_Ok scatter_inodes_path_def DEFAULT_DIR_INODE_SCATTER_FOLDER_def
          scatter_key_ok_def)
    have other: "\<forall>c. \<not> hf_owned c key \<longrightarrow> com w2 c = com w c \<and> ino w2 c = ino w c"
      using put_com [OF put] o1 by auto
    have written: ?thesis if "objs w1 key = None" "objs w2 = (objs w1)(key \<mapsto> ob)" "ob_body ob = buf" for ob
      using that kp dec other o1 unfolding w'
      by (intro disjI2 exI [of _ "?s (ob_mtime ob)"]) (auto simp: scatter_added_def)
    show ?thesis
    proof (cases pr)
      case (Inr et)
      from put_Ok [OF put [unfolded Inr]] env_quiet obtain ob where
        "objs w1 key = None" "objs w2 = (objs w1)(key \<mapsto> ob)" "ob_body ob = buf" by fastforce
      then show ?thesis by (rule written)
    next
      case (Inl e)
      from put_Err [OF put [unfolded Inl]] consider "env w1 w2"
        | w3 ob where "\<not> is_conflict e" "env w1 w3" "objs w3 key = None" "objs w2 = (objs w3)(key \<mapsto> ob)" "ob_body ob = buf"
        by auto
      then show ?thesis
      proof cases
        case 1
        have e2: "env w w'" using env_trans [OF e1 1] w' by simp
        show ?thesis
        proof (cases "is_conflict e")
          case False
          with e2 r Inl show ?thesis by simp
        next
          case True
          from put_refused [OF put [unfolded Inl] True] obtain ob where ob: "objs w2 key = Some ob" by auto
          have o2: "objs w2 = objs w" using env_quiet [OF e2] w' by simp
          have "?s (ob_mtime ob) \<in> pending (fa_ext F) (objs w) (scatter_inodes_path root)"
            unfolding pending_def using ob o2 kp(1) dec by auto
          then show ?thesis unfolding w' using ob o2 kp other
            by (intro disjI2 exI [of _ "?s (ob_mtime ob)"]) (simp add: scatter_added_def)
        qed
      next
        case 2
        then show ?thesis using env_quiet [OF 2(2)] by (intro written [of ob]) auto
      qed
    qed
  qed (use run ul e1 in \<open>auto simp: emit_scatter_event_def\<close>)
qed

lemma reads_staging [intro!]: "reads env (staging_from F c)"
  unfolding staging_from_def by (rule readsI) (rule staging_env)

lemma reads_now [intro!]: "reads env (now_ms (fa_s3 F))"
  by (rule readsI) (auto simp: now_ms_def split: prod.splits dest: clock_env)

lemma reads_refresh: "reads env (with_handle h (hf_refresh_bmap (fa_hf F)))"
  by (rule readsI) (auto simp: with_handle_def split: prod.splits dest: refresh_env)

lemma reads_open [intro!]: "reads env (hyper_open F c rdonly policy)" "reads env (fs_open F uri rdonly)"
  "reads env (fs_open_dir F layout bucket u rdonly)"
proof -
  have "reads env (dir_open (fa_dir F) root rdonly policy)" for root rdonly policy
    unfolding dir_open_def do_open_def by (auto intro: reads_refresh split: prod.splits)
  then show o: "reads env (hyper_open F c rdonly policy)" for c rdonly policy
    unfolding hyper_open_def by auto
  show "reads env (fs_open F uri rdonly)" "reads env (fs_open_dir F layout bucket u rdonly)"
    unfolding fs_open_dir_def fs_open_def by (rule o)+
qed

lemma do_open_run:
  assumes "do_open (fa_dir F) root rdonly policy 0 w = (Ok h, w')"
  shows "h_root h = root" "tab (h_bmap h) = com w root"
proof -
  from assms obtain i d w1 b w2 h0 where l: "hf_load_inode (fa_hf F) root w = (Ok (i, d), w1)"
    and b: "hf_bmap_read (fa_hf F) root i w1 = (Ok b, w2)"
    and h0: "h0 = \<lparr> h_bmap = b, h_root = root, h_rdonly = rdonly, h_policy = policy, h_inode = i, h_od = d \<rparr>"
    and wh: "with_handle h0 (hf_refresh_bmap (fa_hf F)) w2 = (Ok ((), h), w')"
    unfolding do_open_def by (auto elim!: io_bind_OkE simp: io_return_def)
  from wh obtain w3 where rf: "hf_refresh_bmap (fa_hf F) (h0, w2) = (Ok (), (h, w3))"
    by (auto simp: with_handle_def split: prod.splits elim!: res_bind_OkE)
  have "tab b = com w1 root" using read_Ok [OF b load_Ok [OF l]] .
  moreover have "com w1 = com w" "com w2 = com w" using com_env [OF load_env [OF l]] com_env [OF read_env [OF b]] by simp_all
  ultimately show "h_root h = root" "tab (h_bmap h) = com w root"
    using refresh_env [OF rf] refresh_Ok [OF rf] h0 by simp_all
qed

lemma open_dir_run:
  assumes "CHR ''/'' \<notin> set bucket" and "fs_open_opt F (dir_uri (fa_ext F) layout bucket u) rdonly policy w = (Ok h, w')"
  shows "h_root h = dir_key (fa_ext F) layout u" "tab (h_bmap h) = com w (dir_key (fa_ext F) layout u)"
proof -
  from assms(2) obtain root w1 where s: "hf_staging_from (fa_hf F) (dir_uri (fa_ext F) layout bucket u) w = (Ok root, w1)"
    and o: "do_open (fa_dir F) root rdonly policy 0 w1 = (Ok h, w')"
    unfolding fs_open_opt_def hyper_open_def staging_from_def dir_open_def to_dir_staging_config_def
    by (auto elim!: io_bind_OkE simp: io_lift_def split: if_splits)
  have "root = dir_key (fa_ext F) layout u" using staging_Ok [OF s [unfolded dir_uri_def] assms(1)] .
  with do_open_run [OF o] com_env [OF staging_env [OF s]]
  show "h_root h = dir_key (fa_ext F) layout u" "tab (h_bmap h) = com w (dir_key (fa_ext F) layout u)" by simp_all
qed

text \<open>Reading steps leave the store and the committed state alone.\<close>

lemma env_same: "env w w' \<Longrightarrow> objs w' = objs w \<and> com w' = com w \<and> ino w' = ino w"
  using env_quiet com_env by blast

lemma scatter_added_env:
  "env w w1 \<Longrightarrow> scatter_added (fa_ext F) objs root s buf w1 w' \<Longrightarrow> scatter_added (fa_ext F) objs root s buf w w'"
  using env_same [of w w1] by (auto simp: scatter_added_def split: if_splits)

text \<open>A name is shadowed by the scatter \<open>s\<close>: everything else shows what it showed.\<close>

lemma scatter_added_view:
  assumes add: "scatter_added (fa_ext F) objs root s buf w w'" and ok: "dir_ok (fa_ext F) (objs w) (com w root) root"
    and c: "com w' root = com w root" and st: "storable (s_filename s)"
  shows "dir_ok (fa_ext F) (objs w') (com w' root) root"
    "newest (pending (fa_ext F) (objs w) (scatter_inodes_path root)) s \<Longrightarrow>
      dir_lookup (fa_ext F) ia (objs w') (com w' root) root =
      (dir_lookup (fa_ext F) ia (objs w) (com w root) root)
        (s_filename s := if s_op s = Create \<or> s_op s = Update then scatter_entry ia (objs w') s else None)"
  unfolding c using added_dir_ok [OF add ok st] added_lookup_other [OF add ok] added_lookup_newest [OF add]
  by (auto simp: fun_eq_iff)

lemma unlink_run:
  assumes b: "CHR ''/'' \<notin> set bucket" and root: "root = dir_key (fa_ext F) layout p"
    and ok: "dir_ok (fa_ext F) (objs w) (com w root) root" and nm: "nm \<noteq> []" "utf8_valid nm" "storable nm"
    and run: "fs_unlink F layout bucket p nm u is_dir retention w = (Ok (), w')"
  obtains s now where "s_op s = PreDelete" "s_uuid s = u" "s_filename s = nm" "is_i64 now"
    "scatter_added (fa_ext F) objs root s (build_predelete_body is_dir (retention_deadline now retention)) w w'"
    "com w' root = com w root"
proof -
  from run obtain now w1 ps w2 where n: "now_ms (fa_s3 F) w = (Ok now, w1)"
    and st: "staging_from F (fa_new_s3_uri F (dir_uri (fa_ext F) layout bucket p)) w1 = (Ok ps, w2)"
    and em: "emit_scatter_event (fa_ext F) (fa_s3 F) ps nm u
      (build_predelete_body is_dir (retention_deadline now retention)) PreDelete w2 = (Ok (), w')"
    unfolding fs_unlink_def by (auto elim!: io_bind_OkE)
  have ps: "ps = root"
    using staging_Ok [of bucket "dir_key (fa_ext F) layout p" w1 ps w2] st b root
    by (simp add: staging_from_def dir_uri_def)
  have e: "env w w2" using readsD [OF reads_now n] readsD [OF reads_staging st] env_trans by blast
  have i64: "is_i64 now" using n unix_now_ms_i64 by (auto simp: now_ms_def split: prod.splits)
  have bang: "CHR ''!'' \<notin> set root" using dir_okD(1) [OF ok] by (simp add: folder_ok_def)
  from emit_any [OF bang nm(1,2) _ em [unfolded ps]] obtain s where s: "s_op s = PreDelete" "s_uuid s = u" "s_filename s = nm"
    "scatter_added (fa_ext F) objs root s (build_predelete_body is_dir (retention_deadline now retention)) w2 w'"
    "\<And>c. \<not> hf_owned c (s_key s) \<Longrightarrow> com w' c = com w2 c" by auto
  have "com w' root = com w root"
    using s(5) [of root] scatter_not_owned [of root "s_key s"] s(4) env_same [OF e] by (simp add: scatter_added_def)
  then show thesis using that [OF s(1-3) i64 scatter_added_env [OF e s(4)]] by blast
qed

lemma rmdir_run:
  assumes b: "CHR ''/'' \<notin> set bucket" and child: "child = dir_key (fa_ext F) layout u"
    and ok: "dir_ok (fa_ext F) (objs w) (com w child) child"
    and pages: "\<And>v. pages_ok (fst (list_objects (fa_s3 F) (scatter_inodes_path child) v))"
    and run: "fs_rmdir F layout bucket p nm u retention w = (r, w')"
  shows "env w w' \<and> r \<noteq> Ok () \<or>
    dir_view (fa_ext F) (fa_ino F) (objs w) (com w child) child = Map.empty \<and>
    (\<exists>w1. env w w1 \<and> fs_unlink F layout bucket p nm u True retention w1 = (r, w'))"
  using run [unfolded fs_rmdir_def]
proof (rule io_bind_run)
  fix h w1
  assume o: "fs_open F (dir_uri (fa_ext F) layout bucket u) True w = (Ok h, w1)"
    and rest: "io_bind (read_dir (fa_dir F) (h_root h)) (\<lambda>entries.
      if entries \<noteq> [] then io_fail DirectoryNotEmpty else fs_unlink F layout bucket p nm u True retention) w1 = (r, w')"
  have h: "h_root h = child"
    using open_dir_run(1) [OF b, of layout u True RetryLastWriterWins w h w1] o child by (simp add: fs_open_def fs_open_opt_def)
  note e1 = readsD [OF reads_open(2) o]
  have rd: "reads env (read_dir (fa_dir F) child)" unfolding read_dir_def Let_def by auto
  from rest show ?thesis
  proof (rule io_bind_run)
    fix es w2
    assume r: "read_dir (fa_dir F) (h_root h) w1 = (Ok es, w2)"
      and rest2: "(if es \<noteq> [] then io_fail DirectoryNotEmpty else fs_unlink F layout bucket p nm u True retention) w2 = (r, w')"
    have e2: "env w w2" using e1 readsD [OF rd r [unfolded h]] env_trans by blast
    show ?thesis
    proof (cases "es = []")
      case False
      with rest2 e2 show ?thesis by (auto simp: io_fail_def)
    next
      case True
      have ok1: "dir_ok (fa_ext F) (objs w1) (com w1 child) child" using ok env_same [OF e1] by simp
      from read_dir_sound(2) [OF ok1 pages r [unfolded h]] True env_same [OF e1] e2 rest2
      show ?thesis by auto
    qed
  qed (use e1 h readsD [OF rd] env_trans in auto)
qed (auto dest: readsD [OF reads_open(2)])

lemma fresh_child_run:
  assumes "CHR ''/'' \<notin> set bucket" and "fresh_child F layout bucket p nm w = (Ok (u, ic), w')"
  shows "env w w'" "ic = \<lparr> parent_dir_staging = dir_key (fa_ext F) layout p, ic_name = nm, ic_uuid = u \<rparr>"
proof -
  from assms(2) obtain w1 ps where u: "fa_new_uuid F w = (u, w1)"
    and st: "staging_from F (fa_new_s3_uri F (dir_uri (fa_ext F) layout bucket p)) w1 = (Ok ps, w')"
    and ic: "ic = \<lparr> parent_dir_staging = ps, ic_name = nm, ic_uuid = u \<rparr>"
    unfolding fresh_child_def by (auto elim!: io_bind_OkE simp: io_return_def split: prod.splits)
  show "env w w'" using uuid_env [OF u] readsD [OF reads_staging st] env_trans by blast
  have "ps = dir_key (fa_ext F) layout p"
    using staging_Ok [of bucket "dir_key (fa_ext F) layout p" w1 ps w'] st assms(1)
    by (simp add: staging_from_def dir_uri_def)
  with ic show "ic = \<lparr> parent_dir_staging = dir_key (fa_ext F) layout p, ic_name = nm, ic_uuid = u \<rparr>" by simp
qed

lemma hyper_create_run:
  assumes "CHR ''/'' \<notin> set bucket"
    and "hyper_create F (Some hook) (fa_new_s3_uri F (dir_uri (fa_ext F) layout bucket u)) rdonly policy mode w = (Ok h, w')"
  obtains b w1 w2 d where "fa_bmap_new F = Ok b" "env w w1"
    "hook (ino_as_slice (fa_ino F) (fa_to_raw F (fa_default_dir F mode) b)) FlagCreate w1 = (Ok (), w2)"
    "hf_flush_inode (fa_hf F) (dir_key (fa_ext F) layout u) (fa_to_raw F (fa_default_dir F mode) b) (fa_no_state F) FlagCreate w2
      = (Ok d, w')" "h_root h = dir_key (fa_ext F) layout u"
proof -
  from assms(2) obtain root w1 b where
    s: "fa_staging_create F (dir_uri (fa_ext F) layout bucket u) w = (Ok root, w1)" and b: "fa_bmap_new F = Ok b"
    and wh: "with_handle \<lparr> h_bmap = b, h_root = root, h_rdonly = rdonly, h_policy = policy,
          h_inode = fa_default_dir F mode, h_od = fa_no_state F \<rparr> (dir_flush_inode F (Some hook) FlagCreate) w1 = (Ok ((), h), w')"
    unfolding hyper_create_def to_dir_staging_config_def dir_new_def
    by (auto elim!: io_bind_OkE simp: io_lift_def io_return_def split: if_splits)
  have root: "root = dir_key (fa_ext F) layout u"
    using create_Ok [OF s [unfolded dir_uri_def] assms(1)] .
  from wh obtain d where fl: "fa_flush_inode F (Some hook) root (fa_to_raw F (fa_default_dir F mode) b) (fa_no_state F) FlagCreate w1
      = (Ok d, w')" and h: "h_root h = root"
    by (auto simp: with_handle_def dir_flush_inode_def Let_def split: prod.splits result.splits)
  from fl [unfolded flush_hook] obtain w2 where
    "hook (ino_as_slice (fa_ino F) (fa_to_raw F (fa_default_dir F mode) b)) FlagCreate w1 = (Ok (), w2)"
    "hf_flush_inode (fa_hf F) root (fa_to_raw F (fa_default_dir F mode) b) (fa_no_state F) FlagCreate w2 = (Ok d, w')"
    by (auto elim!: io_bind_OkE)
  with that [OF b create_env [OF s]] root h show thesis by simp
qed

text \<open>Keys of the parent's scatter folder are not below another child's prefix.\<close>

lemma scatter_not_below:
  assumes "prefix (scatter_inodes_path (dir_key (fa_ext F) layout p)) k" and "child_key (fa_ext F) layout d u \<noteq> dir_key (fa_ext F) layout p"
  shows "\<not> prefix (child_key (fa_ext F) layout d u @ ''/'') k"
proof
  assume c: "prefix (child_key (fa_ext F) layout d u @ ''/'') k"
  have "prefix (child_key (fa_ext F) layout True p @ ''/'') k"
    using assms(1) by (auto simp: scatter_inodes_path_def child_key_def prefix_def)
  from child_key_prefix [OF c this] assms(2) show False by (simp add: child_key_def)
qed

lemma create_default_run:
  assumes b: "CHR ''/'' \<notin> set bucket" and root: "root = dir_key (fa_ext F) layout p"
    and ok: "dir_ok (fa_ext F) (objs w) (com w root) root" and nm: "nm \<noteq> []" "utf8_valid nm" "storable nm"
    and run: "fs_create_default F layout bucket p nm rdonly mode w = (Ok (h, u), w')" and fresh: "u \<noteq> p"
  obtains s i where "s_op s = Create" "s_uuid s = u" "s_filename s = nm" "ino w' (dir_key (fa_ext F) layout u) = Some i"
    "dir_ok (fa_ext F) (objs w') (com w' root) root"
    "s \<notin> pending (fa_ext F) (objs w) (scatter_inodes_path root) \<Longrightarrow>
      newest (pending (fa_ext F) (objs w) (scatter_inodes_path root)) s \<Longrightarrow>
      dir_lookup (fa_ext F) (fa_ino F) (objs w') (com w' root) root =
      (dir_lookup (fa_ext F) (fa_ino F) (objs w) (com w root) root)(nm \<mapsto> entry_from i u nm)"
proof -
  from run obtain ic w0 where fc: "fresh_child F layout bucket p nm w = (Ok (u, ic), w0)"
    and cr: "hyper_create F (Some (before_flush_inode F ic)) (fa_new_s3_uri F (dir_uri (fa_ext F) layout bucket u))
      rdonly RetryLastWriterWins mode w0 = (Ok h, w')"
    unfolding fs_create_default_def fs_create_with_interceptor_def by (auto elim!: io_bind_OkE simp: io_return_def)
  note ch = fresh_child_run [OF b fc]
  from hyper_create_run [OF b cr] obtain bm w1 w2 d where e1: "env w0 w1"
    and em: "before_flush_inode F ic (ino_as_slice (fa_ino F) (fa_to_raw F (fa_default_dir F mode) bm)) FlagCreate w1 = (Ok (), w2)"
    and fl: "hf_flush_inode (fa_hf F) (dir_key (fa_ext F) layout u) (fa_to_raw F (fa_default_dir F mode) bm) (fa_no_state F)
      FlagCreate w2 = (Ok d, w')" by metis
  let ?i = "fa_to_raw F (fa_default_dir F mode) bm"
  have e: "env w w1" using ch(1) e1 env_trans by blast
  have bang: "CHR ''!'' \<notin> set root" using dir_okD(1) [OF ok] by (simp add: folder_ok_def)
  have em': "emit_scatter_event (fa_ext F) (fa_s3 F) root nm u (ino_as_slice (fa_ino F) ?i) Create w1 = (Ok (), w2)"
    using em by (simp add: before_flush_inode_def ch(2) root)
  from emit_any [OF bang nm(1,2) _ em'] obtain s where s: "s_op s = Create" "s_uuid s = u" "s_filename s = nm"
    and add1: "scatter_added (fa_ext F) objs root s (ino_as_slice (fa_ino F) ?i) w1 w2"
    and c: "\<And>c. \<not> hf_owned c (s_key s) \<Longrightarrow> com w2 c = com w1 c" by auto
  note add = scatter_added_env [OF e add1]
  have pre: "prefix (scatter_inodes_path root) (s_key s)" using add by (simp add: scatter_added_def)
  have c2: "com w2 root = com w root" using c [OF scatter_not_owned [OF pre]] env_same [OF e] by simp
  have ne: "dir_key (fa_ext F) layout u \<noteq> root" using fresh uuid_fmt_inj unfolding root dir_key_def by auto
  note fa = flush_inode_any [OF fl]
  have o: "objs w' k = objs w2 k" if k: "prefix (scatter_inodes_path root) k" for k
  proof -
    have "\<not> prefix (dir_key (fa_ext F) layout u @ ''/'') k"
      using scatter_not_below [OF k [unfolded root], of True u] ne root by (simp add: child_key_def)
    with fa show ?thesis by (simp add: hf_owned_def)
  qed
  have c': "com w' root = com w root" using fa ne c2 by auto
  have st: "storable (s_filename s)" using s nm by simp
  note ok1 = scatter_added_view(1) [OF add ok c2 st] and view = scatter_added_view(2) [OF add ok c2 st, where ia = "fa_ino F"]
  have ok2: "dir_ok (fa_ext F) (objs w') (com w' root) root"
    using dir_ok_cong [OF o dir_okD(2) [OF ok1] ok1] c' c2 by simp
  have "dir_lookup (fa_ext F) (fa_ino F) (objs w') (com w' root) root = dir_lookup (fa_ext F) (fa_ino F) (objs w2) (com w2 root) root"
    using dir_lookup_cong [OF dir_okD(4) [OF ok1] o] c' c2 by simp
  moreover have "scatter_entry (fa_ino F) (objs w2) s = Some (entry_from ?i u nm)"
    if "s \<notin> pending (fa_ext F) (objs w) (scatter_inodes_path root)"
    using add that slice_inverse [of ?i] s by (auto simp: scatter_added_def scatter_entry_def split: if_splits)
  ultimately show thesis
    using that [OF s flush_inode_Ok [OF fl] ok2] view s by simp
qed

end

end
