(* ===== verification/Fs_Gc.thy ===== *)
theory Fs_Gc
  imports Fs_Names
begin

text \<open>
  Garbage collection of tombstones: whatever \<open>fs_gc\<close> returns, and wherever it stops, a child whose
  storage it removed had a tombstone whose retention had passed, is a directory or a file without
  remaining links, and is not what the committed index holds under the tombstone's name.
\<close>

section \<open>Lookups that report an absent name\<close>

lemma probe_lookup_not_NotFound: "probe_lookup_in api b nm k \<noteq> Err NotFound"
  by (induction api b nm k rule: probe_lookup_in.induct)
    (subst probe_lookup_in.simps, auto split: result.splits option.splits)

lemma not_found_asE:
  assumes "not_found_as a m w = (Ok r, w')"
  obtains "m w = (Ok r, w')" | "m w = (Err NotFound, w')" "r = a"
  using assms by (auto simp: not_found_as_def split: prod.splits result.splits error_kind.splits)

section \<open>Steps that only remove\<close>

text \<open>Objects and the layout's children are what they were, or gone.\<close>

definition shrinks ::
  "ext \<Rightarrow> hyper_dir_layout \<Rightarrow> ('w \<Rightarrow> string \<Rightarrow> s3_object option) \<Rightarrow> ('w \<Rightarrow> string \<Rightarrow> 'i table) \<Rightarrow> ('w \<Rightarrow> string \<Rightarrow> 'i option) \<Rightarrow>
     'w \<Rightarrow> 'w \<Rightarrow> bool" where
  "shrinks x l objs com ino w w' =
     ((\<forall>k. objs w' k = objs w k \<or> objs w' k = None) \<and>
      (\<forall>d u. ino w' (child_key x l d u) = ino w (child_key x l d u) \<and> com w' (child_key x l d u) = com w (child_key x l d u) \<or>
         ino w' (child_key x l d u) = None))"

lemma shrinks_trans: "shrinks x l objs com ino w w1 \<Longrightarrow> shrinks x l objs com ino w1 w2 \<Longrightarrow> shrinks x l objs com ino w w2"
  unfolding shrinks_def by metis


text \<open>
  A child of kind \<open>d\<close> with inode \<open>i\<close> is due: the tombstone \<open>s\<close> says so, and its deletion has been folded
  out of the index \<open>t\<close> of the directory, unless that directory is gone itself.
\<close>

definition gc_due ::
  "'i inode_api \<Rightarrow> (string \<Rightarrow> s3_object option) \<Rightarrow> bool \<Rightarrow> 'i table \<Rightarrow> int \<Rightarrow> dir_scatter_inode \<Rightarrow> bool \<Rightarrow> 'i \<Rightarrow> bool" where
  "gc_due ia m present t now s d i =
     (\<exists>ob header raw j. m (s_key s) = Some ob \<and> parse_tombstone_body (ob_body ob) = Ok (header, raw) \<and>
        retention_until_unix_ms header \<le> now \<and> ino_from_slice ia raw = Ok j \<and> d = is_dir_mode (ino_mode ia j) \<and>
        (d \<or> ino_nlink ia i = 0) \<and> (present \<longrightarrow> (\<forall>e. index_map t (s_filename s) = Some e \<longrightarrow> e_uuid e \<noteq> s_uuid s)))"

text \<open>The effect of a step, or of many: it only removes, and a child that is gone was due.\<close>

definition gc_safe ::
  "('w, 'i, 'b, 'd, 'f) fs_api \<Rightarrow> ('w \<Rightarrow> string \<Rightarrow> s3_object option) \<Rightarrow> ('w \<Rightarrow> string \<Rightarrow> 'i table) \<Rightarrow> ('w \<Rightarrow> string \<Rightarrow> 'i option) \<Rightarrow>
     hyper_dir_layout \<Rightarrow> string \<Rightarrow> int \<Rightarrow> dir_scatter_inode set \<Rightarrow> 'w \<Rightarrow> 'w \<Rightarrow> bool" where
  "gc_safe F objs com ino l parent now S w w' =
     (shrinks (fa_ext F) l objs com ino w w' \<and>
      (\<forall>d u i. ino w (child_key (fa_ext F) l d u) = Some i \<longrightarrow> ino w' (child_key (fa_ext F) l d u) = None \<longrightarrow>
        (\<exists>s \<in> S. s_op s = Delete \<and> s_uuid s = u \<and>
          gc_due (fa_ino F) (objs w) (ino w parent \<noteq> None \<and> dir_inv (fa_ext F) (com w parent)) (com w parent) now s d i)))"

context codecs
begin

lemma child_key_not_nested: "\<not> prefix (child_key x l d u @ ''/'') (child_key x l d' v)"
proof
  assume p: "prefix (child_key x l d u @ ''/'') (child_key x l d' v)"
  then have "prefix (child_key x l d u @ ''/'') (child_key x l d' v @ ''/'')" by (auto simp: prefix_def)
  from child_key_prefix [OF this prefix_order.refl] p show False by (auto simp: prefix_def)
qed

end

context fs_store
begin

lemma reads_bind_run:
  assumes "reads env m" and "io_bind m f w = (r, w'')"
  obtains "env w w''" "\<And>a. r \<noteq> Ok a" | a w' where "m w = (Ok a, w')" "env w w'" "f a w' = (r, w'')"
  using assms(2) by (rule io_bind_run) (use assms(1) in \<open>auto dest: readsD\<close>)

lemma reads_get [intro!]: "reads env (get_object_bytes (fa_s3 F) k)" "reads env (get_object_raw (fa_s3 F) k)"
  by (rule readsI; auto simp: get_object_bytes_def get_object_raw_def split: prod.splits sum.splits option.splits dest: get_env)+

lemma reads_not_found [intro!]: "reads env m \<Longrightarrow> reads env (not_found_as a m)"
  by (rule readsI) (auto simp: not_found_as_def split: prod.splits result.splits error_kind.splits dest: readsD)

lemma reads_try [intro!]: "reads env m \<Longrightarrow> reads env (io_try m)"
  by (rule readsI) (auto simp: io_try_def split: prod.splits result.splits dest: readsD)

lemma reads_read_entry [intro!]: "reads env (read_entry (fa_dir F) root nm)"
  unfolding read_entry_def probe_lookup_latest_def by (auto split: option.splits)

lemma reads_nlink [intro!]: "reads env (current_nlink F uri)"
  unfolding current_nlink_def by (auto split: prod.splits)

lemma shrinks_env: "env w w' \<Longrightarrow> shrinks (fa_ext F) l objs com ino w w'"
  using env_same [of w w'] by (simp add: shrinks_def)

lemma child_uri:
  "(if d then dir_uri (fa_ext F) l bucket u else file_uri (fa_ext F) l bucket u) = ''s3://'' @ bucket @ ''/'' @ child_key (fa_ext F) l d u"
  by (simp add: dir_uri_def file_uri_def child_key_def)

lemma child_key_eq: "child_key (fa_ext F) l d' u' = child_key (fa_ext F) l d u \<longleftrightarrow> (d', u') = (d, u)"
  using child_key_prefix [of l d' u' "child_key (fa_ext F) l d' u' @ ''/''" d u] by auto

lemma unlink_shrinks:
  assumes "hf_unlink (fa_hf F) (child_key (fa_ext F) l d u) w = (r, w')"
  shows "shrinks (fa_ext F) l objs com ino w w'"
    "(d', u') \<noteq> (d, u) \<Longrightarrow> ino w' (child_key (fa_ext F) l d' u') = ino w (child_key (fa_ext F) l d' u')"
proof -
  note un = unlink_any [OF assms]
  have ob: "objs w' k = objs w k \<or> objs w' k = None" for k using spec [OF conjunct1 [OF un], of k] by (elim disjE conjE) simp_all
  note self = conjunct1 [OF conjunct2 [OF un]] and rest = conjunct2 [OF conjunct2 [OF un]]
  have other: "com w' (child_key (fa_ext F) l e v) = com w (child_key (fa_ext F) l e v) \<and>
      ino w' (child_key (fa_ext F) l e v) = ino w (child_key (fa_ext F) l e v)" if "(e, v) \<noteq> (d, u)" for e v
    using rest [rule_format, of "child_key (fa_ext F) l e v"] that child_key_not_nested [of l d u e v] child_key_eq [of l e v d u]
    by simp
  have "ino w' (child_key (fa_ext F) l e v) = ino w (child_key (fa_ext F) l e v) \<and>
      com w' (child_key (fa_ext F) l e v) = com w (child_key (fa_ext F) l e v) \<or> ino w' (child_key (fa_ext F) l e v) = None" for e v
  proof (cases "(e, v) = (d, u)")
    case True
    with self show ?thesis by simp
  next
    case False
    with other show ?thesis by simp
  qed
  with ob show "shrinks (fa_ext F) l objs com ino w w'" by (simp add: shrinks_def)
  show "(d', u') \<noteq> (d, u) \<Longrightarrow> ino w' (child_key (fa_ext F) l d' u') = ino w (child_key (fa_ext F) l d' u')"
    using other [of d' u'] by simp
qed

lemma reclaim_run:
  assumes b: "CHR ''/'' \<notin> set bucket"
    and run: "reclaim_child_prefix F (''s3://'' @ bucket @ ''/'' @ child_key (fa_ext F) l d u) w = (r, w')"
  shows "shrinks (fa_ext F) l objs com ino w w'"
    "(d', u') \<noteq> (d, u) \<Longrightarrow> ino w' (child_key (fa_ext F) l d' u') = ino w (child_key (fa_ext F) l d' u')"
proof -
  let ?c = "child_key (fa_ext F) l d u"
  obtain q where "io_bind (staging_from F (fa_new_s3_uri F (''s3://'' @ bucket @ ''/'' @ ?c))) (hf_unlink (fa_hf F)) w = (q, w')"
    using run by (auto simp: reclaim_child_prefix_def not_found_as_def split: prod.splits result.splits error_kind.splits)
  then have "env w w' \<or> (\<exists>w1. env w w1 \<and> hf_unlink (fa_hf F) ?c w1 = (q, w'))"
  proof (rule reads_bind_run [OF reads_staging])
    fix root w1 assume st: "staging_from F (fa_new_s3_uri F (''s3://'' @ bucket @ ''/'' @ ?c)) w = (Ok root, w1)"
      and "env w w1" "hf_unlink (fa_hf F) root w1 = (q, w')"
    moreover have "root = ?c" using staging_Ok [of bucket ?c w root w1] st b by (simp add: staging_from_def)
    ultimately show ?thesis by blast
  qed simp
  then consider "env w w'" | w1 where "env w w1" "hf_unlink (fa_hf F) ?c w1 = (q, w')" by blast
  then have "shrinks (fa_ext F) l objs com ino w w' \<and>
      ((d', u') \<noteq> (d, u) \<longrightarrow> ino w' (child_key (fa_ext F) l d' u') = ino w (child_key (fa_ext F) l d' u'))"
  proof cases
    case 1
    then show ?thesis using shrinks_env env_same [OF 1] by simp
  next
    case 2
    from unlink_shrinks [OF 2(2)] env_same [OF 2(1)] shrinks_trans [OF shrinks_env [OF 2(1)]]
    show ?thesis by simp
  qed
  then show "shrinks (fa_ext F) l objs com ino w w'"
    "(d', u') \<noteq> (d, u) \<Longrightarrow> ino w' (child_key (fa_ext F) l d' u') = ino w (child_key (fa_ext F) l d' u')" by blast+
qed

lemma scatter_not_owned_child:
  assumes "prefix (scatter_inodes_path (dir_key (fa_ext F) l p)) k"
  shows "\<not> hf_owned (child_key (fa_ext F) l d u) k"
proof (cases "child_key (fa_ext F) l d u = dir_key (fa_ext F) l p")
  case True
  with scatter_not_owned [OF assms] show ?thesis by simp
next
  case False
  with scatter_not_below [OF assms] show ?thesis by (simp add: hf_owned_def)
qed

lemma remove_tombstone:
  assumes run: "remove_scatter_inodes (fa_s3 F) [k] w = (r, w')" and k: "prefix (scatter_inodes_path (dir_key (fa_ext F) l p)) k"
  shows "shrinks (fa_ext F) l objs com ino w w'"
    "ino w' (child_key (fa_ext F) l d u) = ino w (child_key (fa_ext F) l d u)"
proof -
  have "remove_scatter_inodes (fa_s3 F) [k] = remove_chunks (fa_s3 F) [[k]] False"
    by (simp add: remove_scatter_inodes_def chunks.simps)
  with run obtain q where del: "delete_objs (fa_s3 F) [k] w = (q, w')"
    by (auto simp: io_return_def io_fail_def split: prod.splits sum.splits if_splits)
  have same: "com w' (child_key (fa_ext F) l d u) = com w (child_key (fa_ext F) l d u) \<and>
      ino w' (child_key (fa_ext F) l d u) = ino w (child_key (fa_ext F) l d u)" for d u
    using delete_objs_com [OF del, of "child_key (fa_ext F) l d u"] scatter_not_owned_child [OF k] by auto
  obtain D where "objs w' = objs w |` (- D)" using remove_scatter_sound(1) [OF run] by blast
  with same show "shrinks (fa_ext F) l objs com ino w w'" by (auto simp: shrinks_def restrict_map_def)
  show "ino w' (child_key (fa_ext F) l d u) = ino w (child_key (fa_ext F) l d u)" using same by blast
qed

section \<open>One tombstone\<close>

lemma read_entry_found:
  assumes run: "read_entry (fa_dir F) root nm w = (Ok e, w')" and inv: "dir_inv (fa_ext F) (com w root)"
  obtains raw where "index_map (com w root) nm = Some raw" "e = entry_from_raw raw"
proof -
  from run obtain b w1 slot raw where b: "load_latest_bmap (fa_dir F) root w = (Ok b, w1)"
    and q: "probe_lookup_in (dp_bt (fa_dir F)) b nm (hash_filename (fa_ext F) nm) = Ok (Some (slot, raw))"
    and e: "e = entry_from_raw raw"
    unfolding read_entry_def probe_lookup_latest_def
    by (auto elim!: io_bind_OkE simp: io_lift_def io_return_def io_fail_def split: option.splits)
  have "index_map (com w root) nm = Some raw"
    using probe_lookup_sound(1) [OF _ q] load_latest_Ok [OF b] dir_inv_probe [OF inv] by simp
  with e that show thesis by blast
qed

lemma read_entry_absent:
  assumes run: "read_entry (fa_dir F) root nm w = (Err NotFound, w')" and inv: "dir_inv (fa_ext F) (com w root)"
    and ex: "ino w root \<noteq> None"
  shows "index_map (com w root) nm = None"
  using run [unfolded read_entry_def]
proof (rule io_bind_run)
  fix r w1 assume l: "probe_lookup_latest (fa_dir F) root nm (hash_filename (fa_ext F) nm) w = (Ok r, w1)"
    and "(case r of None \<Rightarrow> io_fail NotFound | Some (u, entry) \<Rightarrow> io_return (entry_from_raw entry)) w1 = (Err NotFound, w')"
  then have "r = None" by (auto simp: io_return_def split: option.splits)
  with l obtain b w2 where b: "load_latest_bmap (fa_dir F) root w = (Ok b, w2)"
    and q: "probe_lookup_in (dp_bt (fa_dir F)) b nm (hash_filename (fa_ext F) nm) = Ok None"
    unfolding probe_lookup_latest_def by (auto elim!: io_bind_OkE simp: io_lift_def)
  show ?thesis using probe_lookup_sound(1) [OF _ q] load_latest_Ok [OF b] dir_inv_probe [OF inv] by simp
next
  fix e assume "probe_lookup_latest (fa_dir F) root nm (hash_filename (fa_ext F) nm) w = (Err e, w')" and e: "Err NotFound = Err e"
  then have "probe_lookup_latest (fa_dir F) root nm (hash_filename (fa_ext F) nm) w = (Err NotFound, w')" by simp
  then show ?thesis unfolding probe_lookup_latest_def
  proof (rule io_bind_run)
    fix a w1 assume "io_lift (probe_lookup_in (dp_bt (fa_dir F)) a nm (hash_filename (fa_ext F) nm)) w1 = (Err NotFound, w')"
    then show ?thesis by (simp add: io_lift_def probe_lookup_not_NotFound)
  next
    fix e assume "load_latest_bmap (fa_dir F) root w = (Err e, w')" and "Err NotFound = Err e"
    then have "load_latest_bmap (fa_dir F) root w = (Err NotFound, w')" by simp
    then show ?thesis unfolding load_latest_bmap_def
    proof (rule io_bind_run)
      fix a w1 assume l: "hf_load_inode (fa_hf F) root w = (Ok a, w1)"
        and r: "(case a of (raw_inode, _) \<Rightarrow> hf_bmap_read (fa_hf F) root raw_inode) w1 = (Err NotFound, w')"
      obtain i d where a: "a = (i, d)" by (cases a)
      from read_NotFound [of root i w1 w'] r load_Ok [OF l [unfolded a]] a show ?thesis by simp
    next
      fix e assume "hf_load_inode (fa_hf F) root w = (Err e, w')" "Err NotFound = Err e"
      then have l: "hf_load_inode (fa_hf F) root w = (Err NotFound, w')" by simp
      from load_NotFound [OF l] env_same [OF load_env [OF l]] ex show ?thesis by simp
    qed simp
  qed simp
qed simp

lemma get_bytes_Ok:
  assumes "get_object_bytes (fa_s3 F) k w = (Ok body, w')"
  obtains ob where "objs w k = Some ob" "ob_body ob = body"
proof -
  from assms obtain out where g: "get_object (fa_s3 F) k w = (Inr out, w')" "g_body out = Some body"
    by (auto simp: get_object_bytes_def split: prod.splits sum.splits option.splits)
  from get_Ok [OF g(1)] g(2) env_same obtain ob where "objs w' k = Some ob" "body = ob_body ob" "objs w' = objs w" by blast
  with that show thesis by simp
qed

lemma current_nlink_Ok:
  assumes b: "CHR ''/'' \<notin> set bucket" and run: "current_nlink F (''s3://'' @ bucket @ ''/'' @ c) w = (Ok n, w')"
  shows "n = map_option (ino_nlink (fa_ino F)) (ino w c)"
  using run [unfolded current_nlink_def]
proof (rule not_found_asE)
  assume "io_bind (staging_from F (fa_new_s3_uri F (''s3://'' @ bucket @ ''/'' @ c))) (\<lambda>root. io_bind (hf_load_inode (fa_hf F) root)
      (\<lambda>(raw, _). io_return (Some (ino_nlink (fa_ino F) raw)))) w = (Ok n, w')"
  then obtain root w1 i d where st: "hf_staging_from (fa_hf F) (''s3://'' @ bucket @ ''/'' @ c) w = (Ok root, w1)"
    and l: "hf_load_inode (fa_hf F) root w1 = (Ok (i, d), w')" and n: "n = Some (ino_nlink (fa_ino F) i)"
    by (auto elim!: io_bind_OkE simp: staging_from_def io_return_def)
  from staging_Ok [OF st b] load_Ok [OF l] env_same [OF staging_env [OF st]] env_same [OF load_env [OF l]] n
  show ?thesis by simp
next
  assume nf: "io_bind (staging_from F (fa_new_s3_uri F (''s3://'' @ bucket @ ''/'' @ c))) (\<lambda>root. io_bind (hf_load_inode (fa_hf F) root)
      (\<lambda>(raw, _). io_return (Some (ino_nlink (fa_ino F) raw)))) w = (Err NotFound, w')" and n: "n = None"
  from nf have "ino w c = None"
  proof (rule io_bind_run)
    fix root w1 assume st: "staging_from F (fa_new_s3_uri F (''s3://'' @ bucket @ ''/'' @ c)) w = (Ok root, w1)"
      and rest: "io_bind (hf_load_inode (fa_hf F) root) (\<lambda>(raw, _). io_return (Some (ino_nlink (fa_ino F) raw))) w1 = (Err NotFound, w')"
    have root: "root = c" using staging_Ok [of bucket c w root w1] st b by (simp add: staging_from_def)
    have e: "env w w1" using readsD [OF reads_staging st] .
    from rest show ?thesis
    proof (rule io_bind_run)
      fix e assume "hf_load_inode (fa_hf F) root w1 = (Err e, w')" "Err NotFound = Err e"
      then have l: "hf_load_inode (fa_hf F) root w1 = (Err NotFound, w')" by simp
      from load_NotFound [OF l] env_same [OF load_env [OF l]] env_same [OF e] root show ?thesis by simp
    qed (auto simp: io_return_def)
  next
    fix e assume "staging_from F (fa_new_s3_uri F (''s3://'' @ bucket @ ''/'' @ c)) w = (Err e, w')" "Err NotFound = Err e"
    then have st: "hf_staging_from (fa_hf F) (''s3://'' @ bucket @ ''/'' @ c) w = (Err NotFound, w')" by (simp add: staging_from_def)
    from staging_NotFound [OF st b] env_same [OF staging_env [OF st]] show ?thesis by simp
  qed simp
  with n show ?thesis by simp
qed

text \<open>The end of a step: reclaim if the child is due, then drop the tombstone.\<close>

lemma gc_finish:
  assumes b: "CHR ''/'' \<notin> set bucket" and k: "prefix (scatter_inodes_path (dir_key (fa_ext F) l p)) k"
    and run: "io_bind (if should then reclaim_child_prefix F (''s3://'' @ bucket @ ''/'' @ child_key (fa_ext F) l d u) else io_return ()) (\<lambda>_.
      io_bind (remove_scatter_inodes (fa_s3 F) [k]) (\<lambda>_. io_return GcReclaimed)) w = (q, w')"
  shows "shrinks (fa_ext F) l objs com ino w w'"
    "ino w' (child_key (fa_ext F) l d' u') \<noteq> ino w (child_key (fa_ext F) l d' u') \<Longrightarrow> should \<and> (d', u') = (d, u)"
proof -
  let ?m = "if should then reclaim_child_prefix F (''s3://'' @ bucket @ ''/'' @ child_key (fa_ext F) l d u) else io_return ()"
  have first: "shrinks (fa_ext F) l objs com ino w w1 \<and>
      (ino w1 (child_key (fa_ext F) l d' u') \<noteq> ino w (child_key (fa_ext F) l d' u') \<longrightarrow> should \<and> (d', u') = (d, u))"
    if "?m w = (r, w1)" for r w1
  proof (cases should)
    case True
    with that have "reclaim_child_prefix F (''s3://'' @ bucket @ ''/'' @ child_key (fa_ext F) l d u) w = (r, w1)" by simp
    note r = reclaim_run(1) [OF b this] reclaim_run(2) [OF b this, of d' u']
    show ?thesis using r True by (cases "(d', u') = (d, u)") simp_all
  next
    case False
    with that have "w1 = w" by (simp add: io_return_def)
    then show ?thesis using shrinks_env env_refl by simp
  qed
  have "shrinks (fa_ext F) l objs com ino w w' \<and>
      (ino w' (child_key (fa_ext F) l d' u') \<noteq> ino w (child_key (fa_ext F) l d' u') \<longrightarrow> should \<and> (d', u') = (d, u))"
    using run
  proof (rule io_bind_run)
    fix a w1 assume m: "?m w = (Ok a, w1)"
      and "io_bind (remove_scatter_inodes (fa_s3 F) [k]) (\<lambda>_. io_return GcReclaimed) w1 = (q, w')"
    then obtain r where rm: "remove_scatter_inodes (fa_s3 F) [k] w1 = (r, w')"
      by (auto elim: io_bind_run simp: io_return_def)
    note f = first [OF m] and t = remove_tombstone(1) [OF rm k] remove_tombstone(2) [OF rm k, of d' u']
    show ?thesis using shrinks_trans [OF conjunct1 [OF f] t(1)] conjunct2 [OF f] unfolding t(2) by (rule conjI)
  next
    fix e assume "?m w = (Err e, w')"
    then show ?thesis by (rule first)
  next
    assume "?m w = (Panic, w')"
    then show ?thesis by (rule first)
  qed
  note f = this
  show "shrinks (fa_ext F) l objs com ino w w'" by (rule conjunct1 [OF f])
  show "ino w' (child_key (fa_ext F) l d' u') \<noteq> ino w (child_key (fa_ext F) l d' u') \<Longrightarrow> should \<and> (d', u') = (d, u)"
    by (rule mp [OF conjunct2 [OF f]])
qed

lemma reads_folded [intro!]: "reads env (gc_folded F root s)"
  unfolding gc_folded_def by auto

lemma gc_folded_True:
  assumes run: "gc_folded F root s w = (Ok True, w')" and inv: "dir_inv (fa_ext F) (com w root)" and ex: "ino w root \<noteq> None"
    and e: "index_map (com w root) (s_filename s) = Some e"
  shows "e_uuid e \<noteq> s_uuid s"
  using run [unfolded gc_folded_def]
proof (rule not_found_asE)
  assume "io_bind (read_entry (fa_dir F) root (s_filename s)) (\<lambda>entry. io_return (d_uuid entry \<noteq> s_uuid s)) w = (Ok True, w')"
  then obtain f where r: "read_entry (fa_dir F) root (s_filename s) w = (Ok f, w')" and ne: "d_uuid f \<noteq> s_uuid s"
    by (auto elim!: io_bind_OkE simp: io_return_def)
  from read_entry_found [OF r inv] obtain raw where "index_map (com w root) (s_filename s) = Some raw" "f = entry_from_raw raw" .
  with e ne show ?thesis by (simp add: entry_from_raw_def)
next
  assume "io_bind (read_entry (fa_dir F) root (s_filename s)) (\<lambda>entry. io_return (d_uuid entry \<noteq> s_uuid s)) w = (Err NotFound, w')"
  then have "read_entry (fa_dir F) root (s_filename s) w = (Err NotFound, w')"
    by (rule io_bind_run) (auto simp: io_return_def)
  from read_entry_absent [OF this inv ex] e show ?thesis by simp
qed

lemma gc_reclaim_run:
  assumes b: "CHR ''/'' \<notin> set bucket" and k: "prefix (scatter_inodes_path (dir_key (fa_ext F) l p)) (s_key s)"
    and run: "gc_reclaim F l bucket s j w = (q, w')" and d: "d = is_dir_mode (ino_mode (fa_ino F) j)"
  shows "shrinks (fa_ext F) l objs com ino w w' \<and>
    (\<forall>d' u' i. ino w (child_key (fa_ext F) l d' u') = Some i \<longrightarrow> ino w' (child_key (fa_ext F) l d' u') = None \<longrightarrow>
      (d', u') = (d, s_uuid s) \<and> (d \<or> ino_nlink (fa_ino F) i = 0))"
proof -
  let ?uri = "''s3://'' @ bucket @ ''/'' @ child_key (fa_ext F) l d (s_uuid s)"
  let ?m = "if d then io_return True
    else io_bind (current_nlink F ?uri) (\<lambda>n. io_return (case n of Some n \<Rightarrow> n = 0 | None \<Rightarrow> True))"
  have rd: "reads env ?m" by (cases d) auto
  from run [unfolded gc_reclaim_def Let_def d [symmetric] child_uri] show ?thesis
  proof (rule reads_bind_run [OF rd], goal_cases)
    case 1
    then show ?case using shrinks_env env_same [OF 1(1)] by simp
  next
    case (2 should w1)
    note fin = gc_finish [OF b k 2(3)] and e = env_same [OF 2(2)]
    have due: "d \<or> ino_nlink (fa_ino F) i = 0" if "should" "ino w (child_key (fa_ext F) l d (s_uuid s)) = Some i" for i
    proof (cases d)
      case False
      with 2(1) obtain n where "current_nlink F ?uri w = (Ok n, w1)" and "should = (case n of Some n \<Rightarrow> n = 0 | None \<Rightarrow> True)"
        by (auto elim!: io_bind_OkE simp: io_return_def)
      with current_nlink_Ok [OF b this(1)] that show ?thesis by simp
    qed simp
    have "(d', u') = (d, s_uuid s) \<and> (d \<or> ino_nlink (fa_ino F) i = 0)"
      if i: "ino w (child_key (fa_ext F) l d' u') = Some i" and gone: "ino w' (child_key (fa_ext F) l d' u') = None" for d' u' i
    proof -
      have "ino w' (child_key (fa_ext F) l d' u') \<noteq> ino w1 (child_key (fa_ext F) l d' u')" using i gone e by simp
      note f = fin(2) [OF this]
      show ?thesis using f due i by simp
    qed
    note main = this
    show ?case
    proof (intro conjI [OF shrinks_trans [OF shrinks_env [OF 2(2)] fin(1)]] allI impI)
      fix d' u' i assume "ino w (child_key (fa_ext F) l d' u') = Some i" "ino w' (child_key (fa_ext F) l d' u') = None"
      from main [OF this] show "(d', u') = (d, s_uuid s) \<and> (d \<or> ino_nlink (fa_ino F) i = 0)" .
    qed
  qed
qed

lemma gc_safe_env: "env w w' \<Longrightarrow> gc_safe F objs com ino l parent now S w w'"
  using shrinks_env env_same [of w w'] by (simp add: gc_safe_def)

lemma gc_step_last:
  assumes b: "CHR ''/'' \<notin> set bucket" and k: "prefix (scatter_inodes_path (dir_key (fa_ext F) l p)) (s_key s)"
    and op: "s_op s = Delete" "s \<in> S" and ob: "objs w (s_key s) = Some ob" "parse_tombstone_body (ob_body ob) = Ok (header, raw)"
    and late: "retention_until_unix_ms header \<le> now" and j: "ino_from_slice (fa_ino F) raw = Ok j"
    and idx: "\<And>e. ino w parent \<noteq> None \<Longrightarrow> dir_inv (fa_ext F) (com w parent) \<Longrightarrow>
      index_map (com w parent) (s_filename s) = Some e \<Longrightarrow> e_uuid e \<noteq> s_uuid s"
    and e: "env w v" and run: "gc_reclaim F l bucket s j v = (q, w')"
  shows "gc_safe F objs com ino l parent now S w w'"
proof -
  note rr = gc_reclaim_run [OF b k run refl]
  have "\<exists>s \<in> S. s_op s = Delete \<and> s_uuid s = u \<and> gc_due (fa_ino F) (objs w) (ino w parent \<noteq> None \<and> dir_inv (fa_ext F) (com w parent)) (com w parent) now s d i"
    if i: "ino w (child_key (fa_ext F) l d u) = Some i" and gone: "ino w' (child_key (fa_ext F) l d u) = None" for d u i
  proof -
    have "ino v (child_key (fa_ext F) l d u) = Some i" using i env_same [OF e] by simp
    from conjunct2 [OF rr, rule_format, OF this gone]
    have "d = is_dir_mode (ino_mode (fa_ino F) j)" "u = s_uuid s" "d \<or> ino_nlink (fa_ino F) i = 0" by simp_all
    with ob late j idx have "gc_due (fa_ino F) (objs w) (ino w parent \<noteq> None \<and> dir_inv (fa_ext F) (com w parent)) (com w parent) now s d i" unfolding gc_due_def by blast
    with op \<open>u = s_uuid s\<close> show ?thesis by blast
  qed
  with shrinks_trans [OF shrinks_env [OF e] conjunct1 [OF rr]] show ?thesis unfolding gc_safe_def by blast
qed

lemma gc_step_safe:
  assumes b: "CHR ''/'' \<notin> set bucket" and parent: "parent = dir_key (fa_ext F) l p"
    and k: "prefix (scatter_inodes_path parent) (s_key s)" and op: "s_op s = Delete" "s \<in> S"
    and run: "gc_tombstone F l bucket parent now s w = (r, w')"
  shows "gc_safe F objs com ino l parent now S w w'"
proof -
  from run obtain q where
    "io_bind (get_object_bytes (fa_s3 F) (s_key s)) (\<lambda>body.
      io_bind (io_lift (parse_tombstone_body body)) (\<lambda>(header, inode_raw_bytes).
        if retention_until_unix_ms header > now then io_return GcSkippedRetention
        else io_bind (gc_folded F parent s) (\<lambda>folded.
          if \<not> folded then io_return GcSkippedUnfolded
          else io_bind (io_lift (ino_from_slice (fa_ino F) inode_raw_bytes)) (gc_reclaim F l bucket s)))) w = (q, w')"
    unfolding gc_tombstone_def gc_error_as_def
    by (auto elim!: io_bind_run simp: io_try_def io_return_def split: prod.splits result.splits)
  then show ?thesis
  proof (rule reads_bind_run [OF reads_get(1)], goal_cases)
    case 1
    then show ?case by (intro gc_safe_env)
  next
    case (2 body w1)
    note e1 = 2(2)
    from get_bytes_Ok [OF 2(1)] obtain ob where ob: "objs w (s_key s) = Some ob" "ob_body ob = body" .
    from 2(3) show ?case
    proof (rule reads_bind_run [OF reads_lift(1)], goal_cases)
      case 1
      with e1 show ?case by (intro gc_safe_env) (rule env_trans)
    next
      case (2 hr w2)
      obtain header raw where hr: "hr = (header, raw)" by (cases hr)
      from 2(1) hr have parse: "parse_tombstone_body body = Ok (header, raw)" and w2: "w2 = w1" by (simp_all add: io_lift_def)
      show ?case
      proof (cases "retention_until_unix_ms header > now")
        case True
        with 2(3) hr w2 e1 show ?thesis by (intro gc_safe_env) (simp add: io_return_def)
      next
        case late: False
        with 2(3) hr w2 have "io_bind (gc_folded F parent s) (\<lambda>folded.
          if \<not> folded then io_return GcSkippedUnfolded
          else io_bind (io_lift (ino_from_slice (fa_ino F) raw)) (gc_reclaim F l bucket s)) w1 = (q, w')" by simp
        then show ?thesis
        proof (rule reads_bind_run [OF reads_folded], goal_cases)
          case 1
          with e1 show ?case by (intro gc_safe_env) (rule env_trans)
        next
          case (2 folded w3)
          have e3: "env w w3" using e1 2(2) by (rule env_trans)
          show ?case
          proof (cases folded)
            case False
            with 2(3) e3 show ?thesis by (intro gc_safe_env) (simp add: io_return_def)
          next
            case True
            have idx: "e_uuid e \<noteq> s_uuid s" if "ino w parent \<noteq> None"
                "dir_inv (fa_ext F) (com w parent)" "index_map (com w parent) (s_filename s) = Some e" for e
              by (rule gc_folded_True [of parent s w1 w3]) (use 2(1) True that env_same [OF e1] in simp_all)
            from True 2(3) have "io_bind (io_lift (ino_from_slice (fa_ino F) raw)) (gc_reclaim F l bucket s) w3 = (q, w')" by simp
            then show ?thesis
            proof (rule reads_bind_run [OF reads_lift(1)], goal_cases)
              case 1
              with e3 show ?case by (intro gc_safe_env) (rule env_trans)
            next
              case (2 j w4)
              from 2(1) have j: "ino_from_slice (fa_ino F) raw = Ok j" and w4: "w4 = w3" by (simp_all add: io_lift_def)
              show ?case
                by (rule gc_step_last [OF b k [unfolded parent] op ob(1) _ _ j idx _ 2(3)])
                  (use parse ob late e3 w4 in \<open>simp_all add: not_less\<close>)
            qed
          qed
        qed
      qed
    qed
  qed
qed

section \<open>The whole collection\<close>

lemma gc_safe_trans:
  assumes 1: "gc_safe F objs com ino l parent now S w w1" and 2: "gc_safe F objs com ino l parent now S w1 w2"
    and parent: "parent = dir_key (fa_ext F) l p" and ex: "ino w2 parent \<noteq> None"
  shows "gc_safe F objs com ino l parent now S w w2"
proof -
  have p: "parent = child_key (fa_ext F) l True p" by (simp add: parent child_key_def)
  have s1: "shrinks (fa_ext F) l objs com ino w w1" and s2: "shrinks (fa_ext F) l objs com ino w1 w2"
    using 1 2 by (simp_all add: gc_safe_def)
  have ex1: "ino w1 parent \<noteq> None" using s2 ex unfolding shrinks_def p by metis
  with s1 have par: "ino w1 parent = ino w parent" "com w1 parent = com w parent" unfolding shrinks_def p by metis+
  have "\<exists>s \<in> S. s_op s = Delete \<and> s_uuid s = u \<and>
      gc_due (fa_ino F) (objs w) (ino w parent \<noteq> None \<and> dir_inv (fa_ext F) (com w parent)) (com w parent) now s d i"
    if i: "ino w (child_key (fa_ext F) l d u) = Some i" and gone: "ino w2 (child_key (fa_ext F) l d u) = None" for d u i
  proof (cases "ino w1 (child_key (fa_ext F) l d u)")
    case None
    with 1 i show ?thesis by (simp add: gc_safe_def)
  next
    case (Some j)
    with s1 i have j: "j = i" unfolding shrinks_def by (metis option.distinct(1) option.inject)
    from 2 Some gone obtain s where s: "s \<in> S" "s_op s = Delete" "s_uuid s = u"
      "gc_due (fa_ino F) (objs w1) (ino w parent \<noteq> None \<and> dir_inv (fa_ext F) (com w parent)) (com w parent) now s d i"
      unfolding gc_safe_def par j by blast
    have "objs w k = Some ob" if "objs w1 k = Some ob" for k ob
      using s1 that unfolding shrinks_def by (metis option.distinct(1))
    with s(4) have "gc_due (fa_ino F) (objs w) (ino w parent \<noteq> None \<and> dir_inv (fa_ext F) (com w parent)) (com w parent) now s d i"
      unfolding gc_due_def by meson
    with s show ?thesis by blast
  qed
  with shrinks_trans [OF s1 s2] show ?thesis by (simp add: gc_safe_def)
qed

lemma gc_loop_safe:
  assumes b: "CHR ''/'' \<notin> set bucket" and parent: "parent = dir_key (fa_ext F) l p"
    and k: "\<And>s. s \<in> set ss \<Longrightarrow> prefix (scatter_inodes_path parent) (s_key s) \<and> s \<in> S"
    and run: "gc_loop F l bucket parent now ss stats w = (r, w')" and ex: "ino w' parent \<noteq> None"
  shows "gc_safe F objs com ino l parent now S w w'"
  using k run
proof (induction ss arbitrary: stats w)
  case Nil
  then show ?case using gc_safe_env env_refl by (simp add: io_return_def)
next
  case (Cons s ss)
  show ?case
  proof (cases "s_op s = Delete")
    case False
    with Cons show ?thesis by simp
  next
    case True
    with Cons.prems(2) have "io_bind (gc_tombstone F l bucket parent now s) (\<lambda>out.
        gc_loop F l bucket parent now ss (gc_count out stats)) w = (r, w')" by simp
    then show ?thesis
    proof (rule io_bind_run)
      fix out w1 assume t: "gc_tombstone F l bucket parent now s w = (Ok out, w1)"
        and rest: "gc_loop F l bucket parent now ss (gc_count out stats) w1 = (r, w')"
      have "gc_safe F objs com ino l parent now S w w1"
        by (rule gc_step_safe [OF b parent _ True _ t]) (use Cons.prems(1) [of s] in simp_all)
      moreover have "gc_safe F objs com ino l parent now S w1 w'"
        by (rule Cons.IH [OF _ rest]) (use Cons.prems(1) in simp)
      ultimately show ?thesis by (rule gc_safe_trans [OF _ _ parent ex])
    next
      fix e assume t: "gc_tombstone F l bucket parent now s w = (Err e, w')"
      show ?thesis by (rule gc_step_safe [OF b parent _ True _ t]) (use Cons.prems(1) [of s] in simp_all)
    next
      assume t: "gc_tombstone F l bucket parent now s w = (Panic, w')"
      show ?thesis by (rule gc_step_safe [OF b parent _ True _ t]) (use Cons.prems(1) [of s] in simp_all)
    qed
  qed
qed

lemma gc_run:
  assumes b: "CHR ''/'' \<notin> set bucket" and parent: "parent = dir_key (fa_ext F) l p"
    and ok: "folder_ok (fa_ext F) parent (objs w)"
    and pages: "\<And>v. pages_ok (fst (list_objects (fa_s3 F) (scatter_inodes_path parent) v))"
    and run: "fs_gc F l bucket p w = (r, w')" and ex: "ino w' parent \<noteq> None"
  shows "env w w' \<or> (\<exists>v now v1. env w v \<and> now_ms (fa_s3 F) v = (Ok now, v1) \<and>
    gc_safe F objs com ino l parent now (pending (fa_ext F) (objs w) (scatter_inodes_path parent)) w w')"
  using run [unfolded fs_gc_def Let_def]
proof (rule reads_bind_run [OF reads_staging], goal_cases)
  case (2 root w1)
  have root: "root = parent"
    using staging_Ok [of bucket "dir_key (fa_ext F) l p" w root w1] 2(1) b parent by (simp add: staging_from_def dir_uri_def)
  note e1 = 2(2)
  from 2(3) [unfolded list_scatter_inodes_def] show ?case
  proof (rule reads_bind_run [OF reads_list], goal_cases)
    case (2 ss w2)
    have e2: "env w w2" using e1 2(2) by (rule env_trans)
    have "folder_ok (fa_ext F) parent (objs w1)" using ok env_same [OF e1] by simp
    from list_scatter_sound(1) [OF this _ pages 2(1) [unfolded root]] env_same [OF e1]
    have ss: "set ss = pending (fa_ext F) (objs w) (scatter_inodes_path parent)" by simp
    from 2(3) show ?case
    proof (rule reads_bind_run [OF reads_now], goal_cases)
      case (2 now w3)
      have e3: "env w w3" using e2 2(2) by (rule env_trans)
      note n = 2(1)
      from 2(3) show ?case
      proof (rule reads_bind_run [OF reads_open(2)], goal_cases)
        case (2 h w4)
        have e4: "env w w4" using e3 2(2) by (rule env_trans)
        have h: "h_root h = parent"
          using open_dir_run(1) [OF b, of l p True RetryLastWriterWins w3 h w4] 2(1) parent by (simp add: fs_open_def fs_open_opt_def)
        have k: "prefix (scatter_inodes_path parent) (s_key s) \<and> s \<in> pending (fa_ext F) (objs w) (scatter_inodes_path parent)"
          if "s \<in> set ss" for s
          using that pending_object [of s "fa_ext F" "objs w"] unfolding ss by blast
        from gc_loop_safe [OF b parent k 2(3) [unfolded h] ex]
        have "gc_safe F objs com ino l parent now (pending (fa_ext F) (objs w) (scatter_inodes_path parent)) w4 w'" .
        from gc_safe_trans [OF gc_safe_env [OF e4] this parent ex] e2 n show ?case by blast
      qed (use e3 env_trans in blast)
    qed (use e2 env_trans in blast)
  qed (use e1 env_trans in blast)
qed blast

end

end
