(* ===== verification/Fs_Moves.thy ===== *)
theory Fs_Moves
  imports Fs_Gc
begin

text \<open>
  The cross-directory rename: the claim of the source reads the entry and writes the intent, the
  forward steps change the two directories at the two names and nowhere else, and repeating them
  changes nothing.
\<close>

section \<open>Steps that touch the transaction folder only\<close>

definition txn_only ::
  "ext \<Rightarrow> hyper_dir_layout \<Rightarrow> ('w \<Rightarrow> string \<Rightarrow> s3_object option) \<Rightarrow> ('w \<Rightarrow> string \<Rightarrow> 'i table) \<Rightarrow> 'w \<Rightarrow> 'w \<Rightarrow> bool" where
  "txn_only x l objs com w w' =
     ((\<forall>k. \<not> prefix (txn_prefix l) k \<longrightarrow> objs w' k = objs w k) \<and>
      (\<forall>d u. com w' (child_key x l d u) = com w (child_key x l d u)))"

lemma txn_only_trans: "txn_only x l objs com w w1 \<Longrightarrow> txn_only x l objs com w1 w2 \<Longrightarrow> txn_only x l objs com w w2"
  by (simp add: txn_only_def)

lemma scatter_not_txn: "prefix (scatter_inodes_path (dir_key x l p)) k \<Longrightarrow> \<not> prefix (txn_prefix l) k"
  by (rule child_key_not_txn [of x l True p]) (auto simp: child_key_def scatter_inodes_path_def prefix_def)

lemma txn_key_prefix: "prefix (txn_prefix l) (txn_key l t)"
  by (simp add: txn_prefix_def txn_key_def)

text \<open>A step that changed the directory at \<open>root\<close> and nothing else.\<close>

definition only_dir :: "('w \<Rightarrow> string \<Rightarrow> s3_object option) \<Rightarrow> ('w \<Rightarrow> string \<Rightarrow> 'i table) \<Rightarrow> string \<Rightarrow> 'w \<Rightarrow> 'w \<Rightarrow> bool" where
  "only_dir objs com root w w' =
     ((\<forall>c. c \<noteq> root \<longrightarrow> com w' c = com w c) \<and> (\<forall>k. \<not> hf_owned root k \<longrightarrow> objs w' k = objs w k))"

text \<open>What the two directories show afterwards, when no outstanding scatter shadows the two names.\<close>

definition moved ::
  "ext \<Rightarrow> 'i inode_api \<Rightarrow> ('w \<Rightarrow> string \<Rightarrow> s3_object option) \<Rightarrow> ('w \<Rightarrow> string \<Rightarrow> 'i table) \<Rightarrow> string \<Rightarrow> string \<Rightarrow> string \<Rightarrow> string \<Rightarrow>
     'i dir_file_entry_raw \<Rightarrow> 'w \<Rightarrow> 'w \<Rightarrow> bool" where
  "moved x ia objs com src sn dst dn e w w' =
     (dir_lookup x ia (objs w') (com w' src) src = (dir_lookup x ia (objs w) (com w src) src)(sn := None) \<and>
      dir_lookup x ia (objs w') (com w' dst) dst = (dir_lookup x ia (objs w) (com w dst) dst)(dn \<mapsto> e))"

text \<open>
  Between the commit point and the end of a rename: the intent is stored, the source is as it was and
  the destination already shows the moved entry or is as it was.
\<close>

definition rename_half ::
  "ext \<Rightarrow> 'i inode_api \<Rightarrow> ('w \<Rightarrow> string \<Rightarrow> s3_object option) \<Rightarrow> ('w \<Rightarrow> string \<Rightarrow> 'i table) \<Rightarrow> string \<Rightarrow> rename_intent \<Rightarrow> string \<Rightarrow> string \<Rightarrow>
     'i dir_file_entry_raw \<Rightarrow> 'w \<Rightarrow> 'w \<Rightarrow> bool" where
  "rename_half x ia objs com key it src dst e w w' =
     ((\<exists>ob. objs w' key = Some ob \<and> ob_body ob = rename_serialize x it) \<and>
      dir_ok x (objs w') (com w' src) src \<and> dir_ok x (objs w') (com w' dst) dst \<and>
      pending x (objs w') (scatter_inodes_path src) = pending x (objs w) (scatter_inodes_path src) \<and>
      pending x (objs w') (scatter_inodes_path dst) = pending x (objs w) (scatter_inodes_path dst) \<and>
      dir_lookup x ia (objs w') (com w' src) src = dir_lookup x ia (objs w) (com w src) src \<and>
      (dir_lookup x ia (objs w') (com w' dst) dst)(ri_dst_name it \<mapsto> e) =
      (dir_lookup x ia (objs w) (com w dst) dst)(ri_dst_name it \<mapsto> e))"

context fs_store
begin

lemma txn_not_owned: "prefix (txn_prefix l) k \<Longrightarrow> \<not> hf_owned (child_key (fa_ext F) l d u) k"
  using child_key_not_txn [of "fa_ext F" l d u k] by (auto simp: hf_owned_def prefix_def)

lemma txn_only_env: "env w w' \<Longrightarrow> txn_only (fa_ext F) l objs com w w'"
  using env_same [of w w'] by (simp add: txn_only_def)

lemma txn_only_put:
  assumes "put_object (fa_s3 F) k b c w = (r, w')" and "prefix (txn_prefix l) k"
  shows "txn_only (fa_ext F) l objs com w w'"
  using put_other [OF assms(1)] put_com [OF assms(1)] txn_not_owned [OF assms(2)] assms(2)
  by (auto simp: txn_only_def)

lemma txn_only_delete:
  assumes "delete_object (fa_s3 F) k w = (r, w')" and "prefix (txn_prefix l) k"
  shows "txn_only (fa_ext F) l objs com w w'"
proof -
  from assms(1) obtain q where d: "delete_obj (fa_s3 F) k None w = (q, w')"
    by (auto simp: delete_object_def split: prod.splits sum.splits)
  show ?thesis
    using delete_other [OF d] delete_com [OF d] txn_not_owned [OF assms(2)] assms(2) by (auto simp: txn_only_def)
qed

lemma dir_ok_txn:
  assumes "txn_only (fa_ext F) l objs com w w'" and "root = dir_key (fa_ext F) l p" and "dir_ok (fa_ext F) (objs w) (com w root) root"
  shows "dir_ok (fa_ext F) (objs w') (com w' root) root" "com w' root = com w root"
    "dir_lookup (fa_ext F) ia (objs w') (com w' root) root = dir_lookup (fa_ext F) ia (objs w) (com w root) root"
    "pending (fa_ext F) (objs w') (scatter_inodes_path root) = pending (fa_ext F) (objs w) (scatter_inodes_path root)"
proof -
  have o: "objs w' k = objs w k" if "prefix (scatter_inodes_path root) k" for k
    using assms(1) scatter_not_txn that unfolding assms(2) txn_only_def by metis
  show c: "com w' root = com w root"
    using assms(1) unfolding assms(2) txn_only_def by (metis child_key_def)
  show "dir_ok (fa_ext F) (objs w') (com w' root) root"
    unfolding c by (rule dir_ok_cong [OF o dir_okD(2) [OF assms(3)] assms(3)])
  show "dir_lookup (fa_ext F) ia (objs w') (com w' root) root = dir_lookup (fa_ext F) ia (objs w) (com w root) root"
    unfolding c by (rule dir_lookup_cong [OF dir_okD(4) [OF assms(3)] o])
  show "pending (fa_ext F) (objs w') (scatter_inodes_path root) = pending (fa_ext F) (objs w) (scatter_inodes_path root)"
    by (rule pending_cong) (rule o)
qed

section \<open>Claiming the source\<close>

lemma open_and_read_run:
  assumes b: "CHR ''/'' \<notin> set bucket" and src: "src = dir_key (fa_ext F) l sp" and inv: "dir_inv (fa_ext F) (com w src)"
    and run: "open_and_read F l bucket sp nm w = (Ok q, w')"
  shows "env w w'" "q = Ok e \<Longrightarrow> index_map (com w src) nm = Some e"
proof -
  from run obtain h w1 where o: "fs_open_dir F l bucket sp True w = (Ok h, w1)"
    and t: "io_try (io_lift (read_entry_raw (fa_dir F) h nm)) w1 = (Ok q, w')"
    unfolding open_and_read_def by (rule io_bind_OkE)
  have q: "q = read_entry_raw (fa_dir F) h nm" "w' = w1" using io_tryE(1) [OF t] by (simp_all add: io_lift_def)
  show "env w w'" using readsD [OF reads_open(3) o] q(2) by simp
  have "fs_open_opt F (dir_uri (fa_ext F) l bucket sp) True RetryLastWriterWins w = (Ok h, w1)"
    using o by (simp add: fs_open_dir_def fs_open_def fs_open_opt_def)
  note tab = open_dir_run(2) [OF b this]
  assume "q = Ok e"
  with q(1) have "read_entry_raw (fa_dir F) h nm = Ok e" by simp
  then obtain slot where "probe_lookup_in (dp_bt (fa_dir F)) (h_bmap h) nm (hash_filename (fa_ext F) nm) = Ok (Some (slot, e))"
    by (auto simp: read_entry_raw_def elim!: res_bind_OkE split: option.splits)
  from probe_lookup_sound(1) [OF _ this] tab src dir_inv_probe [OF inv] show "index_map (com w src) nm = Some e" by simp
qed

lemma claim_run:
  assumes b: "CHR ''/'' \<notin> set bucket" and src: "src = dir_key (fa_ext F) l sp" and key: "prefix (txn_prefix l) key"
    and inv: "dir_inv (fa_ext F) (com w src)"
    and run: "claim_loop F l bucket key sp sn dp dn n w = (Ok (k, intent), w')"
  shows "txn_only (fa_ext F) l objs com w w' \<and> k = key \<and>
    (\<exists>ob. objs w' key = Some ob \<and> ob_body ob = rename_serialize (fa_ext F) intent) \<and>
    (\<exists>e. index_map (com w src) sn = Some e \<and>
      intent = \<lparr> ri_src_parent = sp, ri_src_name = sn, ri_dst_parent = dp, ri_dst_name = dn,
        ri_child = e_uuid e, ri_inode = ino_as_slice (fa_ino F) (e_inode e) \<rparr>)"
  using inv run
proof (induction n arbitrary: w)
  case (Suc n)
  from Suc.prems(2) obtain e w1 where r0: "open_and_read F l bucket sp sn w = (Ok (Ok e), w1)"
    and rest: "(let intent = \<lparr> ri_src_parent = sp, ri_src_name = sn, ri_dst_parent = dp, ri_dst_name = dn,
           ri_child = e_uuid e, ri_inode = ino_as_slice (fa_ino F) (e_inode e) \<rparr> in
       (\<lambda>w. case put_object (fa_s3 F) key (rename_serialize (fa_ext F) intent) IfNoneMatch w of
          (Inr _, w') \<Rightarrow>
            io_bind (open_and_read F l bucket sp sn) (\<lambda>still.
              case still of
                Ok e' \<Rightarrow> if e_uuid e' = e_uuid e then io_return (key, intent)
                  else io_bind (ignore_err (delete_object (fa_s3 F) key)) (\<lambda>_. io_fail NotFound)
              | Err err \<Rightarrow> io_bind (ignore_err (delete_object (fa_s3 F) key)) (\<lambda>_. io_fail err)
              | Panic \<Rightarrow> io_lift Panic) w'
        | (Inl err, w') \<Rightarrow>
            if is_conflict err then claim_loop F l bucket key sp sn dp dn n w' else (Err Other, w'))) w1 = (Ok (k, intent), w')"
    by (auto elim!: io_bind_OkE simp: io_lift_def)
  note rd = open_and_read_run [OF b src Suc.prems(1) r0]
  let ?int = "\<lparr> ri_src_parent = sp, ri_src_name = sn, ri_dst_parent = dp, ri_dst_name = dn,
           ri_child = e_uuid e, ri_inode = ino_as_slice (fa_ino F) (e_inode e) \<rparr>"
  obtain pr w2 where put: "put_object (fa_s3 F) key (rename_serialize (fa_ext F) ?int) IfNoneMatch w1 = (pr, w2)"
    by (cases "put_object (fa_s3 F) key (rename_serialize (fa_ext F) ?int) IfNoneMatch w1")
  have t2: "txn_only (fa_ext F) l objs com w w2"
    using txn_only_trans [OF txn_only_env [OF rd(1)] txn_only_put [OF put key]] .
  have c2: "com w2 src = com w src" using t2 unfolding src txn_only_def by (metis child_key_def)
  show ?case
  proof (cases pr)
    case (Inl err)
    with rest put have "claim_loop F l bucket key sp sn dp dn n w2 = (Ok (k, intent), w')" by (simp add: Let_def split: if_splits)
    from Suc.IH [OF _ this] Suc.prems(1) c2 txn_only_trans [OF t2] show ?thesis by simp
  next
    case (Inr et)
    with rest put obtain still w3 where s: "open_and_read F l bucket sp sn w2 = (Ok still, w3)"
      and last: "(case still of
                Ok e' \<Rightarrow> if e_uuid e' = e_uuid e then io_return (key, ?int)
                  else io_bind (ignore_err (delete_object (fa_s3 F) key)) (\<lambda>_. io_fail NotFound)
              | Err err \<Rightarrow> io_bind (ignore_err (delete_object (fa_s3 F) key)) (\<lambda>_. io_fail err)
              | Panic \<Rightarrow> io_lift Panic) w3 = (Ok (k, intent), w')"
      by (auto simp: Let_def elim!: io_bind_OkE)
    from last have "k = key" "intent = ?int" "w' = w3"
      by (auto simp: io_return_def io_fail_def io_lift_def elim!: io_bind_OkE split: result.splits if_splits)
    moreover have e3: "env w2 w3" using open_and_read_run(1) [OF b src _ s] Suc.prems(1) c2 by simp
    moreover obtain ob where "objs w2 key = Some ob" "ob_body ob = rename_serialize (fa_ext F) ?int"
      using put_Ok [OF put [unfolded Inr]] by auto
    then have "\<exists>ob. objs w3 key = Some ob \<and> ob_body ob = rename_serialize (fa_ext F) ?int" using env_same [OF e3] by simp
    ultimately show ?thesis using txn_only_trans [OF t2 txn_only_env [OF e3]] rd(2) [OF refl] by simp
  qed
qed (simp add: io_fail_def)

section \<open>The forward steps\<close>

lemma update_other:
  assumes run: "io_bind (reload_to_latest (fa_dir F)) (\<lambda>_. io_bind (on_bmap m) (\<lambda>a.
      io_bind (hf_flush (fa_hf F)) (\<lambda>_. io_return (g a)))) (h, w) = (Ok r, (h', w'))"
  shows "c \<noteq> h_root h \<Longrightarrow> com w' c = com w c" "\<not> hf_owned (h_root h) k \<Longrightarrow> objs w' k = objs w k"
proof -
  from run obtain u s1 where rel: "reload_to_latest (fa_dir F) (h, w) = (Ok u, s1)" and
    rest: "io_bind (on_bmap m) (\<lambda>a. io_bind (hf_flush (fa_hf F)) (\<lambda>_. io_return (g a))) s1 = (Ok r, (h', w'))"
    by (rule io_bind_OkE)
  obtain h1 w1 where s1: "s1 = (h1, w1)" by (cases s1)
  note rl = reload_run [OF rel [unfolded s1]]
  from rest s1 obtain b' n where fl: "hf_flush (fa_hf F) (h1\<lparr>h_bmap := b'\<rparr>, w1) = (Ok n, (h', w'))"
    by (auto elim!: io_bind_OkE on_bmapE simp: io_return_def)
  note f = flush_any [OF fl] and e = env_same [OF rl(1)]
  show "c \<noteq> h_root h \<Longrightarrow> com w' c = com w c"
    using spec [OF conjunct2 [OF conjunct2 [OF conjunct2 [OF f]]], of c] e rl(2) by simp
  show "\<not> hf_owned (h_root h) k \<Longrightarrow> objs w' k = objs w k"
    using spec [OF conjunct1 [OF conjunct2 [OF conjunct2 [OF f]]], of k] e rl(2) by simp
qed

lemma open_update_run:
  assumes b: "CHR ''/'' \<notin> set bucket" and root: "root = dir_key (fa_ext F) l p"
    and ok: "dir_ok (fa_ext F) (objs w) (com w root) root"
    and op: "fs_open_dir F l bucket p False w = (Ok h, w1)"
  shows "env w w1" "root = h_root h" "dir_ok (fa_ext F) (objs w1) (com w1 root) root"
proof -
  show e: "env w w1" using readsD [OF reads_open(3) op] .
  have "fs_open_opt F (dir_uri (fa_ext F) l bucket p) False RetryLastWriterWins w = (Ok h, w1)"
    using op by (simp add: fs_open_dir_def fs_open_def fs_open_opt_def)
  from open_dir_run(1) [OF b this] root show "root = h_root h" by simp
  show "dir_ok (fa_ext F) (objs w1) (com w1 root) root" using ok env_same [OF e] by simp
qed

lemma open_insert_run:
  assumes b: "CHR ''/'' \<notin> set bucket" and root: "root = dir_key (fa_ext F) l p"
    and ok: "dir_ok (fa_ext F) (objs w) (com w root) root" and fit: "fits_name nm e"
    and op: "fs_open_dir F l bucket p False w = (Ok h, w1)" and ins: "on_handle h (insert_entry (fa_dir F) nm e) w1 = (Ok (), w')"
  shows "index_becomes (fa_ext F) objs com root ((index_map (com w root))(nm \<mapsto> e)) w w'" "only_dir objs com root w w'"
proof -
  note o = open_update_run [OF b root ok op]
  from ins obtain h' where run: "insert_entry (fa_dir F) nm e (h, w1) = (Ok (), (h', w'))"
    by (auto simp: on_handle_def split: prod.splits)
  from insert_entry_run [OF o(3,2) fit run] env_same [OF o(1)] index_becomes_env [OF o(1)]
  show "index_becomes (fa_ext F) objs com root ((index_map (com w root))(nm \<mapsto> e)) w w'" by simp
  note u = update_other [OF run [unfolded insert_entry_def]]
  show "only_dir objs com root w w'" using u env_same [OF o(1)] unfolding only_dir_def o(2) by simp
qed

lemma open_remove_run:
  assumes b: "CHR ''/'' \<notin> set bucket" and root: "root = dir_key (fa_ext F) l p"
    and ok: "dir_ok (fa_ext F) (objs w) (com w root) root"
    and op: "fs_open_dir F l bucket p False w = (Ok h, w1)" and rem: "on_handle h (remove_entry (fa_dir F) nm) w1 = (Ok hit, w')"
  shows "index_becomes (fa_ext F) objs com root ((index_map (com w root))(nm := None)) w w'" "only_dir objs com root w w'"
proof -
  note o = open_update_run [OF b root ok op]
  from rem obtain h' where run: "remove_entry (fa_dir F) nm (h, w1) = (Ok hit, (h', w'))"
    by (auto simp: on_handle_def split: prod.splits)
  from remove_entry_run(1) [OF o(3,2) run] env_same [OF o(1)] index_becomes_env [OF o(1)]
  show "index_becomes (fa_ext F) objs com root ((index_map (com w root))(nm := None)) w w'" by simp
  note u = update_other [OF run [unfolded remove_entry_def]]
  show "only_dir objs com root w w'" using u env_same [OF o(1)] unfolding only_dir_def o(2) by simp
qed

text \<open>The other directory of the move is left alone.\<close>

lemma only_dir_other:
  assumes od: "only_dir objs com root w w'" and r: "root = dir_key (fa_ext F) l p" "other = dir_key (fa_ext F) l q" "p \<noteq> q"
    and ok: "dir_ok (fa_ext F) (objs w) (com w other) other"
  shows "dir_ok (fa_ext F) (objs w') (com w' other) other" "com w' other = com w other"
    "prefix (scatter_inodes_path other) k \<Longrightarrow> objs w' k = objs w k"
proof -
  have ne: "other \<noteq> root" using r uuid_fmt_inj by (auto simp: dir_key_def)
  show c: "com w' other = com w other" using od ne by (simp add: only_dir_def)
  have o: "objs w' k = objs w k" if "prefix (scatter_inodes_path other) k" for k
    using od scatter_not_owned_child [of l q k True p] that r by (simp add: only_dir_def child_key_def)
  then show "prefix (scatter_inodes_path other) k \<Longrightarrow> objs w' k = objs w k" .
  show "dir_ok (fa_ext F) (objs w') (com w' other) other"
    unfolding c by (rule dir_ok_cong [OF o dir_okD(2) [OF ok] ok])
qed

lemma apply_run:
  assumes b: "CHR ''/'' \<notin> set bucket"
    and r: "src = dir_key (fa_ext F) l (ri_src_parent it)" "dst = dir_key (fa_ext F) l (ri_dst_parent it)"
      "ri_src_parent it \<noteq> ri_dst_parent it"
    and ok: "dir_ok (fa_ext F) (objs w) (com w src) src" "dir_ok (fa_ext F) (objs w) (com w dst) dst"
    and nm: "storable (ri_dst_name it)" "utf8_valid (ri_dst_name it)"
    and run: "apply_rename_intent F l bucket it w = (Ok (), w')"
  shows "\<exists>i. ino_from_slice (fa_ino F) (ri_inode it) = Ok i \<and>
    index_becomes (fa_ext F) objs com dst
      ((index_map (com w dst))(ri_dst_name it \<mapsto> entry_from i (ri_child it) (ri_dst_name it))) w w' \<and>
    index_becomes (fa_ext F) objs com src ((index_map (com w src))(ri_src_name it := None)) w w'"
proof -
  from run obtain i h1 w1 w2 h2 w3 hit where i: "ino_from_slice (fa_ino F) (ri_inode it) = Ok i"
    and o1: "fs_open_dir F l bucket (ri_dst_parent it) False w = (Ok h1, w1)"
    and ins: "on_handle h1 (insert_entry (fa_dir F) (ri_dst_name it) (entry_from i (ri_child it) (ri_dst_name it))) w1 = (Ok (), w2)"
    and o2: "fs_open_dir F l bucket (ri_src_parent it) False w2 = (Ok h2, w3)"
    and rem: "on_handle h2 (remove_entry (fa_dir F) (ri_src_name it)) w3 = (Ok hit, w')"
    unfolding apply_rename_intent_def by (auto elim!: io_bind_OkE simp: io_lift_def io_return_def)
  note I = open_insert_run [OF b r(2) ok(2) fits_name_entry [OF nm] o1 ins]
  note s2 = only_dir_other [OF I(2) r(2) r(1) not_sym [OF r(3)] ok(1)]
  note R = open_remove_run [OF b r(1) s2(1) o2 rem]
  have okd2: "dir_ok (fa_ext F) (objs w2) (com w2 dst) dst" using I(1) by (simp add: index_becomes_def)
  note d2 = only_dir_other [OF R(2) r(1) r(2) r(3) okd2]
  have "index_becomes (fa_ext F) objs com dst
      ((index_map (com w dst))(ri_dst_name it \<mapsto> entry_from i (ri_child it) (ri_dst_name it))) w w'"
    using I(1) d2 by (simp add: index_becomes_def)
  moreover have "index_becomes (fa_ext F) objs com src ((index_map (com w src))(ri_src_name it := None)) w w'"
    using R(1) s2 by (simp add: index_becomes_def)
  ultimately show ?thesis using i by blast
qed

lemma apply_moves:
  assumes b: "CHR ''/'' \<notin> set bucket"
    and r: "src = dir_key (fa_ext F) l (ri_src_parent it)" "dst = dir_key (fa_ext F) l (ri_dst_parent it)"
      "ri_src_parent it \<noteq> ri_dst_parent it"
    and ok: "dir_ok (fa_ext F) (objs w) (com w src) src" "dir_ok (fa_ext F) (objs w) (com w dst) dst"
    and nm: "storable (ri_dst_name it)" "utf8_valid (ri_dst_name it)"
    and L: "latest_scatter (pending (fa_ext F) (objs w) (scatter_inodes_path src)) (ri_src_name it) = None"
      "latest_scatter (pending (fa_ext F) (objs w) (scatter_inodes_path dst)) (ri_dst_name it) = None"
    and run: "apply_rename_intent F l bucket it w = (Ok (), w')"
  shows "\<exists>i. ino_from_slice (fa_ino F) (ri_inode it) = Ok i \<and>
    moved (fa_ext F) (fa_ino F) objs com src (ri_src_name it) dst (ri_dst_name it)
      (entry_from i (ri_child it) (ri_dst_name it)) w w' \<and>
    dir_ok (fa_ext F) (objs w') (com w' src) src \<and> dir_ok (fa_ext F) (objs w') (com w' dst) dst"
proof -
  from apply_run [OF b r ok nm run] obtain i where i: "ino_from_slice (fa_ino F) (ri_inode it) = Ok i"
    and D: "index_becomes (fa_ext F) objs com dst
      ((index_map (com w dst))(ri_dst_name it \<mapsto> entry_from i (ri_child it) (ri_dst_name it))) w w'"
    and S: "index_becomes (fa_ext F) objs com src ((index_map (com w src))(ri_src_name it := None)) w w'" by blast
  have "moved (fa_ext F) (fa_ino F) objs com src (ri_src_name it) dst (ri_dst_name it)
      (entry_from i (ri_child it) (ri_dst_name it)) w w'"
    using index_becomes_lookup [OF D ok(2), of "fa_ino F"] index_becomes_lookup [OF S ok(1), of "fa_ino F"]
    by (simp add: moved_def dir_lookup_def overlay_update [OF L(1)] overlay_update [OF L(2)])
  with i D S show ?thesis by (auto simp: index_becomes_def)
qed

lemma get_raw_Ok:
  assumes "get_object_raw (fa_s3 F) k w = (Ok body, w')" and "objs w k = Some ob"
  shows "body = ob_body ob" "env w w'"
proof -
  from assms(1) obtain out where g: "get_object (fa_s3 F) k w = (Inr out, w')" "g_body out = Some body"
    by (auto simp: get_object_raw_def split: prod.splits sum.splits option.splits)
  show e: "env w w'" using get_env [OF g(1)] .
  from get_Ok [OF g(1)] g(2) env_same [OF e] assms(2) show "body = ob_body ob" by auto
qed

lemma moved_txn:
  assumes "txn_only (fa_ext F) l objs com w w1" and "moved (fa_ext F) (fa_ino F) objs com src sn dst dn e w1 w2"
    and "txn_only (fa_ext F) l objs com w2 w3"
    and r: "src = dir_key (fa_ext F) l sp" "dst = dir_key (fa_ext F) l dp"
    and ok: "dir_ok (fa_ext F) (objs w) (com w src) src" "dir_ok (fa_ext F) (objs w) (com w dst) dst"
      "dir_ok (fa_ext F) (objs w2) (com w2 src) src" "dir_ok (fa_ext F) (objs w2) (com w2 dst) dst"
  shows "moved (fa_ext F) (fa_ino F) objs com src sn dst dn e w w3"
  using assms(2) dir_ok_txn(3) [OF assms(1) r(1) ok(1), of "fa_ino F"] dir_ok_txn(3) [OF assms(1) r(2) ok(2), of "fa_ino F"]
    dir_ok_txn(3) [OF assms(3) r(1) ok(3), of "fa_ino F"] dir_ok_txn(3) [OF assms(3) r(2) ok(4), of "fa_ino F"]
  by (simp add: moved_def)

lemma index_becomes_txn:
  assumes t: "txn_only (fa_ext F) l objs com w w1" "txn_only (fa_ext F) l objs com w2 w3"
    and ix: "index_becomes (fa_ext F) objs com root v w1 w2" and r: "root = dir_key (fa_ext F) l p"
  shows "index_becomes (fa_ext F) objs com root v w w3"
proof -
  have ok: "dir_ok (fa_ext F) (objs w2) (com w2 root) root" using ix by (simp add: index_becomes_def)
  have "objs w1 k = objs w k \<and> objs w3 k = objs w2 k" if "prefix (scatter_inodes_path root) k" for k
    using t scatter_not_txn that unfolding r txn_only_def by metis
  with ix dir_ok_txn(1,2) [OF t(2) r ok] show ?thesis by (simp add: index_becomes_def)
qed

lemma rename_across_run:
  assumes b: "CHR ''/'' \<notin> set bucket" and r: "src = dir_key (fa_ext F) l sp" "dst = dir_key (fa_ext F) l dp" "sp \<noteq> dp"
    and ok: "dir_ok (fa_ext F) (objs w) (com w src) src" "dir_ok (fa_ext F) (objs w) (com w dst) dst"
    and nm: "storable dn" "utf8_valid dn"
    and run: "fs_rename_across F l bucket sp sn dp dn w = (Ok (), w')"
  shows "\<exists>e. index_map (com w src) sn = Some e \<and>
    index_becomes (fa_ext F) objs com src ((index_map (com w src))(sn := None)) w w' \<and>
    index_becomes (fa_ext F) objs com dst ((index_map (com w dst))(dn \<mapsto> entry_from (e_inode e) (e_uuid e) dn)) w w'"
proof -
  let ?key = "txn_key l (rename_txn_id (fa_ext F) sp sn)"
  from run obtain k it w1 w2 where em: "claim_loop F l bucket ?key sp sn dp dn RENAME_CLAIM_RETRIES w = (Ok (k, it), w1)"
    and ap: "apply_rename_intent F l bucket it w1 = (Ok (), w2)" and de: "ignore_err (delete_object (fa_s3 F) k) w2 = (Ok (), w')"
    unfolding fs_rename_across_def emit_rename_intent_def by (auto elim!: io_bind_OkE)
  from claim_run [OF b r(1) txn_key_prefix dir_okD(2) [OF ok(1)] em] obtain e where
    t1: "txn_only (fa_ext F) l objs com w w1" and k: "k = ?key" and e: "index_map (com w src) sn = Some e" and
    it: "it = \<lparr> ri_src_parent = sp, ri_src_name = sn, ri_dst_parent = dp, ri_dst_name = dn,
        ri_child = e_uuid e, ri_inode = ino_as_slice (fa_ino F) (e_inode e) \<rparr>" by blast
  have t3: "txn_only (fa_ext F) l objs com w2 w'"
    using de txn_only_delete [of k w2] txn_key_prefix k by (auto simp: ignore_err_def split: prod.splits result.splits)
  note s1 = dir_ok_txn [OF t1 r(1) ok(1)] and d1 = dir_ok_txn [OF t1 r(2) ok(2)]
  have "index_becomes (fa_ext F) objs com dst ((index_map (com w dst))(dn \<mapsto> entry_from (e_inode e) (e_uuid e) dn)) w1 w2 \<and>
    index_becomes (fa_ext F) objs com src ((index_map (com w src))(sn := None)) w1 w2"
    using apply_run [OF b, of src l it dst w1 w2] r s1(1,2) d1(1,2) nm ap by (auto simp: it slice_inverse)
  with e index_becomes_txn [OF t1 t3 _ r(1)] index_becomes_txn [OF t1 t3 _ r(2)] show ?thesis by blast
qed

lemma recover_run:
  assumes b: "CHR ''/'' \<notin> set bucket" and key: "prefix (txn_prefix l) key"
    and ob: "objs w key = Some ob" "ob_body ob = rename_serialize (fa_ext F) it"
    and r: "src = dir_key (fa_ext F) l (ri_src_parent it)" "dst = dir_key (fa_ext F) l (ri_dst_parent it)"
      "ri_src_parent it \<noteq> ri_dst_parent it"
    and ok: "dir_ok (fa_ext F) (objs w) (com w src) src" "dir_ok (fa_ext F) (objs w) (com w dst) dst"
    and nm: "storable (ri_dst_name it)" "utf8_valid (ri_dst_name it)" "utf8_valid (ri_src_name it)"
    and L: "latest_scatter (pending (fa_ext F) (objs w) (scatter_inodes_path src)) (ri_src_name it) = None"
      "latest_scatter (pending (fa_ext F) (objs w) (scatter_inodes_path dst)) (ri_dst_name it) = None"
    and run: "recover_intent F l bucket key w = (Ok n, w')"
  shows "n = 1 \<and> objs w' key = None \<and> (\<exists>i. ino_from_slice (fa_ino F) (ri_inode it) = Ok i \<and>
    moved (fa_ext F) (fa_ino F) objs com src (ri_src_name it) dst (ri_dst_name it)
      (entry_from i (ri_child it) (ri_dst_name it)) w w')"
proof -
  from run obtain body w1 where g: "get_object_raw (fa_s3 F) key w = (Ok body, w1)"
    and rest: "(case rename_parse (fa_ext F) body of
         Ok intent \<Rightarrow> io_bind (apply_rename_intent F l bucket intent) (\<lambda>_. io_bind (delete_object (fa_s3 F) key) (\<lambda>_. io_return 1))
       | Err e \<Rightarrow> io_return 0 | Panic \<Rightarrow> io_lift Panic) w1 = (Ok n, w')"
    unfolding recover_intent_def by (rule io_bind_OkE)
  note gr = get_raw_Ok [OF g ob(1)]
  have parse: "rename_parse (fa_ext F) body = Ok it" using gr(1) ob(2) rename_roundtrip [OF nm(3,2)] by simp
  with rest obtain w2 where ap: "apply_rename_intent F l bucket it w1 = (Ok (), w2)"
    and de: "delete_object (fa_s3 F) key w2 = (Ok (), w')" and n: "n = 1" by (auto elim!: io_bind_OkE simp: io_return_def)
  note t1 = txn_only_env [OF gr(2), of l] and t3 = txn_only_delete [OF de key]
  note s1 = dir_ok_txn [OF t1 r(1) ok(1)] and d1 = dir_ok_txn [OF t1 r(2) ok(2)]
  from apply_moves [OF b r s1(1) d1(1) nm(1,2) _ _ ap] L s1(4) d1(4) obtain i where
    i: "ino_from_slice (fa_ino F) (ri_inode it) = Ok i" and
    m: "moved (fa_ext F) (fa_ino F) objs com src (ri_src_name it) dst (ri_dst_name it)
      (entry_from i (ri_child it) (ri_dst_name it)) w1 w2" and
    ok2: "dir_ok (fa_ext F) (objs w2) (com w2 src) src" "dir_ok (fa_ext F) (objs w2) (com w2 dst) dst" by auto
  from de obtain u where "delete_obj (fa_s3 F) key None w2 = (Inr u, w')"
    by (auto simp: delete_object_def split: prod.splits sum.splits)
  from delete_Ok [OF this] have "objs w' key = None" by auto
  with n i moved_txn [OF t1 m t3 r(1,2) ok ok2] show ?thesis by blast
qed

text \<open>A listing of the transaction folder with one intent.\<close>

lemma recover_one:
  assumes ls: "list_objects (fa_s3 F) (txn_prefix l) w = ([Inr [obj]], w1)" and k: "lo_key obj = Some key" "ends_with key ''.intent''"
  shows "fs_recover_renames F l bucket w = recover_intent F l bucket key w1"
  by (cases "recover_intent F l bucket key w1") (auto simp: fs_recover_renames_def ls k io_bind_def io_return_def split: result.splits)

lemma claim_half:
  assumes b: "CHR ''/'' \<notin> set bucket" and r: "src = dir_key (fa_ext F) l sp" "dst = dir_key (fa_ext F) l dp"
    and ok: "dir_ok (fa_ext F) (objs w) (com w src) src" "dir_ok (fa_ext F) (objs w) (com w dst) dst"
    and run: "emit_rename_intent F l bucket sp sn dp dn w = (Ok (key, it), w')"
  shows "key = txn_key l (rename_txn_id (fa_ext F) sp sn) \<and> (\<exists>e. index_map (com w src) sn = Some e \<and>
    it = \<lparr> ri_src_parent = sp, ri_src_name = sn, ri_dst_parent = dp, ri_dst_name = dn,
        ri_child = e_uuid e, ri_inode = ino_as_slice (fa_ino F) (e_inode e) \<rparr> \<and>
    rename_half (fa_ext F) (fa_ino F) objs com key it src dst (entry_from (e_inode e) (e_uuid e) dn) w w')"
proof -
  from claim_run [OF b r(1) txn_key_prefix dir_okD(2) [OF ok(1)] run [unfolded emit_rename_intent_def]] obtain e where
    t: "txn_only (fa_ext F) l objs com w w'" and k: "key = txn_key l (rename_txn_id (fa_ext F) sp sn)"
    and ob: "\<exists>ob. objs w' key = Some ob \<and> ob_body ob = rename_serialize (fa_ext F) it"
    and e: "index_map (com w src) sn = Some e" and
    it: "it = \<lparr> ri_src_parent = sp, ri_src_name = sn, ri_dst_parent = dp, ri_dst_name = dn,
        ri_child = e_uuid e, ri_inode = ino_as_slice (fa_ino F) (e_inode e) \<rparr>" by blast
  note s = dir_ok_txn [OF t r(1) ok(1)] and d = dir_ok_txn [OF t r(2) ok(2)]
  have "rename_half (fa_ext F) (fa_ino F) objs com key it src dst (entry_from (e_inode e) (e_uuid e) dn) w w'"
    using ob s d by (simp add: rename_half_def)
  with k e it show ?thesis by blast
qed

lemma insert_half:
  assumes b: "CHR ''/'' \<notin> set bucket" and key: "prefix (txn_prefix l) key"
    and r: "src = dir_key (fa_ext F) l sp" "dst = dir_key (fa_ext F) l dp" "sp \<noteq> dp"
    and half: "rename_half (fa_ext F) (fa_ino F) objs com key it src dst e w w1"
    and dn: "ri_dst_name it = dn" and fit: "fits_name dn e"
    and L: "latest_scatter (pending (fa_ext F) (objs w) (scatter_inodes_path dst)) dn = None"
    and op: "fs_open_dir F l bucket dp False w1 = (Ok h, w2)" and ins: "on_handle h (insert_entry (fa_dir F) dn e) w2 = (Ok (), w')"
  shows "rename_half (fa_ext F) (fa_ino F) objs com key it src dst e w w'"
proof -
  from half have ok: "dir_ok (fa_ext F) (objs w1) (com w1 src) src" "dir_ok (fa_ext F) (objs w1) (com w1 dst) dst"
    and P: "pending (fa_ext F) (objs w1) (scatter_inodes_path src) = pending (fa_ext F) (objs w) (scatter_inodes_path src)"
      "pending (fa_ext F) (objs w1) (scatter_inodes_path dst) = pending (fa_ext F) (objs w) (scatter_inodes_path dst)"
    and ob: "\<exists>ob. objs w1 key = Some ob \<and> ob_body ob = rename_serialize (fa_ext F) it"
    and look: "dir_lookup (fa_ext F) (fa_ino F) (objs w1) (com w1 src) src = dir_lookup (fa_ext F) (fa_ino F) (objs w) (com w src) src"
      "(dir_lookup (fa_ext F) (fa_ino F) (objs w1) (com w1 dst) dst)(dn \<mapsto> e) =
       (dir_lookup (fa_ext F) (fa_ino F) (objs w) (com w dst) dst)(dn \<mapsto> e)"
    using dn by (simp_all add: rename_half_def)
  note I = open_insert_run [OF b r(2) ok(2) fit op ins]
  note s = only_dir_other [OF I(2) r(2) r(1) not_sym [OF r(3)] ok(1)]
  have k: "objs w' key = objs w1 key"
    using I(2) txn_not_owned [OF key, of True dp] r(2) by (simp add: only_dir_def child_key_def)
  have Ps: "pending (fa_ext F) (objs w') (scatter_inodes_path src) = pending (fa_ext F) (objs w1) (scatter_inodes_path src)"
    by (rule pending_cong) (rule s(3))
  have Pd: "pending (fa_ext F) (objs w') (scatter_inodes_path dst) = pending (fa_ext F) (objs w1) (scatter_inodes_path dst)"
    using I(1) by (intro pending_cong) (simp add: index_becomes_def)
  have ls: "dir_lookup (fa_ext F) (fa_ino F) (objs w') (com w' src) src = dir_lookup (fa_ext F) (fa_ino F) (objs w1) (com w1 src) src"
    unfolding s(2) by (rule dir_lookup_cong [OF dir_okD(4) [OF ok(1)]]) (rule s(3))
  have ld: "dir_lookup (fa_ext F) (fa_ino F) (objs w') (com w' dst) dst =
      (dir_lookup (fa_ext F) (fa_ino F) (objs w1) (com w1 dst) dst)(dn \<mapsto> e)"
    using index_becomes_lookup [OF I(1) ok(2), of "fa_ino F"] L P(2) by (simp add: dir_lookup_def overlay_update)
  from I(1) have "dir_ok (fa_ext F) (objs w') (com w' dst) dst" by (simp add: index_becomes_def)
  with ob k s(1) Ps Pd P ls ld look dn show ?thesis by (simp add: rename_half_def)
qed

lemma recover_half:
  assumes b: "CHR ''/'' \<notin> set bucket" and key: "prefix (txn_prefix l) key"
    and r: "src = dir_key (fa_ext F) l (ri_src_parent it)" "dst = dir_key (fa_ext F) l (ri_dst_parent it)"
      "ri_src_parent it \<noteq> ri_dst_parent it"
    and half: "rename_half (fa_ext F) (fa_ino F) objs com key it src dst (entry_from i (ri_child it) (ri_dst_name it)) w w1"
    and i: "ri_inode it = ino_as_slice (fa_ino F) i"
    and nm: "storable (ri_dst_name it)" "utf8_valid (ri_dst_name it)" "utf8_valid (ri_src_name it)"
    and L: "latest_scatter (pending (fa_ext F) (objs w) (scatter_inodes_path src)) (ri_src_name it) = None"
      "latest_scatter (pending (fa_ext F) (objs w) (scatter_inodes_path dst)) (ri_dst_name it) = None"
    and env: "env w1 w2" and run: "recover_intent F l bucket key w2 = (Ok n, w')"
  shows "n = 1 \<and> objs w' key = None \<and>
    moved (fa_ext F) (fa_ino F) objs com src (ri_src_name it) dst (ri_dst_name it)
      (entry_from i (ri_child it) (ri_dst_name it)) w w'"
proof -
  from half have "rename_half (fa_ext F) (fa_ino F) objs com key it src dst (entry_from i (ri_child it) (ri_dst_name it)) w w2"
    using env_same [OF env] by (simp add: rename_half_def)
  then obtain ob where ob: "objs w2 key = Some ob" "ob_body ob = rename_serialize (fa_ext F) it"
    and ok: "dir_ok (fa_ext F) (objs w2) (com w2 src) src" "dir_ok (fa_ext F) (objs w2) (com w2 dst) dst"
    and P: "pending (fa_ext F) (objs w2) (scatter_inodes_path src) = pending (fa_ext F) (objs w) (scatter_inodes_path src)"
      "pending (fa_ext F) (objs w2) (scatter_inodes_path dst) = pending (fa_ext F) (objs w) (scatter_inodes_path dst)"
    and look: "dir_lookup (fa_ext F) (fa_ino F) (objs w2) (com w2 src) src = dir_lookup (fa_ext F) (fa_ino F) (objs w) (com w src) src"
      "(dir_lookup (fa_ext F) (fa_ino F) (objs w2) (com w2 dst) dst)(ri_dst_name it \<mapsto> entry_from i (ri_child it) (ri_dst_name it)) =
       (dir_lookup (fa_ext F) (fa_ino F) (objs w) (com w dst) dst)(ri_dst_name it \<mapsto> entry_from i (ri_child it) (ri_dst_name it))"
    unfolding rename_half_def by (elim conjE exE)
  from recover_run [OF b key ob r ok nm _ _ run] L P
  have "n = 1" "objs w' key = None" "\<exists>j. ino_from_slice (fa_ino F) (ri_inode it) = Ok j \<and>
    moved (fa_ext F) (fa_ino F) objs com src (ri_src_name it) dst (ri_dst_name it)
      (entry_from j (ri_child it) (ri_dst_name it)) w2 w'" by simp_all
  then show ?thesis using look by (simp add: i slice_inverse moved_def)
qed

lemma list_step: "list_objects (fa_s3 F) p w = (pages, w') \<Longrightarrow> env w w'"
  by (rule list_env)

text \<open>Both crash points leave the rename half done.\<close>

lemma crash_half:
  assumes b: "CHR ''/'' \<notin> set bucket" and r: "src = dir_key (fa_ext F) l sp" "dst = dir_key (fa_ext F) l dp" "sp \<noteq> dp"
    and ok: "dir_ok (fa_ext F) (objs w) (com w src) src" "dir_ok (fa_ext F) (objs w) (com w dst) dst"
    and nm: "storable dn" "utf8_valid dn"
    and L: "latest_scatter (pending (fa_ext F) (objs w) (scatter_inodes_path dst)) dn = None"
    and run: "fs_rename_emit_intent_only F l bucket sp sn dp dn w = (Ok (), w') \<or>
      fs_rename_apply_partial F l bucket sp sn dp dn w = (Ok (), w')"
  shows "\<exists>e it. index_map (com w src) sn = Some e \<and>
    it = \<lparr> ri_src_parent = sp, ri_src_name = sn, ri_dst_parent = dp, ri_dst_name = dn,
        ri_child = e_uuid e, ri_inode = ino_as_slice (fa_ino F) (e_inode e) \<rparr> \<and>
    rename_half (fa_ext F) (fa_ino F) objs com (txn_key l (rename_txn_id (fa_ext F) sp sn)) it src dst
      (entry_from (e_inode e) (e_uuid e) dn) w w'"
proof -
  obtain k it v where em: "emit_rename_intent F l bucket sp sn dp dn w = (Ok (k, it), v)"
    and cr: "w' = v \<or> (\<exists>i h u. ino_from_slice (fa_ino F) (ri_inode it) = Ok i \<and>
      fs_open_dir F l bucket (ri_dst_parent it) False v = (Ok h, u) \<and>
      on_handle h (insert_entry (fa_dir F) (ri_dst_name it) (entry_from i (ri_child it) (ri_dst_name it))) u = (Ok (), w'))"
    using run unfolding fs_rename_emit_intent_only_def fs_rename_apply_partial_def
    by (auto elim!: io_bind_OkE simp: io_lift_def io_return_def)
  from claim_half [OF b r(1,2) ok em] obtain e where k: "k = txn_key l (rename_txn_id (fa_ext F) sp sn)"
    and e: "index_map (com w src) sn = Some e"
    and it: "it = \<lparr> ri_src_parent = sp, ri_src_name = sn, ri_dst_parent = dp, ri_dst_name = dn,
        ri_child = e_uuid e, ri_inode = ino_as_slice (fa_ino F) (e_inode e) \<rparr>"
    and half: "rename_half (fa_ext F) (fa_ino F) objs com k it src dst (entry_from (e_inode e) (e_uuid e) dn) w v" by blast
  have key: "prefix (txn_prefix l) k" unfolding k by (rule txn_key_prefix)
  have dn: "ri_dst_name it = dn" by (simp add: it)
  from cr have "rename_half (fa_ext F) (fa_ino F) objs com k it src dst (entry_from (e_inode e) (e_uuid e) dn) w w'"
  proof
    assume "\<exists>i h u. ino_from_slice (fa_ino F) (ri_inode it) = Ok i \<and>
      fs_open_dir F l bucket (ri_dst_parent it) False v = (Ok h, u) \<and>
      on_handle h (insert_entry (fa_dir F) (ri_dst_name it) (entry_from i (ri_child it) (ri_dst_name it))) u = (Ok (), w')"
    then obtain h u where "fs_open_dir F l bucket dp False v = (Ok h, u)"
      "on_handle h (insert_entry (fa_dir F) dn (entry_from (e_inode e) (e_uuid e) dn)) u = (Ok (), w')"
      by (auto simp: it slice_inverse)
    from insert_half [OF b key r half dn fits_name_entry [OF nm] L this] show ?thesis .
  qed (use half in simp)
  with e it k show ?thesis by blast
qed

end

end
