(* ===== verification/Sample_Directory.thy ===== *)
theory Sample_Directory
  imports Dir_View
begin

text \<open>
  A directory in memory on which the operations are evaluated: its index holds \<open>a\<close>, and a scatter
  object that creates \<open>c\<close> is outstanding. The scatter's key is the one \<open>path_encode\<close> builds; its
  decoding is known from the round trip, so no codec is unfolded.
\<close>

definition sample_root :: string where "sample_root = ''DIR/p''"

definition sample_inode :: mem_inode where
  "sample_inode = \<lparr> mi_mode = 0x81A4, mi_nlink = 1, mi_ctime = 0, mi_ctime_nsec = 0 \<rparr>"

definition sample_a :: "mem_inode dir_file_entry_raw" where
  "sample_a = entry_from sample_inode 7 ''a''"

definition sample_c :: "mem_inode dir_file_entry_raw" where
  "sample_c = entry_from sample_inode 9 ''c''"

definition sample_key :: string where
  "sample_key = sample_root @ ''/!/'' @ scatter_stem ref_ext 0 ''c'' 9 1 @ ''.inode''"

definition sample_scatter :: dir_scatter_inode where
  "sample_scatter = \<lparr> s_key = sample_key, s_op = Create, s_ulid = 0, s_uuid = 9, s_filename = ''c'', s_last_modified = 5 \<rparr>"

definition sample_tree :: "(u64 \<times> mem_inode dir_file_entry_raw) list" where
  "sample_tree = [(97, sample_a)]"

definition sample_world :: "mem_inode hf_world" where
  "sample_world = \<lparr> mw_objs = [(sample_key, mem_inode_bytes sample_inode, 5)], mw_now = 5, mw_next = 0,
     fw_dirs = [(sample_root, sample_inode, sample_tree)] \<rparr>"

definition sample_handle ::
  "(mem_inode, (u64 \<times> mem_inode dir_file_entry_raw) list, mem_inode option) dir_handle" where
  "sample_handle = \<lparr> h_bmap = sample_tree, h_root = sample_root, h_rdonly = False,
     h_policy = RetryLastWriterWins, h_inode = sample_inode, h_od = Some sample_inode \<rparr>"

text \<open>The worlds that differ from the sample in objects outside the scatter folder only.\<close>

definition like_sample :: "mem_inode hf_world \<Rightarrow> bool" where
  "like_sample w =
     (\<exists>rest. mw_objs w = (sample_key, mem_inode_bytes sample_inode, 5) # rest \<and>
        (\<forall>(k, _) \<in> set rest. \<not> prefix (scatter_inodes_path sample_root) k) \<and>
        fw_dirs w = [(sample_root, sample_inode, sample_tree)])"

lemma sample_like: "like_sample sample_world"
  by (simp add: like_sample_def sample_world_def)

lemma sample_encode: "path_encode ref_ext 0 sample_root ''c'' 9 (op_u8 Create) = Ok sample_key"
proof -
  have "\<not> ends_with sample_root ''/''" by (simp add: ends_with_def suffix_def sample_root_def)
  then show ?thesis
    by (simp add: path_encode_Ok sample_key_def scatter_suffix_def DEFAULT_DIR_INODE_SUFFIX_def)
qed

lemma sample_decode: "path_decode ref_ext sample_key 5 = Ok sample_scatter"
proof -
  have "utf8_valid ''c''" by (rule ascii_utf8_valid) (simp add: ascii_def)
  from refc.path_roundtrip [OF _ _ this op_u8_less sample_encode]
  show ?thesis by (simp add: sample_scatter_def sample_root_def from_u8_def)
qed

lemma sample_prefix: "prefix (scatter_inodes_path sample_root) sample_key"
  by (simp add: scatter_inodes_path_def sample_key_def DEFAULT_DIR_INODE_SCATTER_FOLDER_def)

lemma sample_parse [simp]: "mem_inode_parse (mem_inode_bytes i) = Ok i"
  using mem_inodes.slice_inverse [of i] by simp

lemma sample_listed:
  assumes "like_sample w"
  shows "list_scatter_inodes ref_ext mem_s3 sample_root w = (Ok [sample_scatter], w)"
proof -
  from assms obtain rest where w: "mw_objs w = (sample_key, mem_inode_bytes sample_inode, 5) # rest"
    "\<forall>(k, _) \<in> set rest. \<not> prefix (scatter_inodes_path sample_root) k" by (auto simp: like_sample_def)
  have none: "filter (prefix (scatter_inodes_path sample_root)) (map fst rest) = []"
    using w(2) by (auto simp: filter_empty_conv)
  have "decode_listed ref_ext \<lparr> lo_key = Some sample_key, lo_last_modified = Some 5 \<rparr> = Ok (Some sample_scatter)"
    using scatter_key_suffix [OF sample_encode] sample_decode by (auto simp: decode_listed_def)
  then show ?thesis
    using none w(1) sample_prefix
    by (simp add: list_scatter_inodes_def list_scatter_with_prefix_def mem_list_def)
qed

lemma sample_changes:
  assumes "like_sample w"
  shows "collect_scatter_changes mem_deps sample_root w =
    (Ok \<lparr> all_keys = [sample_key], upserts = [(''c'', sample_c)], deletes = [], predeletes = [], tombstone_keys = [] \<rparr>, w)"
proof -
  have "mem_get sample_key w =
      (Inr \<lparr> g_etag = Some (quoted (mem_etag (mem_inode_bytes sample_inode))), g_body = Some (mem_inode_bytes sample_inode) \<rparr>, w)"
    using assms by (auto simp: like_sample_def mem_get_def)
  then show ?thesis
    by (simp add: collect_scatter_changes_def sample_listed [OF assms] io_bind_def io_lift_def io_return_def
        filter_last_view_def scatter_groups_def sample_scatter_def sample_c_def build_deletes_def build_predeletes_def)
qed

lemma sample_load:
  assumes "like_sample w"
  shows "load_latest_bmap mem_deps sample_root w = (Ok sample_tree, w)"
  using assms by (auto simp: like_sample_def load_latest_bmap_def io_bind_def mem_load_def mem_read_def)

lemma sample_names [simp]: "name_bytes sample_a = ''a''" "name_bytes sample_c = ''c''"
  "\<not> is_dummy sample_a" "\<not> is_dummy sample_c"
proof -
  have "storable ''a''" "storable ''c''" by (rule storable_short; simp)+
  then show "name_bytes sample_a = ''a''" "name_bytes sample_c = ''c''" "\<not> is_dummy sample_a" "\<not> is_dummy sample_c"
    by (simp_all add: sample_a_def sample_c_def name_bytes_storable entry_from_not_dummy)
qed

lemma sample_hash [simp]: "hash_filename ref_ext ''a'' = 97" "hash_filename ref_ext ''c'' = 99"
  by (simp_all add: hash_filename_def ref_ext_def ref_crc64_def)

lemma sample_walk: "walk_bmap mem_btree sample_tree = Ok [sample_a]"
proof -
  have "walk_loop mem_btree sample_tree 97 0 [] = Ok [sample_a]"
    by (subst walk_loop.simps, subst walk_loop.simps) (simp add: sample_tree_def keys_from_def checked_succ_def)
  then show ?thesis by (simp add: walk_bmap_def sample_tree_def)
qed

lemma sample_read_dir:
  "read_dir mem_deps sample_root sample_world = (Ok [entry_from_raw sample_c, entry_from_raw sample_a], sample_world)"
proof -
  have "from_utf8_lossy ''a'' = ''a''" by (rule from_utf8_lossy_valid, rule ascii_utf8_valid) (simp add: ascii_def)
  then show ?thesis
    by (simp add: read_dir_def io_bind_def io_lift_def io_return_def sample_changes sample_load sample_like sample_walk
        hm_items_def)
qed

lemma sample_upsert: "probe_upsert ref_ext mem_btree ''c'' sample_c sample_tree = (Ok (), sample_tree @ [(99, sample_c)])"
proof -
  have "probe_upsert_slot mem_btree sample_tree ''c'' 99 = Ok 99"
    by (subst probe_upsert_slot.simps) (simp add: sample_tree_def)
  then show ?thesis by (simp add: probe_upsert_def io_bind_def io_lift_def io_return_def sample_tree_def)
qed

text \<open>The state after the compaction, and a further one, which finds nothing to do.\<close>

definition sample_stats :: compact_stats where
  "sample_stats = \<lparr> scatters_processed = 1, entries_added = 1, entries_removed = 0, tombstones_kept = 0, no_op = False,
      removed_children = [], predeleted = [] \<rparr>"

definition compacted_state where
  "compacted_state =
     (sample_handle\<lparr>h_bmap := sample_tree @ [(99, sample_c)]\<rparr>,
      sample_world\<lparr>mw_objs := [], mw_next := 1, fw_dirs := [(sample_root, sample_inode, sample_tree @ [(99, sample_c)])]\<rparr>)"

lemma sample_compact_inner:
  assumes "like_sample w"
  shows "compact_inner mem_deps (sample_handle, w) =
    (Ok \<lparr> scatters_processed = 1, entries_added = 1, entries_removed = 0, tombstones_kept = 0, no_op = False,
      removed_children = [], predeleted = [] \<rparr>,
     (sample_handle\<lparr>h_bmap := sample_tree @ [(99, sample_c)]\<rparr>,
      w\<lparr>mw_objs := filter (\<lambda>(k, _). k \<noteq> sample_key) (mw_objs w),
        fw_dirs := [(sample_root, sample_inode, sample_tree @ [(99, sample_c)])]\<rparr>))"
proof -
  have reload: "reload_to_latest mem_deps (sample_handle, w) = (Ok (), (sample_handle, w))"
    using assms by (auto simp: like_sample_def reload_to_latest_def io_bind_def on_world_def mem_load_def mem_read_def
        sample_handle_def)
  have h: "h_root sample_handle = sample_root" "h_bmap sample_handle = sample_tree" "h_inode sample_handle = sample_inode"
    by (simp_all add: sample_handle_def)
  have d: "fw_dirs w = [(sample_root, sample_inode, sample_tree)]" using assms by (auto simp: like_sample_def)
  show ?thesis
    using sample_changes [OF assms] sample_upsert h d
    by (simp add: compact_inner_def reload io_bind_def on_world_def on_bmap_def hm_items_def io_return_def Let_def
        mem_flush_def remove_scatter_inodes_def chunks.simps mem_delete_objs_def)
qed

lemma sample_compact:
  "compact mem_deps (sample_handle, sample_world) = (Ok sample_stats, compacted_state)"
proof -
  let ?k = "compact_lease_path sample_root"
  let ?b = "format_lease_body (ulid_fmt ref_ext 0) (expiry (unix_now_ms 5) DEFAULT_COMPACT_LEASE_TTL_MS)"
  let ?w = "sample_world\<lparr>mw_objs := [(sample_key, mem_inode_bytes sample_inode, 5), (?k, ?b, 5)], mw_next := 1\<rparr>"
  have ne: "sample_key \<noteq> ?k" "?k \<noteq> sample_key"
    by (simp_all add: sample_key_def compact_lease_path_def DEFAULT_COMPACT_LEASE_FILE_def)
  have ns: "\<not> prefix (scatter_inodes_path sample_root) ?k"
    by (simp add: scatter_inodes_path_def compact_lease_path_def DEFAULT_DIR_INODE_SCATTER_FOLDER_def
        DEFAULT_COMPACT_LEASE_FILE_def)
  have acq: "acquire_compact_lease ref_ext mem_s3 sample_root DEFAULT_COMPACT_LEASE_TTL_MS sample_world =
      (Ok \<lparr> cl_holder_id = ulid_fmt ref_ext 0, cl_etag = mem_etag ?b, cl_lease_key = ?k,
            cl_expires_at = expiry (unix_now_ms 5) DEFAULT_COMPACT_LEASE_TTL_MS \<rparr>, ?w)"
    using ne by (simp add: acquire_compact_lease_def Let_def sample_world_def mem_put_def mem_objs_def unwrap_etag_def)
  have like: "like_sample ?w" using ns by (simp add: like_sample_def sample_world_def)
  have "h_root sample_handle = sample_root" by (simp add: sample_handle_def)
  with sample_compact_inner [OF like] acq show ?thesis
    using ne by (simp add: compact_def io_bind_def on_world_def release_compact_lease_def mem_delete_def mem_objs_def
        sample_stats_def compacted_state_def sample_world_def)
qed

lemma empty_compact:
  assumes "mw_objs w = []" and "map_of (fw_dirs w) (h_root h) = Some (i, t)"
  shows "compact mem_deps (h, w) = (Ok stats_no_op, (h\<lparr>h_bmap := t, h_inode := i, h_od := Some i\<rparr>, w\<lparr>mw_next := Suc (mw_next w)\<rparr>))"
proof -
  have "\<not> prefix (scatter_inodes_path (h_root h)) (compact_lease_path (h_root h))"
    by (simp add: scatter_inodes_path_def compact_lease_path_def DEFAULT_DIR_INODE_SCATTER_FOLDER_def
        DEFAULT_COMPACT_LEASE_FILE_def)
  moreover have "w\<lparr>mw_objs := []\<rparr> = w" using assms(1) by (cases w) simp
  ultimately show ?thesis using assms
    by (simp add: compact_def acquire_compact_lease_def Let_def io_bind_def on_world_def mem_put_def mem_objs_def
        compact_inner_def reload_to_latest_def mem_load_def mem_read_def collect_scatter_changes_def
        list_scatter_inodes_def list_scatter_with_prefix_def mem_list_def filter_last_view_def scatter_groups_def
        io_lift_def io_return_def build_deletes_def build_predeletes_def release_compact_lease_def mem_delete_def
        unwrap_etag_def)
qed

text \<open>Resolving \<open>c\<close> and renaming \<open>a\<close>.\<close>

lemma sample_resolve:
  "resolve_fast mem_deps sample_root ''c'' sample_world = (Ok (Some (entry_from_raw sample_c)), sample_world)"
proof -
  have "prefix (scatter_inodes_path sample_root @ encode_filename ref_ext ''c'' @ ''/'') sample_key"
    by (simp add: scatter_inodes_path_def sample_key_def scatter_stem_def DEFAULT_DIR_INODE_SCATTER_FOLDER_def)
  moreover have "decode_listed ref_ext \<lparr> lo_key = Some sample_key, lo_last_modified = Some 5 \<rparr> = Ok (Some sample_scatter)"
    using scatter_key_suffix [OF sample_encode] sample_decode by (auto simp: decode_listed_def)
  ultimately have "list_scatter_inodes_for_name ref_ext mem_s3 sample_root ''c'' sample_world = (Ok [sample_scatter], sample_world)"
    by (simp add: list_scatter_inodes_for_name_def list_scatter_with_prefix_def mem_list_def sample_world_def)
  then show ?thesis
    by (simp add: resolve_fast_def io_bind_def io_lift_def io_return_def filter_last_view_def scatter_groups_def
        sample_scatter_def sample_c_def mem_get_def)
      (simp add: sample_world_def io_bind_def io_return_def)
qed

definition sample_b :: "mem_inode dir_file_entry_raw" where
  "sample_b = entry_from sample_inode 7 ''b''"

lemma sample_lookup: "probe_lookup_in mem_btree sample_tree ''a'' 97 = Ok (Some (97, sample_a))"
  by (subst probe_lookup_in.simps) (simp add: sample_tree_def name_eq_def)

lemma sample_delete: "probe_delete ref_ext mem_btree ''a'' sample_tree = (Ok True, [])"
proof -
  have "shift_loop ref_ext mem_btree 97 97 98 sample_tree = (Ok 97, sample_tree)"
    by (subst shift_loop.simps) (simp add: sample_tree_def)
  then show ?thesis
    by (simp add: probe_delete_def sample_lookup io_bind_def io_lift_def io_return_def checked_succ_def)
      (simp add: sample_tree_def)
qed

lemma sample_insert: "probe_upsert ref_ext mem_btree ''b'' e [] = (Ok (), [(98, e)])"
proof -
  have "hash_filename ref_ext ''b'' = 98" by (simp add: hash_filename_def ref_ext_def ref_crc64_def)
  then show ?thesis by (simp add: probe_upsert_def io_bind_def io_lift_def io_return_def probe_upsert_slot.simps)
qed

lemma sample_moved: "entry_from (e_inode sample_a) (e_uuid sample_a) ''b'' = sample_b"
  by (simp add: sample_a_def sample_b_def)

lemma sample_rename:
  assumes "fw_dirs w = [(sample_root, sample_inode, sample_tree)]"
  shows "rename_within mem_deps ''a'' ''b'' (sample_handle, w) =
    (Ok (), (sample_handle\<lparr>h_bmap := [(98, sample_b)]\<rparr>,
      w\<lparr>fw_dirs := [(sample_root, sample_inode, [(98, sample_b)])]\<rparr>))"
  using sample_lookup sample_delete sample_moved assms
  by (simp add: sample_insert rename_within_def io_bind_def on_bmap_def mem_flush_def io_return_def sample_handle_def)

end
