(* ===== verification/Dir_Properties.thy ===== *)
theory Dir_Properties
  imports Dir_Updates Sample_Directory
begin

text \<open>
  The properties of a directory: reading it shows the committed index overlaid by the outstanding
  scatters, the single-name resolve agrees, compaction changes the representation and not the
  contents, and what a rename does.
\<close>

section \<open>The sample directory is well-formed\<close>

text \<open>A bucket that holds one scatter object of a directory.\<close>

lemma single_scatter_at:
  assumes bang: "CHR ''!'' \<notin> set root"
    and enc: "path_encode ref_ext ul root fn u (op_u8 op) = Ok k" and fn: "fn \<noteq> []" "utf8_valid fn" "storable fn"
    and op: "op \<noteq> Unknown" and w: "mw_objs w = [(k, b, t)]"
  shows "pending ref_ext (mem_objs w) (scatter_inodes_path root) =
      {\<lparr> s_key = k, s_op = op, s_ulid = ul, s_uuid = u, s_filename = fn, s_last_modified = t \<rparr>}"
    "dir_inv ref_ext tr \<Longrightarrow> dir_ok ref_ext (mem_objs w) tr root"
proof -
  let ?s = "\<lparr> s_key = k, s_op = op, s_ulid = ul, s_uuid = u, s_filename = fn, s_last_modified = t \<rparr>"
  have dec: "path_decode ref_ext k t = Ok ?s"
    using refc.path_roundtrip [OF bang fn(1,2) op_u8_less enc] by simp
  have pre: "prefix (scatter_inodes_path root) k"
    using enc by (simp add: path_encode_Ok scatter_inodes_path_def DEFAULT_DIR_INODE_SCATTER_FOLDER_def)
  have o: "mem_objs w j = (if j = k then Some \<lparr> ob_body = b, ob_etag = mem_etag b, ob_mtime = t \<rparr> else None)" for j
    by (simp add: mem_objs_def w)
  show P: "pending ref_ext (mem_objs w) (scatter_inodes_path root) = {?s}"
    using pre dec by (auto simp: pending_def o)
  have "scatter_key_ok ref_ext root k" unfolding scatter_key_ok_def using enc fn op by blast
  then have "folder_ok ref_ext root (mem_objs w)"
    using bang by (auto simp: folder_ok_def o split: if_splits)
  with P fn(3) show "dir_inv ref_ext tr \<Longrightarrow> dir_ok ref_ext (mem_objs w) tr root" by (simp add: dir_ok_def)
qed

lemma sample_no_bang: "CHR ''!'' \<notin> set sample_root"
  by (simp add: sample_root_def)

lemmas single_scatter = single_scatter_at [OF sample_no_bang]

lemma sample_text: "utf8_valid ''b''" "storable ''b''" "utf8_valid ''c''" "storable ''c''"
  by (rule ascii_utf8_valid, simp add: ascii_def, rule storable_short, simp, simp)+

lemma sample_pending: "pending ref_ext (mem_objs sample_world) (scatter_inodes_path sample_root) = {sample_scatter}"
  using single_scatter(1) [OF sample_encode _ sample_text(3,4), of sample_world]
  by (simp add: sample_scatter_def sample_world_def)

lemma sample_com [simp]: "mem_com sample_world sample_root = map_of sample_tree"
  by (simp add: mem_com_def sample_world_def)

lemma sample_inv: "dir_inv ref_ext (map_of sample_tree)"
proof -
  have p: "probe_inv ref_ext (map_of sample_tree)"
    by (auto simp: probe_inv_def sample_tree_def home_def split: if_splits)
  have "fits_name ''a'' sample_a"
    unfolding sample_a_def
    by (rule fits_name_entry) (rule storable_short, simp, simp, rule ascii_utf8_valid, simp add: ascii_def)
  moreover have "nm = ''a'' \<and> e = sample_a" if "index_map (map_of sample_tree) nm = Some e" for nm e
    using that unfolding index_map_Some [OF p] by (auto simp: sample_tree_def split: if_splits)
  ultimately show ?thesis unfolding dir_inv_def using p by blast
qed

lemma sample_ok: "dir_ok ref_ext (mem_objs sample_world) (mem_com sample_world sample_root) sample_root"
  using single_scatter(2) [OF sample_encode _ sample_text(3,4) _ _ sample_inv, of sample_world]
  by (simp add: sample_world_def mem_com_def)

lemma mem_pages: "pages_ok (fst (list_objects mem_s3 p w))"
  by (simp add: mem_list_def pages_ok_def)

section \<open>Properties\<close>

text \<open>C3. \<open>read_dir\<close> lists the directory when no page of its LIST fails: every name once, with the entry its latest outstanding scatter
  gives (absent after a delete or pre-delete), or else the entry of the committed index; and it
  changes nothing.\<close>

theorem read_dir_correct:
  assumes "directory D objs env tab com ino" and "dir_ok (dp_ext D) (objs w) (com w root) root"
    and "pages_ok (fst (list_objects (dp_s3 D) (scatter_inodes_path root) w))"
    and "read_dir D root w = (Ok es, w')"
  shows "distinct (map d_name es) \<and>
    map_of (map (\<lambda>e. (d_name e, e)) es) = dir_view (dp_ext D) (dp_ino D) (objs w) (com w root) root"
  using directory.read_dir_sound [OF assms] by blast

theorem read_dir_correct_witness:
  "map_of [(''c'', entry_from_raw sample_c), (''a'', entry_from_raw sample_a)] =
     dir_view ref_ext mem_inode_api (mem_objs sample_world) (map_of sample_tree) sample_root"
proof -
  have "d_name (entry_from_raw sample_a) = ''a''" "d_name (entry_from_raw sample_c) = ''c''"
    unfolding sample_a_def sample_c_def
    by (rule from_raw_entry_from, rule storable_short; simp add: ascii_utf8_valid ascii_def)+
  with read_dir_correct [OF mem_directory.directory_axioms, unfolded mem_deps_sel, OF sample_ok mem_pages sample_read_dir]
  show ?thesis by simp
qed

text \<open>C11. The cheap single-name resolve agrees with the full listing: whatever \<open>resolve_fast\<close> returns for a
  name is what \<open>read_dir\<close> shows under it, when no page of their LISTs fails.\<close>

theorem resolve_fast_agrees:
  assumes "directory D objs env tab com ino" and "dir_ok (dp_ext D) (objs w) (com w root) root"
    and "pages_ok (fst (list_objects (dp_s3 D) (scatter_inodes_path root) w))"
    and "pages_ok (fst (list_objects (dp_s3 D) (scatter_inodes_path root @ encode_filename (dp_ext D) nm @ ''/'') w))"
    and "read_dir D root w = (Ok es, w1)" and "resolve_fast D root nm w = (Ok r, w2)"
  shows "r = map_of (map (\<lambda>e. (d_name e, e)) es) nm"
  using directory.resolve_fast_sound [OF assms(1,2,4,6)] directory.read_dir_sound(2) [OF assms(1,2,3,5)] by simp

theorem resolve_fast_agrees_witness:
  "Some (entry_from_raw sample_c) =
     map_of (map (\<lambda>e. (d_name e, e)) [entry_from_raw sample_c, entry_from_raw sample_a]) ''c''"
  using resolve_fast_agrees [OF mem_directory.directory_axioms, unfolded mem_deps_sel,
      OF sample_ok mem_pages mem_pages sample_read_dir sample_resolve] .

text \<open>C1. Compaction does not change what a directory contains, on a store whose scatter listings succeed:
  whether it succeeds, fails or panics at any stage, the directory stays well-formed, no scatter object
  is new, and every name shows what it showed. The one exception is a cleanup of folded scatter objects
  that fails midway, which is reported as \<open>Interrupted\<close>: then a name still shows what it showed if its
  latest scatter is left or none of its scatters is, and only a name of which an older scatter is left
  without the latest one may show something else.\<close>

theorem compact_preserves_contents:
  assumes "directory D objs env tab com ino" and "dir_ok (dp_ext D) (objs w) (com w (h_root h)) (h_root h)"
    and "\<And>u. pages_ok (fst (list_objects (dp_s3 D) (scatter_inodes_path (h_root h)) u))"
    and "S = pending (dp_ext D) (objs w) (scatter_inodes_path (h_root h))"
    and "S' = pending (dp_ext D) (objs w') (scatter_inodes_path (h_root h))"
    and "compact D (h, w) = (r, (h', w'))"
  shows "dir_ok (dp_ext D) (objs w') (com w' (h_root h)) (h_root h) \<and> S' \<subseteq> S \<and>
    (r \<noteq> Err Interrupted \<longrightarrow>
      dir_view (dp_ext D) (dp_ino D) (objs w') (com w' (h_root h)) (h_root h) =
      dir_view (dp_ext D) (dp_ino D) (objs w) (com w (h_root h)) (h_root h)) \<and>
    (\<forall>nm. latest_scatter S' nm = None \<or> latest_scatter S' nm = latest_scatter S nm \<longrightarrow>
      dir_view (dp_ext D) (dp_ino D) (objs w') (com w' (h_root h)) (h_root h) nm =
      dir_view (dp_ext D) (dp_ino D) (objs w) (com w (h_root h)) (h_root h) nm)"
  using directory.compact_run(4) [OF assms(1,2) refl refl assms(3,6)]
  unfolding assms(4,5) compacted_def Let_def by (auto simp: dir_view_def fun_eq_iff)

lemma sample_root_handle: "h_root sample_handle = sample_root"
  by (simp add: sample_handle_def)

theorem compact_preserves_contents_witness:
  "dir_view ref_ext mem_inode_api (mem_objs (snd compacted_state)) (mem_com (snd compacted_state) sample_root) sample_root =
   dir_view ref_ext mem_inode_api (mem_objs sample_world) (mem_com sample_world sample_root) sample_root"
proof -
  have run: "compact mem_deps (sample_handle, sample_world) = (Ok sample_stats, (fst compacted_state, snd compacted_state))"
    by (simp add: sample_compact)
  from compact_preserves_contents [OF mem_directory.directory_axioms _ _ refl refl run, unfolded mem_deps_sel sample_root_handle,
      OF sample_ok mem_pages] show ?thesis by simp
qed

text \<open>C12. A successful compaction folds everything: the committed index alone then holds the directory's
  contents, the only scatter objects left are the tombstones (the deletes that are the latest word on
  their name), and the report counts and names exactly the changes: a removal is reported for the names
  that the index held and whose latest scatter is a delete or pre-delete, and for no other.\<close>

theorem compact_folds_all:
  assumes "directory D objs env tab com ino" and "dir_ok (dp_ext D) (objs w) (com w (h_root h)) (h_root h)"
    and "\<And>u. pages_ok (fst (list_objects (dp_s3 D) (scatter_inodes_path (h_root h)) u))"
    and "S = pending (dp_ext D) (objs w) (scatter_inodes_path (h_root h))"
    and "compact D (h, w) = (Ok st, (h', w'))"
  shows "index_map (com w' (h_root h)) = dir_lookup (dp_ext D) (dp_ino D) (objs w) (com w (h_root h)) (h_root h) \<and>
    pending (dp_ext D) (objs w') (scatter_inodes_path (h_root h)) = tombstones S \<and>
    (if S = {} then st = stats_no_op else compact_report (objs w) S (index_map (com w (h_root h))) st)"
  using directory.compact_run(3) [OF assms(1,2) refl assms(4,3,5) refl] by blast

theorem compact_folds_all_witness:
  "index_map (mem_com (snd compacted_state) sample_root) =
     dir_lookup ref_ext mem_inode_api (mem_objs sample_world) (mem_com sample_world sample_root) sample_root \<and>
   compact_report (mem_objs sample_world) {sample_scatter} (index_map (mem_com sample_world sample_root)) sample_stats"
proof -
  have run: "compact mem_deps (sample_handle, sample_world) = (Ok sample_stats, (fst compacted_state, snd compacted_state))"
    by (simp add: sample_compact)
  from compact_folds_all [OF mem_directory.directory_axioms _ _ _ run, unfolded mem_deps_sel sample_root_handle,
      OF sample_ok mem_pages refl] show ?thesis by (simp add: sample_pending)
qed

text \<open>A folder of tombstones only, over an index that lacks their names, gives a compaction nothing to report.\<close>

lemma report_tombstones:
  assumes "compact_report m (tombstones S) (overlay ia m0 S v) st" and "finite S" and "inj_on s_key S"
  shows "entries_added st = 0 \<and> entries_removed st = 0 \<and> removed_children st = [] \<and> predeleted st = []"
proof -
  let ?L = "latest_scatter (tombstones S)"
  have op: "s_op s = Delete" "overlay ia m0 S v nm = None" if "?L nm = Some s" for nm s
    using that latest_tombstone [OF assms(2,3), of nm] by (auto simp: overlay_def split: option.splits if_splits)
  have "{nm. \<exists>s. ?L nm = Some s \<and> live s} = {}" using op(1) by (fastforce simp: live_def)
  moreover have "{(nm, s_uuid s, parse_predelete_body (body_at m s)) | nm s.
        ?L nm = Some s \<and> s_op s = PreDelete \<and> overlay ia m0 S v nm \<noteq> None} = {}" by (auto dest: op(2))
  moreover have "{nm. \<exists>s. ?L nm = Some s \<and> s_op s = Delete \<and> overlay ia m0 S v nm \<noteq> None} = {}" by (auto dest: op(2))
  ultimately show ?thesis using assms(1) by (simp only: compact_report_def Let_def) auto
qed

text \<open>C13. A removal is reported once: a second compaction that follows a successful one at once reports no
  added and no removed entry, no removed child and no pre-deleted name, although the tombstones are
  still there; so a link count that is decremented for every reported removal is decremented once.\<close>

theorem compact_reports_once:
  assumes "directory D objs env tab com ino" and "dir_ok (dp_ext D) (objs w) (com w (h_root h)) (h_root h)"
    and "\<And>u. pages_ok (fst (list_objects (dp_s3 D) (scatter_inodes_path (h_root h)) u))"
    and "compact D (h, w) = (Ok st, (h1, w1))" and "compact D (h1, w1) = (Ok st', (h2, w2))"
  shows "entries_added st' = 0 \<and> entries_removed st' = 0 \<and> removed_children st' = [] \<and> predeleted st' = []"
proof -
  let ?S = "pending (dp_ext D) (objs w) (scatter_inodes_path (h_root h))"
  note r1 = directory.compact_run [OF assms(1,2) refl refl assms(3,4)]
  have root: "h_root h = h_root h1" using r1(1) by simp
  have ok1: "dir_ok (dp_ext D) (objs w1) (com w1 (h_root h)) (h_root h)" using r1(2) by (simp add: same_dir_def)
  have post: "pending (dp_ext D) (objs w1) (scatter_inodes_path (h_root h)) = tombstones ?S"
    "index_map (com w1 (h_root h)) = overlay (dp_ino D) (objs w) ?S (index_map (com w (h_root h)))"
    using r1(3) [OF refl] by (simp_all add: dir_lookup_def)
  have st': "if tombstones ?S = {} then st' = stats_no_op
      else compact_report (objs w1) (tombstones ?S) (overlay (dp_ino D) (objs w) ?S (index_map (com w (h_root h)))) st'"
    using directory.compact_run(3) [OF assms(1) ok1 root refl assms(3,5) refl] unfolding post by blast
  show ?thesis
  proof (cases "tombstones ?S = {}")
    case True
    with st' show ?thesis by (simp add: stats_no_op_def)
  next
    case False
    with st' have "compact_report (objs w1) (tombstones ?S) (overlay (dp_ino D) (objs w) ?S (index_map (com w (h_root h)))) st'"
      by simp
    then show ?thesis by (rule report_tombstones [OF _ dir_okD(4) [OF assms(2)] pending_inj])
  qed
qed

text \<open>C23. A rename within a directory moves the entry in the index of its handle and commits that index: if
  it succeeds, the handle's index held the old name, and the committed index is now the handle's index
  without the old name and with the same inode and UUID at the new one (an existing entry there is
  replaced). It writes no scatter: every name without an outstanding scatter shows the new index, and a
  name with one, the old or the new name included, keeps showing what it showed. So on a handle that is
  up to date, and when neither name has an outstanding scatter, exactly the two names change.\<close>

theorem rename_within_correct:
  assumes "directory D objs env tab com ino" and "dir_ok (dp_ext D) (objs w) (com w root) root" and "root = h_root h"
    and "v = index_map (tab (h_bmap h))" and "dir_inv (dp_ext D) (tab (h_bmap h))"
    and "storable nw" and "utf8_valid nw" and "old \<noteq> nw"
    and "rename_within D old nw (h, w) = (Ok (), (h', w'))"
    and "S = pending (dp_ext D) (objs w) (scatter_inodes_path root)"
  shows "\<exists>e v'. v old = Some e \<and> v' = v(old := None, nw \<mapsto> entry_from (e_inode e) (e_uuid e) nw) \<and>
    index_map (com w' root) = v' \<and> dir_ok (dp_ext D) (objs w') (com w' root) root \<and>
    (\<forall>nm. dir_lookup (dp_ext D) (dp_ino D) (objs w') (com w' root) root nm =
      (if latest_scatter S nm = None then v' nm else dir_lookup (dp_ext D) (dp_ino D) (objs w) (com w root) root nm)) \<and>
    (tab (h_bmap h) = com w root \<and> latest_scatter S old = None \<and> latest_scatter S nw = None \<longrightarrow>
      dir_lookup (dp_ext D) (dp_ino D) (objs w') (com w' root) root =
        (dir_lookup (dp_ext D) (dp_ino D) (objs w) (com w root) root)
          (old := None, nw \<mapsto> entry_from (e_inode e) (e_uuid e) nw))"
proof -
  from directory.rename_within_run [OF assms(1-3,5-9)] obtain e where
    e: "v old = Some e" and b: "index_becomes (dp_ext D) objs com root (v(old := None, nw \<mapsto> entry_from (e_inode e) (e_uuid e) nw)) w w'"
    unfolding assms(4) by blast
  note at = index_becomes_at [OF b assms(2), of "dp_ino D", folded assms(10)]
  have fresh: "dir_lookup (dp_ext D) (dp_ino D) (objs w') (com w' root) root =
      (dir_lookup (dp_ext D) (dp_ino D) (objs w) (com w root) root)(old := None, nw \<mapsto> entry_from (e_inode e) (e_uuid e) nw)"
    if "tab (h_bmap h) = com w root \<and> latest_scatter S old = None \<and> latest_scatter S nw = None"
    using index_becomes_lookup [OF b assms(2), of "dp_ino D"] that assms(4)
    by (simp only: overlay_update dir_lookup_def assms(10))
  show ?thesis
    by (intro exI conjI allI impI, rule e, rule refl) (use b at fresh in \<open>simp_all add: index_becomes_def\<close>)
qed

lemma sample_fw: "fw_dirs sample_world = [(sample_root, sample_inode, sample_tree)]"
  by (simp add: sample_world_def)

theorem rename_within_correct_witness:
  "\<exists>e w'. dir_lookup ref_ext mem_inode_api (mem_objs sample_world) (mem_com sample_world sample_root) sample_root ''a'' = Some e \<and>
    rename_within mem_deps ''a'' ''b'' (sample_handle, sample_world) = (Ok (), (sample_handle\<lparr>h_bmap := [(98, sample_b)]\<rparr>, w')) \<and>
    dir_lookup ref_ext mem_inode_api (mem_objs w') (mem_com w' sample_root) sample_root =
      (dir_lookup ref_ext mem_inode_api (mem_objs sample_world) (mem_com sample_world sample_root) sample_root)
        (''a'' := None, ''b'' \<mapsto> entry_from (e_inode e) (e_uuid e) ''b'')"
proof -
  have L: "latest_scatter {sample_scatter} nm = None" if "nm \<noteq> ''c''" for nm
    using that by (simp add: latest_scatter_def sample_scatter_def)
  have cur: "map_of (h_bmap sample_handle) = mem_com sample_world sample_root"
    by (simp add: mem_com_def sample_fw sample_handle_def)
  note run = sample_rename [OF sample_fw]
  from rename_within_correct [OF mem_directory.directory_axioms _ sample_root_handle [symmetric] refl _ sample_text(2,1) _ run refl,
      unfolded mem_deps_sel, OF sample_ok] obtain e where
    e: "index_map (map_of (h_bmap sample_handle)) ''a'' = Some e" and
    look: "dir_lookup ref_ext mem_inode_api (mem_objs (sample_world\<lparr>fw_dirs := [(sample_root, sample_inode, [(98, sample_b)])]\<rparr>))
        (mem_com (sample_world\<lparr>fw_dirs := [(sample_root, sample_inode, [(98, sample_b)])]\<rparr>) sample_root) sample_root =
      (dir_lookup ref_ext mem_inode_api (mem_objs sample_world) (mem_com sample_world sample_root) sample_root)
        (''a'' := None, ''b'' \<mapsto> entry_from (e_inode e) (e_uuid e) ''b'')"
    using cur dir_okD(2) [OF sample_ok] L by (auto simp: sample_pending)
  have a: "dir_lookup ref_ext mem_inode_api (mem_objs sample_world) (mem_com sample_world sample_root) sample_root ''a'' = Some e"
    using e L [of "''a''"] by (simp add: dir_lookup_def overlay_def sample_pending cur)
  show ?thesis by (intro exI conjI, rule a, rule run) (rule look)
qed

text \<open>C33. A rename onto a name whose deletion is still recorded by a tombstone loses the file: the rename
  succeeds, the old name is gone, and the new name is hidden by the tombstone, which compaction keeps
  in place, although the committed index holds it.\<close>

theorem rename_onto_tombstone_hides:
  assumes "directory D objs env tab com ino" and "dir_ok (dp_ext D) (objs w) (com w (h_root h)) (h_root h)"
    and "tab (h_bmap h) = com w (h_root h)" and "storable nw" and "utf8_valid nw" and "old \<noteq> nw"
    and "rename_within D old nw (h, w) = (Ok (), (h', w'))"
    and "S = pending (dp_ext D) (objs w) (scatter_inodes_path (h_root h))"
    and "latest_scatter S old = None" and "latest_scatter S nw = Some s" and "s_op s = Delete"
  shows "dir_view (dp_ext D) (dp_ino D) (objs w') (com w' (h_root h)) (h_root h) old = None \<and>
    dir_view (dp_ext D) (dp_ino D) (objs w') (com w' (h_root h)) (h_root h) nw = None \<and>
    index_map (com w' (h_root h)) nw \<noteq> None"
proof -
  have inv: "dir_inv (dp_ext D) (tab (h_bmap h))" using dir_okD(2) [OF assms(2)] assms(3) by simp
  from directory.rename_within_run [OF assms(1,2) refl inv assms(4-7)] obtain e where
    "index_map (tab (h_bmap h)) old = Some e" and b: "index_becomes (dp_ext D) objs com (h_root h)
      ((index_map (tab (h_bmap h)))(old := None, nw \<mapsto> entry_from (e_inode e) (e_uuid e) nw)) w w'" by blast
  show ?thesis
    using index_becomes_lookup [OF b assms(2), of "dp_ino D"] b assms(6,8-11)
    by (simp add: dir_view_def overlay_def index_becomes_def)
qed

theorem rename_onto_tombstone_hides_witness:
  "\<exists>w. fst (rename_within mem_deps ''a'' ''b'' (sample_handle, w)) = Ok () \<and>
     dir_view ref_ext mem_inode_api (mem_objs w) (map_of [(98, sample_b)]) sample_root ''b'' = None \<and>
     index_map (map_of [(98, sample_b)]) ''b'' \<noteq> None"
proof -
  have "\<not> ends_with sample_root ''/''" by (simp add: ends_with_def suffix_def sample_root_def)
  then obtain k where k: "path_encode ref_ext 0 sample_root ''b'' 8 (op_u8 Delete) = Ok k"
    unfolding path_encode_Ok by blast
  let ?w = "sample_world\<lparr>mw_objs := [(k, [], 5)]\<rparr>"
  let ?s = "\<lparr> s_key = k, s_op = Delete, s_ulid = 0, s_uuid = 8, s_filename = ''b'', s_last_modified = 5 \<rparr>"
  have P: "pending ref_ext (mem_objs ?w) (scatter_inodes_path sample_root) = {?s}"
    using single_scatter(1) [OF k _ sample_text(1,2), of ?w] by simp
  have ok: "dir_ok ref_ext (mem_objs ?w) (mem_com ?w sample_root) sample_root"
    using single_scatter(2) [OF k _ sample_text(1,2) _ _ sample_inv, of ?w] by (simp add: mem_com_def sample_fw)
  have run: "rename_within mem_deps ''a'' ''b'' (sample_handle, ?w) =
    (Ok (), (sample_handle\<lparr>h_bmap := [(98, sample_b)]\<rparr>,
      ?w\<lparr>fw_dirs := [(sample_root, sample_inode, [(98, sample_b)])]\<rparr>))" by (rule sample_rename) (simp add: sample_fw)
  have L: "latest_scatter {?s} ''a'' = None" "latest_scatter {?s} ''b'' = Some ?s"
    by (auto simp: latest_scatter_def intro!: the_equality)
  have cur: "map_of (h_bmap sample_handle) = mem_com ?w sample_root" by (simp add: mem_com_def sample_fw sample_handle_def)
  from rename_onto_tombstone_hides [OF mem_directory.directory_axioms, unfolded mem_deps_sel, of ?w sample_handle,
      unfolded sample_root_handle, OF ok cur sample_text(2,1) _ run P [symmetric] L] run
  show ?thesis by (intro exI [of _ ?w]) (simp add: mem_com_def)
qed

text \<open>C34. A rename within a directory is not all-or-nothing on its handle: when the removal of the old name
  succeeds and the insertion of the new one fails, the error leaves the handle without the entry, and the
  flush with which the handle is released commits the loss; the file then has neither name.\<close>

theorem failed_rename_release_loses:
  assumes "btree (dp_bt D) tab" and "dir_inv (dp_ext D) (tab (h_bmap h))" and "old \<noteq> new"
    and flush: "\<And>h w n h' w'. hf_flush (dp_hf D) (h, w) = (Ok n, (h', w')) \<Longrightarrow> com w' (h_root h) = tab (h_bmap h)"
    and "probe_lookup_in (dp_bt D) (h_bmap h) old (hash_filename (dp_ext D) old) = Ok (Some (slot, e))"
    and "probe_delete (dp_ext D) (dp_bt D) old (h_bmap h) = (Ok True, b)"
    and "probe_upsert (dp_ext D) (dp_bt D) new (entry_from (e_inode e) (e_uuid e) new) b = (Err k, b)"
    and "rename_within D old new (h, w) = (r, (h1, w1))" and "hf_flush (dp_hf D) (h1, w1) = (Ok n, (h2, w2))"
  shows "r = Err k \<and> index_map (tab (h_bmap h)) old \<noteq> None \<and> index_map (com w2 (h_root h)) = (index_map (tab (h_bmap h)))(old := None)"
proof -
  have et: "entry_tree (dp_bt D) tab" using assms(1) by (simp add: entry_tree_def)
  have run: "r = Err k" "h1 = h\<lparr>h_bmap := b\<rparr>" "w1 = w"
    using assms(3,5,6,7,8) by (auto simp: rename_within_def io_bind_def on_bmap_def)
  from entry_tree.probe_delete_sound [OF et dir_inv_probe [OF assms(2)] assms(6)]
  have "index_map (tab b) = (index_map (tab (h_bmap h)))(old := None)" "index_map (tab (h_bmap h)) old \<noteq> None" by simp_all
  with flush [OF assms(9)] run show ?thesis by simp
qed

text \<open>A store that fails every insertion.\<close>

definition full_btree :: "('v, (u64 \<times> 'v) list) btree_api" where
  "full_btree = mem_btree\<lparr>bm_insert := \<lambda>k v b. (Err Other, b)\<rparr>"

definition full_deps :: "(mem_inode hf_world, mem_inode, (u64 \<times> mem_inode dir_file_entry_raw) list, mem_inode option) deps" where
  "full_deps = mem_deps\<lparr>dp_bt := full_btree\<rparr>"

lemma full_sel [simp]:
  "dp_ext full_deps = ref_ext" "dp_bt full_deps = full_btree" "dp_hf full_deps = mem_hf"
  "bm_lookup full_btree = bm_lookup mem_btree" "bm_delete full_btree = bm_delete mem_btree"
  "bm_seek_key full_btree = bm_seek_key mem_btree" "bm_last_key full_btree = bm_last_key mem_btree"
  "bm_insert full_btree = (\<lambda>k v b. (Err Other, b))"
  by (simp_all add: full_deps_def full_btree_def)

lemma full_btree_laws: "btree full_btree map_of"
proof (rule btree.intro, unfold full_sel)
qed (erule mem.lookup_Ok mem.lookup_NotFound mem.erase_Ok mem.last_key_NotFound mem.seek_key_Ok | erule (1) mem.last_key_Ok mem.seek_key_NotFound | simp)+

lemma full_rename:
  "probe_lookup_in full_btree sample_tree ''a'' 97 = Ok (Some (97, sample_a))"
  "probe_delete ref_ext full_btree ''a'' sample_tree = (Ok True, [])"
  "probe_upsert ref_ext full_btree ''b'' e0 [] = (Err Other, [])"
proof -
  show l: "probe_lookup_in full_btree sample_tree ''a'' 97 = Ok (Some (97, sample_a))"
    by (subst probe_lookup_in.simps) (simp add: sample_tree_def name_eq_def)
  have "shift_loop ref_ext full_btree 97 97 98 sample_tree = (Ok 97, sample_tree)"
    by (subst shift_loop.simps) (simp add: sample_tree_def)
  with l show "probe_delete ref_ext full_btree ''a'' sample_tree = (Ok True, [])"
    by (simp add: probe_delete_def io_bind_def io_lift_def io_return_def checked_succ_def) (simp add: sample_tree_def)
  have "hash_filename ref_ext ''b'' = 98" by (simp add: hash_filename_def ref_ext_def ref_crc64_def)
  then show "probe_upsert ref_ext full_btree ''b'' e0 [] = (Err Other, [])"
    by (simp add: probe_upsert_def io_bind_def io_lift_def io_return_def probe_upsert_slot.simps)
qed

theorem failed_rename_release_loses_witness:
  "\<exists>h1 w1 h2 w2. rename_within full_deps ''a'' ''b'' (sample_handle, sample_world) = (Err Other, (h1, w1)) \<and>
     mem_flush (h1, w1) = (Ok 1, (h2, w2)) \<and> index_map (map_of sample_tree) ''a'' \<noteq> None \<and>
     index_map (mem_com w2 sample_root) = (index_map (map_of sample_tree))(''a'' := None)"
proof -
  obtain r h1 w1 where run: "rename_within full_deps ''a'' ''b'' (sample_handle, sample_world) = (r, (h1, w1))" by (metis prod.exhaust)
  obtain n h2 w2 where fl: "mem_flush (h1, w1) = (Ok n, (h2, w2))" and n: "n = 1" by (simp add: mem_flush_def)
  have hd: "h_bmap sample_handle = sample_tree" "hash_filename ref_ext ''a'' = 97"
    by (simp_all add: sample_handle_def hash_filename_def ref_ext_def ref_crc64_def)
  have law: "mem_com w' (h_root h) = map_of (h_bmap h)" if "mem_flush (h, w) = (Ok n, (h', w'))"
    for h :: "(mem_inode, (u64 \<times> mem_inode dir_file_entry_raw) list, mem_inode option) dir_handle" and w :: "mem_inode hf_world" and n h' w'
    using that by (auto simp: mem_flush_def mem_com_def update_conv')
  from failed_rename_release_loses [of full_deps map_of sample_handle "''a''" "''b''" mem_com 97 sample_a "[]" Other sample_world r h1 w1 n h2 w2]
    full_btree_laws sample_inv full_rename law run fl n show ?thesis unfolding sample_root_handle by (auto simp: hd)
qed

end
