(* ===== verification/Fs_Properties.thy ===== *)
theory Fs_Properties
  imports Fs_Moves Dir_Properties
begin

text \<open>
  The properties of the file-system operations, with a small file system in memory on which the
  witnesses apply them.
\<close>

section \<open>A file system in memory\<close>

definition fs_dir :: "uuid \<Rightarrow> string" where "fs_dir u = dir_key ref_ext layout_new u"
definition fs_file :: "uuid \<Rightarrow> string" where "fs_file u = file_key ref_ext layout_new u"

text \<open>The directory 1 names the file 7 \<open>a\<close>, the directory 2 is empty.\<close>

definition fs_world :: mem_fs_world where
  "fs_world = \<lparr> mw_objs = [], mw_now = 5, mw_next = 0,
     fw_dirs = [(fs_dir 1, sample_inode, sample_tree), (fs_dir 2, sample_inode, []),
       (fs_file 7, sample_inode, [])] \<rparr>"

lemma fs_roots [simp]: "fs_dir u = fs_dir v \<longleftrightarrow> u = v" "fs_file u = fs_file v \<longleftrightarrow> u = v" "fs_dir u \<noteq> fs_file v" "fs_file v \<noteq> fs_dir u"
  by (auto simp: fs_dir_def fs_file_def dir_key_def file_key_def DIR_NAMESPACE_def FILE_NAMESPACE_def layout_new_def
      dest: refc.uuid_fmt_inj)

lemma ends_slash: "ends_with s ''/'' \<longleftrightarrow> s \<noteq> [] \<and> last s = CHR ''/''"
  by (auto simp: ends_with_def suffix_def) (metis append_butlast_last_id)

lemma fs_dir_text: "CHR ''!'' \<notin> set (fs_dir u)" "\<not> ends_with (fs_dir u) ''/''"
proof -
  have no: "c \<notin> set (uuid_fmt ref_ext u)" if "c \<in> {CHR ''!'', CHR ''/''}" for c
    by (rule refc.uuid_fmt_no) (use that in auto)
  then show "CHR ''!'' \<notin> set (fs_dir u)"
    by (auto simp: fs_dir_def dir_key_def layout_new_def DIR_NAMESPACE_def)
  have "filter (\<lambda>c. c \<noteq> CHR ''-'') (uuid_fmt ref_ext u) \<noteq> []"
    by (simp add: ref_ext_def ref_uuid_filter enc_digits_def flip: length_0_conv)
  then have "last (uuid_fmt ref_ext u) \<in> set (uuid_fmt ref_ext u)" by (cases "uuid_fmt ref_ext u") auto
  with no [of "CHR ''/''"] show "\<not> ends_with (fs_dir u) ''/''"
    by (auto simp: ends_with_def suffix_def fs_dir_def dir_key_def layout_new_def DIR_NAMESPACE_def
        dest!: arg_cong [where f = last] split: if_splits)
qed

lemma fs_uri: "dir_uri ref_ext layout_new bucket u = ''s3://'' @ bucket @ ''/'' @ fs_dir u"
  "file_uri ref_ext layout_new bucket u = ''s3://'' @ bucket @ ''/'' @ fs_file u"
  by (simp_all add: fs_dir_def fs_file_def dir_uri_def file_uri_def)

lemma fs_dir_key: "fs_dir u = dir_key (fa_ext mem_fs) layout_new u" and fs_file_key: "fs_file u = file_key (fa_ext mem_fs) layout_new u"
  by (simp_all add: fs_dir_def fs_file_def)

lemma fs_empty_ok: "mw_objs w = [] \<Longrightarrow> dir_inv ref_ext t \<Longrightarrow> dir_ok ref_ext (mem_objs w) t (fs_dir u)"
  using fs_dir_text by (simp add: dir_ok_def folder_ok_def mem_objs_def pending_def)

lemma empty_inv: "dir_inv ref_ext Map.empty"
  by (simp add: dir_inv_def probe_inv_def index_map_def)

lemma fs_world_com [simp]: "mem_com fs_world (fs_dir 1) = map_of sample_tree" "mem_com fs_world (fs_dir 2) = Map.empty"
  by (simp_all add: mem_com_def fs_world_def)

text \<open>Steps of the library in memory.\<close>

lemma mem_staging_fs [simp]:
  "staging_from mem_fs \<lparr> root_uri = dir_uri ref_ext layout_new ''b'' u, inode_file_uri = i \<rparr> w = (Ok (fs_dir u), w)"
  "staging_from mem_fs \<lparr> root_uri = file_uri ref_ext layout_new ''b'' u, inode_file_uri = i \<rparr> w = (Ok (fs_file u), w)"
  using mem_staging_uri [of "''b''" "fs_dir u" w] mem_staging_uri [of "''b''" "fs_file u" w]
  by (simp_all add: staging_from_def fs_uri)

lemma mem_emit:
  assumes "mw_objs w = []" and "op \<noteq> Unknown"
  shows "\<exists>w'. emit_scatter_event ref_ext mem_s3 (fs_dir p) nm u buf op w = (Ok (), w') \<and> fw_dirs w' = fw_dirs w"
proof -
  obtain k where "path_encode ref_ext (of_nat (mw_next w)) (fs_dir p) nm u (op_u8 op) = Ok k"
    using fs_dir_text(2) unfolding path_encode_Ok by blast
  with assms show ?thesis by (simp add: emit_scatter_event_def mem_put_def mem_objs_def)
qed

lemma a_text: "utf8_valid ''a''" "storable ''a''"
  by (rule ascii_utf8_valid, simp add: ascii_def, rule storable_short, simp, simp)

section \<open>Unlink, rmdir and mkdir\<close>

text \<open>C17. \<open>fs_unlink\<close> hides the name and nothing else: it adds one pre-delete marker for the name, with the
  child's kind and the retention deadline in its body; once that marker is the latest word on the name
  (it is, unless a newer event exists), the directory no longer shows the name and shows every other
  name as before.\<close>

theorem unlink_hides_name:
  assumes "fs_store F objs env tab com ino" and "CHR ''/'' \<notin> set bucket" and "root = dir_key (fa_ext F) l p"
    and "dir_ok (fa_ext F) (objs w) (com w root) root" and "nm \<noteq> []" and "utf8_valid nm" and "storable nm"
    and "fs_unlink F l bucket p nm u is_dir retention w = (Ok (), w')"
  shows "\<exists>s now. s_op s = PreDelete \<and> s_uuid s = u \<and> s_filename s = nm \<and>
    dir_ok (fa_ext F) (objs w') (com w' root) root \<and>
    (s \<notin> pending (fa_ext F) (objs w) (scatter_inodes_path root) \<longrightarrow>
      parse_predelete_body (body_at (objs w') s) = (is_dir, retention_deadline now retention)) \<and>
    (newest (pending (fa_ext F) (objs w) (scatter_inodes_path root)) s \<longrightarrow>
      dir_view (fa_ext F) (fa_ino F) (objs w') (com w' root) root =
      (dir_view (fa_ext F) (fa_ino F) (objs w) (com w root) root)(nm := None))"
proof -
  from fs_store.unlink_run [OF assms] obtain s now where s: "s_op s = PreDelete" "s_uuid s = u" "s_filename s = nm"
    and now: "is_i64 now" and add: "scatter_added (fa_ext F) objs root s (build_predelete_body is_dir (retention_deadline now retention)) w w'"
    and c: "com w' root = com w root" .
  have st: "storable (s_filename s)" using assms(7) s(3) by simp
  note v = fs_store.scatter_added_view [OF assms(1) add assms(4) c st]
  have i64: "is_i64 (retention_deadline now retention)"
    by (auto simp: retention_deadline_def saturating_add_i64_def is_i64_def i64_min_def i64_max_def split: option.splits)
  have "body_at (objs w') s = build_predelete_body is_dir (retention_deadline now retention)"
    if "s \<notin> pending (fa_ext F) (objs w) (scatter_inodes_path root)"
    using add that by (auto simp: scatter_added_def body_at_def split: if_splits)
  then have body: "s \<notin> pending (fa_ext F) (objs w) (scatter_inodes_path root) \<longrightarrow>
      parse_predelete_body (body_at (objs w') s) = (is_dir, retention_deadline now retention)"
    using predelete_roundtrip [OF i64] by simp
  have "newest (pending (fa_ext F) (objs w) (scatter_inodes_path root)) s \<longrightarrow>
      dir_view (fa_ext F) (fa_ino F) (objs w') (com w' root) root =
      (dir_view (fa_ext F) (fa_ino F) (objs w) (com w root) root)(nm := None)"
    using v(2) [where ia = "fa_ino F"] s by (auto simp: dir_view_def fun_eq_iff)
  with s v(1) body show ?thesis by blast
qed

theorem unlink_hides_name_witness:
  "\<exists>w'. fs_unlink mem_fs layout_new ''b'' 1 ''a'' 7 False None fs_world = (Ok (), w') \<and>
    dir_view ref_ext mem_inode_api (mem_objs w') (mem_com w' (fs_dir 1)) (fs_dir 1) =
    (dir_view ref_ext mem_inode_api (mem_objs fs_world) (map_of sample_tree) (fs_dir 1))(''a'' := None)"
proof -
  have e: "mw_objs fs_world = []" by (simp add: fs_world_def)
  let ?buf = "build_predelete_body False (retention_deadline (unix_now_ms (mw_now fs_world)) None)"
  obtain w' where em: "emit_scatter_event ref_ext mem_s3 (fs_dir 1) ''a'' 7 ?buf PreDelete fs_world = (Ok (), w')"
    using mem_emit [OF e] by blast
  have run: "fs_unlink mem_fs layout_new ''b'' 1 ''a'' 7 False None fs_world = (Ok (), w')"
    by (simp add: fs_unlink_def io_bind_def now_ms_def em)
  have P: "pending ref_ext (mem_objs fs_world) (scatter_inodes_path (fs_dir 1)) = {}"
    by (simp add: pending_def mem_objs_def fs_world_def)
  have ok: "dir_ok ref_ext (mem_objs fs_world) (mem_com fs_world (fs_dir 1)) (fs_dir 1)"
    using fs_empty_ok [OF e sample_inv] by simp
  have b: "CHR ''/'' \<notin> set ''b''" "''a'' \<noteq> []" by simp_all
  note U = unlink_hides_name [OF mem_fs_store.fs_store_axioms b(1) fs_dir_key _ b(2) a_text run, unfolded mem_fs_sel mem_deps_sel, OF ok]
  from U obtain s where s: "s_op s = PreDelete" and v: "newest {} s \<longrightarrow>
      dir_view ref_ext mem_inode_api (mem_objs w') (mem_com w' (fs_dir 1)) (fs_dir 1) =
      (dir_view ref_ext mem_inode_api (mem_objs fs_world) (mem_com fs_world (fs_dir 1)) (fs_dir 1))(''a'' := None)"
    unfolding P by (elim exE conjE) (rule that)
  have "newest {} s" by (simp add: newest_def)
  with v have "dir_view ref_ext mem_inode_api (mem_objs w') (mem_com w' (fs_dir 1)) (fs_dir 1) =
      (dir_view ref_ext mem_inode_api (mem_objs fs_world) (map_of sample_tree) (fs_dir 1))(''a'' := None)" by simp
  with run show ?thesis by (intro exI [of _ w'] conjI)
qed


lemma mem_open_dir:
  assumes "map_of (fw_dirs w) (fs_dir u) = Some (i, t)"
  shows "fs_open mem_fs (dir_uri ref_ext layout_new ''b'' u) rdonly w =
    (Ok \<lparr> h_bmap = t, h_root = fs_dir u, h_rdonly = rdonly, h_policy = RetryLastWriterWins, h_inode = i, h_od = Some i \<rparr>, w)"
proof -
  have "\<not> ends_with (dir_uri ref_ext layout_new ''b'' u) ''/''"
    using fs_dir_text(2) [of u] by (simp add: fs_uri ends_slash fs_dir_def dir_key_def)
  then show ?thesis
    using assms by (simp add: fs_open_def hyper_open_def io_bind_def io_lift_def to_dir_staging_config_def dir_open_def do_open_def
        mem_load_def mem_read_def with_handle_def io_return_def)
qed


text \<open>C19. A directory created by \<open>fs_create_default\<close> is visible at once: its inode object exists, and the
  parent shows the new name with the new UUID and that inode, every other name as before, when the
  announcing scatter is new and the latest word on the name.\<close>

theorem create_visible:
  assumes "fs_store F objs env tab com ino" and "CHR ''/'' \<notin> set bucket" and "root = dir_key (fa_ext F) l p"
    and "dir_ok (fa_ext F) (objs w) (com w root) root" and "nm \<noteq> []" and "utf8_valid nm" and "storable nm"
    and "fs_create_default F l bucket p nm rdonly mode w = (Ok (h, u), w')" and "u \<noteq> p"
  shows "\<exists>s i. s_op s = Create \<and> s_uuid s = u \<and> s_filename s = nm \<and> ino w' (dir_key (fa_ext F) l u) = Some i \<and>
    dir_ok (fa_ext F) (objs w') (com w' root) root \<and>
    (s \<notin> pending (fa_ext F) (objs w) (scatter_inodes_path root) \<longrightarrow>
     newest (pending (fa_ext F) (objs w) (scatter_inodes_path root)) s \<longrightarrow>
      dir_lookup (fa_ext F) (fa_ino F) (objs w') (com w' root) root =
      (dir_lookup (fa_ext F) (fa_ino F) (objs w) (com w root) root)(nm \<mapsto> entry_from i u nm))"
  using fs_store.create_default_run [OF assms] by metis

theorem create_visible_witness:
  "\<exists>h w' i. fs_create_default mem_fs layout_new ''b'' 1 ''b'' False 0x41ED fs_world = (Ok (h, 0), w') \<and>
    mem_ino w' (fs_dir 0) = Some i \<and>
    dir_lookup ref_ext mem_inode_api (mem_objs w') (mem_com w' (fs_dir 1)) (fs_dir 1) ''b'' = Some (entry_from i 0 ''b'')"
proof -
  let ?w = "fs_world\<lparr>mw_next := Suc 0\<rparr>"
  let ?i = "\<lparr> mi_mode = 0x41ED, mi_nlink = 1, mi_ctime = 0, mi_ctime_nsec = 0 \<rparr>"
  have e: "mw_objs fs_world = []" "mw_objs ?w = []" by (simp_all add: fs_world_def)
  obtain w2 where em: "emit_scatter_event ref_ext mem_s3 (fs_dir 1) ''b'' 0 (mem_inode_bytes ?i) Create ?w = (Ok (), w2)"
    and fw: "fw_dirs w2 = fw_dirs ?w" using mem_emit [OF e(2), of Create] by blast
  have uri: "\<not> ends_with (dir_uri ref_ext layout_new ''b'' 0) ''/''"
    using fs_dir_text(2) [of 0] by (simp add: fs_uri ends_slash fs_dir_def dir_key_def)
  have new: "mem_ino w2 (fs_dir 0) = None" by (simp add: mem_ino_def fw fs_world_def)
  have st: "mem_staging_from (dir_uri ref_ext layout_new ''b'' 0) ?w = (Ok (fs_dir 0), ?w)"
    using mem_staging_uri [of "''b''" "fs_dir 0" ?w] by (simp add: fs_uri)
  have nx: "mw_next fs_world = 0" by (simp add: fs_world_def)
  obtain h w' where run: "fs_create_default mem_fs layout_new ''b'' 1 ''b'' False 0x41ED fs_world = (Ok (h, 0), w')"
    using em new uri st nx
    by (simp add: fs_create_default_def fresh_child_def fs_create_with_interceptor_def hyper_create_def dir_new_def io_bind_def
        io_lift_def io_return_def to_dir_staging_config_def with_handle_def dir_flush_inode_def Let_def mem_flush_hook_def
        before_flush_inode_def mem_flush_inode_def)
  have ok: "dir_ok ref_ext (mem_objs fs_world) (mem_com fs_world (fs_dir 1)) (fs_dir 1)"
    using fs_empty_ok [OF e(1) sample_inv] by simp
  have P: "pending ref_ext (mem_objs fs_world) (scatter_inodes_path (fs_dir 1)) = {}"
    by (simp add: pending_def mem_objs_def e(1))
  have b: "CHR ''/'' \<notin> set ''b''" "''b'' \<noteq> []" "(0 :: uuid) \<noteq> 1" by simp_all
  from create_visible [OF mem_fs_store.fs_store_axioms b(1) fs_dir_key _ b(2) sample_text(1,2) run b(3), unfolded mem_fs_sel mem_deps_sel, OF ok]
  obtain i where "mem_ino w' (dir_key ref_ext layout_new 0) = Some i"
    "dir_lookup ref_ext mem_inode_api (mem_objs w') (mem_com w' (fs_dir 1)) (fs_dir 1) =
      (dir_lookup ref_ext mem_inode_api (mem_objs fs_world) (mem_com fs_world (fs_dir 1)) (fs_dir 1))(''b'' \<mapsto> entry_from i 0 ''b'')"
    using P by (auto simp: newest_def)
  with run show ?thesis unfolding fs_dir_def by (intro exI conjI) (assumption | simp)+
qed

end
