(* ===== verification/Fs_Recovery.thy ===== *)
theory Fs_Recovery
  imports Fs_Properties
begin

text \<open>
  The properties of what removes storage and of what a crash leaves behind: the garbage collection of
  tombstones, the rename between two directories and its recovery. The witnesses run on the file
  system in memory of \<open>Fs_Properties\<close>.
\<close>

section \<open>Garbage collection of tombstones\<close>

text \<open>C6. What \<open>fs_gc\<close> on a directory removes was due there: whatever it returns and wherever it stops, a child
  whose inode object it removed has a tombstone in that directory whose retention deadline had passed
  at the instant the call read the clock; it is a file whose link count is zero, or a directory, whose
  link count is not examined; and the committed index of that directory does not hold it under the
  tombstone's name. Other names of that directory and other directories are not examined, so a child
  that got a name elsewhere is protected by its link count only, and a directory not at all.\<close>

theorem gc_reclaims_due:
  assumes "fs_store F objs env tab com ino" and "CHR ''/'' \<notin> set bucket" and "parent = dir_key (fa_ext F) l p"
    and "dir_ok (fa_ext F) (objs w) (com w parent) parent"
    and "\<And>v. pages_ok (fst (list_objects (fa_s3 F) (scatter_inodes_path parent) v))"
    and "fs_gc F l bucket p w = (r, w')" and "ino w' parent \<noteq> None"
    and "ino w (child_key (fa_ext F) l d u) = Some i" and "ino w' (child_key (fa_ext F) l d u) = None"
  shows "\<exists>s \<in> pending (fa_ext F) (objs w) (scatter_inodes_path parent).
    s_op s = Delete \<and> s_uuid s = u \<and> (d \<or> ino_nlink (fa_ino F) i = 0) \<and>
    (\<forall>e. index_map (com w parent) (s_filename s) = Some e \<longrightarrow> e_uuid e \<noteq> u) \<and>
    (\<exists>v v1 now header raw j. env w v \<and> now_ms (fa_s3 F) v = (Ok now, v1) \<and>
       parse_tombstone_body (body_at (objs w) s) = Ok (header, raw) \<and> retention_until_unix_ms header \<le> now \<and>
       ino_from_slice (fa_ino F) raw = Ok j \<and> d = is_dir_mode (ino_mode (fa_ino F) j))"
proof -
  note ok = dir_okD [OF assms(4)]
  have "\<not> env w w'" using fs_store.env_same [OF assms(1), of w w'] assms(8,9) by auto
  with fs_store.gc_run [OF assms(1-3) ok(1) assms(5-7)] obtain v now v1 where n: "env w v" "now_ms (fa_s3 F) v = (Ok now, v1)"
    and g: "gc_safe F objs com ino l parent now (pending (fa_ext F) (objs w) (scatter_inodes_path parent)) w w'" by blast
  have "ino w parent \<noteq> None"
    using g assms(7) unfolding assms(3) gc_safe_def shrinks_def by (metis child_key_def)
  with conjunct2 [OF g [unfolded gc_safe_def], rule_format, OF assms(8,9)] ok(2)
  obtain s where s: "s \<in> pending (fa_ext F) (objs w) (scatter_inodes_path parent)" "s_op s = Delete" "s_uuid s = u"
    and due: "gc_due (fa_ino F) (objs w) True (com w parent) now s d i" by auto
  from due obtain ob header raw j where "objs w (s_key s) = Some ob" "parse_tombstone_body (ob_body ob) = Ok (header, raw)"
    "retention_until_unix_ms header \<le> now" "ino_from_slice (fa_ino F) raw = Ok j" "d = is_dir_mode (ino_mode (fa_ino F) j)"
    "d \<or> ino_nlink (fa_ino F) i = 0" "\<forall>e. index_map (com w parent) (s_filename s) = Some e \<longrightarrow> e_uuid e \<noteq> s_uuid s"
    unfolding gc_due_def by blast
  with s n show ?thesis by (intro bexI [OF _ s(1)]) (auto simp: body_at_def)
qed

text \<open>A file without links whose tombstone, retained until 3, is left in the directory 1 at the time 5.\<close>

definition dead_inode :: mem_inode where "dead_inode = sample_inode\<lparr>mi_nlink := 0\<rparr>"

definition gc_world :: "string \<Rightarrow> mem_fs_world" where
  "gc_world k = \<lparr> mw_objs = [(k, build_tombstone_body 0 3 (mem_inode_bytes dead_inode), 5)], mw_now = 5, mw_next = 1,
     fw_dirs = [(fs_dir 1, sample_inode, []), (fs_file 7, dead_inode, [])] \<rparr>"

lemma gc_world_key: "\<exists>k. path_encode ref_ext 0 (fs_dir 1) ''b'' 7 (op_u8 Delete) = Ok k"
  using fs_dir_text(2) unfolding path_encode_Ok by blast

lemma gc_world_run:
  assumes k: "path_encode ref_ext 0 (fs_dir 1) ''b'' 7 (op_u8 Delete) = Ok k"
  shows "fs_gc mem_fs layout_new ''b'' 1 (gc_world k) =
    (Ok \<lparr> tombstones_visited = 1, tombstones_skipped_retention = 0, tombstones_skipped_unfolded = 0,
        tombstones_reclaimed = 1, gc_errors = 0 \<rparr>,
     (gc_world k)\<lparr>mw_objs := [], fw_dirs := [(fs_dir 1, sample_inode, [])]\<rparr>)"
proof -
  let ?s = "\<lparr> s_key = k, s_op = Delete, s_ulid = 0, s_uuid = 7, s_filename = ''b'', s_last_modified = 5 \<rparr>"
  have dec: "path_decode ref_ext k 5 = Ok ?s"
    using refc.path_roundtrip [OF fs_dir_text(1) _ sample_text(1) op_u8_less k] by (simp add: from_u8_def)
  have pre: "prefix (scatter_inodes_path (fs_dir 1)) k"
    using k by (simp add: path_encode_Ok scatter_inodes_path_def DEFAULT_DIR_INODE_SCATTER_FOLDER_def)
  have "decode_listed ref_ext \<lparr> lo_key = Some k, lo_last_modified = Some 5 \<rparr> = Ok (Some ?s)"
    using scatter_key_suffix [OF k] dec by (auto simp: decode_listed_def)
  with pre have li: "list_scatter_inodes ref_ext mem_s3 (fs_dir 1) (gc_world k) = (Ok [?s], gc_world k)"
    by (simp add: list_scatter_inodes_def list_scatter_with_prefix_def mem_list_def gc_world_def)
  have op: "fs_open mem_fs (dir_uri ref_ext layout_new ''b'' 1) True (gc_world k) =
    (Ok \<lparr> h_bmap = [], h_root = fs_dir 1, h_rdonly = True, h_policy = RetryLastWriterWins, h_inode = sample_inode,
        h_od = Some sample_inode \<rparr>, gc_world k)" by (rule mem_open_dir) (simp add: gc_world_def)
  have get: "get_object_bytes mem_s3 k (gc_world k) = (Ok (build_tombstone_body 0 3 (mem_inode_bytes dead_inode)), gc_world k)"
    by (simp add: get_object_bytes_def mem_get_def gc_world_def)
  have parse: "parse_tombstone_body (build_tombstone_body 0 3 (mem_inode_bytes dead_inode)) =
    Ok (\<lparr> deleted_at_unix_ms = 0, retention_until_unix_ms = 3 \<rparr>, mem_inode_bytes dead_inode)"
    by (rule tombstone_roundtrip) (simp_all add: is_i64_def i64_min_def i64_max_def)
  have "probe_lookup_in mem_btree [] ''b'' h = (Ok None :: (u64 \<times> mem_inode dir_file_entry_raw) option result)" for h
    by (subst probe_lookup_in.simps) simp
  then have fold: "gc_folded mem_fs (fs_dir 1) ?s (gc_world k) = (Ok True, gc_world k)"
    by (simp add: gc_folded_def read_entry_def probe_lookup_latest_def load_latest_bmap_def not_found_as_def io_bind_def
        io_lift_def io_fail_def mem_load_def mem_read_def gc_world_def)
  have np: "\<not> prefix (fs_file 7 @ ''/'') k"
    using pre by (auto simp: scatter_inodes_path_def prefix_def fs_dir_def fs_file_def dir_key_def file_key_def layout_new_def
        DIR_NAMESPACE_def FILE_NAMESPACE_def)
  let ?w' = "(gc_world k)\<lparr>fw_dirs := [(fs_dir 1, sample_inode, [])]\<rparr>"
  have reg: "\<not> is_dir_mode (mi_mode dead_inode)" by (simp add: is_dir_mode_def S_IFMT_def S_IFDIR_def dead_inode_def sample_inode_def)
  have nl: "current_nlink mem_fs (file_uri ref_ext layout_new ''b'' 7) (gc_world k) = (Ok (Some 0), gc_world k)"
    by (simp add: current_nlink_def not_found_as_def io_bind_def io_return_def mem_load_def gc_world_def dead_inode_def)
  have un: "reclaim_child_prefix mem_fs (file_uri ref_ext layout_new ''b'' 7) (gc_world k) = (Ok (), ?w')"
    using np by (simp add: reclaim_child_prefix_def not_found_as_def io_bind_def mem_unlink_def gc_world_def)
  have rec: "gc_reclaim mem_fs layout_new ''b'' ?s dead_inode (gc_world k) =
      (Ok GcReclaimed, (gc_world k)\<lparr>mw_objs := [], fw_dirs := [(fs_dir 1, sample_inode, [])]\<rparr>)"
    using reg nl un
    by (simp add: gc_reclaim_def Let_def io_bind_def io_return_def remove_scatter_inodes_def chunks.simps mem_delete_objs_def)
      (simp add: gc_world_def)
  have now: "mw_now (gc_world k) = 5" by (simp add: gc_world_def)
  show ?thesis
    by (simp add: now fs_gc_def Let_def io_bind_def li now_ms_def op gc_tombstone_def gc_error_as_def io_try_def get parse io_lift_def
        fold rec io_return_def gc_count_def unix_now_ms_def i64_max_def)
qed

theorem gc_reclaims_due_witness:
  "\<exists>k. mem_ino (gc_world k) (fs_file 7) = Some dead_inode \<and>
     mem_ino (snd (fs_gc mem_fs layout_new ''b'' 1 (gc_world k))) (fs_file 7) = None \<and>
     (\<exists>s \<in> pending ref_ext (mem_objs (gc_world k)) (scatter_inodes_path (fs_dir 1)). s_op s = Delete \<and> s_uuid s = 7)"
proof -
  from gc_world_key obtain k where k: "path_encode ref_ext 0 (fs_dir 1) ''b'' 7 (op_u8 Delete) = Ok k" by blast
  let ?w' = "(gc_world k)\<lparr>mw_objs := [], fw_dirs := [(fs_dir 1, sample_inode, [])]\<rparr>"
  note run = gc_world_run [OF k]
  have com: "mem_com (gc_world k) (fs_dir 1) = Map.empty" by (simp add: mem_com_def gc_world_def)
  have ok: "dir_ok ref_ext (mem_objs (gc_world k)) (mem_com (gc_world k) (fs_dir 1)) (fs_dir 1)"
    unfolding com by (rule single_scatter_at(2) [OF fs_dir_text(1) k _ sample_text(1,2) _ _ empty_inv]) (simp_all add: gc_world_def)
  have i: "mem_ino (gc_world k) (child_key ref_ext layout_new False 7) = Some dead_inode"
    "mem_ino ?w' (child_key ref_ext layout_new False 7) = None" "mem_ino ?w' (fs_dir 1) \<noteq> None"
    by (simp_all add: mem_ino_def gc_world_def child_key_def flip: fs_file_def)
  have b: "CHR ''/'' \<notin> set ''b''" by simp
  from gc_reclaims_due [OF mem_fs_store.fs_store_axioms b fs_dir_key _ _ run, unfolded mem_fs_sel mem_deps_sel, OF ok mem_pages i(3,1,2)]
  have "\<exists>s \<in> pending ref_ext (mem_objs (gc_world k)) (scatter_inodes_path (fs_dir 1)). s_op s = Delete \<and> s_uuid s = 7" by blast
  with i(1,2) run show ?thesis by (intro exI [of _ k]) (simp add: child_key_def flip: fs_file_def)
qed

section \<open>Renames between directories\<close>

text \<open>The file 7 moves in memory from \<open>a\<close> in the directory 1 to \<open>b\<close> in the directory 2.\<close>

definition move_key :: string where "move_key = txn_key layout_new (rename_txn_id ref_ext 1 ''a'')"

definition move_intent :: rename_intent where
  "move_intent = \<lparr> ri_src_parent = 1, ri_src_name = ''a'', ri_dst_parent = 2, ri_dst_name = ''b'', ri_child = 7,
     ri_inode = mem_inode_bytes sample_inode \<rparr>"

definition move_committed :: mem_fs_world where
  "move_committed = fs_world\<lparr>mw_objs := [(move_key, rename_serialize ref_ext move_intent, 5)]\<rparr>"

definition move_done :: mem_fs_world where
  "move_done = fs_world\<lparr>fw_dirs := [(fs_dir 1, sample_inode, []), (fs_dir 2, sample_inode, [(98, sample_b)]),
       (fs_file 7, sample_inode, [])]\<rparr>"

lemma mem_open_read:
  assumes "map_of (fw_dirs w) (fs_dir 1) = Some (sample_inode, sample_tree)"
  shows "open_and_read mem_fs layout_new ''b'' 1 ''a'' w = (Ok (Ok sample_a), w)"
  using sample_lookup
  by (simp add: open_and_read_def fs_open_dir_def mem_open_dir [OF assms] io_bind_def io_try_def io_lift_def
      read_entry_raw_def res_bind_def)

lemma move_commit: "emit_rename_intent mem_fs layout_new ''b'' 1 ''a'' 2 ''b'' fs_world = (Ok (move_key, move_intent), move_committed)"
proof -
  obtain n where n: "RENAME_CLAIM_RETRIES = Suc n" by (cases RENAME_CLAIM_RETRIES) (simp_all add: RENAME_CLAIM_RETRIES_def)
  have r: "open_and_read mem_fs layout_new ''b'' 1 ''a'' fs_world = (Ok (Ok sample_a), fs_world)"
    "open_and_read mem_fs layout_new ''b'' 1 ''a'' move_committed = (Ok (Ok sample_a), move_committed)"
    by (rule mem_open_read, simp add: fs_world_def move_committed_def)+
  have i: "e_uuid sample_a = 7" "e_inode sample_a = sample_inode" by (simp_all add: sample_a_def)
  have "mem_put move_key (rename_serialize ref_ext move_intent) IfNoneMatch fs_world =
      (Inr (Some (quoted (mem_etag (rename_serialize ref_ext move_intent)))), move_committed)"
    by (simp add: mem_put_def mem_objs_def fs_world_def move_committed_def)
  then show ?thesis
    by (simp add: emit_rename_intent_def n io_bind_def r io_lift_def Let_def i io_return_def flip: move_key_def move_intent_def)
qed

lemma mem_reload:
  assumes "map_of (fw_dirs w) (h_root h) = Some (i, t)"
  shows "reload_to_latest mem_deps (h, w) = (Ok (), (h\<lparr>h_bmap := t, h_inode := i, h_od := Some i\<rparr>, w))"
  using assms by (simp add: reload_to_latest_def io_bind_def on_world_def mem_load_def mem_read_def)

lemma move_apply:
  assumes "fw_dirs w = fw_dirs fs_world"
  shows "apply_rename_intent mem_fs layout_new ''b'' move_intent w = (Ok (), w\<lparr>fw_dirs := fw_dirs move_done\<rparr>)"
proof -
  let ?w1 = "w\<lparr>fw_dirs := [(fs_dir 1, sample_inode, sample_tree), (fs_dir 2, sample_inode, [(98, sample_b)]), (fs_file 7, sample_inode, [])]\<rparr>"
  have d: "map_of (fw_dirs w) (fs_dir 2) = Some (sample_inode, [])"
    and s: "map_of (fw_dirs ?w1) (fs_dir 1) = Some (sample_inode, sample_tree)"
    using assms by (simp_all add: fs_world_def)
  have f: "fw_dirs w = [(fs_dir 1, sample_inode, sample_tree), (fs_dir 2, sample_inode, []), (fs_file 7, sample_inode, [])]"
    using assms by (simp add: fs_world_def)
  have b: "entry_from sample_inode 7 ''b'' = sample_b" by (simp add: sample_b_def)
  have ins: "on_handle \<lparr> h_bmap = [], h_root = fs_dir 2, h_rdonly = False, h_policy = RetryLastWriterWins, h_inode = sample_inode,
        h_od = Some sample_inode \<rparr> (insert_entry mem_deps ''b'' sample_b) w = (Ok (), ?w1)"
    using d f by (simp add: on_handle_def insert_entry_def io_bind_def mem_reload on_bmap_def sample_insert mem_flush_def io_return_def)
  have rem: "on_handle \<lparr> h_bmap = sample_tree, h_root = fs_dir 1, h_rdonly = False, h_policy = RetryLastWriterWins, h_inode = sample_inode,
        h_od = Some sample_inode \<rparr> (remove_entry mem_deps ''a'') ?w1 = (Ok True, w\<lparr>fw_dirs := fw_dirs move_done\<rparr>)"
    using s by (simp add: on_handle_def remove_entry_def io_bind_def mem_reload on_bmap_def sample_delete mem_flush_def io_return_def
        move_done_def)
  show ?thesis
    by (simp add: apply_rename_intent_def move_intent_def io_bind_def io_lift_def fs_open_dir_def mem_open_dir [OF d] b ins
        mem_open_dir [OF s] rem io_return_def)
qed

lemma move_delete: "delete_object mem_s3 move_key (move_committed\<lparr>fw_dirs := d\<rparr>) = (Ok (), fs_world\<lparr>fw_dirs := d\<rparr>)"
  by (simp add: delete_object_def mem_delete_def move_committed_def fs_world_def)

text \<open>C16. A rename between two directories moves the entry between their committed indexes: if it succeeds,
  the source's index held the name, and the two committed indexes change at exactly one name each, the
  source's losing the old name and the destination's getting the new one with the child's UUID and
  inode. It writes no scatter: in both directories every name without an outstanding scatter shows the
  new index, and a name with one keeps showing what it showed. So when neither the old name in the
  source nor the new one in the destination has an outstanding scatter, the move is seen exactly.\<close>

theorem rename_across_moves:
  assumes "fs_store F objs env tab com ino" and "CHR ''/'' \<notin> set bucket"
    and "src = dir_key (fa_ext F) l sp" and "dst = dir_key (fa_ext F) l dp" and "sp \<noteq> dp"
    and "dir_ok (fa_ext F) (objs w) (com w src) src" and "dir_ok (fa_ext F) (objs w) (com w dst) dst"
    and "storable dn" and "utf8_valid dn"
    and "S = pending (fa_ext F) (objs w) (scatter_inodes_path src)" and "T = pending (fa_ext F) (objs w) (scatter_inodes_path dst)"
    and "fs_rename_across F l bucket sp sn dp dn w = (Ok (), w')"
  shows "\<exists>e. index_map (com w src) sn = Some e \<and>
    index_map (com w' src) = (index_map (com w src))(sn := None) \<and>
    index_map (com w' dst) = (index_map (com w dst))(dn \<mapsto> entry_from (e_inode e) (e_uuid e) dn) \<and>
    (\<forall>nm. dir_lookup (fa_ext F) (fa_ino F) (objs w') (com w' src) src nm =
      (if latest_scatter S nm = None then index_map (com w' src) nm
       else dir_lookup (fa_ext F) (fa_ino F) (objs w) (com w src) src nm)) \<and>
    (\<forall>nm. dir_lookup (fa_ext F) (fa_ino F) (objs w') (com w' dst) dst nm =
      (if latest_scatter T nm = None then index_map (com w' dst) nm
       else dir_lookup (fa_ext F) (fa_ino F) (objs w) (com w dst) dst nm)) \<and>
    (latest_scatter S sn = None \<and> latest_scatter T dn = None \<longrightarrow>
      dir_lookup (fa_ext F) (fa_ino F) (objs w) (com w src) src sn = Some e \<and>
      dir_lookup (fa_ext F) (fa_ino F) (objs w') (com w' src) src =
        (dir_lookup (fa_ext F) (fa_ino F) (objs w) (com w src) src)(sn := None) \<and>
      dir_lookup (fa_ext F) (fa_ino F) (objs w') (com w' dst) dst =
        (dir_lookup (fa_ext F) (fa_ino F) (objs w) (com w dst) dst)(dn \<mapsto> entry_from (e_inode e) (e_uuid e) dn))"
proof -
  from fs_store.rename_across_run [OF assms(1-9,12)] obtain e where e: "index_map (com w src) sn = Some e"
    and s: "index_becomes (fa_ext F) objs com src ((index_map (com w src))(sn := None)) w w'"
    and d: "index_becomes (fa_ext F) objs com dst ((index_map (com w dst))(dn \<mapsto> entry_from (e_inode e) (e_uuid e) dn)) w w'" by blast
  note at = index_becomes_at [OF s assms(6), of "fa_ino F", folded assms(10)] index_becomes_at [OF d assms(7), of "fa_ino F", folded assms(11)]
  have ix: "index_map (com w' src) = (index_map (com w src))(sn := None)"
    "index_map (com w' dst) = (index_map (com w dst))(dn \<mapsto> entry_from (e_inode e) (e_uuid e) dn)"
    using s d by (simp_all add: index_becomes_def)
  have seen: "dir_lookup (fa_ext F) (fa_ino F) (objs w) (com w src) src sn = Some e \<and>
      dir_lookup (fa_ext F) (fa_ino F) (objs w') (com w' src) src =
        (dir_lookup (fa_ext F) (fa_ino F) (objs w) (com w src) src)(sn := None) \<and>
      dir_lookup (fa_ext F) (fa_ino F) (objs w') (com w' dst) dst =
        (dir_lookup (fa_ext F) (fa_ino F) (objs w) (com w dst) dst)(dn \<mapsto> entry_from (e_inode e) (e_uuid e) dn)"
    if L: "latest_scatter S sn = None \<and> latest_scatter T dn = None"
    using index_becomes_lookup [OF s assms(6), of "fa_ino F"] index_becomes_lookup [OF d assms(7), of "fa_ino F"] e L
    unfolding assms(10,11) by (simp add: overlay_update dir_lookup_def) (simp add: overlay_def)
  show ?thesis
    by (intro exI conjI allI, rule e, rule ix(1), rule ix(2)) (use at ix in simp, use at ix in simp, intro impI seen)
qed

lemma move_ok:
  "dir_ok ref_ext (mem_objs fs_world) (mem_com fs_world (fs_dir 1)) (fs_dir 1)"
  "dir_ok ref_ext (mem_objs fs_world) (mem_com fs_world (fs_dir 2)) (fs_dir 2)"
  "latest_scatter (pending ref_ext (mem_objs fs_world) (scatter_inodes_path (fs_dir 1))) ''a'' = None"
  "latest_scatter (pending ref_ext (mem_objs fs_world) (scatter_inodes_path (fs_dir 2))) ''b'' = None"
proof -
  have e: "mw_objs fs_world = []" by (simp add: fs_world_def)
  show "dir_ok ref_ext (mem_objs fs_world) (mem_com fs_world (fs_dir 1)) (fs_dir 1)"
    "dir_ok ref_ext (mem_objs fs_world) (mem_com fs_world (fs_dir 2)) (fs_dir 2)"
    using fs_empty_ok [OF e sample_inv] fs_empty_ok [OF e empty_inv] by simp_all
  show "latest_scatter (pending ref_ext (mem_objs fs_world) (scatter_inodes_path (fs_dir 1))) ''a'' = None"
    "latest_scatter (pending ref_ext (mem_objs fs_world) (scatter_inodes_path (fs_dir 2))) ''b'' = None"
    by (simp_all add: pending_def mem_objs_def fs_world_def latest_scatter_def)
qed

lemma move_parts: "CHR ''/'' \<notin> set ''b''" "(1 :: uuid) \<noteq> 2" by simp_all

theorem rename_across_moves_witness:
  "fs_rename_across mem_fs layout_new ''b'' 1 ''a'' 2 ''b'' fs_world = (Ok (), move_done) \<and>
   dir_lookup ref_ext mem_inode_api (mem_objs move_done) (mem_com move_done (fs_dir 1)) (fs_dir 1) ''a'' = None \<and>
   dir_lookup ref_ext mem_inode_api (mem_objs move_done) (mem_com move_done (fs_dir 2)) (fs_dir 2) ''b'' \<noteq> None"
proof -
  have "fw_dirs move_committed = fw_dirs fs_world" by (simp add: move_committed_def)
  from move_apply [OF this] have run: "fs_rename_across mem_fs layout_new ''b'' 1 ''a'' 2 ''b'' fs_world = (Ok (), move_done)"
    by (simp add: fs_rename_across_def move_commit io_bind_def ignore_err_def move_delete) (simp add: move_done_def)
  from rename_across_moves [OF mem_fs_store.fs_store_axioms move_parts(1) fs_dir_key fs_dir_key move_parts(2) _ _ sample_text(2,1) refl refl run,
      unfolded mem_fs_sel mem_deps_sel, OF move_ok(1,2)] move_ok(3,4)
  have "dir_lookup ref_ext mem_inode_api (mem_objs move_done) (mem_com move_done (fs_dir 1)) (fs_dir 1) ''a'' = None \<and>
   dir_lookup ref_ext mem_inode_api (mem_objs move_done) (mem_com move_done (fs_dir 2)) (fs_dir 2) ''b'' \<noteq> None" by auto
  with run show ?thesis by simp
qed

text \<open>C5. A crash after the commit point loses nothing: when a client wrote the intent of a rename, or wrote it
  and added the destination, and stopped there, \<open>fs_recover_renames\<close> over that one intent finishes the
  move exactly as the rename would have, and the intent is gone, when no outstanding scatter speaks of
  the old name in the source or the new name in the destination.\<close>

theorem recovery_completes_rename:
  assumes "fs_store F objs env tab com ino" and "CHR ''/'' \<notin> set bucket"
    and "src = dir_key (fa_ext F) l sp" and "dst = dir_key (fa_ext F) l dp" and "sp \<noteq> dp"
    and "dir_ok (fa_ext F) (objs w) (com w src) src" and "dir_ok (fa_ext F) (objs w) (com w dst) dst"
    and "storable dn" and "utf8_valid dn" and "utf8_valid sn"
    and "latest_scatter (pending (fa_ext F) (objs w) (scatter_inodes_path src)) sn = None"
    and "latest_scatter (pending (fa_ext F) (objs w) (scatter_inodes_path dst)) dn = None"
    and "fs_rename_emit_intent_only F l bucket sp sn dp dn w = (Ok (), w1) \<or>
      fs_rename_apply_partial F l bucket sp sn dp dn w = (Ok (), w1)"
    and "key = txn_key l (rename_txn_id (fa_ext F) sp sn)"
    and "list_objects (fa_s3 F) (txn_prefix l) w1 = ([Inr [obj]], w2)" and "lo_key obj = Some key"
    and "fs_recover_renames F l bucket w1 = (Ok n, w')"
  shows "n = 1 \<and> objs w' key = None \<and> (\<exists>e. dir_lookup (fa_ext F) (fa_ino F) (objs w) (com w src) src sn = Some e \<and>
    dir_lookup (fa_ext F) (fa_ino F) (objs w') (com w' src) src =
      (dir_lookup (fa_ext F) (fa_ino F) (objs w) (com w src) src)(sn := None) \<and>
    dir_lookup (fa_ext F) (fa_ino F) (objs w') (com w' dst) dst =
      (dir_lookup (fa_ext F) (fa_ino F) (objs w) (com w dst) dst)(dn \<mapsto> entry_from (e_inode e) (e_uuid e) dn))"
proof -
  from fs_store.crash_half [OF assms(1-9,12,13)] obtain e it where e: "index_map (com w src) sn = Some e"
    and it: "it = \<lparr> ri_src_parent = sp, ri_src_name = sn, ri_dst_parent = dp, ri_dst_name = dn,
        ri_child = e_uuid e, ri_inode = ino_as_slice (fa_ino F) (e_inode e) \<rparr>"
    and half: "rename_half (fa_ext F) (fa_ino F) objs com key it src dst (entry_from (e_inode e) (e_uuid e) dn) w w1"
    unfolding assms(14) by blast
  have key: "prefix (txn_prefix l) key" unfolding assms(14) by (rule txn_key_prefix)
  have env: "env w1 w2" using fs_store.list_step [OF assms(1,15)] .
  have "ends_with key ''.intent''" by (simp add: assms(14) txn_key_def ends_with_def suffix_def)
  from fs_store.recover_one [OF assms(1,15,16) this] assms(17)
  have run: "recover_intent F l bucket key w2 = (Ok n, w')" by simp
  have "n = 1 \<and> objs w' key = None \<and>
    moved (fa_ext F) (fa_ino F) objs com src (ri_src_name it) dst (ri_dst_name it)
      (entry_from (e_inode e) (ri_child it) (ri_dst_name it)) w w'"
    by (rule fs_store.recover_half [OF assms(1,2) key _ _ _ _ _ _ _ _ _ _ env run]) (use assms half in \<open>simp_all add: it\<close>)
  moreover have "dir_lookup (fa_ext F) (fa_ino F) (objs w) (com w src) src sn = Some e"
    using e assms(11) by (simp add: dir_lookup_def overlay_def)
  ultimately show ?thesis by (auto simp: moved_def it)
qed

theorem recovery_completes_rename_witness:
  "fs_rename_emit_intent_only mem_fs layout_new ''b'' 1 ''a'' 2 ''b'' fs_world = (Ok (), move_committed) \<and>
   fs_recover_renames mem_fs layout_new ''b'' move_committed = (Ok 1, move_done) \<and>
   dir_lookup ref_ext mem_inode_api (mem_objs move_done) (mem_com move_done (fs_dir 1)) (fs_dir 1) ''a'' = None \<and>
   dir_lookup ref_ext mem_inode_api (mem_objs move_done) (mem_com move_done (fs_dir 2)) (fs_dir 2) ''b'' \<noteq> None"
proof -
  let ?o = "\<lparr> lo_key = Some move_key, lo_last_modified = Some 5 \<rparr>"
  have em: "fs_rename_emit_intent_only mem_fs layout_new ''b'' 1 ''a'' 2 ''b'' fs_world = (Ok (), move_committed)"
    by (simp add: fs_rename_emit_intent_only_def io_bind_def move_commit io_return_def)
  have key: "move_key = txn_key layout_new (rename_txn_id (fa_ext mem_fs) 1 ''a'')" by (simp add: move_key_def)
  have p: "prefix (txn_prefix layout_new) move_key" unfolding move_key_def by (rule txn_key_prefix)
  then have ls: "list_objects (fa_s3 mem_fs) (txn_prefix layout_new) move_committed = ([Inr [?o]], move_committed)"
    by (simp add: mem_list_def move_committed_def)
  have "ends_with move_key ''.intent''" by (simp add: move_key_def txn_key_def ends_with_def suffix_def)
  from mem_fs_store.recover_one [OF ls _ this]
  have rc: "fs_recover_renames mem_fs layout_new ''b'' move_committed = recover_intent mem_fs layout_new ''b'' move_key move_committed"
    by simp
  have g: "get_object_raw mem_s3 move_key move_committed = (Ok (rename_serialize ref_ext move_intent), move_committed)"
    by (simp add: get_object_raw_def mem_get_def move_committed_def)
  have ps: "rename_parse ref_ext (rename_serialize ref_ext move_intent) = Ok move_intent"
    by (rule refc.rename_roundtrip) (use a_text sample_text in \<open>simp_all add: move_intent_def\<close>)
  have "fw_dirs move_committed = fw_dirs fs_world" by (simp add: move_committed_def)
  from move_apply [OF this] have run: "fs_recover_renames mem_fs layout_new ''b'' move_committed = (Ok 1, move_done)"
    unfolding rc by (simp add: recover_intent_def io_bind_def g ps move_delete io_return_def) (simp add: move_done_def)
  from recovery_completes_rename [OF mem_fs_store.fs_store_axioms move_parts(1) fs_dir_key fs_dir_key move_parts(2) _ _ sample_text(2,1) a_text(1)
      _ _ disjI1 [OF em] key ls _ run, unfolded mem_fs_sel mem_deps_sel, OF move_ok]
  have "dir_lookup ref_ext mem_inode_api (mem_objs move_done) (mem_com move_done (fs_dir 1)) (fs_dir 1) ''a'' = None \<and>
   dir_lookup ref_ext mem_inode_api (mem_objs move_done) (mem_com move_done (fs_dir 2)) (fs_dir 2) ''b'' \<noteq> None" by auto
  with em run show ?thesis by simp
qed

end
