(* ===== verification/Fs_Hardlinks.thy ===== *)
theory Fs_Hardlinks
  imports Fs_Recovery
begin

text \<open>
  Hard links: \<open>fs_link\<close> raises the link count of the file by one and adds the name, exclusively. The
  locale \<open>fs_store_occ\<close> joins the store of children with the optimistic concurrency of their inodes.
\<close>

locale fs_store_occ = fs_store F objs env tab com ino + inode_store F env ino seen
  for F :: "('w, 'i, 'b, 'd, 'f) fs_api" and objs env tab com ino seen

interpretation mem_fs_occ: fs_store_occ mem_fs mem_objs mem_env map_of mem_com mem_ino "\<lambda>root d i. d = Some i"
  by unfold_locales

section \<open>The link count\<close>

text \<open>A step that changed the inode of one child and nothing else.\<close>

definition only_inode ::
  "('w \<Rightarrow> string \<Rightarrow> s3_object option) \<Rightarrow> ('w \<Rightarrow> string \<Rightarrow> 'i table) \<Rightarrow> ('w \<Rightarrow> string \<Rightarrow> 'i option) \<Rightarrow> string \<Rightarrow> 'w \<Rightarrow> 'w \<Rightarrow> bool" where
  "only_inode objs com ino root w w' =
     ((\<forall>k. \<not> hf_owned root k \<longrightarrow> objs w' k = objs w k) \<and> (\<forall>c. c \<noteq> root \<longrightarrow> com w' c = com w c \<and> ino w' c = ino w c))"

lemma only_inode_trans:
  "only_inode objs com ino root w w1 \<Longrightarrow> only_inode objs com ino root w1 w2 \<Longrightarrow> only_inode objs com ino root w w2"
  by (simp add: only_inode_def)

context fs_store
begin

lemma only_inode_env: "env w w' \<Longrightarrow> only_inode objs com ino root w w'"
  using env_same [of w w'] by (simp add: only_inode_def)

lemma nlink_loop_frame: "nlink_loop F root delta now n w = (r, w') \<Longrightarrow> only_inode objs com ino root w w'"
proof (induction n arbitrary: w)
  case 0
  then show ?case by (simp add: io_fail_def only_inode_def)
next
  case (Suc n)
  let ?raw' = "\<lambda>raw. ino_set_ctime (fa_ino F) (fst now) (snd now)
           (ino_set_nlink (fa_ino F) (nlink_after (ino_nlink (fa_ino F) raw) delta) raw)"
  from Suc.prems [unfolded nlink_loop.simps] show ?case
  proof (rule reads_bind_run [OF reads_load(1)], goal_cases)
    case 1
    then show ?case by (intro only_inode_env)
  next
    case (2 a w1)
    obtain raw od where a: "a = (raw, od)" by (cases a)
    obtain q w2 where fl: "hf_flush_inode (fa_hf F) root (?raw' raw) od FlagUpdate w1 = (q, w2)"
      by (cases "hf_flush_inode (fa_hf F) root (?raw' raw) od FlagUpdate w1")
    have s1: "only_inode objs com ino root w w2"
    proof (rule only_inode_trans [OF only_inode_env [OF 2(2)]])
      show "only_inode objs com ino root w1 w2"
        using flush_inode_any [OF fl] unfolding only_inode_def by (elim conjE) (intro conjI)
    qed
    have "w' = w2 \<or> nlink_loop F root delta now n w2 = (r, w')"
    proof (cases q)
      case (Err e)
      with 2(3) a fl show ?thesis by (cases "e = AlreadyExists") (simp_all add: io_bind_def io_try_def io_fail_def)
    qed (use 2(3) a fl in \<open>simp_all add: io_bind_def io_try_def io_return_def\<close>)
    then show ?case
    proof
      assume "nlink_loop F root delta now n w2 = (r, w')"
      from only_inode_trans [OF s1 Suc.IH [OF this]] show ?thesis .
    qed (use s1 in simp)
  qed
qed

lemma adjust_nlink_frame:
  assumes b: "CHR ''/'' \<notin> set bucket" and run: "adjust_nlink F (''s3://'' @ bucket @ ''/'' @ c) delta w = (r, w')"
  shows "only_inode objs com ino c w w'"
  using run [unfolded adjust_nlink_def]
proof (rule reads_bind_run [OF reads_staging], goal_cases)
  case 1
  then show ?case by (intro only_inode_env)
next
  case (2 root w1)
  have root: "root = c" using staging_Ok [of bucket c w root w1] 2(1) b by (simp add: staging_from_def)
  have n: "reads env (\<lambda>w. case fa_now F w of (t, w') \<Rightarrow> (Ok (case t of Some n \<Rightarrow> n | None \<Rightarrow> (0, 0)), w'))"
    by (rule readsI) (auto split: prod.splits dest: now_env)
  from 2(3) show ?case
  proof (rule reads_bind_run [OF n], goal_cases)
    case 1
    then show ?case using env_trans [OF 2(2)] by (intro only_inode_env)
  next
    case (2 now w2)
    from nlink_loop_frame [OF 2(3)] root only_inode_env [OF env_trans [OF \<open>env w w1\<close> 2(2)]] only_inode_trans
    show ?case by metis
  qed
qed

section \<open>The exclusive insertion\<close>

text \<open>An attempt that fails leaves the index as it was, or the name present in it.\<close>

lemma excl_failed:
  assumes ok: "dir_ok (fa_ext F) (objs w) (com w root) root" and root: "root = h_root h" and fit: "fits_name nm e"
    and run: "insert_entry_excl (fa_dir F) nm e (h, w) = (Err err, (h', w'))"
  shows "dir_ok (fa_ext F) (objs w') (com w' root) root \<and> only_dir objs com root w w' \<and>
    (\<forall>c. c \<noteq> root \<longrightarrow> ino w' c = ino w c) \<and> (com w' root = com w root \<or> index_map (com w' root) nm \<noteq> None)"
proof -
  have same: ?thesis if "env w w'" using ok env_same [OF that] by (simp add: only_dir_def)
  from run [unfolded insert_entry_excl_def] show ?thesis
  proof (rule io_bind_run)
    fix u s1 assume rel: "reload_to_latest (fa_dir F) (h, w) = (Ok u, s1)"
      and rest: "io_bind (\<lambda>(h, w). (probe_lookup_in (dp_bt (fa_dir F)) (h_bmap h) nm (hash_filename (fa_ext F) nm), (h, w))) (\<lambda>r.
       if r \<noteq> None then io_return False
       else io_bind (on_bmap (probe_upsert (fa_ext F) (dp_bt (fa_dir F)) nm e)) (\<lambda>_.
         io_bind (hf_flush (fa_hf F)) (\<lambda>_. io_return True))) s1 = (Err err, (h', w'))"
    obtain h1 w1 where s1: "s1 = (h1, w1)" by (cases s1)
    note rl = reload_run [OF rel [unfolded s1]]
    have t1: "tab (h_bmap h1) = com w root" using rl(3) root by simp
    from rest s1 consider "w' = w1" | b' where "probe_upsert (fa_ext F) (dp_bt (fa_dir F)) nm e (h_bmap h1) = (Ok (), b')"
      "hf_flush (fa_hf F) (h1\<lparr>h_bmap := b'\<rparr>, w1) = (Err err, (h', w'))"
      by (auto simp: io_bind_def on_bmap_def io_return_def split: prod.splits result.splits if_splits)
    then show ?thesis
    proof cases
      case 1
      with same rl(1) show ?thesis by simp
    next
      case (2 b')
      have st: "dir_inv (fa_ext F) (tab b')" "index_map (tab b') = (index_map (com w root))(nm \<mapsto> e)"
        using idx.upsert_view [OF _ fit 2(1)] t1 dir_okD(2) [OF ok] by simp_all
      note f = flush_any [OF 2(2)] and ev = env_same [OF rl(1)]
      have c: "com w' root \<in> {com w root, tab b'}" using conjunct1 [OF conjunct2 [OF f]] rl(2) root ev by simp
      have o: "objs w' k = objs w k" if "\<not> hf_owned root k" for k
        using conjunct1 [OF conjunct2 [OF conjunct2 [OF f]], rule_format, of k] that rl(2) root ev by simp
      have other: "com w' c = com w c \<and> ino w' c = ino w c" if "c \<noteq> root" for c
        using conjunct2 [OF conjunct2 [OF conjunct2 [OF f]], rule_format, of c] that rl(2) root ev by simp
      have inv: "dir_inv (fa_ext F) (com w' root)" using c st(1) dir_okD(2) [OF ok] by auto
      have "dir_ok (fa_ext F) (objs w') (com w' root) root"
        by (rule dir_ok_cong [OF o inv ok]) (rule scatter_not_owned)
      moreover have "com w' root = com w root \<or> index_map (com w' root) nm \<noteq> None" using c st(2) by auto
      ultimately show ?thesis using o other by (simp add: only_dir_def)
    qed
  next
    fix x assume "reload_to_latest (fa_dir F) (h, w) = (Err x, (h', w'))"
    from reload_run(1) [OF this] show ?thesis by (rule same)
  qed simp
qed

lemma excl_other:
  assumes root: "root = h_root h" and run: "insert_entry_excl (fa_dir F) nm e (h, w) = (Ok True, (h', w'))"
  shows "only_dir objs com root w w'" "c \<noteq> root \<Longrightarrow> ino w' c = ino w c"
proof -
  from run [unfolded insert_entry_excl_def] obtain u s1 where rel: "reload_to_latest (fa_dir F) (h, w) = (Ok u, s1)"
    and rest: "io_bind (\<lambda>(h, w). (probe_lookup_in (dp_bt (fa_dir F)) (h_bmap h) nm (hash_filename (fa_ext F) nm), (h, w))) (\<lambda>r.
       if r \<noteq> None then io_return False
       else io_bind (on_bmap (probe_upsert (fa_ext F) (dp_bt (fa_dir F)) nm e)) (\<lambda>_.
         io_bind (hf_flush (fa_hf F)) (\<lambda>_. io_return True))) s1 = (Ok True, (h', w'))"
    by (rule io_bind_OkE)
  obtain h1 w1 where s1: "s1 = (h1, w1)" by (cases s1)
  note rl = reload_run [OF rel [unfolded s1]]
  from rest s1 obtain b' n where "hf_flush (fa_hf F) (h1\<lparr>h_bmap := b'\<rparr>, w1) = (Ok n, (h', w'))"
    by (auto elim!: io_bind_OkE on_bmapE simp: io_return_def split: if_splits)
  note f = flush_any [OF this] and ev = env_same [OF rl(1)]
  have "objs w' k = objs w k" if "\<not> hf_owned root k" for k
    using conjunct1 [OF conjunct2 [OF conjunct2 [OF f]], rule_format, of k] that rl(2) root ev by simp
  moreover have other: "com w' c = com w c \<and> ino w' c = ino w c" if "c \<noteq> root" for c
    using conjunct2 [OF conjunct2 [OF conjunct2 [OF f]], rule_format, of c] that rl(2) root ev by simp
  ultimately show "only_dir objs com root w w'" by (simp add: only_dir_def)
  show "c \<noteq> root \<Longrightarrow> ino w' c = ino w c" using other by blast
qed

lemma link_loop_run:
  assumes b: "CHR ''/'' \<notin> set bucket" and root: "root = dir_key (fa_ext F) l p" and fit: "fits_name nm e"
    and run: "link_loop F uri (dir_uri (fa_ext F) l bucket p) nm e h n w = (Ok (), w')"
    and ok: "dir_ok (fa_ext F) (objs w) (com w root) root" and h: "root = h_root h"
  shows "index_map (com w root) nm = None \<and>
    index_becomes (fa_ext F) objs com root ((index_map (com w root))(nm \<mapsto> e)) w w' \<and> (\<forall>c. c \<noteq> root \<longrightarrow> ino w' c = ino w c)"
  using run ok h
proof (induction n arbitrary: h w)
  case 0
  then show ?case by (auto elim!: io_bind_OkE simp: io_fail_def)
next
  case (Suc n)
  from Suc.prems(1) obtain q w1 where t: "io_try (on_handle h (insert_entry_excl (fa_dir F) nm e)) w = (Ok q, w1)"
    and rest: "(case q of Ok True \<Rightarrow> io_return ()
       | Ok False \<Rightarrow> io_bind (ignore_err (adjust_nlink F uri (- 1))) (\<lambda>_. io_fail AlreadyExists)
       | Err err \<Rightarrow>
           if err = AlreadyExists then
             io_bind (fs_open_opt F (dir_uri (fa_ext F) l bucket p) False FailFast) (\<lambda>parent.
               link_loop F uri (dir_uri (fa_ext F) l bucket p) nm e parent n)
           else io_bind (ignore_err (adjust_nlink F uri (- 1))) (\<lambda>_. io_fail err)
       | Panic \<Rightarrow> io_lift Panic) w1 = (Ok (), w')"
    by (auto elim!: io_bind_OkE)
  obtain h1 where ex: "insert_entry_excl (fa_dir F) nm e (h, w) = (q, (h1, w1))"
    using io_tryE(1) [OF t] by (auto simp: on_handle_def split: prod.splits)
  show ?case
  proof (cases q)
    case (Ok new)
    with rest have new: "new" "w' = w1" by (auto elim!: io_bind_OkE simp: io_return_def io_fail_def split: bool.splits)
    note I = insert_entry_excl_run [OF Suc.prems(2,3) fit ex [unfolded Ok]]
    have ex': "insert_entry_excl (fa_dir F) nm e (h, w) = (Ok True, (h1, w1))" using ex Ok new(1) by simp
    show ?thesis unfolding new(2) using I(1) I(2) [OF new(1)] new(1) excl_other(2) [OF Suc.prems(3) ex'] by blast
  next
    case (Err err)
    with rest obtain h2 w2 where err: "err = AlreadyExists"
      and op: "fs_open_opt F (dir_uri (fa_ext F) l bucket p) False FailFast w1 = (Ok h2, w2)"
      and again: "link_loop F uri (dir_uri (fa_ext F) l bucket p) nm e h2 n w2 = (Ok (), w')"
      by (auto elim!: io_bind_OkE simp: io_fail_def split: if_splits)
    note X = excl_failed [OF Suc.prems(2,3) fit ex [unfolded Err]]
    have e2: "env w1 w2" using readsD [OF reads_open(1) op [unfolded fs_open_opt_def]] .
    note ev = env_same [OF e2]
    have h2: "root = h_root h2" using open_dir_run(1) [OF b op] root by simp
    have "dir_ok (fa_ext F) (objs w2) (com w2 root) root" using X ev by simp
    note IH = Suc.IH [OF again this h2]
    have c: "com w1 root = com w root" using X IH ev by simp
    have "objs w1 k = objs w k" if "prefix (scatter_inodes_path root) k" for k
      using X scatter_not_owned [OF that] by (simp add: only_dir_def)
    with IH ev X c show ?thesis by (simp add: index_becomes_def)
  next
    case Panic
    with io_tryE(2) [OF t] show ?thesis by simp
  qed
qed

end

section \<open>The whole link\<close>

context fs_store_occ
begin

lemma link_run:
  assumes b: "CHR ''/'' \<notin> set bucket" and root: "root = dir_key (fa_ext F) l p" and chd: "child = file_key (fa_ext F) l t"
    and ok: "dir_ok (fa_ext F) (objs w) (com w root) root" and nm: "storable nm" "utf8_valid nm"
    and run: "fs_link F l bucket p nm t w = (Ok (), w')"
  shows "\<exists>i j. ino w child = Some i \<and> \<not> is_dir_mode (ino_mode (fa_ino F) i) \<and> index_map (com w root) nm = None \<and>
    ino w' child = Some j \<and> ino_nlink (fa_ino F) j = nlink_after (ino_nlink (fa_ino F) i) 1 \<and>
    index_becomes (fa_ext F) objs com root ((index_map (com w root))
      (nm \<mapsto> entry_from (ino_set_nlink (fa_ino F) (ino_nlink (fa_ino F) j) i) t nm)) w w'"
proof -
  have ck: "child = child_key (fa_ext F) l False t" "root = child_key (fa_ext F) l True p" using root chd by (simp_all add: child_key_def)
  have ne: "child \<noteq> root" unfolding ck child_key_eq by simp
  have uri: "file_uri (fa_ext F) l bucket t = ''s3://'' @ bucket @ ''/'' @ child" by (simp add: file_uri_def chd)
  from run obtain h w1 found w2 st w3 i d w4 n w5 where
    op: "fs_open_opt F (dir_uri (fa_ext F) l bucket p) False FailFast w = (Ok h, w1)" and
    rd: "io_try (read_entry (fa_dir F) (h_root h) nm) w1 = (Ok found, w2)" and
    stg: "staging_from F (fa_new_s3_uri F (file_uri (fa_ext F) l bucket t)) w2 = (Ok st, w3)" and
    ld: "hf_load_inode (fa_hf F) st w3 = (Ok (i, d), w4)" and reg: "\<not> is_dir_mode (ino_mode (fa_ino F) i)" and
    adj: "adjust_nlink F (file_uri (fa_ext F) l bucket t) 1 w4 = (Ok n, w5)" and
    lp: "link_loop F (file_uri (fa_ext F) l bucket t) (dir_uri (fa_ext F) l bucket p) nm
      (entry_from (ino_set_nlink (fa_ino F) n i) t nm) h NLINK_RETRIES w5 = (Ok (), w')"
    unfolding fs_link_def Let_def by (auto elim!: io_bind_OkE simp: io_fail_def split: result.splits if_splits)
  have st: "st = child" using staging_Ok [of bucket child w2 st w3] stg b by (simp add: staging_from_def uri)
  have e4: "env w w4"
    by (rule env_trans [OF env_trans [OF env_trans [OF readsD [OF reads_open(1) op [unfolded fs_open_opt_def]]
        readsD [OF reads_try [OF reads_read_entry] rd]] readsD [OF reads_staging stg]] load_env [OF ld]])
  note ev = env_same [OF e4]
  have i: "ino w child = Some i" using load_Ok [OF ld] ev st by simp
  from adjust_nlink_run [OF b adj [unfolded uri]] obtain v where
    v: "env w4 v" and nw: "nlink_written (fa_ino F) ino child 1 n v w5" by blast
  from nw obtain j where j: "n = nlink_after (ino_nlink (fa_ino F) i) 1" "ino w5 child = Some j" "ino_nlink (fa_ino F) j = n"
    by (rule nlink_written_sel) (use i ev env_same [OF v] in auto)
  note fr = adjust_nlink_frame [OF b adj [unfolded uri]]
  have c5: "com w5 root = com w root" using fr ne ev by (simp add: only_inode_def)
  have o5: "objs w5 k = objs w k" if k: "prefix (scatter_inodes_path root) k" for k
    using fr scatter_not_owned_child [of l p k False t] k ev root ck(1) by (simp add: only_inode_def)
  have ok5: "dir_ok (fa_ext F) (objs w5) (com w5 root) root"
    unfolding c5 by (rule dir_ok_cong [OF o5 dir_okD(2) [OF ok] ok])
  have h: "root = h_root h" using open_dir_run(1) [OF b op] root by simp
  from link_loop_run [OF b root fits_name_entry [OF nm] lp ok5 h] c5 ne j(2)
  have "index_map (com w root) nm = None" "ino w' child = Some j"
    "index_becomes (fa_ext F) objs com root ((index_map (com w root))(nm \<mapsto> entry_from (ino_set_nlink (fa_ino F) n i) t nm)) w5 w'"
    by simp_all
  moreover from this(3) o5 have "index_becomes (fa_ext F) objs com root
      ((index_map (com w root))(nm \<mapsto> entry_from (ino_set_nlink (fa_ino F) n i) t nm)) w w'" by (simp add: index_becomes_def)
  moreover have n: "n = ino_nlink (fa_ino F) j" using j(3) by simp
  ultimately show ?thesis using i reg j(1) unfolding n by (intro exI conjI)
qed

end

text \<open>C20. \<open>fs_link\<close> adds a name for an existing file: if it succeeds, the target is no directory, the
  committed index of the directory had no entry for the name and now has one with the file's UUID and the
  raised link count, and every other entry as before, and the file's inode carries that link count. The
  committed index is all that it checks and changes: every name without an outstanding scatter shows the
  new index, and a name with one keeps showing what it showed. So when the new name has no outstanding
  scatter, it was free and the directory shows exactly the link in addition; when it has one (the name
  was created, or unlinked, and not yet folded), the link succeeds, raises the count, and is not seen.\<close>

theorem link_adds_name:
  assumes "fs_store_occ F objs env tab com ino seen" and "CHR ''/'' \<notin> set bucket"
    and "root = dir_key (fa_ext F) l p" and "child = file_key (fa_ext F) l t"
    and "dir_ok (fa_ext F) (objs w) (com w root) root" and "storable nm" and "utf8_valid nm"
    and "S = pending (fa_ext F) (objs w) (scatter_inodes_path root)"
    and "fs_link F l bucket p nm t w = (Ok (), w')"
  shows "\<exists>i j e. ino w child = Some i \<and> \<not> is_dir_mode (ino_mode (fa_ino F) i) \<and> ino w' child = Some j \<and>
    (uint (ino_nlink (fa_ino F) i) < 2 ^ 63 - 1 \<longrightarrow> uint (ino_nlink (fa_ino F) j) = uint (ino_nlink (fa_ino F) i) + 1) \<and>
    e = entry_from (ino_set_nlink (fa_ino F) (ino_nlink (fa_ino F) j) i) t nm \<and>
    index_map (com w root) nm = None \<and> index_map (com w' root) = (index_map (com w root))(nm \<mapsto> e) \<and>
    (\<forall>n. dir_lookup (fa_ext F) (fa_ino F) (objs w') (com w' root) root n =
      (if latest_scatter S n = None then index_map (com w' root) n
       else dir_lookup (fa_ext F) (fa_ino F) (objs w) (com w root) root n)) \<and>
    (latest_scatter S nm = None \<longrightarrow>
      dir_lookup (fa_ext F) (fa_ino F) (objs w) (com w root) root nm = None \<and>
      dir_lookup (fa_ext F) (fa_ino F) (objs w') (com w' root) root =
        (dir_lookup (fa_ext F) (fa_ino F) (objs w) (com w root) root)(nm \<mapsto> e))"
proof -
  from fs_store_occ.link_run [OF assms(1-7,9)] obtain i j where i: "ino w child = Some i" "\<not> is_dir_mode (ino_mode (fa_ino F) i)"
    and free: "index_map (com w root) nm = None" and j: "ino w' child = Some j" "ino_nlink (fa_ino F) j = nlink_after (ino_nlink (fa_ino F) i) 1"
    and ix: "index_becomes (fa_ext F) objs com root ((index_map (com w root))
      (nm \<mapsto> entry_from (ino_set_nlink (fa_ino F) (ino_nlink (fa_ino F) j) i) t nm)) w w'" by (elim exE conjE)
  let ?e = "entry_from (ino_set_nlink (fa_ino F) (ino_nlink (fa_ino F) j) i) t nm"
  have ix': "index_map (com w' root) = (index_map (com w root))(nm \<mapsto> ?e)" using ix by (simp add: index_becomes_def)
  note at = index_becomes_at [OF ix assms(5), of "fa_ino F", folded assms(8) ix']
  have new: "dir_lookup (fa_ext F) (fa_ino F) (objs w) (com w root) root nm = None \<and>
      dir_lookup (fa_ext F) (fa_ino F) (objs w') (com w' root) root =
        (dir_lookup (fa_ext F) (fa_ino F) (objs w) (com w root) root)(nm \<mapsto> ?e)" if L: "latest_scatter S nm = None"
    using index_becomes_lookup [OF ix assms(5), of "fa_ino F"] free L unfolding assms(8)
    by (simp add: overlay_update dir_lookup_def) (simp add: overlay_def)
  have count: "uint (ino_nlink (fa_ino F) i) < 2 ^ 63 - 1 \<longrightarrow> uint (ino_nlink (fa_ino F) j) = uint (ino_nlink (fa_ino F) i) + 1"
    using nlink_after_exact [of "ino_nlink (fa_ino F) i" 1] j(2) by simp
  show ?thesis
    by (intro exI conjI allI, rule i(1), rule i(2), rule j(1), rule count, rule refl, rule free, rule ix', rule at) (intro impI new)
qed

theorem link_adds_name_witness:
  "\<exists>w'. fs_link mem_fs layout_new ''b'' 2 ''b'' 7 fs_world = (Ok (), w') \<and>
     dir_lookup ref_ext mem_inode_api (mem_objs w') (mem_com w' (fs_dir 2)) (fs_dir 2) ''b'' \<noteq> None"
proof -
  let ?i = "sample_inode\<lparr>mi_nlink := 2\<rparr>" let ?e = "entry_from ?i 7 ''b''"
  let ?w1 = "fs_world\<lparr>fw_dirs := [(fs_dir 1, sample_inode, sample_tree), (fs_dir 2, sample_inode, []), (fs_file 7, ?i, [])]\<rparr>"
  let ?w2 = "fs_world\<lparr>fw_dirs := [(fs_dir 1, sample_inode, sample_tree), (fs_dir 2, sample_inode, [(98, ?e)]), (fs_file 7, ?i, [])]\<rparr>"
  let ?h = "\<lparr> h_bmap = [], h_root = fs_dir 2, h_rdonly = False, h_policy = FailFast, h_inode = sample_inode, h_od = Some sample_inode \<rparr>"
  have "\<not> ends_with (dir_uri ref_ext layout_new ''b'' 2) ''/''"
    using fs_dir_text(2) [of 2] by (simp add: fs_uri ends_slash fs_dir_def dir_key_def)
  then have op: "fs_open_opt mem_fs (dir_uri ref_ext layout_new ''b'' 2) False FailFast fs_world = (Ok ?h, fs_world)"
    by (simp add: fs_open_opt_def hyper_open_def io_bind_def io_lift_def to_dir_staging_config_def dir_open_def do_open_def
        mem_load_def mem_read_def with_handle_def io_return_def fs_world_def)
  have look: "probe_lookup_in mem_btree [] ''b'' h = (Ok None :: (u64 \<times> mem_inode dir_file_entry_raw) option result)" for h
    by (subst probe_lookup_in.simps) simp
  have rd: "read_entry mem_deps (fs_dir 2) ''b'' fs_world = (Err NotFound, fs_world)"
    by (simp add: read_entry_def probe_lookup_latest_def load_latest_bmap_def io_bind_def io_lift_def io_fail_def mem_load_def mem_read_def
        look fs_world_def)
  have adj: "adjust_nlink mem_fs (file_uri ref_ext layout_new ''b'' 7) 1 fs_world = (Ok 2, ?w1)"
    by (simp add: adjust_nlink_def io_bind_def NLINK_RETRIES_def eval_nat_numeral mem_load_def io_try_def mem_flush_inode_def mem_ino_def
        io_return_def nlink_after_def wrap_i64_def fs_world_def sample_inode_def)
  have ins: "on_handle ?h (insert_entry_excl mem_deps ''b'' ?e) ?w1 = (Ok True, ?w2)"
    by (simp add: on_handle_def insert_entry_excl_def io_bind_def mem_reload look on_bmap_def sample_insert mem_flush_def io_return_def)
  have lp: "link_loop mem_fs (file_uri ref_ext layout_new ''b'' 7) (dir_uri ref_ext layout_new ''b'' 2) ''b'' ?e ?h (Suc n) ?w1 = (Ok (), ?w2)" for n
    using ins by (simp add: io_bind_def io_try_def io_return_def)
  have reg: "\<not> is_dir_mode (mi_mode sample_inode)" by (simp add: is_dir_mode_def S_IFMT_def S_IFDIR_def sample_inode_def)
  obtain n where n: "NLINK_RETRIES = Suc n" by (cases NLINK_RETRIES) (simp_all add: NLINK_RETRIES_def)
  have ld: "mem_load (fs_file 7) fs_world = (Ok (sample_inode, Some sample_inode), fs_world)" by (simp add: mem_load_def fs_world_def)
  have run: "fs_link mem_fs layout_new ''b'' 2 ''b'' 7 fs_world = (Ok (), ?w2)"
    using op rd ld adj lp [of n] reg
    by (simp add: fs_link_def Let_def io_bind_def io_try_def n del: link_loop.simps)
  from link_adds_name [OF mem_fs_occ.fs_store_occ_axioms move_parts(1) fs_dir_key fs_file_key _ sample_text(2,1) refl run,
      unfolded mem_fs_sel mem_deps_sel, OF move_ok(2)] move_ok(4)
  have "dir_lookup ref_ext mem_inode_api (mem_objs ?w2) (mem_com ?w2 (fs_dir 2)) (fs_dir 2) ''b'' \<noteq> None" by auto
  with run show ?thesis by (intro exI [of _ ?w2] conjI)
qed

end
