(* ===== verification/Fs_Folding.thy ===== *)
theory Fs_Folding
  imports Fs_Hardlinks
begin

text \<open>
  The two phases of compaction together: \<open>fs_compact\<close> folds the pending changes into the index, then
  turns each folded pre-delete marker into a tombstone and lowers the child's link count. The
  directory shows what it showed before, and every tombstone it leaves behind carries the retention
  deadline that \<open>fs_unlink\<close> or \<open>fs_rmdir\<close> recorded in the marker.
\<close>

section \<open>The layout base of a directory\<close>

lemma rfind_None: "CHR ''/'' \<notin> set s \<Longrightarrow> rfind ''DIR/'' s = None"
  by (induction s) (auto simp: prefix_def)

lemma rfind_append: "rfind p s = Some n \<Longrightarrow> rfind p (r @ s) = Some (length r + n)"
  by (induction r) simp_all

context codecs
begin

lemma layout_base_dir: "layout_base_of (dir_key x l p) = base l"
proof -
  have "rfind ''DIR/'' (uuid_fmt x p) = None" by (rule rfind_None) (rule uuid_fmt_no, simp)
  then have "rfind ''DIR/'' (DIR_NAMESPACE @ ''/'' @ uuid_fmt x p) = Some 0" by (simp add: DIR_NAMESPACE_def prefix_def)
  from rfind_append [OF this] show ?thesis by (simp add: layout_base_of_def dir_key_def)
qed

lemma compact_child: "compact_child_uri x bucket (dir_key x l p) d u = ''s3://'' @ bucket @ ''/'' @ child_key x l d u"
  unfolding compact_child_uri_def layout_base_dir by (simp add: child_key_def dir_key_def file_key_def DIR_NAMESPACE_def FILE_NAMESPACE_def)

end

section \<open>A tombstone for a name that is gone\<close>

lemma latest_insert:
  assumes "finite S" and "inj_on s_key (insert s S)" and "latest_scatter (insert s S) nm = Some r" and "r \<noteq> s"
  shows "latest_scatter S nm = Some r"
proof -
  have fin: "finite (insert s S)" using assms(1) by simp
  obtain ss where ss: "set ss = insert s S" using fin by (metis finite_list)
  with latest_scatter_eq [OF ss assms(2), of nm] assms(3) have "nm \<in> s_filename ` set ss" "r = latest_of ss nm"
    by (auto split: if_splits)
  with latest_of_latest [OF this(1)] ss have r: "r \<in> insert s S" "s_filename r = nm"
    "newest (insert s S) r" by (auto simp: is_latest_def newest_def)
  then have "r \<in> S" "newest S r" using assms(4) by (auto simp: newest_def)
  from latest_newest [OF inj_on_subset [OF assms(2)] this] r(2) show ?thesis by auto
qed

lemma added_lookup_gone:
  assumes add: "scatter_added x objs root s buf w w'" and ok: "dir_ok x (objs w) t root"
    and op: "s_op s = Delete" and gone: "dir_lookup x ia (objs w) t root (s_filename s) = None"
  shows "dir_lookup x ia (objs w') t root = dir_lookup x ia (objs w) t root"
proof
  fix nm
  let ?S = "pending x (objs w) (scatter_inodes_path root)"
  show "dir_lookup x ia (objs w') t root nm = dir_lookup x ia (objs w) t root nm"
  proof (cases "nm = s_filename s")
    case False
    from added_lookup_other [OF add ok this] show ?thesis .
  next
    case True
    have "dir_lookup x ia (objs w') t root nm = None"
    proof (cases "latest_scatter (insert s ?S) nm")
      case None
      with True show ?thesis by (auto simp: latest_scatter_def split: if_splits)
    next
      case (Some r)
      have inj: "inj_on s_key (insert s ?S)" using pending_inj [of x "objs w'" "scatter_inodes_path root"] unfolding added_pending [OF add] .
      show ?thesis
      proof (cases "r = s")
        case True
        with Some op show ?thesis by (simp add: dir_lookup_def overlay_def added_pending [OF add])
      next
        case False
        note l = latest_insert [OF dir_okD(4) [OF ok] inj Some False]
        have r: "r \<in> ?S" using latest_scatter_Some(1) [OF dir_okD(4) [OF ok] pending_inj l] .
        have "s_key r \<noteq> s_key s" using inj_onD [OF inj, of r s] r False by auto
        then have "scatter_entry ia (objs w') r = scatter_entry ia (objs w) r"
          using add by (simp add: scatter_added_def scatter_entry_def)
        with gone True Some l show ?thesis
          by (auto simp: dir_lookup_def overlay_def added_pending [OF add] split: if_splits)
      qed
    qed
    with gone True show ?thesis by simp
  qed
qed

text \<open>What the second phase does to the directory: it shows the same, and every scatter that is new is a
  tombstone for one of the reported pre-deletes \<open>P\<close>, with its retention deadline.\<close>

definition tombstone_for ::
  "'i inode_api \<Rightarrow> (string \<Rightarrow> s3_object option) \<Rightarrow> (string \<times> uuid \<times> bool \<times> int) set \<Rightarrow> dir_scatter_inode \<Rightarrow> bool" where
  "tombstone_for ia m P s = (s_op s = Delete \<and> (\<exists>d ret now i. (s_filename s, s_uuid s, d, ret) \<in> P \<and>
     body_at m s = build_tombstone_body now ret (ino_as_slice ia i)))"

definition only_tombstones ::
  "ext \<Rightarrow> 'i inode_api \<Rightarrow> ('w \<Rightarrow> string \<Rightarrow> s3_object option) \<Rightarrow> ('w \<Rightarrow> string \<Rightarrow> 'i table) \<Rightarrow> string \<Rightarrow>
     (string \<times> uuid \<times> bool \<times> int) set \<Rightarrow> 'w \<Rightarrow> 'w \<Rightarrow> bool" where
  "only_tombstones x ia objs com root P w w' =
     (same_dir x ia objs com root w w' \<and>
      (\<forall>s \<in> pending x (objs w') (scatter_inodes_path root).
         s \<in> pending x (objs w) (scatter_inodes_path root) \<and> body_at (objs w') s = body_at (objs w) s \<or>
         tombstone_for ia (objs w') P s))"

lemma only_tombstones_trans:
  assumes "only_tombstones x ia objs com root P w w1" and "only_tombstones x ia objs com root P w1 w2"
  shows "only_tombstones x ia objs com root P w w2"
proof -
  have "s \<in> pending x (objs w) (scatter_inodes_path root) \<and> body_at (objs w2) s = body_at (objs w) s \<or> tombstone_for ia (objs w2) P s"
    if "s \<in> pending x (objs w2) (scatter_inodes_path root)" for s
  proof -
    from assms(2) that consider "s \<in> pending x (objs w1) (scatter_inodes_path root)" "body_at (objs w2) s = body_at (objs w1) s"
      | "tombstone_for ia (objs w2) P s" by (auto simp: only_tombstones_def)
    then show ?thesis
    proof cases
      case 1
      with assms(1) show ?thesis by (auto simp: only_tombstones_def tombstone_for_def)
    qed simp
  qed
  moreover have "same_dir x ia objs com root w w2"
    using assms by (intro same_dir_trans [of x ia objs com root w w1 w2]) (simp_all add: only_tombstones_def)
  ultimately show ?thesis by (simp add: only_tombstones_def)
qed

lemma only_tombstones_mono: "only_tombstones x ia objs com root P w w' \<Longrightarrow> P \<subseteq> Q \<Longrightarrow> only_tombstones x ia objs com root Q w w'"
  unfolding only_tombstones_def tombstone_for_def by blast

lemma only_tombstones_cong:
  assumes o: "\<And>k. prefix (scatter_inodes_path root) k \<Longrightarrow> objs w' k = objs w k" and c: "com w' root = com w root"
    and ok: "dir_ok x (objs w) (com w root) root"
  shows "only_tombstones x ia objs com root P w w'"
proof -
  have "same_dir x ia objs com root w w'" unfolding same_dir_def c
    using dir_ok_cong [OF o dir_okD(2) [OF ok] ok] dir_lookup_cong [OF dir_okD(4) [OF ok] o] by blast
  moreover have "body_at (objs w') s = body_at (objs w) s" if "s \<in> pending x (objs w) (scatter_inodes_path root)" for s
    using pending_object [OF that] o by (auto simp: body_at_def)
  ultimately show ?thesis using pending_cong [of "scatter_inodes_path root" "objs w'" "objs w" x, OF o]
    by (simp add: only_tombstones_def)
qed

context fs_store
begin

lemma only_tombstones_env:
  assumes "env w w'" and "dir_ok (fa_ext F) (objs w) (com w root) root"
  shows "only_tombstones (fa_ext F) ia objs com root P w w'"
  using env_same [OF assms(1)] by (intro only_tombstones_cong assms(2)) simp_all

lemma only_tombstones_nlink:
  assumes b: "CHR ''/'' \<notin> set bucket" and root: "root = dir_key (fa_ext F) l p" and ok: "dir_ok (fa_ext F) (objs w) (com w root) root"
    and run: "adjust_nlink F (compact_child_uri (fa_ext F) bucket root False u) delta w = (r, w')"
  shows "only_tombstones (fa_ext F) ia objs com root P w w'"
proof (rule only_tombstones_cong [where objs = objs and com = com])
  show "dir_ok (fa_ext F) (objs w) (com w root) root" by (rule ok)
  note fr = adjust_nlink_frame [OF b run [unfolded root compact_child]]
  show "objs w' k = objs w k" if "prefix (scatter_inodes_path root) k" for k
    using fr scatter_not_owned_child [OF that [unfolded root]] by (simp add: only_inode_def)
  have "root = child_key (fa_ext F) l True p" using root by (simp add: child_key_def)
  with fr show "com w' root = com w root" by (simp add: only_inode_def child_key_eq)
qed

lemma ignore_err_run: "ignore_err m w = (r, w') \<Longrightarrow> \<exists>q. m w = (q, w')"
  by (cases "m w") (auto simp: ignore_err_def io_bind_def io_try_def io_return_def split: result.splits)

lemma emit_tombstone:
  assumes ok: "dir_ok (fa_ext F) (objs w) (com w root) root" and nm: "nm \<noteq> []" "utf8_valid nm" "storable nm"
    and gone: "dir_lookup (fa_ext F) ia (objs w) (com w root) root nm = None" and ia: "ia = fa_ino F"
    and run: "emit_scatter_event (fa_ext F) (fa_s3 F) root nm u (build_tombstone_body now ret (ino_as_slice (fa_ino F) i)) Delete w = (r, w')"
  shows "only_tombstones (fa_ext F) ia objs com root {(nm, u, d, ret)} w w'"
proof -
  let ?b = "build_tombstone_body now ret (ino_as_slice (fa_ino F) i)"
  have bang: "CHR ''!'' \<notin> set root" using dir_okD(1) [OF ok] by (simp add: folder_ok_def)
  from emit_any [OF bang nm(1,2) _ run] consider "env w w'"
    | s where "s_op s = Delete" "s_uuid s = u" "s_filename s = nm" "scatter_added (fa_ext F) objs root s ?b w w'"
      "\<not> hf_owned root (s_key s) \<longrightarrow> com w' root = com w root" by auto
  then show ?thesis
  proof cases
    case 1
    then show ?thesis by (rule only_tombstones_env [OF _ ok])
  next
    case (2 s)
    have "prefix (scatter_inodes_path root) (s_key s)" using 2(4) by (simp add: scatter_added_def)
    with 2(5) have c: "com w' root = com w root" using scatter_not_owned by blast
    have "same_dir (fa_ext F) ia objs com root w w'" unfolding same_dir_def c
      using added_dir_ok [OF 2(4) ok] added_lookup_gone [OF 2(4) ok 2(1)] 2(3) nm(3) gone by simp
    moreover have "r \<in> pending (fa_ext F) (objs w) (scatter_inodes_path root) \<and> body_at (objs w') r = body_at (objs w) r \<or>
        tombstone_for ia (objs w') {(nm, u, d, ret)} r" if "r \<in> pending (fa_ext F) (objs w') (scatter_inodes_path root)" for r
    proof (cases "r = s \<and> objs w (s_key s) = None")
      case True
      with 2(4) have "body_at (objs w') r = ?b" by (auto simp: scatter_added_def body_at_def)
      with True 2(1-3) ia have "tombstone_for ia (objs w') {(nm, u, d, ret)} r"
        unfolding tombstone_for_def by (intro conjI exI [of _ d] exI [of _ ret] exI [of _ now] exI [of _ i]) simp_all
      then show ?thesis ..
    next
      case False
      with 2(4) that have r: "r \<in> pending (fa_ext F) (objs w) (scatter_inodes_path root)"
        unfolding added_pending [OF 2(4)] by (auto simp: scatter_added_def)
      have "objs w' (s_key r) = objs w (s_key r)"
        using 2(4) pending_object [OF r] by (cases "s_key r = s_key s") (auto simp: scatter_added_def)
      with r show ?thesis by (simp add: body_at_def)
    qed
    ultimately show ?thesis by (simp add: only_tombstones_def)
  qed
qed

lemma predeleted_step_run:
  assumes b: "CHR ''/'' \<notin> set bucket" and root: "root = dir_key (fa_ext F) l p" and ok: "dir_ok (fa_ext F) (objs w) (com w root) root"
    and nm: "nm \<noteq> []" "utf8_valid nm" "storable nm" and gone: "dir_lookup (fa_ext F) ia (objs w) (com w root) root nm = None"
    and ia: "ia = fa_ino F" and run: "predeleted_step F bucket root (nm, u, d, ret) w = (r, w')"
  shows "only_tombstones (fa_ext F) ia objs com root {(nm, u, d, ret)} w w'"
proof -
  let ?same = "only_tombstones (fa_ext F) ia objs com root {(nm, u, d, ret)}"
  let ?uri = "compact_child_uri (fa_ext F) bucket root d u"
  from run obtain q where "io_bind (staging_from F (fa_new_s3_uri F ?uri)) (\<lambda>staging.
        io_bind (hf_load_inode (fa_hf F) staging) (\<lambda>(raw, _).
        io_bind (now_ms (fa_s3 F)) (\<lambda>now.
        io_bind (emit_scatter_event (fa_ext F) (fa_s3 F) root nm u
            (build_tombstone_body now ret (ino_as_slice (fa_ino F) raw)) Delete) (\<lambda>_.
        if d then io_return ()
        else ignore_err (adjust_nlink F ?uri (- 1)))))) w = (q, w')"
    unfolding predeleted_step_def Let_def by (auto dest: ignore_err_run)
  then show ?thesis
  proof (rule reads_bind_run [OF reads_staging], goal_cases)
    case 1
    show ?case by (rule only_tombstones_env [OF 1(1) ok])
  next
    case (2 st w1)
    from 2(3) show ?case
    proof (rule reads_bind_run [OF reads_load(1)], goal_cases)
      case 1
      show ?case by (rule only_tombstones_env [OF env_trans [OF 2(2) 1(1)] ok])
    next
      case (2 a w2)
      obtain raw od where a: "a = (raw, od)" by (cases a)
      have e2: "env w w2" using env_trans [OF \<open>env w w1\<close> 2(2)] .
      from 2(3) [unfolded a prod.case] show ?case
      proof (rule reads_bind_run [OF reads_now], goal_cases)
        case 1
        show ?case by (rule only_tombstones_env [OF env_trans [OF e2 1(1)] ok])
      next
        case (2 now w3)
        have e3: "env w w3" using env_trans [OF e2 2(2)] .
        note same3 = only_tombstones_env [OF e3 ok, of ia "{(nm, u, d, ret)}"] and ev = env_same [OF e3]
        have ok3: "dir_ok (fa_ext F) (objs w3) (com w3 root) root" using ok ev by simp
        obtain q' w4 where em: "emit_scatter_event (fa_ext F) (fa_s3 F) root nm u
            (build_tombstone_body now ret (ino_as_slice (fa_ino F) raw)) Delete w3 = (q', w4)" by (metis prod.exhaust)
        have "?same w3 w4"
          by (rule emit_tombstone [OF ok3 nm _ ia em]) (use gone ev in simp)
        note same4 = only_tombstones_trans [OF same3 this]
        have ok4: "dir_ok (fa_ext F) (objs w4) (com w4 root) root" using same4 by (simp add: only_tombstones_def same_dir_def)
        from 2(3) em consider "w' = w4" | q2 where "\<not> d" "adjust_nlink F ?uri (- 1) w4 = (q2, w')"
          by (cases q'; cases d) (auto simp: io_bind_def io_return_def dest: ignore_err_run)
        then show ?case
        proof cases
          case 1
          with same4 show ?thesis by simp
        next
          case 2
          then have "adjust_nlink F (compact_child_uri (fa_ext F) bucket root False u) (- 1) w4 = (q2, w')" by simp
          from only_tombstones_trans [OF same4 only_tombstones_nlink [OF b root ok4 this]] show ?thesis .
        qed
      qed
    qed
  qed
qed

lemma only_tombstones_ok: "only_tombstones x ia objs com root P w w' \<Longrightarrow> dir_ok x (objs w') (com w' root) root"
  by (simp add: only_tombstones_def same_dir_def)

lemma removed_loop_run:
  assumes b: "CHR ''/'' \<notin> set bucket" and root: "root = dir_key (fa_ext F) l p"
  shows "dir_ok (fa_ext F) (objs w) (com w root) root \<Longrightarrow> removed_loop F bucket root us w = (r, w') \<Longrightarrow>
    only_tombstones (fa_ext F) ia objs com root P w w'"
proof (induction us arbitrary: w)
  case Nil
  then show ?case by (intro only_tombstones_cong) (simp_all add: io_return_def)
next
  case (Cons u us)
  obtain q w1 where st: "ignore_err (adjust_nlink F (compact_child_uri (fa_ext F) bucket root False u) (- 1)) w = (q, w1)"
    by (metis prod.exhaust)
  then obtain q' where "adjust_nlink F (compact_child_uri (fa_ext F) bucket root False u) (- 1) w = (q', w1)"
    by (auto dest: ignore_err_run)
  note one = only_tombstones_nlink [OF b root Cons.prems(1) this, of ia P]
  from Cons.prems(2) st consider "w' = w1" | "removed_loop F bucket root us w1 = (r, w')"
    by (cases q) (simp_all add: io_bind_def)
  then show ?case
  proof cases
    case 2
    from only_tombstones_trans [OF one Cons.IH [OF only_tombstones_ok [OF one] this]] show ?thesis .
  qed (use one in simp)
qed

lemma predeleted_loop_run:
  assumes b: "CHR ''/'' \<notin> set bucket" and root: "root = dir_key (fa_ext F) l p" and ia: "ia = fa_ino F"
  shows "dir_ok (fa_ext F) (objs w) (com w root) root \<Longrightarrow> predeleted_loop F bucket root ps w = (r, w') \<Longrightarrow>
    (\<And>nm u d ret. (nm, u, d, ret) \<in> set ps \<Longrightarrow> nm \<noteq> [] \<and> utf8_valid nm \<and> storable nm \<and>
      dir_lookup (fa_ext F) ia (objs w) (com w root) root nm = None) \<Longrightarrow>
    only_tombstones (fa_ext F) ia objs com root (set ps) w w'"
proof (induction ps arbitrary: w)
  case Nil
  then show ?case by (intro only_tombstones_cong) (simp_all add: io_return_def)
next
  case (Cons t ps)
  obtain nm u d ret where t: "t = (nm, u, d, ret)" by (cases t)
  obtain q w1 where st: "predeleted_step F bucket root (nm, u, d, ret) w = (q, w1)" by (metis prod.exhaust)
  have nm: "nm \<noteq> []" "utf8_valid nm" "storable nm" "dir_lookup (fa_ext F) ia (objs w) (com w root) root nm = None"
    using Cons.prems(3) [of nm u d ret] t by simp_all
  have one: "only_tombstones (fa_ext F) ia objs com root (set (t # ps)) w w1"
    by (rule only_tombstones_mono [OF predeleted_step_run [OF b root Cons.prems(1) nm ia st]]) (simp add: t)
  from Cons.prems(2) st t consider "w' = w1" | "predeleted_loop F bucket root ps w1 = (r, w')"
    by (cases q) (simp_all add: io_bind_def)
  then show ?case
  proof cases
    case 2
    have "dir_lookup (fa_ext F) ia (objs w1) (com w1 root) root = dir_lookup (fa_ext F) ia (objs w) (com w root) root"
      using one by (simp add: only_tombstones_def same_dir_def)
    then have "only_tombstones (fa_ext F) ia objs com root (set ps) w1 w'"
      using Cons.prems(3) by (intro Cons.IH only_tombstones_ok [OF one] 2) (metis list.set_intros(2))
    from only_tombstones_trans [OF one only_tombstones_mono [OF this]] show ?thesis by auto
  qed (use one in simp)
qed

lemma reported_names:
  assumes ok: "dir_ok (fa_ext F) (objs w) (com w root) root" and S: "S = pending (fa_ext F) (objs w) (scatter_inodes_path root)"
    and rep: "if S = {} then st = stats_no_op else compact_report (objs w) S v st" and p: "(nm, u, d, ret) \<in> set (predeleted st)"
  obtains s where "latest_scatter S nm = Some s" "s_op s = PreDelete" "s_uuid s = u" "(d, ret) = parse_predelete_body (body_at (objs w) s)"
    "nm \<noteq> []" "utf8_valid nm" "storable nm" "dir_lookup (fa_ext F) ia (objs w) (com w root) root nm = None"
proof -
  have "S \<noteq> {}" using rep p by (auto simp: stats_no_op_def)
  with rep p obtain s where s: "latest_scatter S nm = Some s" "s_op s = PreDelete" "s_uuid s = u"
    "(d, ret) = parse_predelete_body (body_at (objs w) s)" by (auto simp: compact_report_def Let_def)
  note l = latest_scatter_Some [OF dir_okD(4) [OF ok] pending_inj s(1) [unfolded S]]
  from pending_facts [OF dir_okD(1) [OF ok] l(1)] dir_okD(3) [OF ok l(1)] l(2)
  have "nm \<noteq> []" "utf8_valid nm" "storable nm" by simp_all
  moreover have "dir_lookup (fa_ext F) ia (objs w) (com w root) root nm = None"
    using s S by (simp add: dir_lookup_def overlay_def)
  ultimately show thesis using that s by blast
qed

lemma fs_compact_run:
  assumes b: "CHR ''/'' \<notin> set bucket" and root: "root = dir_key (fa_ext F) l p" "h_root h = root"
    and ok: "dir_ok (fa_ext F) (objs w) (com w root) root" and S: "S = pending (fa_ext F) (objs w) (scatter_inodes_path root)"
    and pages: "\<And>u. pages_ok (fst (list_objects (fa_s3 F) (scatter_inodes_path root) u))"
    and run: "fs_compact F bucket (h, w) = (r, (h', w'))"
  shows "r \<noteq> Err Interrupted \<Longrightarrow> same_dir (fa_ext F) (fa_ino F) objs com root w w'"
    "r = Ok st \<Longrightarrow> s \<in> pending (fa_ext F) (objs w') (scatter_inodes_path root) \<Longrightarrow> s \<notin> tombstones S \<Longrightarrow>
      s_op s = Delete \<and> (\<exists>s0 now i. latest_scatter S (s_filename s) = Some s0 \<and> s_op s0 = PreDelete \<and> s_uuid s0 = s_uuid s \<and>
        body_at (objs w') s = build_tombstone_body now (snd (parse_predelete_body (body_at (objs w) s0))) (ino_as_slice (fa_ino F) i))"
proof -
  obtain q h1 w1 where cm: "compact (fa_dir F) (h, w) = (q, (h1, w1))" by (metis prod.exhaust)
  note C = compact_run [OF ok root(2) [symmetric] S pages cm]
  have second: "same_dir (fa_ext F) (fa_ino F) objs com root w w' \<and> (s \<in> pending (fa_ext F) (objs w') (scatter_inodes_path root) \<longrightarrow>
      s \<notin> tombstones S \<longrightarrow> tombstone_for (fa_ino F) (objs w') (set (predeleted st)) s)" if q: "q = Ok st" for st s
  proof -
    have same: "same_dir (fa_ext F) (fa_ino F) objs com root w w1" using C(2) q by simp
    then have ok1: "dir_ok (fa_ext F) (objs w1) (com w1 root) root" by (simp add: same_dir_def)
    obtain q1 w2 where rl: "removed_loop F bucket root (removed_children st) w1 = (q1, w2)" by (metis prod.exhaust)
    note one = removed_loop_run [OF b root(1) ok1 rl, of "fa_ino F" "set (predeleted st)"]
    note ok2 = only_tombstones_ok [OF one]
    have lk: "dir_lookup (fa_ext F) (fa_ino F) (objs w2) (com w2 root) root = dir_lookup (fa_ext F) (fa_ino F) (objs w) (com w root) root"
      using one same by (simp add: only_tombstones_def same_dir_def)
    note rep = conjunct2 [OF conjunct2 [OF conjunct2 [OF C(3) [OF q]]]]
    from run cm q rl C(1) consider "w' = w2" | q2 where "predeleted_loop F bucket root (predeleted st) w2 = (q2, w')"
      by (cases q1) (auto simp: fs_compact_def io_bind_def on_world_def io_return_def split: prod.splits result.splits)
    then have "only_tombstones (fa_ext F) (fa_ino F) objs com root (set (predeleted st)) w1 w'"
    proof cases
      case 2
      show ?thesis
      proof (rule only_tombstones_trans [OF one predeleted_loop_run [OF b root(1) refl ok2 2]])
        fix nm u d ret assume "(nm, u, d, ret) \<in> set (predeleted st)"
        from reported_names [OF ok S rep this, of "fa_ino F"] lk
        show "nm \<noteq> [] \<and> utf8_valid nm \<and> storable nm \<and> dir_lookup (fa_ext F) (fa_ino F) (objs w2) (com w2 root) root nm = None"
          by (metis (no_types))
      qed
    qed (use one in simp)
    with C(3) [OF q] same_dir_trans [OF same] show ?thesis by (auto simp: only_tombstones_def)
  qed
  have stop: "w' = w1 \<and> r = q" if "\<And>st. q \<noteq> Ok st"
    using run cm that by (cases q) (auto simp: fs_compact_def io_bind_def)
  show "same_dir (fa_ext F) (fa_ino F) objs com root w w'" if "r \<noteq> Err Interrupted"
  proof (cases "\<exists>st. q = Ok st")
    case True
    with second show ?thesis by blast
  next
    case False
    with stop C(2) that show ?thesis by auto
  qed
  assume r: "r = Ok st" and s: "s \<in> pending (fa_ext F) (objs w') (scatter_inodes_path root)" "s \<notin> tombstones S"
  then obtain st' where q: "q = Ok st'" using stop by (cases q) auto
  with second s have t: "tombstone_for (fa_ino F) (objs w') (set (predeleted st')) s" by blast
  then obtain d ret now i where p: "(s_filename s, s_uuid s, d, ret) \<in> set (predeleted st')" and op: "s_op s = Delete"
    and body: "body_at (objs w') s = build_tombstone_body now ret (ino_as_slice (fa_ino F) i)" by (auto simp: tombstone_for_def)
  from reported_names [OF ok S conjunct2 [OF conjunct2 [OF conjunct2 [OF C(3) [OF q]]]] p] obtain s0 where
    "latest_scatter S (s_filename s) = Some s0" "s_op s0 = PreDelete" "s_uuid s0 = s_uuid s"
    "(d, ret) = parse_predelete_body (body_at (objs w) s0)" .
  with op body show "s_op s = Delete \<and> (\<exists>s0 now i. latest_scatter S (s_filename s) = Some s0 \<and> s_op s0 = PreDelete \<and> s_uuid s0 = s_uuid s \<and>
        body_at (objs w') s = build_tombstone_body now (snd (parse_predelete_body (body_at (objs w) s0))) (ino_as_slice (fa_ino F) i))"
    by (metis snd_conv)
qed

end

section \<open>The property\<close>


text \<open>The directory 1 still has \<open>a\<close> in its index; its pre-delete marker is retained until 9.\<close>

definition fold_world :: "string \<Rightarrow> mem_fs_world" where
  "fold_world k = \<lparr> mw_objs = [(k, build_predelete_body False 9, 5)], mw_now = 5, mw_next = 1,
     fw_dirs = [(fs_dir 1, sample_inode, sample_tree), (fs_file 7, sample_inode, [])] \<rparr>"

definition fold_handle where
  "fold_handle = sample_handle\<lparr>h_root := fs_dir 1\<rparr>"

lemma fold_handle_sel [simp]: "h_root fold_handle = fs_dir 1" "h_inode fold_handle = sample_inode"
  "h_bmap fold_handle = sample_tree" "h_od fold_handle = Some sample_inode" "fold_handle\<lparr>h_bmap := sample_tree\<rparr> = fold_handle"
  by (simp_all add: fold_handle_def sample_handle_def)

lemma fold_compact:
  assumes k: "path_encode ref_ext 0 (fs_dir 1) ''a'' 7 (op_u8 PreDelete) = Ok k"
  shows "compact mem_deps (fold_handle, fold_world k) =
    (Ok \<lparr> scatters_processed = 1, entries_added = 0, entries_removed = 1, tombstones_kept = 0, no_op = False,
      removed_children = [], predeleted = [(''a'', 7, False, 9)] \<rparr>,
     (fold_handle\<lparr>h_bmap := []\<rparr>,
      (fold_world k)\<lparr>mw_objs := [], mw_next := 2, fw_dirs := [(fs_dir 1, sample_inode, []), (fs_file 7, sample_inode, [])]\<rparr>))"
proof -
  let ?s = "\<lparr> s_key = k, s_op = PreDelete, s_ulid = 0, s_uuid = 7, s_filename = ''a'', s_last_modified = 5 \<rparr>"
  let ?l = "compact_lease_path (fs_dir 1)"
  let ?b = "format_lease_body (ulid_fmt ref_ext 1) (expiry (unix_now_ms 5) DEFAULT_COMPACT_LEASE_TTL_MS)"
  let ?w = "(fold_world k)\<lparr>mw_objs := [(k, build_predelete_body False 9, 5), (?l, ?b, 5)], mw_next := 2\<rparr>"
  have dec: "path_decode ref_ext k 5 = Ok ?s"
    using refc.path_roundtrip [OF fs_dir_text(1) _ a_text(1) op_u8_less k] by (simp add: from_u8_def)
  have pre: "prefix (scatter_inodes_path (fs_dir 1)) k"
    using k by (simp add: path_encode_Ok scatter_inodes_path_def DEFAULT_DIR_INODE_SCATTER_FOLDER_def)
  have ne: "k \<noteq> ?l" "?l \<noteq> k" using pre lease_not_scatter by auto
  have "decode_listed ref_ext \<lparr> lo_key = Some k, lo_last_modified = Some 5 \<rparr> = Ok (Some ?s)"
    using scatter_key_suffix [OF k] dec by (auto simp: decode_listed_def)
  with pre have li: "list_scatter_inodes ref_ext mem_s3 (fs_dir 1) ?w = (Ok [?s], ?w)"
    using lease_not_scatter [of "fs_dir 1"] by (simp add: list_scatter_inodes_def list_scatter_with_prefix_def mem_list_def)
  have get: "mem_get k ?w = (Inr \<lparr> g_etag = Some (quoted (mem_etag (build_predelete_body False 9))),
      g_body = Some (build_predelete_body False 9) \<rparr>, ?w)" by (simp add: mem_get_def)
  have parse: "parse_predelete_body (build_predelete_body False 9) = (False, 9)"
    by (rule predelete_roundtrip) (simp add: is_i64_def i64_min_def i64_max_def)
  have ch: "collect_scatter_changes mem_deps (fs_dir 1) ?w =
    (Ok \<lparr> all_keys = [k], upserts = [], deletes = [], predeletes = [(''a'', 7, False, 9)], tombstone_keys = [] \<rparr>, ?w)"
    by (simp add: collect_scatter_changes_def li io_bind_def io_lift_def io_return_def get parse
        filter_last_view_def scatter_groups_def build_deletes_def build_predeletes_def)
  have rel: "reload_to_latest mem_deps (fold_handle, ?w) = (Ok (), (fold_handle, ?w))"
    by (simp add: mem_reload fold_world_def)
  have acq: "acquire_compact_lease ref_ext mem_s3 (fs_dir 1) DEFAULT_COMPACT_LEASE_TTL_MS (fold_world k) =
      (Ok \<lparr> cl_holder_id = ulid_fmt ref_ext 1, cl_etag = mem_etag ?b, cl_lease_key = ?l,
            cl_expires_at = expiry (unix_now_ms 5) DEFAULT_COMPACT_LEASE_TTL_MS \<rparr>, ?w)"
    using ne by (simp add: acquire_compact_lease_def Let_def fold_world_def mem_put_def mem_objs_def unwrap_etag_def)
  have inner: "compact_inner mem_deps (fold_handle, ?w) =
    (Ok \<lparr> scatters_processed = 1, entries_added = 0, entries_removed = 1, tombstones_kept = 0, no_op = False,
      removed_children = [], predeleted = [(''a'', 7, False, 9)] \<rparr>,
     (fold_handle\<lparr>h_bmap := []\<rparr>,
      ?w\<lparr>mw_objs := [(?l, ?b, 5)], fw_dirs := [(fs_dir 1, sample_inode, []), (fs_file 7, sample_inode, [])]\<rparr>))"
    using ch sample_delete ne
    by (simp add: compact_inner_def rel io_bind_def on_world_def on_bmap_def hm_items_def io_return_def Let_def
        mem_flush_def remove_scatter_inodes_def chunks.simps mem_delete_objs_def)
      (simp add: fold_world_def)
  show ?thesis
    using inner acq by (simp add: compact_def io_bind_def on_world_def release_compact_lease_def mem_delete_def mem_objs_def)
qed

lemma fold_phase2:
  "\<exists>w'. predeleted_loop mem_fs ''b'' (fs_dir 1) [(''a'', 7, False, 9)]
     ((fold_world k)\<lparr>mw_objs := [], mw_next := 2, fw_dirs := [(fs_dir 1, sample_inode, []), (fs_file 7, sample_inode, [])]\<rparr>) = (Ok (), w')"
proof -
  let ?w = "(fold_world k)\<lparr>mw_objs := [], mw_next := 2, fw_dirs := [(fs_dir 1, sample_inode, []), (fs_file 7, sample_inode, [])]\<rparr>"
  have uri: "compact_child_uri ref_ext ''b'' (fs_dir 1) False 7 = file_uri ref_ext layout_new ''b'' 7"
    unfolding fs_dir_def refc.compact_child by (simp add: child_key_def file_uri_def)
  obtain w1 where em: "emit_scatter_event ref_ext mem_s3 (fs_dir 1) ''a'' 7
      (build_tombstone_body (unix_now_ms 5) 9 (mem_inode_bytes sample_inode)) Delete ?w = (Ok (), w1)" "fw_dirs w1 = fw_dirs ?w"
    using mem_emit [of ?w Delete 1 "''a''" 7] by auto
  have now: "mw_now (fold_world k) = 5" by (simp add: fold_world_def)
  have adj: "\<exists>w2. adjust_nlink mem_fs (file_uri ref_ext layout_new ''b'' 7) (- 1) w1 = (Ok 0, w2)"
    using em(2)
    by (simp add: adjust_nlink_def io_bind_def NLINK_RETRIES_def eval_nat_numeral mem_load_def io_try_def mem_flush_inode_def mem_ino_def
        io_return_def nlink_after_def wrap_i64_def sample_inode_def)
  then show ?thesis using em(1)
    by (auto simp: predeleted_step_def uri io_bind_def mem_load_def now_ms_def now ignore_err_def io_return_def)
qed


text \<open>A compaction that reports the removal of \<open>a\<close>, and the one after it, which reports nothing.\<close>

theorem compact_reports_once_witness:
  "\<exists>k st s1 st'. compact mem_deps (fold_handle, fold_world k) = (Ok st, s1) \<and> entries_removed st = 1 \<and>
     fst (compact mem_deps s1) = Ok st' \<and> entries_removed st' = 0 \<and> predeleted st' = [] \<and> removed_children st' = []"
proof -
  obtain k where k: "path_encode ref_ext 0 (fs_dir 1) ''a'' 7 (op_u8 PreDelete) = Ok k"
    using fs_dir_text(2) unfolding path_encode_Ok by blast
  let ?st = "\<lparr> scatters_processed = 1, entries_added = 0, entries_removed = 1, tombstones_kept = 0, no_op = False,
      removed_children = [], predeleted = [(''a'', 7, False, 9)] \<rparr>"
  let ?h1 = "fold_handle\<lparr>h_bmap := []\<rparr>"
  let ?w1 = "(fold_world k)\<lparr>mw_objs := [], mw_next := 2, fw_dirs := [(fs_dir 1, sample_inode, []), (fs_file 7, sample_inode, [])]\<rparr>"
  note run = fold_compact [OF k]
  have "mw_objs ?w1 = []" "map_of (fw_dirs ?w1) (h_root ?h1) = Some (sample_inode, [])" by simp_all
  from empty_compact [OF this] obtain h2 w2 where run2: "compact mem_deps (?h1, ?w1) = (Ok stats_no_op, (h2, w2))" by blast
  have com: "mem_com (fold_world k) (fs_dir 1) = map_of sample_tree" by (simp add: mem_com_def fold_world_def)
  have ok: "dir_ok ref_ext (mem_objs (fold_world k)) (mem_com (fold_world k) (fs_dir 1)) (fs_dir 1)"
    unfolding com by (rule single_scatter_at(2) [OF fs_dir_text(1) k _ a_text _ _ sample_inv]) (simp_all add: fold_world_def)
  from compact_reports_once [OF mem_directory.directory_axioms _ _ run run2, unfolded mem_deps_sel fold_handle_sel(1), OF ok mem_pages]
  have "entries_removed stats_no_op = 0 \<and> predeleted stats_no_op = [] \<and> removed_children stats_no_op = []" by simp
  with run run2 show ?thesis
    by (intro exI [of _ k] exI [of _ ?st] exI [of _ "(?h1, ?w1)"] exI [of _ stats_no_op] conjI) simp_all
qed

end
