(* ===== verification/Fs_Orphans.thy ===== *)
theory Fs_Orphans
  imports Fs_Recovery
begin

text \<open>
  The garbage collection of orphans: the children it purges are described by the set of the purged
  prefixes, everything outside of which is untouched, and every purged child was referenced by no
  directory that was read, old enough and, if a directory, empty.
\<close>

section \<open>Purged prefixes\<close>

definition purged ::
  "ext \<Rightarrow> hyper_dir_layout \<Rightarrow> ('w \<Rightarrow> string \<Rightarrow> s3_object option) \<Rightarrow> ('w \<Rightarrow> string \<Rightarrow> 'i table) \<Rightarrow> ('w \<Rightarrow> string \<Rightarrow> 'i option) \<Rightarrow>
     (bool \<times> uuid) set \<Rightarrow> 'w \<Rightarrow> 'w \<Rightarrow> bool" where
  "purged x l objs com ino S w w' =
     ((\<forall>k. objs w' k = objs w k \<or> (\<exists>(d, u) \<in> S. prefix (child_key x l d u @ ''/'') k)) \<and>
      (\<forall>d u. (d, u) \<notin> S \<longrightarrow> com w' (child_key x l d u) = com w (child_key x l d u) \<and>
         ino w' (child_key x l d u) = ino w (child_key x l d u)))"

lemma purged_trans:
  assumes "purged x l objs com ino S w w1" and "purged x l objs com ino T w1 w2"
  shows "purged x l objs com ino (S \<union> T) w w2"
proof -
  have "objs w2 k = objs w k \<or> (\<exists>(d, u) \<in> S \<union> T. prefix (child_key x l d u @ ''/'') k)" for k
  proof -
    from assms have "objs w1 k = objs w k \<or> (\<exists>(d, u) \<in> S. prefix (child_key x l d u @ ''/'') k)"
      "objs w2 k = objs w1 k \<or> (\<exists>(d, u) \<in> T. prefix (child_key x l d u @ ''/'') k)" by (simp_all add: purged_def)
    then show ?thesis by auto
  qed
  moreover have "com w2 (child_key x l d u) = com w (child_key x l d u) \<and> ino w2 (child_key x l d u) = ino w (child_key x l d u)"
    if "(d, u) \<notin> S \<union> T" for d u
    using assms that by (simp add: purged_def)
  ultimately show ?thesis by (simp add: purged_def)
qed

text \<open>What the collection requires of a child, in the state it starts from.\<close>

definition orphaned ::
  "('w, 'i, 'b, 'd, 'f) fs_api \<Rightarrow> ('w \<Rightarrow> string \<Rightarrow> s3_object option) \<Rightarrow> ('w \<Rightarrow> string \<Rightarrow> 'i table) \<Rightarrow> ('w \<Rightarrow> string \<Rightarrow> 'i option) \<Rightarrow>
     hyper_dir_layout \<Rightarrow> uuid set \<Rightarrow> uuid list \<Rightarrow> int \<Rightarrow> int \<Rightarrow> 'w \<Rightarrow> bool \<times> uuid \<Rightarrow> bool" where
  "orphaned F objs com ino l ds referenced now g w = (\<lambda>(d, u).
     u \<notin> set referenced \<and>
     (\<forall>i. ino w (child_key (fa_ext F) l d u) = Some i \<longrightarrow> old_enough now g (fa_to_stat F 0 0 i)) \<and>
     (d \<longrightarrow> u \<noteq> 0 \<and> (u \<in> ds \<longrightarrow>
        dir_view (fa_ext F) (fa_ino F) (objs w) (com w (dir_key (fa_ext F) l u)) (dir_key (fa_ext F) l u) = Map.empty)))"

lemma io_bind_step: "m w = (Ok a, w1) \<Longrightarrow> io_bind m f w = f a w1"
  by (simp add: io_bind_def)

context fs_store
begin

lemma purged_env: "env w w' \<Longrightarrow> purged (fa_ext F) l objs com ino S w w'"
  using env_same [of w w'] by (simp add: purged_def)

lemma purged_step: "purged (fa_ext F) l objs com ino S w w1 \<Longrightarrow> env w1 w2 \<Longrightarrow> purged (fa_ext F) l objs com ino S w w2"
  using purged_trans [of "fa_ext F" l objs com ino S w w1 "{}" w2] purged_env by simp

lemma reclaim_purged:
  assumes b: "CHR ''/'' \<notin> set bucket"
    and run: "reclaim_child_prefix F (''s3://'' @ bucket @ ''/'' @ child_key (fa_ext F) l d u) w = (r, w')"
  shows "purged (fa_ext F) l objs com ino {(d, u)} w w'"
proof -
  let ?c = "child_key (fa_ext F) l d u"
  obtain q where "io_bind (staging_from F (fa_new_s3_uri F (''s3://'' @ bucket @ ''/'' @ ?c))) (hf_unlink (fa_hf F)) w = (q, w')"
    using run by (auto simp: reclaim_child_prefix_def not_found_as_def split: prod.splits result.splits error_kind.splits)
  then show ?thesis
  proof (rule reads_bind_run [OF reads_staging])
    fix root w1 assume st: "staging_from F (fa_new_s3_uri F (''s3://'' @ bucket @ ''/'' @ ?c)) w = (Ok root, w1)"
      and e: "env w w1" and un: "hf_unlink (fa_hf F) root w1 = (q, w')"
    have root: "root = ?c" using staging_Ok [of bucket ?c w root w1] st b by (simp add: staging_from_def)
    note U = unlink_any [OF un [unfolded root]]
    have o: "objs w' k = objs w1 k \<or> prefix (?c @ ''/'') k" for k
      using spec [OF conjunct1 [OF U], of k] by (elim disjE conjE) simp_all
    have "com w' (child_key (fa_ext F) l e v) = com w1 (child_key (fa_ext F) l e v) \<and>
        ino w' (child_key (fa_ext F) l e v) = ino w1 (child_key (fa_ext F) l e v)" if "(e, v) \<noteq> (d, u)" for e v
      using conjunct2 [OF conjunct2 [OF U], rule_format, of "child_key (fa_ext F) l e v"] that
        child_key_not_nested [of l d u e v] child_key_eq [of l e v d u] by simp
    with o have "purged (fa_ext F) l objs com ino {(d, u)} w1 w'" by (simp add: purged_def)
    with env_same [OF e] show ?thesis by (simp add: purged_def)
  qed (simp add: purged_env)
qed

lemma purged_dir:
  assumes p: "purged (fa_ext F) l objs com ino S w w'" and n: "(True, u) \<notin> S"
    and root: "root = dir_key (fa_ext F) l u" and ok: "dir_ok (fa_ext F) (objs w) (com w root) root"
  shows "dir_ok (fa_ext F) (objs w') (com w' root) root"
    "dir_view (fa_ext F) (fa_ino F) (objs w') (com w' root) root = dir_view (fa_ext F) (fa_ino F) (objs w) (com w root) root"
proof -
  have o: "objs w' k = objs w k" if k: "prefix (scatter_inodes_path root) k" for k
  proof (rule ccontr)
    assume "objs w' k \<noteq> objs w k"
    with p obtain d v where dv: "(d, v) \<in> S" "prefix (child_key (fa_ext F) l d v @ ''/'') k" by (auto simp: purged_def)
    have key: "child_key (fa_ext F) l True u = dir_key (fa_ext F) l u" by (simp add: child_key_def)
    from dv have "child_key (fa_ext F) l d v = child_key (fa_ext F) l True u"
      unfolding key using scatter_not_below [of l u k d v] k root by blast
    with child_key_eq [of l d v True u] dv(1) n show False by simp
  qed
  have c: "com w' root = com w root"
    using p n unfolding root purged_def by (metis child_key_def)
  show "dir_ok (fa_ext F) (objs w') (com w' root) root"
    unfolding c by (rule dir_ok_cong [OF o dir_okD(2) [OF ok] ok])
  show "dir_view (fa_ext F) (fa_ino F) (objs w') (com w' root) root = dir_view (fa_ext F) (fa_ino F) (objs w) (com w root) root"
    unfolding dir_view_def c by (simp add: dir_lookup_cong [OF dir_okD(4) [OF ok] o])
qed

section \<open>The mark\<close>

lemma open_read_run:
  assumes b: "CHR ''/'' \<notin> set bucket" and root: "root = dir_key (fa_ext F) l p"
    and ok: "dir_ok (fa_ext F) (objs w) (com w root) root"
    and pages: "\<And>v. pages_ok (fst (list_objects (fa_s3 F) (scatter_inodes_path root) v))"
    and run: "io_bind (fs_open_dir F l bucket p True) (\<lambda>dir. read_dir (fa_dir F) (h_root dir)) w = (Ok es, w')"
  shows "map_of (map (\<lambda>e. (d_name e, e)) es) = dir_view (fa_ext F) (fa_ino F) (objs w) (com w root) root"
proof -
  from run obtain h w1 where o: "fs_open_dir F l bucket p True w = (Ok h, w1)" and r: "read_dir (fa_dir F) (h_root h) w1 = (Ok es, w')"
    by (rule io_bind_OkE)
  have "fs_open_opt F (dir_uri (fa_ext F) l bucket p) True RetryLastWriterWins w = (Ok h, w1)"
    using o by (simp add: fs_open_dir_def fs_open_def fs_open_opt_def)
  from open_dir_run(1) [OF b this] root have h: "h_root h = root" by simp
  note e = env_same [OF readsD [OF reads_open(3) o]]
  have "dir_ok (fa_ext F) (objs w1) (com w1 root) root" using ok e by simp
  from read_dir_sound(2) [OF this pages r [unfolded h]] e show ?thesis by simp
qed

lemma reads_read_dir [intro!]: "reads env (read_dir (fa_dir F) root)"
  unfolding read_dir_def Let_def by auto

lemma reads_open_read [intro!]: "reads env (io_bind (fs_open_dir F l bucket p True) (\<lambda>dir. read_dir (fa_dir F) (h_root dir)))"
  by (rule reads_bind) auto

lemma referenced_run:
  assumes b: "CHR ''/'' \<notin> set bucket"
    and ok: "\<And>p. p \<in> set ds \<Longrightarrow> dir_ok (fa_ext F) (objs w) (com w (dir_key (fa_ext F) l p)) (dir_key (fa_ext F) l p)"
    and pages: "\<And>p v. p \<in> set ds \<Longrightarrow> pages_ok (fst (list_objects (fa_s3 F) (scatter_inodes_path (dir_key (fa_ext F) l p)) v))"
    and readable: "\<And>p v. p \<in> set ds \<Longrightarrow> env w v \<Longrightarrow>
      \<exists>es v'. io_bind (fs_open_dir F l bucket p True) (\<lambda>dir. read_dir (fa_dir F) (h_root dir)) v = (Ok es, v')"
    and e: "env w v" and run: "referenced_loop F l bucket ds acc v = (r, v')"
  shows "env w v' \<and> (\<exists>refs. r = Ok refs \<and> set acc \<subseteq> set refs \<and> (\<forall>p \<in> set ds. \<forall>nm e.
    dir_view (fa_ext F) (fa_ino F) (objs w) (com w (dir_key (fa_ext F) l p)) (dir_key (fa_ext F) l p) nm = Some e \<longrightarrow> d_uuid e \<in> set refs))"
  using assms(2-)
proof (induction ds arbitrary: acc v)
  case Nil
  then show ?case by (auto simp: io_return_def)
next
  case (Cons p ds)
  let ?d = "dir_key (fa_ext F) l p"
  obtain es v1 where rd: "io_bind (fs_open_dir F l bucket p True) (\<lambda>dir. read_dir (fa_dir F) (h_root dir)) v = (Ok es, v1)"
    using Cons.prems(3) [of p v] Cons.prems(4) by auto
  have e1: "env w v1" using env_trans [OF Cons.prems(4) readsD [OF reads_open_read rd]] .
  have "io_try (io_bind (fs_open_dir F l bucket p True) (\<lambda>dir. read_dir (fa_dir F) (h_root dir))) v = (Ok (Ok es), v1)"
    using rd by (simp add: io_try_def)
  with Cons.prems(5) have run: "referenced_loop F l bucket ds (acc @ map d_uuid es) v1 = (r, v')" by (simp add: io_bind_def)
  have okp: "dir_ok (fa_ext F) (objs v) (com v ?d) ?d" using Cons.prems(1) [of p] env_same [OF Cons.prems(4)] by simp
  have "pages_ok (fst (list_objects (fa_s3 F) (scatter_inodes_path ?d) u))" for u using Cons.prems(2) [of p] by simp
  note view = open_read_run [OF b refl okp this rd]
  have shown: "d_uuid e \<in> set (map d_uuid es)"
    if "dir_view (fa_ext F) (fa_ino F) (objs w) (com w ?d) ?d nm = Some e" for nm e
  proof -
    have "map_of (map (\<lambda>e. (d_name e, e)) es) nm = Some e" using that view env_same [OF Cons.prems(4)] by simp
    then have "(nm, e) \<in> set (map (\<lambda>e. (d_name e, e)) es)" by (rule map_of_SomeD)
    then show ?thesis by auto
  qed
  have "env w v' \<and> (\<exists>refs. r = Ok refs \<and> set (acc @ map d_uuid es) \<subseteq> set refs \<and> (\<forall>p \<in> set ds. \<forall>nm e.
    dir_view (fa_ext F) (fa_ino F) (objs w) (com w (dir_key (fa_ext F) l p)) (dir_key (fa_ext F) l p) nm = Some e \<longrightarrow> d_uuid e \<in> set refs))"
    by (rule Cons.IH [OF _ _ _ e1 run]) (use Cons.prems(1-3) in auto)
  then obtain refs where refs: "env w v'" "r = Ok refs" "set (acc @ map d_uuid es) \<subseteq> set refs" and rest: "\<forall>p \<in> set ds. \<forall>nm e.
    dir_view (fa_ext F) (fa_ino F) (objs w) (com w (dir_key (fa_ext F) l p)) (dir_key (fa_ext F) l p) nm = Some e \<longrightarrow> d_uuid e \<in> set refs"
    by blast
  have "\<forall>nm e. dir_view (fa_ext F) (fa_ino F) (objs w) (com w ?d) ?d nm = Some e \<longrightarrow> d_uuid e \<in> set refs"
    using shown refs(3) by force
  with refs rest show ?case by auto
qed

section \<open>The sweep\<close>

lemma getattr_run:
  assumes b: "CHR ''/'' \<notin> set bucket"
    and run: "fs_getattr_fast F (''s3://'' @ bucket @ ''/'' @ c) w = (Ok st, w')"
  obtains i where "ino w c = Some i" "st = fa_to_stat F 0 0 i"
proof -
  from run obtain root w1 i d where s: "hf_staging_from (fa_hf F) (''s3://'' @ bucket @ ''/'' @ c) w = (Ok root, w1)"
    and l: "hf_load_inode (fa_hf F) root w1 = (Ok (i, d), w')" and st: "st = fa_to_stat F 0 0 i"
    unfolding fs_getattr_fast_def hyper_stat_fast_def stat_fast_def staging_from_def to_dir_staging_config_def
    by (auto elim!: io_bind_OkE simp: io_lift_def io_return_def split: if_splits)
  have "root = c" using staging_Ok [OF s b] .
  with load_Ok [OF l] env_same [OF staging_env [OF s]] env_same [OF load_env [OF l]] have "ino w c = Some i" by simp
  with st that show thesis by blast
qed

lemma reads_getattr [intro!]: "reads env (fs_getattr_fast F uri)"
  unfolding fs_getattr_fast_def hyper_stat_fast_def stat_fast_def by auto

lemma purge_run:
  assumes b: "CHR ''/'' \<notin> set bucket"
    and run: "purge_if_old F now g (''s3://'' @ bucket @ ''/'' @ child_key (fa_ext F) l d u) n w = (r, w')"
  shows "env w w' \<or> (purged (fa_ext F) l objs com ino {(d, u)} w w' \<and>
    (\<exists>i. ino w (child_key (fa_ext F) l d u) = Some i \<and> old_enough now g (fa_to_stat F 0 0 i)))"
  using run [unfolded purge_if_old_def]
proof (rule reads_bind_run [OF reads_try [OF reads_getattr]], goal_cases)
  case (2 q w1)
  note g = io_tryE [OF 2(1)]
  show ?case
  proof (cases "\<exists>st. q = Ok st \<and> old_enough now g st")
    case True
    then obtain st where st: "q = Ok st" "old_enough now g st" by blast
    from g(1) [unfolded st(1)] obtain i where i: "ino w (child_key (fa_ext F) l d u) = Some i" "st = fa_to_stat F 0 0 i"
      by (rule getattr_run [OF b])
    from 2(3) st obtain q' where "reclaim_child_prefix F (''s3://'' @ bucket @ ''/'' @ child_key (fa_ext F) l d u) w1 = (q', w')"
      by (auto simp: io_bind_def io_try_def io_return_def split: prod.splits result.splits)
    from reclaim_purged [OF b this] env_same [OF 2(2)] have "purged (fa_ext F) l objs com ino {(d, u)} w w'"
      by (simp add: purged_def)
    with i st(2) show ?thesis by blast
  next
    case False
    with 2(3) have "w' = w1" by (auto simp: io_return_def split: result.splits)
    with 2(2) show ?thesis by simp
  qed
qed simp

lemma purge_orphan:
  assumes b: "CHR ''/'' \<notin> set bucket" and S: "\<forall>c \<in> S. orphaned F objs com ino l ds refs now g w c"
    and p: "purged (fa_ext F) l objs com ino S w v"
    and c: "u \<notin> set refs" "(d, u) \<notin> S \<Longrightarrow> d \<Longrightarrow> u \<noteq> 0 \<and> (u \<in> ds \<longrightarrow>
        dir_view (fa_ext F) (fa_ino F) (objs w) (com w (dir_key (fa_ext F) l u)) (dir_key (fa_ext F) l u) = Map.empty)"
    and run: "purge_if_old F now g (''s3://'' @ bucket @ ''/'' @ child_key (fa_ext F) l d u) n v = (r, v')"
  shows "\<exists>S'. (\<forall>c \<in> S'. orphaned F objs com ino l ds refs now g w c) \<and> purged (fa_ext F) l objs com ino S' w v'"
  using purge_run [OF b run]
proof
  assume "env v v'"
  with S purged_step [OF p] show ?thesis by blast
next
  assume q: "purged (fa_ext F) l objs com ino {(d, u)} v v' \<and>
    (\<exists>i. ino v (child_key (fa_ext F) l d u) = Some i \<and> old_enough now g (fa_to_stat F 0 0 i))"
  then obtain i where i: "ino v (child_key (fa_ext F) l d u) = Some i" "old_enough now g (fa_to_stat F 0 0 i)" by blast
  from purged_trans [OF p conjunct1 [OF q]] have p': "purged (fa_ext F) l objs com ino (insert (d, u) S) w v'" by simp
  have "orphaned F objs com ino l ds refs now g w (d, u)"
  proof (cases "(d, u) \<in> S")
    case False
    with p have "ino v (child_key (fa_ext F) l d u) = ino w (child_key (fa_ext F) l d u)" by (simp add: purged_def)
    with i c False show ?thesis by (auto simp: orphaned_def)
  qed (use S in blast)
  with S p' show ?thesis by (intro exI [of _ "insert (d, u) S"]) simp
qed

lemma orphan_files_run:
  assumes b: "CHR ''/'' \<notin> set bucket" and S: "\<forall>c \<in> S. orphaned F objs com ino l ds refs now g w c"
    and p: "purged (fa_ext F) l objs com ino S w v"
    and run: "orphan_files F l bucket refs now g fus n v = (r, v')"
  shows "\<exists>S'. (\<forall>c \<in> S'. orphaned F objs com ino l ds refs now g w c) \<and> purged (fa_ext F) l objs com ino S' w v'"
  using S p run
proof (induction fus arbitrary: S n v)
  case Nil
  then show ?case by (auto simp: io_return_def)
next
  case (Cons u fus)
  show ?case
  proof (cases "u \<in> set refs")
    case True
    with Cons.prems Cons.IH [of S v n] show ?thesis by simp
  next
    case False
    have uri: "file_uri (fa_ext F) l bucket u = ''s3://'' @ bucket @ ''/'' @ child_key (fa_ext F) l False u"
      by (simp add: file_uri_def child_key_def)
    from False Cons.prems(3) have "io_bind (purge_if_old F now g (''s3://'' @ bucket @ ''/'' @ child_key (fa_ext F) l False u) n)
        (orphan_files F l bucket refs now g fus) v = (r, v')" by (simp add: uri)
    then obtain q v1 where q: "purge_if_old F now g (''s3://'' @ bucket @ ''/'' @ child_key (fa_ext F) l False u) n v = (q, v1)"
      and rest: "(\<exists>m. orphan_files F l bucket refs now g fus m v1 = (r, v')) \<or> v1 = v'"
      by (rule io_bind_run) blast+
    from purge_orphan [OF b Cons.prems(1,2) False _ q] obtain S' where
      S': "\<forall>c \<in> S'. orphaned F objs com ino l ds refs now g w c" "purged (fa_ext F) l objs com ino S' w v1" by blast
    from rest show ?thesis
    proof
      assume "\<exists>m. orphan_files F l bucket refs now g fus m v1 = (r, v')"
      with Cons.IH [OF S'] show ?thesis by blast
    qed (use S' in blast)
  qed
qed

lemma orphan_dirs_run:
  assumes b: "CHR ''/'' \<notin> set bucket"
    and ok: "\<And>p. p \<in> ds \<Longrightarrow> dir_ok (fa_ext F) (objs w) (com w (dir_key (fa_ext F) l p)) (dir_key (fa_ext F) l p)"
    and pages: "\<And>p v. p \<in> ds \<Longrightarrow> pages_ok (fst (list_objects (fa_s3 F) (scatter_inodes_path (dir_key (fa_ext F) l p)) v))"
    and S: "\<forall>c \<in> S. orphaned F objs com ino l ds refs now g w c"
    and p: "purged (fa_ext F) l objs com ino S w v"
    and run: "orphan_dirs F l bucket refs now g dus n v = (r, v')"
  shows "\<exists>S'. (\<forall>c \<in> S'. orphaned F objs com ino l ds refs now g w c) \<and> purged (fa_ext F) l objs com ino S' w v'"
  using S p run
proof (induction dus arbitrary: S n v)
  case Nil
  then show ?case by (auto simp: io_return_def)
next
  case (Cons u dus)
  show ?case
  proof (cases "u = 0 \<or> u \<in> set refs")
    case True
    with Cons.prems(3) have "orphan_dirs F l bucket refs now g dus n v = (r, v')" by auto
    from Cons.IH [OF Cons.prems(1,2) this] show ?thesis .
  next
    case False
    let ?read = "io_bind (fs_open_dir F l bucket u True) (\<lambda>dir. read_dir (fa_dir F) (h_root dir))"
    have uri: "dir_uri (fa_ext F) l bucket u = ''s3://'' @ bucket @ ''/'' @ child_key (fa_ext F) l True u"
      by (simp add: dir_uri_def child_key_def)
    from False Cons.prems(3) have "io_bind (io_try ?read) (\<lambda>q. if (case q of Ok es \<Rightarrow> es = [] | _ \<Rightarrow> False) then
            io_bind (purge_if_old F now g (dir_uri (fa_ext F) l bucket u) n)
              (orphan_dirs F l bucket refs now g dus)
          else orphan_dirs F l bucket refs now g dus n) v = (r, v')" by simp
    from this [unfolded uri] show ?thesis
    proof (rule reads_bind_run [OF reads_try [OF reads_open_read]], goal_cases)
      case 1
      with Cons.prems(1) purged_step [OF Cons.prems(2)] show ?case by blast
    next
      case (2 q v1)
      note p1 = purged_step [OF Cons.prems(2) 2(2)]
      show ?case
      proof (cases "q = Ok []")
        case True
        from io_tryE(1) [OF 2(1)] True have rd: "?read v = (Ok [], v1)" by simp
        from 2(3) True have "io_bind (purge_if_old F now g (''s3://'' @ bucket @ ''/'' @ child_key (fa_ext F) l True u) n)
              (orphan_dirs F l bucket refs now g dus) v1 = (r, v')" by simp
        then obtain a v2 where a: "purge_if_old F now g (''s3://'' @ bucket @ ''/'' @ child_key (fa_ext F) l True u) n v1 = (a, v2)"
          and rest: "(\<exists>m. orphan_dirs F l bucket refs now g dus m v2 = (r, v')) \<or> v2 = v'"
          by (rule io_bind_run) blast+
        have empty: "u \<noteq> 0 \<and> (u \<in> ds \<longrightarrow>
          dir_view (fa_ext F) (fa_ino F) (objs w) (com w (dir_key (fa_ext F) l u)) (dir_key (fa_ext F) l u) = Map.empty)"
          if n: "(True, u) \<notin> S"
        proof -
          have "dir_view (fa_ext F) (fa_ino F) (objs w) (com w (dir_key (fa_ext F) l u)) (dir_key (fa_ext F) l u) = Map.empty"
            if u: "u \<in> ds"
          proof -
            note pd = purged_dir [OF Cons.prems(2) n refl ok [OF u]]
            from open_read_run [OF b refl pd(1) pages [OF u] rd] pd(2) show ?thesis by simp
          qed
          with False show ?thesis by blast
        qed
        have nr: "u \<notin> set refs" using False by simp
        from purge_orphan [OF b Cons.prems(1) p1 nr empty a] obtain S' where
          S': "\<forall>c \<in> S'. orphaned F objs com ino l ds refs now g w c" "purged (fa_ext F) l objs com ino S' w v2" by blast
        from rest show ?thesis
        proof
          assume "\<exists>m. orphan_dirs F l bucket refs now g dus m v2 = (r, v')"
          with Cons.IH [OF S'] show ?thesis by blast
        qed (use S' in blast)
      next
        case False
        with 2(3) have "orphan_dirs F l bucket refs now g dus n v1 = (r, v')" by (cases q) auto
        from Cons.IH [OF Cons.prems(1) p1 this] show ?thesis .
      qed
    qed
  qed
qed

lemma reads_namespace [intro!]: "reads env (fs_list_dir_uuids F l)" "reads env (fs_list_file_uuids F l)"
  by (rule readsI; auto simp: fs_list_dir_uuids_def fs_list_file_uuids_def list_namespace_uuids_def split: prod.splits dest: delim_env)+

lemma sweep_run:
  assumes b: "CHR ''/'' \<notin> set bucket"
    and ok: "\<And>p. p \<in> ds \<Longrightarrow> dir_ok (fa_ext F) (objs w) (com w (dir_key (fa_ext F) l p)) (dir_key (fa_ext F) l p)"
    and pages: "\<And>p v. p \<in> ds \<Longrightarrow> pages_ok (fst (list_objects (fa_s3 F) (scatter_inodes_path (dir_key (fa_ext F) l p)) v))"
    and e: "env w v"
    and run: "io_bind (fs_list_file_uuids F l) (\<lambda>fus. io_bind (orphan_files F l bucket refs now g fus 0) (\<lambda>reclaimed.
      io_bind (fs_list_dir_uuids F l) (\<lambda>dus. orphan_dirs F l bucket refs now g dus reclaimed))) v = (r, v')"
  shows "\<exists>S. (\<forall>c \<in> S. orphaned F objs com ino l ds refs now g w c) \<and> purged (fa_ext F) l objs com ino S w v'"
  using run
proof (rule reads_bind_run [OF reads_namespace(2)], goal_cases)
  case 1
  have "purged (fa_ext F) l objs com ino {} w v'" using purged_env [OF env_trans [OF e 1(1)]] .
  then show ?case by (intro exI [of _ "{}"]) simp
next
  case (2 fus w3)
  have e3: "env w w3" using env_trans [OF e 2(2)] .
  have none: "\<forall>c \<in> {}. orphaned F objs com ino l ds refs now g w c" by simp
  note F = orphan_files_run [OF b none purged_env [OF e3]]
  from 2(3) show ?case
  proof (rule io_bind_run)
    fix m w4 assume a: "orphan_files F l bucket refs now g fus 0 w3 = (Ok m, w4)"
      and rest: "io_bind (fs_list_dir_uuids F l) (\<lambda>dus. orphan_dirs F l bucket refs now g dus m) w4 = (r, v')"
    from F [OF a] obtain S where
      S: "\<forall>c \<in> S. orphaned F objs com ino l ds refs now g w c" "purged (fa_ext F) l objs com ino S w w4" by (elim exE conjE)
    from rest show ?case
    proof (rule reads_bind_run [OF reads_namespace(1)], goal_cases)
      case 1
      from S(1) purged_step [OF S(2) 1(1)] show ?case by (intro exI conjI)
    next
      case (2 dus w5)
      from orphan_dirs_run [OF b ok pages S(1) purged_step [OF S(2) 2(2)] 2(3)] show ?case .
    qed
  qed (rule F, assumption)+
qed

lemma orphans_run:
  assumes b: "CHR ''/'' \<notin> set bucket" and ds: "fs_list_dir_uuids F l w = (Ok ds, w0)"
    and ok: "\<And>p. p \<in> set ds \<Longrightarrow> dir_ok (fa_ext F) (objs w) (com w (dir_key (fa_ext F) l p)) (dir_key (fa_ext F) l p)"
    and pages: "\<And>p v. p \<in> set ds \<Longrightarrow> pages_ok (fst (list_objects (fa_s3 F) (scatter_inodes_path (dir_key (fa_ext F) l p)) v))"
    and readable: "\<And>p v. p \<in> set ds \<Longrightarrow> env w v \<Longrightarrow>
      \<exists>es v'. io_bind (fs_open_dir F l bucket p True) (\<lambda>dir. read_dir (fa_dir F) (h_root dir)) v = (Ok es, v')"
    and run: "fs_gc_orphans F l bucket grace w = (r, w')"
  shows "env w w' \<or> (\<exists>S refs now v v1. (\<forall>c \<in> S. orphaned F objs com ino l (set ds) refs now (min (int grace) i64_max) w c) \<and>
    purged (fa_ext F) l objs com ino S w w' \<and> env w v \<and> now_ms (fa_s3 F) v = (Ok now, v1) \<and>
    (\<forall>p \<in> set ds. \<forall>nm e.
      dir_view (fa_ext F) (fa_ino F) (objs w) (com w (dir_key (fa_ext F) l p)) (dir_key (fa_ext F) l p) nm = Some e \<longrightarrow>
      d_uuid e \<in> set refs))"
proof -
  let ?g = "min (int grace) i64_max"
  have g: "(if int grace \<le> i64_max then int grace else i64_max) = ?g" by auto
  have e0: "env w w0" using readsD [OF reads_namespace(1) ds] .
  obtain q w1 where q: "referenced_loop F l bucket ds [] w0 = (q, w1)" by (cases "referenced_loop F l bucket ds [] w0")
  have "env w w1 \<and> (\<exists>refs. q = Ok refs \<and> set [] \<subseteq> set refs \<and> (\<forall>p \<in> set ds. \<forall>nm e.
      dir_view (fa_ext F) (fa_ino F) (objs w) (com w (dir_key (fa_ext F) l p)) (dir_key (fa_ext F) l p) nm = Some e \<longrightarrow>
      d_uuid e \<in> set refs))"
    by (rule referenced_run [OF b ok pages readable e0 q]) assumption+
  then obtain refs where e1: "env w w1" and refs: "q = Ok refs"
    and shown: "\<forall>p \<in> set ds. \<forall>nm e.
      dir_view (fa_ext F) (fa_ino F) (objs w) (com w (dir_key (fa_ext F) l p)) (dir_key (fa_ext F) l p) nm = Some e \<longrightarrow>
      d_uuid e \<in> set refs" by (elim exE conjE)
  note q' = q [unfolded refs]
  have "io_bind (now_ms (fa_s3 F)) (\<lambda>now. io_bind (fs_list_file_uuids F l) (\<lambda>fus.
     io_bind (orphan_files F l bucket refs now ?g fus 0) (\<lambda>reclaimed.
     io_bind (fs_list_dir_uuids F l) (\<lambda>dus. orphan_dirs F l bucket refs now ?g dus reclaimed)))) w1 = (r, w')"
    using run unfolding fs_gc_orphans_def Let_def g io_bind_step [of "fs_list_dir_uuids F l", OF ds]
      io_bind_step [of "referenced_loop F l bucket ds []", OF q'] .
  then show ?thesis
  proof (rule reads_bind_run [OF reads_now], goal_cases)
    case 1
    then show ?case using env_trans [OF e1] by (intro disjI1)
  next
    case (2 now w2)
    have "\<exists>S. (\<forall>c \<in> S. orphaned F objs com ino l (set ds) refs now ?g w c) \<and> purged (fa_ext F) l objs com ino S w w'"
      by (rule sweep_run [OF b ok pages env_trans [OF e1 2(2)] 2(3)]) assumption+
    then obtain S where "\<forall>c \<in> S. orphaned F objs com ino l (set ds) refs now ?g w c" "purged (fa_ext F) l objs com ino S w w'"
      by (elim exE conjE)
    with e1 2(1) shown show ?case by (intro disjI2 exI conjI)
  qed
qed

end

section \<open>Properties\<close>


text \<open>
  A file that was unlinked from the root directory with a retention until 1000000: its tombstone is
  folded, the time is 5.
\<close>

definition kept_body :: bytes where "kept_body = build_tombstone_body 0 1000000 (mem_inode_bytes dead_inode)"

definition kept_world :: "string \<Rightarrow> mem_fs_world" where
  "kept_world k = \<lparr> mw_objs = [(k, kept_body, 5)], mw_now = 5, mw_next = 1,
     fw_dirs = [(fs_dir 0, sample_inode, []), (fs_file 7, dead_inode, [])] \<rparr>"

definition kept_key :: "string \<Rightarrow> bool" where
  "kept_key k = (path_encode ref_ext 0 (fs_dir 0) ''b'' 7 (op_u8 Delete) = Ok k)"

lemma kept_key_ex: "\<exists>k. kept_key k"
  using fs_dir_text(2) unfolding kept_key_def path_encode_Ok by blast

definition kept_scatter :: "string \<Rightarrow> dir_scatter_inode" where
  "kept_scatter k = \<lparr> s_key = k, s_op = Delete, s_ulid = 0, s_uuid = 7, s_filename = ''b'', s_last_modified = 5 \<rparr>"

lemma set_distinct_single: "distinct xs \<Longrightarrow> set xs = {a} \<Longrightarrow> xs = [a]"
  by (cases xs; cases "tl xs") auto

lemma kept_listed:
  assumes k: "kept_key k" and w: "mem_objs w = mem_objs (kept_world k)"
  shows "list_scatter_inodes ref_ext mem_s3 (fs_dir 0) w = (Ok [kept_scatter k], w)"
proof -
  have o: "map_option (\<lambda>(b, t). \<lparr> ob_body = b, ob_etag = mem_etag b, ob_mtime = t \<rparr>) (map_of (mw_objs w) j) =
      (if j = k then Some \<lparr> ob_body = kept_body, ob_etag = mem_etag kept_body, ob_mtime = 5 \<rparr> else None)" for j
    using fun_cong [OF w, of j] by (simp add: mem_objs_def kept_world_def)
  have "j \<in> fst ` set (mw_objs w) \<longleftrightarrow> j = k" for j
    using o [of j] by (cases "map_of (mw_objs w) j") (auto simp: map_of_eq_None_iff dest: map_of_SomeD split: if_splits intro: rev_image_eqI)
  then have keys: "set (map fst (mw_objs w)) = {k}" by auto
  have time: "snd (the (map_of (mw_objs w) k)) = 5" using o [of k] by (auto split: if_splits)
  note k = k [unfolded kept_key_def]
  have dec: "path_decode ref_ext k 5 = Ok (kept_scatter k)"
    using refc.path_roundtrip [OF fs_dir_text(1) _ sample_text(1) op_u8_less k] by (simp add: from_u8_def kept_scatter_def)
  have "decode_listed ref_ext \<lparr> lo_key = Some k, lo_last_modified = Some 5 \<rparr> = Ok (Some (kept_scatter k))"
    using scatter_key_suffix [OF k] dec by (auto simp: decode_listed_def)
  moreover have "prefix (scatter_inodes_path (fs_dir 0)) k"
    using k by (simp add: path_encode_Ok scatter_inodes_path_def DEFAULT_DIR_INODE_SCATTER_FOLDER_def)
  then have "set (remdups (filter (prefix (scatter_inodes_path (fs_dir 0))) (map fst (mw_objs w)))) = {k}"
    using keys by auto
  then have "remdups (filter (prefix (scatter_inodes_path (fs_dir 0))) (map fst (mw_objs w))) = [k]"
    by (intro set_distinct_single distinct_remdups)
  ultimately show ?thesis
    using time by (simp add: list_scatter_inodes_def list_scatter_with_prefix_def mem_list_def)
qed

lemma kept_read:
  assumes k: "kept_key k" and w: "mem_objs w = mem_objs (kept_world k)" "map_of (fw_dirs w) (fs_dir 0) = Some (sample_inode, [])"
  shows "io_bind (fs_open_dir mem_fs layout_new ''b'' 0 True) (\<lambda>dir. read_dir mem_deps (h_root dir)) w = (Ok [], w)"
proof -
  have "collect_scatter_changes mem_deps (fs_dir 0) w =
    (Ok \<lparr> all_keys = [k], upserts = [], deletes = [(''b'', 7)], predeletes = [], tombstone_keys = [k] \<rparr>, w)"
    by (simp add: collect_scatter_changes_def kept_listed [OF k w(1)] io_bind_def io_lift_def io_return_def filter_last_view_def
        scatter_groups_def kept_scatter_def build_deletes_def build_predeletes_def)
  moreover have "load_latest_bmap mem_deps (fs_dir 0) w = (Ok [], w)"
    using w(2) by (simp add: load_latest_bmap_def io_bind_def mem_load_def mem_read_def)
  moreover have "walk_bmap mem_btree ([] :: (u64 \<times> mem_inode dir_file_entry_raw) list) = Ok []"
    by (simp add: walk_bmap_def)
  ultimately have "read_dir mem_deps (fs_dir 0) w = (Ok [], w)"
    by (simp add: read_dir_def io_bind_def io_lift_def io_return_def hm_items_def)
  then show ?thesis by (simp add: io_bind_def fs_open_dir_def mem_open_dir [OF w(2)])
qed

lemma namespace_uuid_key: "namespace_uuid ref_ext p (Some (p @ uuid_fmt ref_ext u @ ''/'')) = Some u"
proof -
  have "CHR ''/'' \<notin> set (uuid_fmt ref_ext u)" by (rule refc.uuid_fmt_no) simp
  then have "uuid_fmt ref_ext u = [] \<or> last (uuid_fmt ref_ext u) \<noteq> CHR ''/''" by (metis last_in_set)
  then have "trim_end_matches (CHR ''/'') (uuid_fmt ref_ext u @ ''/'') = uuid_fmt ref_ext u"
    by (cases "uuid_fmt ref_ext u = []") (simp_all add: trim_end_matches_snoc trim_end_matches_last, simp add: trim_end_matches_def)
  then show ?thesis by (simp add: namespace_uuid_def refc.uuid_inverse)
qed

lemma uuid_nonempty: "uuid_fmt ref_ext u \<noteq> []"
proof -
  have "filter (\<lambda>c. c \<noteq> CHR ''-'') (uuid_fmt ref_ext u) \<noteq> []"
    by (simp add: ref_ext_def ref_uuid_filter enc_digits_def flip: length_0_conv)
  then show ?thesis by auto
qed

lemma take_uuid: "takeWhile (\<lambda>c. c \<noteq> CHR ''/'') (uuid_fmt ref_ext u @ CHR ''/'' # z) = uuid_fmt ref_ext u"
  using refc.uuid_fmt_no [of "CHR ''/''" u] by (simp add: takeWhile_stop)

lemma kept_namespaces:
  assumes k: "kept_key k" and w: "mw_objs w = [(k, b, 5)]" "fw_dirs w = (fs_dir 0, i, t) # ds" and ds: "ds = [] \<or> ds = [(fs_file 7, dead_inode, [])]"
  shows "fs_list_dir_uuids mem_fs layout_new w = (Ok [0], w)"
    "fs_list_file_uuids mem_fs layout_new w = (Ok (if ds = [] then [] else [7]), w)"
proof -
  obtain z where z: "k = ''DIR/'' @ uuid_fmt ref_ext 0 @ CHR ''/'' # CHR ''!'' # z"
    using k by (auto simp: kept_key_def path_encode_Ok fs_dir_def dir_key_def layout_new_def DIR_NAMESPACE_def)
  have d: "fs_dir 0 = ''DIR/'' @ uuid_fmt ref_ext 0" "fs_file 7 = ''FILE/'' @ uuid_fmt ref_ext 7"
    by (simp_all add: fs_dir_def fs_file_def dir_key_def file_key_def layout_new_def DIR_NAMESPACE_def FILE_NAMESPACE_def)
  let ?keys = "remdups (map fst (mw_objs w) @ map (\<lambda>(r, _). r @ ''/inode'') (fw_dirs w))"
  have "?keys = k # (fs_dir 0 @ ''/inode'') # map (\<lambda>(r, _). r @ ''/inode'') ds"
    using ds by (auto simp: w z d)
  then have fd: "filter (prefix ''DIR/'') ?keys = [k, fs_dir 0 @ ''/inode'']"
    and ff: "filter (prefix ''FILE/'') ?keys = (if ds = [] then [] else [fs_file 7 @ ''/inode''])"
    using ds by (auto simp: z d)
  have "mem_delim ''DIR/'' ''/'' w = ([Inr \<lparr> pg_contents = [], pg_common_prefixes = [Some (''DIR/'' @ uuid_fmt ref_ext 0 @ ''/'')] \<rparr>], w)"
    unfolding mem_delim_def Let_def fd by (simp add: z d take_uuid)
  then show "fs_list_dir_uuids mem_fs layout_new w = (Ok [0], w)"
    using namespace_uuid_key [of "''DIR/''" 0]
    by (simp add: fs_list_dir_uuids_def list_namespace_uuids_def layout_dir_prefix_def layout_new_def DIR_NAMESPACE_def List.map_filter_def)
  have "mem_delim ''FILE/'' ''/'' w =
      ([Inr \<lparr> pg_contents = [], pg_common_prefixes = (if ds = [] then [] else [Some (''FILE/'' @ uuid_fmt ref_ext 7 @ ''/'')]) \<rparr>], w)"
    unfolding mem_delim_def Let_def ff by (simp add: d take_uuid)
  then show "fs_list_file_uuids mem_fs layout_new w = (Ok (if ds = [] then [] else [7]), w)"
    using namespace_uuid_key [of "''FILE/''" 7]
    by (simp add: fs_list_file_uuids_def list_namespace_uuids_def layout_file_prefix_def layout_new_def FILE_NAMESPACE_def List.map_filter_def)
qed

lemma kept_gc:
  assumes k: "kept_key k"
  shows "fs_gc mem_fs layout_new ''b'' 0 (kept_world k) =
    (Ok \<lparr> tombstones_visited = 1, tombstones_skipped_retention = 1, tombstones_skipped_unfolded = 0,
        tombstones_reclaimed = 0, gc_errors = 0 \<rparr>, kept_world k)"
proof -
  note li = kept_listed [OF k, of "kept_world k"]
  have op: "fs_open mem_fs (dir_uri ref_ext layout_new ''b'' 0) True (kept_world k) =
    (Ok \<lparr> h_bmap = [], h_root = fs_dir 0, h_rdonly = True, h_policy = RetryLastWriterWins, h_inode = sample_inode,
        h_od = Some sample_inode \<rparr>, kept_world k)" by (rule mem_open_dir) (simp add: kept_world_def)
  have get: "get_object_bytes mem_s3 k (kept_world k) = (Ok kept_body, kept_world k)"
    by (simp add: get_object_bytes_def mem_get_def kept_world_def)
  have parse: "parse_tombstone_body kept_body =
    Ok (\<lparr> deleted_at_unix_ms = 0, retention_until_unix_ms = 1000000 \<rparr>, mem_inode_bytes dead_inode)"
    unfolding kept_body_def by (rule tombstone_roundtrip) (simp_all add: is_i64_def i64_min_def i64_max_def)
  have now: "mw_now (kept_world k) = 5" by (simp add: kept_world_def)
  have key: "s_key (kept_scatter k) = k" "s_op (kept_scatter k) = Delete" by (simp_all add: kept_scatter_def)
  have "gc_tombstone mem_fs layout_new ''b'' (fs_dir 0) 5 (kept_scatter k) (kept_world k) = (Ok GcSkippedRetention, kept_world k)"
    by (simp add: gc_tombstone_def gc_error_as_def key get parse io_bind_def io_lift_def io_try_def io_return_def)
  then show ?thesis
    by (simp add: fs_gc_def Let_def io_bind_def li now_ms_def now unix_now_ms_def i64_max_def op key io_return_def gc_count_def)
qed

lemma kept_orphans:
  assumes k: "kept_key k"
  shows "fs_gc_orphans mem_fs layout_new ''b'' 5 (kept_world k) =
    (Ok 1, (kept_world k)\<lparr>fw_dirs := [(fs_dir 0, sample_inode, [])]\<rparr>)"
proof -
  let ?w = "kept_world k" and ?w' = "(kept_world k)\<lparr>fw_dirs := [(fs_dir 0, sample_inode, [])]\<rparr>"
  have objs: "mw_objs ?w = [(k, kept_body, 5)]" "mw_objs ?w' = [(k, kept_body, 5)]" by (simp_all add: kept_world_def)
  have dirs: "fw_dirs ?w = (fs_dir 0, sample_inode, []) # [(fs_file 7, dead_inode, [])]" "fw_dirs ?w' = (fs_dir 0, sample_inode, []) # []"
    by (simp_all add: kept_world_def)
  note l0 = kept_namespaces [OF k objs(1) dirs(1)] and l1 = kept_namespaces [OF k objs(2) dirs(2)]
  have rd: "io_bind (fs_open_dir mem_fs layout_new ''b'' 0 True) (\<lambda>dir. read_dir mem_deps (h_root dir)) ?w = (Ok [], ?w)"
    by (rule kept_read [OF k refl]) (simp add: kept_world_def)
  then have ref: "referenced_loop mem_fs layout_new ''b'' [0] [] ?w = (Ok [], ?w)"
    by (simp add: io_bind_step [of _ _ "Ok []" ?w] io_try_def io_return_def)
  have uri: "\<not> ends_with (file_uri ref_ext layout_new ''b'' 7) ''/''"
  proof -
    have "CHR ''/'' \<notin> set (uuid_fmt ref_ext 7)" by (rule refc.uuid_fmt_no) simp
    then have "last (uuid_fmt ref_ext 7) \<noteq> CHR ''/''" using last_in_set [OF uuid_nonempty, of 7] by metis
    then show ?thesis using uuid_nonempty [of 7] by (simp add: fs_uri ends_slash fs_file_def file_key_def)
  qed
  have "fs_getattr_fast mem_fs (file_uri ref_ext layout_new ''b'' 7) ?w = (Ok (mem_stat 0 0 dead_inode), ?w)"
    using uri by (simp add: fs_getattr_fast_def hyper_stat_fast_def stat_fast_def to_dir_staging_config_def io_bind_def io_lift_def
        io_return_def mem_load_def kept_world_def)
  moreover have "old_enough 5 5 (mem_stat 0 0 dead_inode)"
    by (simp add: old_enough_def mem_stat_def dead_inode_def sample_inode_def wrap_i64_def i64_min_def i64_max_def)
  moreover have "\<not> prefix (fs_file 7 @ ''/'') k"
    using k by (auto simp: kept_key_def path_encode_Ok prefix_def fs_dir_def fs_file_def dir_key_def file_key_def layout_new_def
        DIR_NAMESPACE_def FILE_NAMESPACE_def)
  then have "reclaim_child_prefix mem_fs (file_uri ref_ext layout_new ''b'' 7) ?w = (Ok (), ?w')"
    by (simp add: reclaim_child_prefix_def not_found_as_def io_bind_def mem_unlink_def kept_world_def)
  ultimately have "orphan_files mem_fs layout_new ''b'' [] 5 5 [7] 0 ?w = (Ok 1, ?w')"
    by (simp add: purge_if_old_def io_bind_def io_try_def io_return_def)
  moreover have "now_ms mem_s3 ?w = (Ok 5, ?w)" by (simp add: now_ms_def unix_now_ms_def i64_max_def kept_world_def)
  ultimately show ?thesis
    using l0 l1 ref
    by (simp add: fs_gc_orphans_def io_bind_def Let_def i64_max_def io_return_def)
qed


text \<open>C35. The orphan collection does not honour the retention of an unlink: there is a state with a file whose
  tombstone retains it until far in the future, where \<open>fs_gc\<close> skips the tombstone and changes nothing,
  and \<open>fs_gc_orphans\<close> removes the file.\<close>

theorem orphan_gc_ignores_retention:
  "\<exists>w ob header raw k. mem_objs w k = Some ob \<and> parse_tombstone_body (ob_body ob) = Ok (header, raw) \<and>
     mw_now w < retention_until_unix_ms header \<and> s_uuid (kept_scatter k) = 7 \<and>
     kept_scatter k \<in> pending ref_ext (mem_objs w) (scatter_inodes_path (fs_dir 0)) \<and>
     snd (fs_gc mem_fs layout_new ''b'' 0 w) = w \<and>
     mem_ino w (fs_file 7) \<noteq> None \<and> mem_ino (snd (fs_gc_orphans mem_fs layout_new ''b'' 5 w)) (fs_file 7) = None"
proof -
  from kept_key_ex obtain k where k: "kept_key k" by blast
  have "pending ref_ext (mem_objs (kept_world k)) (scatter_inodes_path (fs_dir 0)) = {kept_scatter k}"
    unfolding kept_scatter_def
    by (rule single_scatter_at(1) [OF fs_dir_text(1) k [unfolded kept_key_def] _ sample_text(1,2)]) (simp_all add: kept_world_def)
  moreover have "mem_objs (kept_world k) k = Some \<lparr> ob_body = kept_body, ob_etag = mem_etag kept_body, ob_mtime = 5 \<rparr>"
    by (simp add: mem_objs_def kept_world_def)
  moreover have "parse_tombstone_body kept_body =
    Ok (\<lparr> deleted_at_unix_ms = 0, retention_until_unix_ms = 1000000 \<rparr>, mem_inode_bytes dead_inode)"
    unfolding kept_body_def by (rule tombstone_roundtrip) (simp_all add: is_i64_def i64_min_def i64_max_def)
  ultimately show ?thesis
    using kept_gc [OF k] kept_orphans [OF k]
    by (intro exI [of _ "kept_world k"] exI [of _ "\<lparr> ob_body = kept_body, ob_etag = mem_etag kept_body, ob_mtime = 5 \<rparr>"]
        exI [of _ "\<lparr> deleted_at_unix_ms = 0, retention_until_unix_ms = 1000000 \<rparr>"] exI [of _ "mem_inode_bytes dead_inode"] exI [of _ k])
      (simp add: kept_scatter_def mem_ino_def, simp add: kept_world_def)
qed

end
