(* ===== verification/Fs_Attributes.thy ===== *)
theory Fs_Attributes
  imports Fs_Recovery
begin

text \<open>
  Attributes: the extended attributes of all children are a map from child, kind and name to a value,
  which the four calls read and update one entry at a time; and a mode change keeps the file type.
\<close>

section \<open>Extended attributes as a map\<close>

definition xattrs ::
  "ext \<Rightarrow> hyper_dir_layout \<Rightarrow> (string \<Rightarrow> s3_object option) \<Rightarrow> uuid \<times> bool \<times> string \<Rightarrow> bytes option" where
  "xattrs x l m = (\<lambda>(u, d, n). map_option ob_body (m (xattr_key x l u d n)))"

text \<open>What a complete listing of one folder without its subfolders holds.\<close>

definition delim_complete :: "(string \<Rightarrow> s3_object option) \<Rightarrow> string \<Rightarrow> (s3_error + delim_page) list \<Rightarrow> bool" where
  "delim_complete m p pages =
     (\<exists>pgs. pages = map Inr pgs \<and>
        lo_key ` set (concat (map pg_contents pgs)) = {Some k | k. m k \<noteq> None \<and> prefix p k \<and> CHR ''/'' \<notin> set (drop (length p) k)})"

lemma b64url_text: "CHR ''/'' \<notin> set (eng_alphabet B64URL)" "\<not> eng_encode_padding B64URL"
  by (simp_all add: B64URL_def url_alphabet_def)

lemma in_map_filter: "y \<in> set (List.map_filter f xs) \<longleftrightarrow> (\<exists>a \<in> set xs. f a = Some y)"
  by (induction xs) (auto simp: List.map_filter_def)

lemma xattr_pages_Inr: "xattr_pages x p (map Inr pgs) ns = Ok (ns @ List.map_filter (xattr_name x p) (concat (map pg_contents pgs)))"
  by (induction pgs arbitrary: ns) (simp_all add: List.map_filter_def)

context codecs
begin

lemma b64url_no_slash: "CHR ''/'' \<notin> set (b64_encode x B64URL n)"
  using b64_chars [OF B64URL_ok(1), of n] b64url_text by auto

lemma xattr_key_inj: "xattr_key x l u d n = xattr_key x l u' d' n' \<longleftrightarrow> (u, d, n) = (u', d', n')"
proof
  assume eq: "xattr_key x l u d n = xattr_key x l u' d' n'"
  have p: "prefix (child_key x l d u @ ''/'') (xattr_key x l u d n)" for u d n
    by (simp add: xattr_key_def xattr_prefix_def)
  from child_key_prefix [OF p [of d u n] p [of d' u' n', folded eq]] have ud: "d = d'" "u = u'" .
  with eq have "b64_encode x B64URL n = b64_encode x B64URL n'" by (simp add: xattr_key_def)
  from b64_encode_inj [OF B64URL_ok(1,2) this] ud show "(u, d, n) = (u', d', n')" by simp
qed simp

lemma xattrs_update:
  assumes "m' = m(xattr_key x l u d n := ob)"
  shows "xattrs x l m' = (xattrs x l m)((u, d, n) := map_option ob_body ob)"
  unfolding assms by (auto simp: xattrs_def fun_eq_iff xattr_key_inj)

lemma xattr_name_key:
  assumes "utf8_valid n" and "n \<noteq> []" and "lo_key obj = Some (xattr_key x l u d n)"
  shows "xattr_name x (xattr_prefix x l u d) obj = Some n"
  using assms b64_inverse [OF B64URL_ok(1,2), of n] b64_encode_nonempty [OF B64URL_ok(1,2), of n]
  by (simp add: xattr_name_def xattr_key_def strip_prefix_def from_utf8_def)

end

context fs_store
begin

lemma setxattr_run:
  assumes "fs_setxattr F l u d n v w = (Ok (), w')"
  shows "xattrs (fa_ext F) l (objs w') = (xattrs (fa_ext F) l (objs w))((u, d, n) \<mapsto> v)"
proof -
  let ?k = "xattr_key (fa_ext F) l u d n"
  from assms obtain et where "put_object (fa_s3 F) ?k v PutAlways w = (Inr et, w')"
    by (auto simp: fs_setxattr_def split: prod.splits sum.splits)
  from put_Ok [OF this] obtain w1 ob where "env w w1" and o: "objs w' = (objs w1)(?k \<mapsto> ob)" "ob_body ob = v" by auto
  with env_same have "objs w' = (objs w)(?k := Some ob)" by simp
  from xattrs_update [OF this] o(2) show ?thesis by simp
qed

lemma getxattr_run:
  assumes "fs_getxattr F l u d n w = (Ok r, w')"
  shows "r = xattrs (fa_ext F) l (objs w) (u, d, n)" "objs w' = objs w"
proof -
  let ?k = "xattr_key (fa_ext F) l u d n"
  obtain q where g: "get_object (fa_s3 F) ?k w = (q, w')" and
    r: "case q of Inr out \<Rightarrow> (\<exists>b. g_body out = Some b \<and> r = Some b) | Inl e \<Rightarrow> err_no_such_key e \<and> r = None"
    using assms by (auto simp: fs_getxattr_def split: prod.splits sum.splits option.splits if_splits)
  have e: "env w w'" using get_env [OF g] .
  with env_same show "objs w' = objs w" by blast
  with r get_Ok get_Err g show "r = xattrs (fa_ext F) l (objs w) (u, d, n)"
    by (cases q) (fastforce simp: xattrs_def)+
qed

lemma removexattr_run:
  assumes "fs_removexattr F l u d n w = (Ok b, w')"
  shows "b \<longleftrightarrow> xattrs (fa_ext F) l (objs w) (u, d, n) \<noteq> None"
    "xattrs (fa_ext F) l (objs w') = (xattrs (fa_ext F) l (objs w))((u, d, n) := None)"
proof -
  let ?k = "xattr_key (fa_ext F) l u d n"
  from assms obtain v w1 where g: "fs_getxattr F l u d n w = (Ok v, w1)"
    and rest: "(if v = None then io_return False
      else io_bind (delete_object (fa_s3 F) ?k) (\<lambda>_. io_return True)) w1 = (Ok b, w')"
    unfolding fs_removexattr_def by (rule io_bind_OkE)
  note gr = getxattr_run [OF g]
  show "b \<longleftrightarrow> xattrs (fa_ext F) l (objs w) (u, d, n) \<noteq> None"
    using rest gr(1) by (auto simp: io_return_def elim!: io_bind_OkE split: if_splits)
  show "xattrs (fa_ext F) l (objs w') = (xattrs (fa_ext F) l (objs w))((u, d, n) := None)"
  proof (cases "v = None")
    case True
    with rest gr show ?thesis by (auto simp: io_return_def)
  next
    case False
    with rest obtain q where "delete_obj (fa_s3 F) ?k None w1 = (Inr q, w')"
      by (auto simp: io_return_def delete_object_def elim!: io_bind_OkE split: prod.splits sum.splits)
    from delete_Ok [OF this] env_same gr(2) have "objs w' = (objs w)(?k := None)" by auto
    from xattrs_update [OF this] show ?thesis by simp
  qed
qed

lemma listxattr_run:
  assumes run: "fs_listxattr F l u d w = (Ok ns, w')"
    and pages: "delim_complete (objs w) (xattr_prefix (fa_ext F) l u d) (fst (fa_list_delim F (xattr_prefix (fa_ext F) l u d) ''/'' w))"
    and clean: "\<And>k. objs w k \<noteq> None \<Longrightarrow> prefix (xattr_prefix (fa_ext F) l u d) k \<Longrightarrow>
      \<exists>n. utf8_valid n \<and> n \<noteq> [] \<and> k = xattr_key (fa_ext F) l u d n"
  shows "set ns = {n. xattrs (fa_ext F) l (objs w) (u, d, n) \<noteq> None}"
proof -
  let ?p = "xattr_prefix (fa_ext F) l u d" and ?x = "fa_ext F"
  from pages obtain pgs where pgs: "fst (fa_list_delim F ?p ''/'' w) = map Inr pgs"
    and keys: "lo_key ` set (concat (map pg_contents pgs)) = {Some k | k. objs w k \<noteq> None \<and> prefix ?p k \<and> CHR ''/'' \<notin> set (drop (length ?p) k)}"
    unfolding delim_complete_def by blast
  have ns: "ns = List.map_filter (xattr_name ?x ?p) (concat (map pg_contents pgs))"
    using run pgs by (auto simp: fs_listxattr_def Let_def xattr_pages_Inr split: prod.splits)
  have key: "prefix ?p (xattr_key ?x l u d n) \<and> CHR ''/'' \<notin> set (drop (length ?p) (xattr_key ?x l u d n))" for n
    using b64url_no_slash [of n] by (simp add: xattr_key_def)
  show ?thesis
  proof (intro equalityI subsetI)
    fix n assume "n \<in> set ns"
    then obtain obj where obj: "obj \<in> set (concat (map pg_contents pgs))" "xattr_name ?x ?p obj = Some n"
      unfolding ns in_map_filter by blast
    then have "lo_key obj \<in> {Some k | k. objs w k \<noteq> None \<and> prefix ?p k \<and> CHR ''/'' \<notin> set (drop (length ?p) k)}"
      unfolding keys [symmetric] by blast
    then obtain k where k: "lo_key obj = Some k" "objs w k \<noteq> None" "prefix ?p k" by auto
    from clean [OF k(2,3)] obtain n' where n': "utf8_valid n'" "n' \<noteq> []" "k = xattr_key ?x l u d n'" by blast
    from xattr_name_key [OF n'(1,2)] k(1) n'(3) obj(2) have "n' = n" by simp
    with k n' show "n \<in> {n. xattrs ?x l (objs w) (u, d, n) \<noteq> None}" by (simp add: xattrs_def)
  next
    fix n assume "n \<in> {n. xattrs ?x l (objs w) (u, d, n) \<noteq> None}"
    then have o: "objs w (xattr_key ?x l u d n) \<noteq> None" by (simp add: xattrs_def)
    from clean [OF o] key xattr_key_inj have n: "utf8_valid n" "n \<noteq> []" by auto
    have "Some (xattr_key ?x l u d n) \<in> lo_key ` set (concat (map pg_contents pgs))" unfolding keys using o key by blast
    then obtain obj where obj: "obj \<in> set (concat (map pg_contents pgs))" "lo_key obj = Some (xattr_key ?x l u d n)"
      by (metis imageE)
    with xattr_name_key [OF n obj(2)] show "n \<in> set ns" unfolding ns in_map_filter by blast
  qed
qed

end

section \<open>Properties\<close>

text \<open>C22. Extended attributes behave as one map from child, kind and name to a value: a set that succeeds
  updates exactly that entry, a get that succeeds returns it (nothing when unset) and changes nothing,
  and a remove that succeeds clears exactly that entry and reports whether it was set.\<close>

theorem xattr_refines:
  assumes "fs_store F objs env tab com ino"
  shows "(fs_setxattr F l u d n v w = (Ok (), w1) \<longrightarrow>
      xattrs (fa_ext F) l (objs w1) = (xattrs (fa_ext F) l (objs w))((u, d, n) \<mapsto> v)) \<and>
    (fs_getxattr F l u d n w = (Ok r, w2) \<longrightarrow>
      r = xattrs (fa_ext F) l (objs w) (u, d, n) \<and> objs w2 = objs w) \<and>
    (fs_removexattr F l u d n w = (Ok b, w3) \<longrightarrow>
      xattrs (fa_ext F) l (objs w3) = (xattrs (fa_ext F) l (objs w))((u, d, n) := None) \<and>
      (b \<longleftrightarrow> xattrs (fa_ext F) l (objs w) (u, d, n) \<noteq> None))"
  by (intro conjI impI; erule fs_store.setxattr_run [OF assms] fs_store.getxattr_run [OF assms] fs_store.removexattr_run [OF assms])

definition xattr_world :: mem_fs_world where
  "xattr_world = fs_world\<lparr>mw_objs := [(xattr_key ref_ext layout_new 7 False ''a'', ''v'', 5)]\<rparr>"

lemma xattr_world_set: "fs_setxattr mem_fs layout_new 7 False ''a'' ''v'' fs_world = (Ok (), xattr_world)"
  by (simp add: fs_setxattr_def mem_put_def mem_objs_def fs_world_def xattr_world_def)

theorem xattr_refines_witness:
  "xattrs ref_ext layout_new (mem_objs xattr_world) (7, False, ''a'') = Some ''v'' \<and>
   xattrs ref_ext layout_new (mem_objs xattr_world) (7, False, ''b'') = None"
proof -
  from xattr_refines [OF mem_fs_store.fs_store_axioms, of layout_new 7 False "''a''" "''v''" fs_world xattr_world, unfolded mem_fs_sel mem_deps_sel]
    xattr_world_set
  have "xattrs ref_ext layout_new (mem_objs xattr_world) =
      (xattrs ref_ext layout_new (mem_objs fs_world))((7, False, ''a'') \<mapsto> ''v'')" by blast
  then show ?thesis by (simp add: xattrs_def mem_objs_def fs_world_def)
qed

text \<open>\<open>fs_listxattr\<close> is exact: on a complete listing of an attribute folder that holds attributes only, it
  returns the names that are set, no more and no fewer.\<close>

theorem listxattr_exact:
  assumes "fs_store F objs env tab com ino"
    and "fs_listxattr F l u d w = (Ok ns, w')"
    and "delim_complete (objs w) (xattr_prefix (fa_ext F) l u d) (fst (fa_list_delim F (xattr_prefix (fa_ext F) l u d) ''/'' w))"
    and "\<And>k. objs w k \<noteq> None \<Longrightarrow> prefix (xattr_prefix (fa_ext F) l u d) k \<Longrightarrow>
      \<exists>n. utf8_valid n \<and> n \<noteq> [] \<and> k = xattr_key (fa_ext F) l u d n"
  shows "set ns = {n. xattrs (fa_ext F) l (objs w) (u, d, n) \<noteq> None}"
  by (rule fs_store.listxattr_run [OF assms])

lemma xattr_world_list: "mem_delim (xattr_prefix ref_ext layout_new 7 False) ''/'' xattr_world =
  ([Inr \<lparr> pg_contents = [\<lparr> lo_key = Some (xattr_key ref_ext layout_new 7 False ''a''), lo_last_modified = Some 0 \<rparr>],
      pg_common_prefixes = [] \<rparr>], xattr_world)"
proof -
  let ?p = "xattr_prefix ref_ext layout_new 7 False" and ?k = "xattr_key ref_ext layout_new 7 False ''a''"
  have p: "?p = fs_file 7 @ ''/_xattr/''" by (simp add: xattr_prefix_def child_key_def fs_file_def)
  have k: "prefix ?p ?k" "CHR ''/'' \<notin> set (drop (length ?p) ?k)"
    using refc.b64url_no_slash [of "''a''"] by (simp_all add: xattr_key_def)
  have n: "\<not> prefix ?p (fs_file 7 @ ''/inode'')" "\<not> prefix ?p (fs_dir u @ ''/inode'')" for u
    unfolding p by (simp_all add: fs_file_def fs_dir_def file_key_def dir_key_def FILE_NAMESPACE_def DIR_NAMESPACE_def layout_new_def)
  with k have "filter (prefix ?p) (remdups (map fst (mw_objs xattr_world) @ map (\<lambda>(r, _). r @ ''/inode'') (fw_dirs xattr_world))) = [?k]"
    by (auto simp: xattr_world_def fs_world_def)
  with k(2) show ?thesis by (simp add: mem_delim_def Let_def)
qed

theorem listxattr_exact_witness:
  "set [''a''] = {n. xattrs ref_ext layout_new (mem_objs xattr_world) (7, False, n) \<noteq> None}"
proof -
  let ?p = "xattr_prefix ref_ext layout_new 7 False" and ?k = "xattr_key ref_ext layout_new 7 False ''a''"
  have o: "mem_objs xattr_world k \<noteq> None \<longleftrightarrow> k = ?k" for k by (simp add: mem_objs_def xattr_world_def)
  have k: "prefix ?p ?k" "CHR ''/'' \<notin> set (drop (length ?p) ?k)"
    using refc.b64url_no_slash [of "''a''"] by (simp_all add: xattr_key_def)
  have "xattr_name ref_ext ?p \<lparr> lo_key = Some ?k, lo_last_modified = Some 0 \<rparr> = Some ''a''"
    by (rule refc.xattr_name_key [OF a_text(1)]) simp_all
  then have run: "fs_listxattr mem_fs layout_new 7 False xattr_world = (Ok [''a''], xattr_world)"
    by (simp add: fs_listxattr_def Let_def xattr_world_list List.map_filter_def)
  have pages: "delim_complete (mem_objs xattr_world) ?p (fst (mem_delim ?p ''/'' xattr_world))"
    unfolding xattr_world_list delim_complete_def o
    by (rule exI [of _ "[\<lparr> pg_contents = [\<lparr> lo_key = Some ?k, lo_last_modified = Some 0 \<rparr>], pg_common_prefixes = [] \<rparr>]"])
      (use k in auto)
  have clean: "\<exists>n. utf8_valid n \<and> n \<noteq> [] \<and> k = xattr_key ref_ext layout_new 7 False n" if "mem_objs xattr_world k \<noteq> None" for k
    by (rule exI [of _ "''a''"]) (use that [unfolded o] a_text(1) in simp)
  show ?thesis
    by (rule listxattr_exact [OF mem_fs_store.fs_store_axioms run, unfolded mem_fs_sel mem_deps_sel, OF pages clean])
qed

section \<open>Changing the mode\<close>

text \<open>
  What a mode change relies on of the library beside \<open>fs_store\<close>: \<open>Inode::to_stat\<close> reads the mode of the
  inode, \<open>Inode::update_stat\<close> sets it from the stat it is given and returns a stat with it, and a flush that
  succeeds leaves an inode object with the mode of the handle's inode.
\<close>

locale attr_store = fs_store F objs env tab com ino
  for F :: "('w, 'i, 'b, 'd, 'f) fs_api" and objs env tab com ino +
  assumes to_stat_mode: "st_mode (fa_to_stat F dev rdev i) = ino_mode (fa_ino F) i"
    and update_stat_mode: "fa_update_stat F st i = (st', i') \<Longrightarrow> ino_mode (fa_ino F) i' = st_mode st \<and> st_mode st' = st_mode st"
    and flush_mode: "hf_flush (fa_hf F) (h, w) = (Ok n, (h', w')) \<Longrightarrow>
      \<exists>i. ino w' (h_root h) = Some i \<and> ino_mode (fa_ino F) i = ino_mode (fa_ino F) (h_inode h)"
begin

lemma update_stat_run:
  assumes "update_stat F st (h, w) = (Ok st', (h', w'))"
  shows "\<exists>i. ino w' (h_root h) = Some i \<and> ino_mode (fa_ino F) i = st_mode st"
    "st_mode st' = st_mode st" "com w' (h_root h) = tab (h_bmap h)"
    "c \<noteq> h_root h \<Longrightarrow> com w' c = com w c \<and> ino w' c = ino w c"
proof -
  obtain s i where u: "fa_update_stat F st (h_inode h) = (s, i)" by (cases "fa_update_stat F st (h_inode h)")
  with assms obtain n where fl: "hf_flush (fa_hf F) (h\<lparr>h_inode := i\<rparr>, w) = (Ok n, (h', w'))" and s: "st' = s"
    by (auto simp: update_stat_def io_return_def elim!: io_bind_OkE)
  note m = update_stat_mode [OF u]
  show "\<exists>i. ino w' (h_root h) = Some i \<and> ino_mode (fa_ino F) i = st_mode st" using flush_mode [OF fl] m by simp
  show "st_mode st' = st_mode st" using m s by simp
  show "com w' (h_root h) = tab (h_bmap h)" using flush_Ok [OF fl] by simp
  show "c \<noteq> h_root h \<Longrightarrow> com w' c = com w c \<and> ino w' c = ino w c" using flush_any [OF fl] by simp
qed

lemma stat_fast_run:
  assumes "stat_fast F root w = (Ok st, w')"
  shows "\<exists>i. ino w root = Some i \<and> st_mode st = ino_mode (fa_ino F) i"
proof -
  from assms obtain i d where l: "hf_load_inode (fa_hf F) root w = (Ok (i, d), w')" and st: "st = fa_to_stat F 0 0 i"
    by (auto simp: stat_fast_def io_return_def elim!: io_bind_OkE)
  from load_Ok [OF l] env_same [OF load_env [OF l]] st to_stat_mode show ?thesis by simp
qed

end

interpretation mem_attr: attr_store mem_fs mem_objs mem_env map_of mem_com mem_ino
proof (unfold_locales, goal_cases)
  case (1 dev rdev i)
  show ?case by (simp add: mem_stat_def)
next
  case (2 st i st' i')
  then show ?case by (auto simp: mem_update_stat_def mem_stat_def Let_def)
next
  case (3 h w n h' w')
  then show ?case by (auto simp: mem_flush_def mem_ino_def update_conv')
qed

lemma mask_merge:
  fixes a b m :: u32
  shows "and (or (and a m) (and b (not m))) m = and a m" "and (or (and a m) (and b (not m))) (not m) = and b (not m)"
  by (auto simp: bit_eq_iff bit_simps)

text \<open>C39. A mode change keeps what kind of file it is: if \<open>fs_chmod\<close> succeeds, the inode object of the
  directory has the type bits that the handle's inode had and the permission bits of the argument,
  whatever type bits the argument carries; the stat returned, and any later \<open>stat_fast\<close>, reports that
  mode; the committed index is the handle's, and no other directory or file changes.\<close>

theorem chmod_keeps_type:
  assumes "attr_store F objs env tab com ino" and "fs_chmod F mode (h, w) = (Ok st, (h', w'))"
  shows "\<exists>i. ino w' (h_root h) = Some i \<and>
    and (ino_mode (fa_ino F) i) S_IFMT = and (ino_mode (fa_ino F) (h_inode h)) S_IFMT \<and>
    and (ino_mode (fa_ino F) i) (not S_IFMT) = and mode (not S_IFMT) \<and>
    is_dir_mode (ino_mode (fa_ino F) i) = is_dir_mode (ino_mode (fa_ino F) (h_inode h)) \<and>
    st_mode st = ino_mode (fa_ino F) i \<and>
    (\<forall>st2 w2. stat_fast F (h_root h) w' = (Ok st2, w2) \<longrightarrow> st_mode st2 = ino_mode (fa_ino F) i) \<and>
    com w' (h_root h) = tab (h_bmap h) \<and> (\<forall>c. c \<noteq> h_root h \<longrightarrow> com w' c = com w c \<and> ino w' c = ino w c)"
proof -
  let ?m = "or (and (ino_mode (fa_ino F) (h_inode h)) S_IFMT) (and mode (not S_IFMT))"
  have "update_stat F ((dir_stat F h)\<lparr>st_mode := ?m\<rparr>) (h, w) = (Ok st, (h', w'))"
    using assms(2) by (simp add: fs_chmod_def Let_def dir_stat_def attr_store.to_stat_mode [OF assms(1)])
  note run = attr_store.update_stat_run [OF assms(1) this]
  from run(1) obtain i where i: "ino w' (h_root h) = Some i" and m: "ino_mode (fa_ino F) i = ?m" by auto
  have later: "st_mode st2 = ino_mode (fa_ino F) i" if "stat_fast F (h_root h) w' = (Ok st2, w2)" for st2 w2
    using attr_store.stat_fast_run [OF assms(1) that] i by simp
  show ?thesis
    by (intro exI [of _ i] conjI)
      (use i m run(2-) later in \<open>simp_all add: mask_merge is_dir_mode_def\<close>)
qed

text \<open>A directory whose mode is changed with the type bits of a regular file in the argument.\<close>

theorem chmod_keeps_type_witness:
  "\<exists>h w. fs_chmod mem_fs 0x8180 (sample_handle\<lparr>h_inode := sample_inode\<lparr>mi_mode := 0x41ED\<rparr>\<rparr>, sample_world) =
      (Ok (mem_stat 0 0 (sample_inode\<lparr>mi_mode := 0x4180\<rparr>)), (h, w)) \<and>
    map_option mi_mode (mem_ino w sample_root) = Some 0x4180 \<and> is_dir_mode 0x4180"
proof -
  let ?h = "sample_handle\<lparr>h_inode := sample_inode\<lparr>mi_mode := 0x41ED\<rparr>\<rparr>"
  obtain h w where run: "fs_chmod mem_fs 0x8180 (?h, sample_world) = (Ok (mem_stat 0 0 (sample_inode\<lparr>mi_mode := 0x4180\<rparr>)), (h, w))"
    by (simp add: fs_chmod_def update_stat_def dir_stat_def mem_update_stat_def mem_stat_def mem_flush_def io_bind_def io_return_def
        S_IFMT_def sample_inode_def Let_def)
  from chmod_keeps_type [OF mem_attr.attr_store_axioms run]
  have "map_option mi_mode (mem_ino w sample_root) = Some 0x4180"
    by (auto simp: mem_stat_def sample_handle_def)
  moreover have "is_dir_mode 0x4180" by (simp add: is_dir_mode_def S_IFMT_def S_IFDIR_def)
  ultimately show ?thesis using run by blast
qed

end
