(* ===== verification/Fs_Invariant.thy ===== *)
theory Fs_Invariant
  imports Fs_Folding Fs_Orphans Fs_Attributes
begin

text \<open>
  The invariant of a whole file system and a small calculus to show that an operation keeps it, however
  it ends: \<open>fs_inv\<close> says that every directory of the layout is well-formed and that every rename intent
  names a destination that an index can store. \<open>keeps\<close> is a triple for operations of the world, \<open>hkeeps\<close>
  one for operations of a handle; the lemmas in \<open>keeps_rules\<close> follow the combinators of the model and
  the calls of the library.
\<close>

section \<open>The invariant\<close>

definition intents_ok :: "ext \<Rightarrow> hyper_dir_layout \<Rightarrow> (string \<Rightarrow> s3_object option) \<Rightarrow> bool" where
  "intents_ok x l m =
     (\<forall>k ob it. m k = Some ob \<longrightarrow> prefix (txn_prefix l) k \<longrightarrow> ends_with k ''.intent'' \<longrightarrow>
        rename_parse x (ob_body ob) = Ok it \<longrightarrow> utf8_valid (ri_dst_name it) \<and> storable (ri_dst_name it))"

definition fs_inv ::
  "ext \<Rightarrow> hyper_dir_layout \<Rightarrow> ('w \<Rightarrow> string \<Rightarrow> s3_object option) \<Rightarrow> ('w \<Rightarrow> string \<Rightarrow> 'i table) \<Rightarrow> 'w \<Rightarrow> bool" where
  "fs_inv x l objs com w =
     ((\<forall>p. dir_ok x (objs w) (com w (dir_key x l p)) (dir_key x l p)) \<and> intents_ok x l (objs w))"

text \<open>A handle of the directory \<open>p\<close> is usable: it is rooted there and its index is consistent.\<close>

definition handle_ok ::
  "ext \<Rightarrow> hyper_dir_layout \<Rightarrow> ('b \<Rightarrow> 'i table) \<Rightarrow> uuid \<Rightarrow> ('i, 'b, 'd) dir_handle \<Rightarrow> bool" where
  "handle_ok x l tab p h = (h_root h = dir_key x l p \<and> dir_inv x (tab (h_bmap h)))"

text \<open>The keys whose objects the invariant reads.\<close>

definition guarded :: "ext \<Rightarrow> hyper_dir_layout \<Rightarrow> string \<Rightarrow> bool" where
  "guarded x l k = ((\<exists>p. prefix (scatter_inodes_path (dir_key x l p)) k) \<or> prefix (txn_prefix l) k \<and> ends_with k ''.intent'')"

lemma fs_inv_step:
  assumes inv: "fs_inv x l objs com w" and o: "\<And>k. guarded x l k \<Longrightarrow> objs w' k = objs w k \<or> objs w' k = None"
    and c: "\<And>p. com w' (dir_key x l p) = com w (dir_key x l p) \<or> dir_inv x (com w' (dir_key x l p))"
  shows "fs_inv x l objs com w'"
proof -
  have "dir_ok x (objs w') (com w' (dir_key x l p)) (dir_key x l p)" for p
  proof (rule dir_ok_shrink [OF _ _ c])
    show "dir_ok x (objs w) (com w (dir_key x l p)) (dir_key x l p)" using inv by (simp add: fs_inv_def)
    show "objs w' k = objs w k \<or> objs w' k = None" if "prefix (scatter_inodes_path (dir_key x l p)) k" for k
      using that by (intro o) (auto simp: guarded_def)
  qed
  moreover have "intents_ok x l (objs w')"
    unfolding intents_ok_def
  proof (intro allI impI)
    fix k ob it
    assume k: "objs w' k = Some ob" "prefix (txn_prefix l) k" "ends_with k ''.intent''" "rename_parse x (ob_body ob) = Ok it"
    from o [of k] k have "objs w k = Some ob" by (auto simp: guarded_def)
    with inv k show "utf8_valid (ri_dst_name it) \<and> storable (ri_dst_name it)" by (auto simp: fs_inv_def intents_ok_def)
  qed
  ultimately show ?thesis by (simp add: fs_inv_def)
qed

lemma fs_invD: "fs_inv x l objs com w \<Longrightarrow> dir_ok x (objs w) (com w (dir_key x l p)) (dir_key x l p)"
  by (simp add: fs_inv_def)

section \<open>Triples\<close>

named_theorems keeps_rules

definition keeps :: "('w \<Rightarrow> bool) \<Rightarrow> ('w, 'a) io \<Rightarrow> ('a \<Rightarrow> bool) \<Rightarrow> bool" where
  "keeps I m q = (\<forall>w r w'. m w = (r, w') \<longrightarrow> I w \<longrightarrow> I w' \<and> (\<forall>a. r = Ok a \<longrightarrow> q a))"

text \<open>A handle is trusted after a success only: an error may leave its index between two changes.\<close>

definition hkeeps :: "('w \<Rightarrow> bool) \<Rightarrow> ('h \<Rightarrow> bool) \<Rightarrow> ('h \<times> 'w, 'a) io \<Rightarrow> ('a \<Rightarrow> bool) \<Rightarrow> bool" where
  "hkeeps I H m q = (\<forall>h w r h' w'. m (h, w) = (r, (h', w')) \<longrightarrow> I w \<longrightarrow> H h \<longrightarrow> I w' \<and> (\<forall>a. r = Ok a \<longrightarrow> H h' \<and> q a))"

lemma keepsI: "(\<And>w r w'. m w = (r, w') \<Longrightarrow> I w \<Longrightarrow> I w' \<and> (\<forall>a. r = Ok a \<longrightarrow> q a)) \<Longrightarrow> keeps I m q"
  by (simp add: keeps_def)

lemma keepsD: "keeps I m q \<Longrightarrow> m w = (r, w') \<Longrightarrow> I w \<Longrightarrow> I w' \<and> (\<forall>a. r = Ok a \<longrightarrow> q a)"
  by (simp add: keeps_def)

lemma hkeepsI:
  "(\<And>h w r h' w'. m (h, w) = (r, (h', w')) \<Longrightarrow> I w \<Longrightarrow> H h \<Longrightarrow> I w' \<and> (\<forall>a. r = Ok a \<longrightarrow> H h' \<and> q a)) \<Longrightarrow> hkeeps I H m q"
  by (simp add: hkeeps_def)

lemma hkeepsD: "hkeeps I H m q \<Longrightarrow> m (h, w) = (r, (h', w')) \<Longrightarrow> I w \<Longrightarrow> H h \<Longrightarrow> I w' \<and> (\<forall>a. r = Ok a \<longrightarrow> H h' \<and> q a)"
  by (simp add: hkeeps_def)

lemma keeps_weak: "keeps I m q \<Longrightarrow> (\<And>a. q a \<Longrightarrow> q' a) \<Longrightarrow> keeps I m q'"
  by (auto simp: keeps_def)

lemma keeps_bind: "keeps I m q \<Longrightarrow> (\<And>a. q a \<Longrightarrow> keeps I (f a) q') \<Longrightarrow> keeps I (io_bind m f) q'"
proof (rule keepsI)
  fix w r w'
  assume m: "keeps I m q" and f: "\<And>a. q a \<Longrightarrow> keeps I (f a) q'" and run: "io_bind m f w = (r, w')" and w: "I w"
  from run show "I w' \<and> (\<forall>a. r = Ok a \<longrightarrow> q' a)"
  proof (rule io_bind_run)
    fix a w1 assume "m w = (Ok a, w1)" and f2: "f a w1 = (r, w')"
    from keepsD [OF m this(1) w] have "I w1" "q a" by simp_all
    from keepsD [OF f [OF this(2)] f2 this(1)] show ?thesis .
  qed (use keepsD [OF m _ w] in auto)
qed

text \<open>Where nothing of the first result is needed the rule is safe for automation.\<close>

lemma keeps_seq [keeps_rules]: "keeps I m (\<lambda>_. True) \<Longrightarrow> (\<And>a. keeps I (f a) q) \<Longrightarrow> keeps I (io_bind m f) q"
  by (rule keeps_bind)

lemma keeps_return: "q a \<Longrightarrow> keeps I (io_return a) q"
  by (simp add: keeps_def io_return_def)

lemma keeps_pure [keeps_rules]:
  "keeps I (io_fail e) q" "keeps I (io_lift (Err e)) q" "keeps I (io_lift Panic) q" "keeps I (io_lift r) (\<lambda>_. True)"
  "keeps I (io_return b) (\<lambda>_. True)"
  by (auto simp: keeps_def io_fail_def io_lift_def io_return_def)

lemma keeps_if [keeps_rules]: "(c \<Longrightarrow> keeps I m q) \<Longrightarrow> (\<not> c \<Longrightarrow> keeps I m' q) \<Longrightarrow> keeps I (if c then m else m') q"
  by simp

lemma keeps_cases [keeps_rules]:
  "(x = None \<Longrightarrow> keeps I m q) \<Longrightarrow> (\<And>a. x = Some a \<Longrightarrow> keeps I (f a) q) \<Longrightarrow> keeps I (case x of None \<Rightarrow> m | Some a \<Rightarrow> f a) q"
  "(\<And>a. y = Ok a \<Longrightarrow> keeps I (g a) q) \<Longrightarrow> (\<And>e. y = Err e \<Longrightarrow> keeps I (k e) q) \<Longrightarrow> (y = Panic \<Longrightarrow> keeps I m' q) \<Longrightarrow>
    keeps I (case y of Ok a \<Rightarrow> g a | Err e \<Rightarrow> k e | Panic \<Rightarrow> m') q"
  "(\<And>a b. z = (a, b) \<Longrightarrow> keeps I (j a b) q) \<Longrightarrow> keeps I (case z of (a, b) \<Rightarrow> j a b) q"
  "(\<And>a. s = Inl a \<Longrightarrow> keeps I (g1 a) q) \<Longrightarrow> (\<And>a. s = Inr a \<Longrightarrow> keeps I (g2 a) q) \<Longrightarrow>
    keeps I (case s of Inl a \<Rightarrow> g1 a | Inr a \<Rightarrow> g2 a) q"
  "keeps I m1 q \<Longrightarrow> keeps I m2 q \<Longrightarrow> keeps I (case b of True \<Rightarrow> m1 | False \<Rightarrow> m2) q"
  by (auto split: option.splits result.splits prod.splits sum.splits bool.splits)

lemma keeps_try_True [keeps_rules]: "keeps I m (\<lambda>_. True) \<Longrightarrow> keeps I (io_try m) (\<lambda>_. True)"
  unfolding keeps_def io_try_def by (auto split: prod.splits result.splits)

lemma keeps_try: "keeps I m q \<Longrightarrow> keeps I (io_try m) (\<lambda>r. \<forall>a. r = Ok a \<longrightarrow> q a)"
  unfolding keeps_def io_try_def by (auto split: prod.splits result.splits)

lemma keeps_ignore [keeps_rules]: "keeps I m (\<lambda>_. True) \<Longrightarrow> keeps I (ignore_err m) (\<lambda>_. True)"
  unfolding keeps_def ignore_err_def by (auto split: prod.splits result.splits)

lemma keeps_not_found [keeps_rules]: "keeps I m (\<lambda>_. True) \<Longrightarrow> keeps I (not_found_as a m) (\<lambda>_. True)"
proof (rule keepsI)
  fix w r w' assume m: "keeps I m (\<lambda>_. True)" and run: "not_found_as a m w = (r, w')" and w: "I w"
  obtain q w1 where q: "m w = (q, w1)" by (cases "m w")
  with run have "w' = w1" by (auto simp: not_found_as_def split: result.splits error_kind.splits)
  with keepsD [OF m q w] show "I w' \<and> (\<forall>a. r = Ok a \<longrightarrow> True)" by simp
qed

lemma hkeeps_bind: "hkeeps I H m q \<Longrightarrow> (\<And>a. q a \<Longrightarrow> hkeeps I H (f a) q') \<Longrightarrow> hkeeps I H (io_bind m f) q'"
proof (rule hkeepsI)
  fix h w r h' w'
  assume m: "hkeeps I H m q" and f: "\<And>a. q a \<Longrightarrow> hkeeps I H (f a) q'" and run: "io_bind m f (h, w) = (r, (h', w'))"
    and w: "I w" and h: "H h"
  from run show "I w' \<and> (\<forall>a. r = Ok a \<longrightarrow> H h' \<and> q' a)"
  proof (rule io_bind_run)
    fix a s1 assume m1: "m (h, w) = (Ok a, s1)" and f2: "f a s1 = (r, (h', w'))"
    obtain h1 w1 where s1: "s1 = (h1, w1)" by (cases s1)
    from hkeepsD [OF m m1 [unfolded s1] w h] have "I w1" "H h1" "q a" by simp_all
    from hkeepsD [OF f [OF this(3)] f2 [unfolded s1] this(1,2)] show ?thesis .
  qed (use hkeepsD [OF m _ w h] in auto)
qed

lemma hkeeps_seq [keeps_rules]: "hkeeps I H m (\<lambda>_. True) \<Longrightarrow> (\<And>a. hkeeps I H (f a) q) \<Longrightarrow> hkeeps I H (io_bind m f) q"
  by (rule hkeeps_bind)

lemma hkeeps_pure [keeps_rules]: "hkeeps I H (io_fail e) q" "hkeeps I H (io_return b) (\<lambda>_. True)"
  by (auto simp: hkeeps_def io_fail_def io_return_def)

lemma hkeeps_return: "q a \<Longrightarrow> hkeeps I H (io_return a) q"
  by (simp add: hkeeps_def io_return_def)

lemma hkeeps_if [keeps_rules]: "(c \<Longrightarrow> hkeeps I H m q) \<Longrightarrow> (\<not> c \<Longrightarrow> hkeeps I H m' q) \<Longrightarrow> hkeeps I H (if c then m else m') q"
  by simp

lemma hkeeps_cases [keeps_rules]:
  "(x = None \<Longrightarrow> hkeeps I H m q) \<Longrightarrow> (\<And>a. x = Some a \<Longrightarrow> hkeeps I H (f a) q) \<Longrightarrow> hkeeps I H (case x of None \<Rightarrow> m | Some a \<Rightarrow> f a) q"
  "(\<And>a b. z = (a, b) \<Longrightarrow> hkeeps I H (j a b) q) \<Longrightarrow> hkeeps I H (case z of (a, b) \<Rightarrow> j a b) q"
  by (auto split: option.splits prod.splits)

lemma hkeeps_world [keeps_rules]: "keeps I m q \<Longrightarrow> hkeeps I H (on_world m) q"
  unfolding hkeeps_def keeps_def on_world_def by (auto split: prod.splits)

lemma keeps_on_handle [keeps_rules]: "hkeeps I H m q \<Longrightarrow> H h \<Longrightarrow> keeps I (on_handle h m) q"
  unfolding hkeeps_def keeps_def on_handle_def by (auto split: prod.splits)

lemma keeps_with_handle [keeps_rules]: "hkeeps I H m q \<Longrightarrow> H h \<Longrightarrow> keeps I (with_handle h m) (\<lambda>(a, h'). H h' \<and> q a)"
proof (rule keepsI)
  fix w r w' assume m: "hkeeps I H m q" and h: "H h" and run: "with_handle h m w = (r, w')" and w: "I w"
  obtain p h1 w1 where p: "m (h, w) = (p, (h1, w1))" by (metis prod.exhaust)
  from run p have "r = res_bind p (\<lambda>a. Ok (a, h1))" "w' = w1" by (simp_all add: with_handle_def)
  with hkeepsD [OF m p w h] show "I w' \<and> (\<forall>a. r = Ok a \<longrightarrow> (case a of (a, h') \<Rightarrow> H h' \<and> q a))" by (cases p) auto
qed

section \<open>The store of a file system\<close>

text \<open>A step of the library that stays within what it keeps below the root \<open>key\<close>.\<close>

definition own_step ::
  "('w \<Rightarrow> string \<Rightarrow> s3_object option) \<Rightarrow> ('w \<Rightarrow> string \<Rightarrow> 'i table) \<Rightarrow> string \<Rightarrow> 'w \<Rightarrow> 'w \<Rightarrow> bool" where
  "own_step objs com key w w' =
     ((\<forall>k. \<not> hf_owned key k \<longrightarrow> objs w' k = objs w k) \<and> (\<forall>c. c \<noteq> key \<longrightarrow> com w' c = com w c))"

text \<open>
  The laws that the invariant needs beside those of \<open>fs_store\<close>: an absent child has no committed entries, a new index is empty,
  an inode flush leaves the committed entries alone or starts an empty directory, a listing names
  objects that exist, and the creation and first flush of a file call its hook and otherwise stay below
  the file's root.
\<close>

locale fs_machine = fs_store F objs env tab com ino
  for F :: "('w, 'i, 'b, 'd, 'f) fs_api" and objs env tab com ino +
  fixes l :: hyper_dir_layout and bucket :: string
  assumes bucket_plain: "CHR ''/'' \<notin> set bucket"
    and absent_com: "ino w root = None \<Longrightarrow> com w root = Map.empty"
    and flush_inode_com: "hf_flush_inode (fa_hf F) root i d fl w = (fir, w') \<Longrightarrow> com w' root = com w root \<or> com w' root = Map.empty"
    and list_sound: "list_objects (fa_s3 F) p w = (pages, w') \<Longrightarrow> ob \<in> set (page_objects pages) \<Longrightarrow> lo_key ob = Some k \<Longrightarrow>
      prefix p k \<and> (\<exists>o'. objs w k = Some o')"
    and file_create: "(\<And>b fl. keeps I (hook b fl) (\<lambda>_. True)) \<Longrightarrow> (\<And>v v'. own_step objs com key v v' \<Longrightarrow> I v \<Longrightarrow> I v') \<Longrightarrow>
      keeps I (io_bind (fa_file_create F hook (''s3://'' @ bucket @ ''/'' @ key) rdonly mode) (\<lambda>f. with_handle f (fa_file_flush F))) (\<lambda>_. True)"
    and new_index: "fa_bmap_new F = Ok b \<Longrightarrow> tab b = Map.empty"
begin

abbreviation "Inv \<equiv> fs_inv (fa_ext F) l objs com"
abbreviation "root_of \<equiv> dir_key (fa_ext F) l"

abbreviation "usable \<equiv> handle_ok (fa_ext F) l tab"

lemma empty_index: "dir_inv (fa_ext F) Map.empty"
  by (simp add: dir_inv_def probe_inv_def index_map_def)

lemma inv_env: "env w w' \<Longrightarrow> Inv w \<Longrightarrow> Inv w'"
  using env_same [of w w'] by (simp add: fs_inv_def)

lemma keeps_reads: "reads env m \<Longrightarrow> keeps Inv m (\<lambda>_. True)"
  by (rule keepsI) (auto dest: readsD inv_env)

lemma guarded_not_owned: "guarded (fa_ext F) l k \<Longrightarrow> \<not> hf_owned (child_key (fa_ext F) l d u) k"
proof
  assume g: "guarded (fa_ext F) l k" and o: "hf_owned (child_key (fa_ext F) l d u) k"
  then have "prefix (child_key (fa_ext F) l d u) k" by (auto simp: hf_owned_def prefix_def)
  from child_key_not_txn [OF this] g o scatter_not_owned_child show False by (auto simp: guarded_def)
qed

lemma dir_is_child: "root_of p = child_key (fa_ext F) l True p"
  by (simp add: child_key_def)

lemma uri_root:
  assumes "staging_from F (fa_new_s3_uri F (''s3://'' @ bucket @ ''/'' @ key)) w = (Ok root, w')"
  shows "root = key"
  using staging_Ok [of bucket key w root w'] assms bucket_plain by (simp add: staging_from_def)

section \<open>The calls of the library\<close>

lemma keeps_staging:
  "keeps Inv (staging_from F (fa_new_s3_uri F (dir_uri (fa_ext F) l bucket p))) (\<lambda>root. root = root_of p)"
  "keeps Inv (staging_from F (fa_new_s3_uri F (file_uri (fa_ext F) l bucket p))) (\<lambda>root. root = file_key (fa_ext F) l p)"
  "keeps Inv (staging_from F (fa_new_s3_uri F (''s3://'' @ bucket @ ''/'' @ key))) (\<lambda>root. root = key)"
proof -
  show k: "keeps Inv (staging_from F (fa_new_s3_uri F (''s3://'' @ bucket @ ''/'' @ key))) (\<lambda>root. root = key)" for key
  proof (rule keepsI)
    fix w r w' assume run: "staging_from F (fa_new_s3_uri F (''s3://'' @ bucket @ ''/'' @ key)) w = (r, w')" and inv: "Inv w"
    from inv_env [OF readsD [OF reads_staging run] inv] uri_root [of key w _ w'] run
    show "Inv w' \<and> (\<forall>root. r = Ok root \<longrightarrow> root = key)" by simp
  qed
  show "keeps Inv (staging_from F (fa_new_s3_uri F (dir_uri (fa_ext F) l bucket p))) (\<lambda>root. root = root_of p)"
    "keeps Inv (staging_from F (fa_new_s3_uri F (file_uri (fa_ext F) l bucket p))) (\<lambda>root. root = file_key (fa_ext F) l p)"
    unfolding dir_uri_def file_uri_def by (rule k)+
qed

lemma keeps_flush_inode:
  assumes "root = child_key (fa_ext F) l d u"
  shows "keeps Inv (hf_flush_inode (fa_hf F) root i od fl) (\<lambda>_. True)"
proof (rule keepsI)
  fix w r w' assume run: "hf_flush_inode (fa_hf F) root i od fl w = (r, w')" and inv: "Inv w"
  note any = flush_inode_any [OF run]
  have "Inv w'"
  proof (rule fs_inv_step [OF inv])
    show "objs w' k = objs w k \<or> objs w' k = None" if "guarded (fa_ext F) l k" for k
      using conjunct1 [OF any, rule_format, of k] guarded_not_owned [OF that, of d u] assms by simp
    show "com w' (root_of p) = com w (root_of p) \<or> dir_inv (fa_ext F) (com w' (root_of p))" for p
    proof (cases "root_of p = root")
      case True
      with flush_inode_com [OF run] empty_index show ?thesis by auto
    next
      case False
      with conjunct1 [OF conjunct2 [OF any], rule_format, of "root_of p"] show ?thesis by simp
    qed
  qed
  then show "Inv w' \<and> (\<forall>a. r = Ok a \<longrightarrow> True)" by simp
qed

lemma keeps_unlink:
  assumes "root = child_key (fa_ext F) l d u"
  shows "keeps Inv (hf_unlink (fa_hf F) root) (\<lambda>_. True)"
proof (rule keepsI)
  fix w r w' assume run: "hf_unlink (fa_hf F) root w = (r, w')" and inv: "Inv w"
  note any = unlink_any [OF run]
  have "Inv w'"
  proof (rule fs_inv_step [OF inv])
    show "objs w' k = objs w k \<or> objs w' k = None" for k using spec [OF conjunct1 [OF any], of k] by (elim disjE conjE) simp_all
    show "com w' (root_of p) = com w (root_of p) \<or> dir_inv (fa_ext F) (com w' (root_of p))" for p
    proof (cases "root_of p = root")
      case True
      with conjunct1 [OF conjunct2 [OF any]] absent_com [of w' root] empty_index show ?thesis by auto
    next
      case False
      with conjunct2 [OF conjunct2 [OF any], rule_format, of "root_of p"] child_key_not_nested [of l d u True p] assms
      show ?thesis by (simp add: dir_is_child)
    qed
  qed
  then show "Inv w' \<and> (\<forall>a. r = Ok a \<longrightarrow> True)" by simp
qed

lemma hkeeps_flush [keeps_rules]: "hkeeps Inv (usable p) (hf_flush (fa_hf F)) (\<lambda>_. True)"
proof (rule hkeepsI)
  fix h w r h' w' assume run: "hf_flush (fa_hf F) (h, w) = (r, (h', w'))" and inv: "Inv w" and us: "usable p h"
  note any = flush_any [OF run]
  have p: "h_root h = root_of p" and t: "dir_inv (fa_ext F) (tab (h_bmap h))" using us by (simp_all add: handle_ok_def)
  have "Inv w'"
  proof (rule fs_inv_step [OF inv])
    show "objs w' k = objs w k \<or> objs w' k = None" if "guarded (fa_ext F) l k" for k
      using conjunct1 [OF conjunct2 [OF conjunct2 [OF any]], rule_format, of k] guarded_not_owned [OF that, of True p] p
      by (simp add: dir_is_child)
    show "com w' (root_of q) = com w (root_of q) \<or> dir_inv (fa_ext F) (com w' (root_of q))" for q
    proof (cases "root_of q = h_root h")
      case True
      with conjunct1 [OF conjunct2 [OF any]] t show ?thesis by auto
    next
      case False
      with conjunct2 [OF conjunct2 [OF conjunct2 [OF any]], rule_format, of "root_of q"] show ?thesis by simp
    qed
  qed
  moreover have "usable p h'" if "r = Ok a" for a
    using flush_Ok [OF run [unfolded that]] conjunct1 [OF any] us by (simp add: handle_ok_def)
  ultimately show "Inv w' \<and> (\<forall>a. r = Ok a \<longrightarrow> usable p h' \<and> True)" by simp
qed

text \<open>Objects outside the guarded keys, and intents.\<close>

lemma inv_put:
  assumes run: "put_object (fa_s3 F) k b c w = (r, w')" and inv: "Inv w"
    and own: "\<And>p. \<not> hf_owned (root_of p) k" and g: "\<not> guarded (fa_ext F) l k"
  shows "Inv w'"
proof (rule fs_inv_step [OF inv])
  show "objs w' j = objs w j \<or> objs w' j = None" if "guarded (fa_ext F) l j" for j
    using put_other [OF run, of j] g that by (cases "j = k") auto
  show "com w' (root_of p) = com w (root_of p) \<or> dir_inv (fa_ext F) (com w' (root_of p))" for p
    using put_com [OF run own] by simp
qed

lemma inv_put_intent:
  assumes run: "put_object (fa_s3 F) (txn_key l t) (rename_serialize (fa_ext F) it) c w = (r, w')" and inv: "Inv w"
    and nm: "utf8_valid (ri_src_name it)" "utf8_valid (ri_dst_name it)" "storable (ri_dst_name it)"
  shows "Inv w'"
proof -
  let ?k = "txn_key l t"
  have txn: "prefix (txn_prefix l) ?k" by (simp add: txn_key_def txn_prefix_def)
  have own: "\<not> prefix (root_of p) ?k" for p using child_key_not_txn [of _ l True p ?k] txn by (auto simp: child_key_def)
  have c: "com w' (root_of p) = com w (root_of p)" for p
    using put_com [OF run, of "root_of p"] own [of p] by (auto simp: hf_owned_def prefix_def)
  have o: "objs w' k = objs w k" if "k \<noteq> ?k" for k using put_other [OF run that] .
  have dirs: "dir_ok (fa_ext F) (objs w') (com w' (root_of p)) (root_of p)" for p
  proof (rule dir_ok_shrink [OF fs_invD [OF inv, of p]])
    show "objs w' k = objs w k \<or> objs w' k = None" if "prefix (scatter_inodes_path (root_of p)) k" for k
    proof (rule disjI1, rule o, rule notI)
      assume "k = ?k"
      with that own [of p] show False by (auto simp: scatter_inodes_path_def prefix_def)
    qed
  qed (use c in simp)
  have new: "objs w' ?k = objs w ?k \<or> (\<exists>ob. objs w' ?k = Some ob \<and> ob_body ob = rename_serialize (fa_ext F) it)"
  proof (cases r)
    case (Inl e)
    from put_Err [OF run [unfolded Inl]] env_same show ?thesis by (metis fun_upd_same)
  next
    case (Inr et)
    from put_Ok [OF run [unfolded Inr]] show ?thesis by (metis fun_upd_same)
  qed
  have "intents_ok (fa_ext F) l (objs w')"
    unfolding intents_ok_def
  proof (intro allI impI)
    fix k ob i
    assume k: "objs w' k = Some ob" "prefix (txn_prefix l) k" "ends_with k ''.intent''" "rename_parse (fa_ext F) (ob_body ob) = Ok i"
    show "utf8_valid (ri_dst_name i) \<and> storable (ri_dst_name i)"
    proof (cases "objs w' k = objs w k")
      case True
      with inv k show ?thesis by (auto simp: fs_inv_def intents_ok_def)
    next
      case False
      with o new k(1) have "ob_body ob = rename_serialize (fa_ext F) it" by (metis option.inject)
      with k(4) rename_roundtrip [OF nm(1,2)] nm show ?thesis by simp
    qed
  qed
  with dirs show ?thesis by (simp add: fs_inv_def)
qed

lemma keeps_delete:
  assumes "\<And>p. \<not> hf_owned (root_of p) k"
  shows "keeps Inv (delete_object (fa_s3 F) k) (\<lambda>_. True)"
proof (rule keepsI)
  fix w r w' assume run: "delete_object (fa_s3 F) k w = (r, w')" and inv: "Inv w"
  then obtain q where q: "delete_obj (fa_s3 F) k None w = (q, w')"
    by (auto simp: delete_object_def split: prod.splits sum.splits)
  have "objs w' k = objs w k \<or> objs w' k = None"
  proof (cases q)
    case (Inl e)
    from delete_Err [OF q [unfolded Inl]] env_same show ?thesis by (metis fun_upd_same)
  next
    case (Inr u)
    from delete_Ok [OF q [unfolded Inr]] show ?thesis by (metis fun_upd_same)
  qed
  then have "Inv w'"
    using delete_other [OF q] delete_com [OF q assms] by (intro fs_inv_step [OF inv]) (metis, simp)
  then show "Inv w' \<and> (\<forall>a. r = Ok a \<longrightarrow> True)" by simp
qed

lemma txn_not_owned: "prefix (txn_prefix l) k \<Longrightarrow> \<not> hf_owned (root_of p) k"
  using child_key_not_txn [of "fa_ext F" l True p k] by (auto simp: hf_owned_def child_key_def prefix_def)

text \<open>Scatter objects.\<close>

lemma inv_emit:
  assumes run: "emit_scatter_event (fa_ext F) (fa_s3 F) (root_of p) nm u buf op w = (r, w')" and inv: "Inv w"
    and nm: "nm \<noteq> []" "utf8_valid nm" "storable nm" and op: "op \<noteq> Unknown"
  shows "Inv w'"
proof -
  note ok = fs_invD [OF inv, of p]
  have bang: "CHR ''!'' \<notin> set (root_of p)" using dir_okD(1) [OF ok] by (simp add: folder_ok_def)
  from emit_any [OF bang nm(1,2) op run] consider "env w w'"
    | s where "s_filename s = nm" "scatter_added (fa_ext F) objs (root_of p) s buf w w'"
      "\<And>c. \<not> hf_owned c (s_key s) \<Longrightarrow> com w' c = com w c" by auto
  then show ?thesis
  proof cases
    case 1
    then show ?thesis using inv by (rule inv_env)
  next
    case (2 s)
    have pre: "prefix (scatter_inodes_path (root_of p)) (s_key s)" and o: "\<And>k. k \<noteq> s_key s \<Longrightarrow> objs w' k = objs w k"
      using 2(2) by (simp_all add: scatter_added_def)
    have c: "com w' (root_of q) = com w (root_of q)" for q
      using 2(3) scatter_not_owned_child [OF pre, of True q] by (simp add: dir_is_child)
    have "dir_ok (fa_ext F) (objs w') (com w' (root_of q)) (root_of q)" for q
    proof (cases "q = p")
      case True
      with added_dir_ok [OF 2(2) ok] 2(1) nm(3) c show ?thesis by simp
    next
      case False
      show ?thesis
      proof (rule dir_ok_shrink [OF fs_invD [OF inv, of q]])
        show "objs w' k = objs w k \<or> objs w' k = None" if k: "prefix (scatter_inodes_path (root_of q)) k" for k
        proof (rule disjI1, rule o, rule notI)
          assume "k = s_key s"
          with k pre have "prefix (child_key (fa_ext F) l True q @ ''/'') k" "prefix (child_key (fa_ext F) l True p @ ''/'') k"
            by (auto simp: scatter_inodes_path_def child_key_def prefix_def)
          from child_key_prefix(2) [OF this] False show False by simp
        qed
      qed (use c in simp)
    qed
    moreover have "\<not> prefix (txn_prefix l) (s_key s)"
      by (rule child_key_not_txn [of "fa_ext F" l True p]) (use pre in \<open>auto simp: scatter_inodes_path_def child_key_def prefix_def\<close>)
    with o inv have "intents_ok (fa_ext F) l (objs w')" unfolding fs_inv_def intents_ok_def by metis
    ultimately show ?thesis by (simp add: fs_inv_def)
  qed
qed

lemma keeps_emit:
  assumes "root = root_of p" and "nm \<noteq> []" and "utf8_valid nm" and "storable nm" and "op \<noteq> Unknown"
  shows "keeps Inv (emit_scatter_event (fa_ext F) (fa_s3 F) root nm u buf op) (\<lambda>_. True)"
  by (rule keepsI) (use assms inv_emit in blast)

lemma keeps_remove_scatter:
  assumes ks: "\<And>k. k \<in> set ks \<Longrightarrow> \<exists>p. prefix (scatter_inodes_path (root_of p)) k"
  shows "keeps Inv (remove_scatter_inodes (fa_s3 F) ks) (\<lambda>_. True)"
proof (rule keepsI)
  fix w r w' assume run: "remove_scatter_inodes (fa_s3 F) ks w = (r, w')" and inv: "Inv w"
  have own: "\<not> hf_owned (root_of q) k" if "k \<in> set ks" for k q
    using ks [OF that] scatter_not_owned_child [of l _ k True q] by (auto simp: dir_is_child)
  have "objs w' k = objs w k \<or> objs w' k = None" for k
    using remove_scatter_shrinks [OF run] .
  moreover have "com w' (root_of q) = com w (root_of q)" for q by (rule remove_scatter_com [OF run own])
  ultimately have "Inv w'" by (intro fs_inv_step [OF inv]) simp_all
  then show "Inv w' \<and> (\<forall>a. r = Ok a \<longrightarrow> True)" by simp
qed

end

end
