(* ===== verification/Fs_Keeps.thy ===== *)
theory Fs_Keeps
  imports Fs_Invariant
begin

text \<open>
  Every operation of \<open>src/fs.rs\<close> keeps the invariant of the file system, whether it succeeds, fails or
  panics, and leaves a handle usable when it succeeds.
\<close>

lemma io_bind_assoc: "io_bind m (\<lambda>a. io_bind (f a) g) = io_bind (io_bind m f) g"
  by (auto simp: io_bind_def fun_eq_iff split: prod.splits result.splits)

text \<open>What a directory may be asked to store: a non-empty name of at most 255 bytes, UTF-8, without NUL.\<close>

definition good_name :: "string \<Rightarrow> bool" where
  "good_name nm = (nm \<noteq> [] \<and> utf8_valid nm \<and> storable nm)"

section \<open>Listings decode to good names\<close>

lemma decode_objects_origin:
  "decode_objects x obs acc = Ok ss \<Longrightarrow> s \<in> set ss \<Longrightarrow> s \<in> set acc \<or> (\<exists>ob \<in> set obs. decode_listed x ob = Ok (Some s))"
proof (induction obs arbitrary: acc)
  case (Cons ob obs)
  from Cons.prems(1) obtain r where r: "decode_listed x ob = Ok r"
    and rest: "(case r of None \<Rightarrow> decode_objects x obs acc | Some s \<Rightarrow> decode_objects x obs (acc @ [s])) = Ok ss"
    by (auto elim: res_bind_OkE)
  show ?case using Cons.IH [OF _ Cons.prems(2)] r rest by (cases r) fastforce+
qed simp

lemma decode_pages_origin:
  "decode_pages x pages acc = Ok ss \<Longrightarrow> s \<in> set ss \<Longrightarrow> s \<in> set acc \<or> (\<exists>ob \<in> set (page_objects pages). decode_listed x ob = Ok (Some s))"
proof (induction x pages acc rule: decode_pages.induct)
  case (3 x objects pages acc)
  from 3(2) obtain acc' where a: "decode_objects x objects acc = Ok acc'" "decode_pages x pages acc' = Ok ss"
    by (auto elim: res_bind_OkE)
  from 3(1) [OF a(2) 3(3)] decode_objects_origin [OF a(1)] show ?case by (auto simp: page_objects_def)
qed (auto simp: page_objects_def)

lemma fold_update_origin:
  "(k, v) \<in> set (fold (\<lambda>p. AList.update (f p) (g p)) ps acc) \<Longrightarrow> (k, v) \<in> set acc \<or> (\<exists>p \<in> set ps. k = f p \<and> v = g p)"
proof (induction ps arbitrary: acc)
  case (Cons p ps)
  from Cons.IH [of "AList.update (f p) (g p) acc"] Cons.prems
  have "(k, v) \<in> set (AList.update (f p) (g p) acc) \<or> (\<exists>q \<in> set ps. k = f q \<and> v = g q)" by simp
  moreover have "(k, v) \<in> set (AList.update a b al) \<Longrightarrow> (k, v) \<in> set al \<or> k = a \<and> v = b" for a b al
    by (induction al) (auto split: if_splits)
  ultimately show ?case by auto
qed simp

lemma collect_origin:
  "collect_scatter_inodes s3 ss w = (Ok fs, w') \<Longrightarrow> (s, b) \<in> set fs \<Longrightarrow> s \<in> set ss"
proof (induction ss arbitrary: w fs)
  case (Cons t ss)
  obtain q w1 where g: "get_object s3 (s_key t) w = (q, w1)" by (cases "get_object s3 (s_key t) w")
  from Cons.prems g consider "collect_scatter_inodes s3 ss w1 = (Ok fs, w')"
    | body rest where "collect_scatter_inodes s3 ss w1 = (Ok rest, w')" "fs = (t, body) # rest"
    by (auto split: sum.splits option.splits if_splits elim!: io_bind_OkE simp: io_return_def)
  then show ?case using Cons.IH Cons.prems(2) by cases auto
qed (simp add: io_return_def)

text \<open>The pending changes of a directory: every name is good, every entry fits its name.\<close>

definition good_changes :: "string \<Rightarrow> 'i scatter_changes \<Rightarrow> bool" where
  "good_changes root c =
     ((\<forall>k \<in> set (all_keys c). prefix (scatter_inodes_path root) k) \<and> (\<forall>(nm, e) \<in> set (upserts c). fits_name nm e) \<and>
      (\<forall>(nm, _) \<in> set (predeletes c). good_name nm))"

context fs_machine
begin

lemma keeps_list:
  assumes "root = root_of p"
  shows "keeps Inv (list_scatter_inodes (fa_ext F) (fa_s3 F) root)
    (\<lambda>ss. \<forall>s \<in> set ss. prefix (scatter_inodes_path root) (s_key s) \<and> good_name (s_filename s))"
proof (rule keepsI)
  fix w r w' assume run: "list_scatter_inodes (fa_ext F) (fa_s3 F) root w = (r, w')" and inv: "Inv w"
  obtain pages where pg: "list_objects (fa_s3 F) (scatter_inodes_path root) w = (pages, w')" and r: "r = decode_pages (fa_ext F) pages []"
    using run by (auto simp: list_scatter_inodes_def list_scatter_with_prefix_def split: prod.splits)
  note ok = fs_invD [OF inv, of p, folded assms]
  have "prefix (scatter_inodes_path root) (s_key s) \<and> good_name (s_filename s)" if "r = Ok ss" "s \<in> set ss" for ss s
  proof -
    from decode_pages_origin [of "fa_ext F" pages "[]" ss s] r that obtain ob where ob: "ob \<in> set (page_objects pages)"
      "decode_listed (fa_ext F) ob = Ok (Some s)" by auto
    then obtain k t where k: "lo_key ob = Some k" "path_decode (fa_ext F) k t = Ok s"
      by (auto simp: decode_listed_def elim!: res_bind_OkE split: option.splits if_splits)
    from list_sound [OF pg ob(1) k(1)] obtain o' where o: "prefix (scatter_inodes_path root) k" "objs w k = Some o'" by blast
    note fo = dir_okD(1) [OF ok]
    have bang: "CHR ''!'' \<notin> set root" "scatter_key_ok (fa_ext F) root k" using fo o by (auto simp: folder_ok_def)
    obtain s1 where s1: "path_decode (fa_ext F) k t = Ok s1" "s_key s1 = k" "s_filename s1 \<noteq> []" "utf8_valid (s_filename s1)"
      "\<And>fn. prefix (scatter_inodes_path root @ encode_filename (fa_ext F) fn @ ''/'') k \<longleftrightarrow> fn = s_filename s1"
      by (rule scatter_key_decode [OF bang, of t]) blast
    obtain s2 where s2: "path_decode (fa_ext F) k (ob_mtime o') = Ok s2"
      "\<And>fn. prefix (scatter_inodes_path root @ encode_filename (fa_ext F) fn @ ''/'') k \<longleftrightarrow> fn = s_filename s2"
      by (rule scatter_key_decode [OF bang, of "ob_mtime o'"]) blast
    have "s2 \<in> pending (fa_ext F) (objs w) (scatter_inodes_path root)" using o s2(1) by (auto simp: pending_def)
    from dir_okD(3) [OF ok this] s1(5) s2(2) have "storable (s_filename s1)" by metis
    with s1 k(2) o(1) show ?thesis by (simp add: good_name_def)
  qed
  moreover have "Inv w'" using inv_env [OF list_env [OF pg] inv] .
  ultimately show "Inv w' \<and> (\<forall>ss. r = Ok ss \<longrightarrow> (\<forall>s \<in> set ss. prefix (scatter_inodes_path root) (s_key s) \<and> good_name (s_filename s)))"
    by blast
qed

lemma keeps_changes:
  assumes root: "root = root_of p"
  shows "keeps Inv (collect_scatter_changes (fa_dir F) root) (good_changes root)"
proof (rule keepsI)
  fix w r w' assume run: "collect_scatter_changes (fa_dir F) root w = (r, w')" and inv: "Inv w"
  have "good_changes root c" if "r = Ok c" for c
  proof -
    from run that obtain ss w1 lv fe w2 ups pr where
      l: "list_scatter_inodes (fa_ext F) (fa_s3 F) root w = (Ok ss, w1)" and lv: "filter_last_view (dp_hm (fa_dir F)) ss = Ok lv"
      and fe: "collect_scatter_inodes (fa_s3 F) (filter (\<lambda>s. s_op s = Create \<or> s_op s = Update) lv) w1 = (Ok fe, w2)"
      and ups: "build_upserts (fa_ino F) fe [] = Ok ups"
      and pr: "collect_scatter_inodes (fa_s3 F) (filter (\<lambda>s. s_op s = PreDelete) lv) w2 = (Ok pr, w')"
      and c: "all_keys c = map s_key ss" "upserts c = ups" "predeletes c = build_predeletes pr"
      unfolding collect_scatter_changes_def Let_def by (auto elim!: io_bind_OkE simp: io_lift_def io_return_def)
    have ss: "prefix (scatter_inodes_path root) (s_key s) \<and> good_name (s_filename s)" if "s \<in> set ss" for s
      using keepsD [OF keeps_list [OF root] l inv] that by simp
    have sub: "set lv \<subseteq> set ss" using filter_last_view_spec(3) [OF lv] by (auto simp: is_latest_def)
    have "fits_name nm e" if u: "(nm, e) \<in> set ups" for nm e
    proof -
      from build_upserts_Ok [OF ups] obtain f where
        f: "ups = fold (\<lambda>q. AList.update (s_filename (fst q)) (entry_from (f (snd q)) (s_uuid (fst q)) (s_filename (fst q)))) fe []" by blast
      from fold_update_origin [OF u [unfolded f]] obtain s b where s: "(s, b) \<in> set fe" "nm = s_filename s"
        "e = entry_from (f b) (s_uuid s) (s_filename s)" by auto
      with collect_origin [OF fe s(1)] sub ss show ?thesis by (auto simp: good_name_def intro!: fits_name_entry)
    qed
    moreover have "good_name nm" if v: "(nm, v) \<in> set (build_predeletes pr)" for nm v
    proof -
      have eq: "build_predeletes pr = fold (\<lambda>q. AList.update (s_filename (fst q)) (s_uuid (fst q), parse_predelete_body (snd q))) pr []"
        unfolding build_predeletes_def by (rule fold_cong) (auto split: prod.splits)
      from fold_update_origin [OF v [unfolded eq]] obtain s b where s: "(s, b) \<in> set pr" "nm = s_filename s" by auto
      with collect_origin [OF pr s(1)] sub ss show ?thesis by auto
    qed
    ultimately show ?thesis unfolding good_changes_def c using ss by auto
  qed
  with inv_env [OF readsD [OF reads_collect_changes run] inv] show "Inv w' \<and> (\<forall>c. r = Ok c \<longrightarrow> good_changes root c)" by blast
qed

section \<open>Handles\<close>

lemma hkeeps_reload [keeps_rules]: "hkeeps Inv (usable p) (reload_to_latest (fa_dir F)) (\<lambda>_. True)"
proof (rule hkeepsI)
  fix h w r h' w' assume run: "reload_to_latest (fa_dir F) (h, w) = (r, (h', w'))" and inv: "Inv w" and us: "usable p h"
  note rl = reload_run [OF run]
  have "usable p h'" if "r = Ok a" for a
    using rl(2) rl(3) [OF that] us dir_okD(2) [OF fs_invD [OF inv, of p]] by (simp add: handle_ok_def)
  with inv_env [OF rl(1) inv] show "Inv w' \<and> (\<forall>a. r = Ok a \<longrightarrow> usable p h' \<and> True)" by blast
qed

lemma hkeeps_bmap:
  assumes "\<And>b a b'. dir_inv (fa_ext F) (tab b) \<Longrightarrow> m b = (Ok a, b') \<Longrightarrow> dir_inv (fa_ext F) (tab b') \<and> q a"
  shows "hkeeps Inv (usable p) (on_bmap m) q"
  using assms by (intro hkeepsI) (auto simp: handle_ok_def elim!: on_bmapE)

lemma hkeeps_upsert: "fits_name nm e \<Longrightarrow> hkeeps Inv (usable p) (on_bmap (probe_upsert (fa_ext F) (dp_bt (fa_dir F)) nm e)) (\<lambda>_. True)"
  using idx.upsert_view by (intro hkeeps_bmap) blast

lemma hkeeps_delete [keeps_rules]: "hkeeps Inv (usable p) (on_bmap (probe_delete (fa_ext F) (dp_bt (fa_dir F)) nm)) (\<lambda>_. True)"
  using idx.remove_view by (intro hkeeps_bmap) blast

lemma hkeeps_lookup [keeps_rules]: "hkeeps Inv (usable p) (\<lambda>(h, w). (f h, (h, w))) (\<lambda>_. True)"
  by (rule hkeepsI) simp

lemma upsert_all_inv:
  "dir_inv (fa_ext F) (tab b) \<Longrightarrow> \<forall>(nm, e) \<in> set items. fits_name nm e \<Longrightarrow>
    upsert_all (probe_upsert (fa_ext F) (dp_bt (fa_dir F))) items n b = (Ok m, b') \<Longrightarrow> dir_inv (fa_ext F) (tab b')"
proof (induction items arbitrary: b n)
  case (Cons item items)
  obtain nm e where item: "item = (nm, e)" by (cases item)
  from Cons.prems(3) obtain u b1 where "probe_upsert (fa_ext F) (dp_bt (fa_dir F)) nm e b = (Ok u, b1)"
    "upsert_all (probe_upsert (fa_ext F) (dp_bt (fa_dir F))) items (n + 1) b1 = (Ok m, b')"
    unfolding item by (auto elim: io_bind_OkE)
  with idx.upsert_view [of b nm e u b1] Cons item show ?case by auto
qed (simp add: io_return_def)

lemma remove_all_inv:
  "dir_inv (fa_ext F) (tab b) \<Longrightarrow> remove_all (probe_delete (fa_ext F) (dp_bt (fa_dir F))) items acc b = (Ok r, b') \<Longrightarrow>
    dir_inv (fa_ext F) (tab b') \<and> set r \<subseteq> set acc \<union> set items"
proof (induction items arbitrary: b acc)
  case (Cons item items)
  obtain nm v where item: "item = (nm, v)" by (cases item)
  from Cons.prems(2) obtain hit b1 where rm: "probe_delete (fa_ext F) (dp_bt (fa_dir F)) nm b = (Ok hit, b1)"
    and rest: "remove_all (probe_delete (fa_ext F) (dp_bt (fa_dir F))) items (if hit then acc @ [(nm, v)] else acc) b1 = (Ok r, b')"
    unfolding item by (auto elim: io_bind_OkE)
  have "dir_inv (fa_ext F) (tab b1)" using idx.remove_view [OF Cons.prems(1) rm] by blast
  from Cons.IH [OF this rest] show ?case by (auto simp: item split: if_splits)
qed (simp add: io_return_def)

lemma hkeeps_insert:
  assumes "fits_name nm e"
  shows "hkeeps Inv (usable p) (insert_entry (fa_dir F) nm e) (\<lambda>_. True)"
    "hkeeps Inv (usable p) (insert_entry_excl (fa_dir F) nm e) (\<lambda>_. True)"
  unfolding insert_entry_def insert_entry_excl_def by (intro keeps_rules hkeeps_upsert assms)+

lemma hkeeps_remove [keeps_rules]: "hkeeps Inv (usable p) (remove_entry (fa_dir F) nm) (\<lambda>_. True)"
  unfolding remove_entry_def by (intro keeps_rules)

lemma fits_good: "good_name nm \<Longrightarrow> fits_name nm (entry_from i u nm)"
  by (intro fits_name_entry) (simp_all add: good_name_def)

lemma hkeeps_rename: "good_name nw \<Longrightarrow> hkeeps Inv (usable p) (rename_within (fa_dir F) old nw) (\<lambda>_. True)"
  unfolding rename_within_def by (intro keeps_rules hkeeps_upsert fits_good)

lemma keeps_open:
  "keeps Inv (fs_open_opt F (dir_uri (fa_ext F) l bucket p) rdonly policy) (usable p)"
  "keeps Inv (fs_open F (dir_uri (fa_ext F) l bucket p) rdonly) (usable p)"
  "keeps Inv (fs_open_dir F l bucket p rdonly) (usable p)"
proof -
  have o: "keeps Inv (fs_open_opt F (dir_uri (fa_ext F) l bucket p) rdonly policy) (usable p)"
    for rdonly policy
  proof (rule keepsI)
    fix w r w' assume run: "fs_open_opt F (dir_uri (fa_ext F) l bucket p) rdonly policy w = (r, w')" and inv: "Inv w"
    have "Inv w'" using inv_env [OF readsD [OF reads_open(1) run [unfolded fs_open_opt_def]] inv] .
    moreover have "usable p h" if "r = Ok h" for h
      using open_dir_run [OF bucket_plain run [unfolded that]] dir_okD(2) [OF fs_invD [OF inv, of p]] by (simp add: handle_ok_def)
    ultimately show "Inv w' \<and> (\<forall>h. r = Ok h \<longrightarrow> usable p h)" by blast
  qed
  then show "keeps Inv (fs_open_opt F (dir_uri (fa_ext F) l bucket p) rdonly policy) (usable p)" .
  show "keeps Inv (fs_open F (dir_uri (fa_ext F) l bucket p) rdonly) (usable p)"
    "keeps Inv (fs_open_dir F l bucket p rdonly) (usable p)"
    using o unfolding fs_open_dir_def fs_open_def fs_open_opt_def by blast+
qed

section \<open>Names and links\<close>

lemma keeps_world_reads [keeps_rules]:
  "keeps Inv (now_ms (fa_s3 F)) (\<lambda>_. True)" "keeps Inv (hf_load_inode (fa_hf F) root) (\<lambda>_. True)"
  "keeps Inv (current_nlink F uri) (\<lambda>_. True)" "keeps Inv (read_dir (fa_dir F) root) (\<lambda>_. True)"
  "keeps Inv (read_entry (fa_dir F) root nm) (\<lambda>_. True)" "keeps Inv (get_object_raw (fa_s3 F) k) (\<lambda>_. True)"
  "keeps Inv (get_object_bytes (fa_s3 F) k) (\<lambda>_. True)" "keeps Inv (fs_getattr_fast F uri) (\<lambda>_. True)"
  "keeps Inv (gc_folded F root s) (\<lambda>_. True)" "keeps Inv (fs_list_dir_uuids F l) (\<lambda>_. True)" "keeps Inv (fs_list_file_uuids F l) (\<lambda>_. True)"
  by (rule keeps_reads; blast)+

lemma keeps_emit_good:
  assumes "good_name nm" and "op \<noteq> Unknown"
  shows "keeps Inv (emit_scatter_event (fa_ext F) (fa_s3 F) (root_of p) nm u buf op) (\<lambda>_. True)"
  by (rule keeps_emit [OF refl]) (use assms in \<open>simp_all add: good_name_def\<close>)

lemma keeps_fs_unlink: "good_name nm \<Longrightarrow> keeps Inv (fs_unlink F l bucket p nm u d ret) (\<lambda>_. True)"
  unfolding fs_unlink_def by (intro keeps_rules keeps_bind [OF keeps_staging(1)]) (simp add: keeps_emit_good)

lemma keeps_fs_rmdir: "good_name nm \<Longrightarrow> keeps Inv (fs_rmdir F l bucket p nm u ret) (\<lambda>_. True)"
  unfolding fs_rmdir_def by (intro keeps_rules keeps_bind [OF keeps_open(2)] keeps_fs_unlink)

lemma keeps_nlink_loop: "root = child_key (fa_ext F) l d u \<Longrightarrow> keeps Inv (nlink_loop F root delta now n) (\<lambda>_. True)"
  by (induction n) (auto intro!: keeps_rules keeps_flush_inode)

lemma keeps_adjust_nlink:
  "keeps Inv (adjust_nlink F (''s3://'' @ bucket @ ''/'' @ child_key (fa_ext F) l d u) delta) (\<lambda>_. True)"
  unfolding adjust_nlink_def
proof (rule keeps_bind [OF keeps_staging(3)])
  fix root assume root: "root = child_key (fa_ext F) l d u"
  have "keeps Inv (\<lambda>w. case fa_now F w of (t, w') \<Rightarrow> (Ok (case t of Some n \<Rightarrow> n | None \<Rightarrow> (0, 0)), w')) (\<lambda>_. True)"
    by (rule keeps_reads, rule readsI) (auto split: prod.splits dest: now_env)
  then show "keeps Inv (io_bind (\<lambda>w. case fa_now F w of (t, w') \<Rightarrow> (Ok (case t of Some n \<Rightarrow> n | None \<Rightarrow> (0, 0)), w')) (\<lambda>now.
      nlink_loop F root delta now NLINK_RETRIES)) (\<lambda>_. True)"
    by (intro keeps_rules keeps_nlink_loop [OF root])
qed

lemma file_uri_child: "file_uri (fa_ext F) l bucket u = ''s3://'' @ bucket @ ''/'' @ child_key (fa_ext F) l False u"
  "dir_uri (fa_ext F) l bucket u = ''s3://'' @ bucket @ ''/'' @ child_key (fa_ext F) l True u"
  by (simp_all add: file_uri_def dir_uri_def child_key_def)

lemma keeps_nlink_file [keeps_rules]: "keeps Inv (adjust_nlink F (file_uri (fa_ext F) l bucket u) delta) (\<lambda>_. True)"
  unfolding file_uri_child by (rule keeps_adjust_nlink)

lemma keeps_link_loop:
  assumes "fits_name nm e"
  shows "usable p h \<Longrightarrow>
    keeps Inv (link_loop F (file_uri (fa_ext F) l bucket u) (dir_uri (fa_ext F) l bucket p) nm e h n) (\<lambda>_. True)"
proof (induction n arbitrary: h)
  case 0
  show ?case unfolding link_loop.simps by (intro keeps_rules)
next
  case (Suc n)
  show ?case unfolding link_loop.simps
    by (intro keeps_bind [OF keeps_open(1)] keeps_on_handle [OF hkeeps_insert(2) [OF assms]] keeps_rules Suc.IH) (rule Suc.prems)
qed

lemma keeps_fs_link: "good_name nm \<Longrightarrow> keeps Inv (fs_link F l bucket p nm u) (\<lambda>_. True)"
  unfolding fs_link_def Let_def
  by (rule keeps_bind [OF keeps_open(1)], intro keeps_rules keeps_link_loop fits_good keeps_reads [OF reads_staging])

section \<open>New directories\<close>

lemma keeps_new:
  assumes "keeps Inv (fa_flush_inode F hook (root_of u) (fa_to_raw F (fa_default_dir F mode) b) (fa_no_state F) FlagCreate) (\<lambda>_. True)"
    and "fa_bmap_new F = Ok b"
  shows "keeps Inv (dir_new F hook (root_of u) rdonly policy mode) (usable u)"
proof (rule keepsI)
  fix w r w' assume run: "dir_new F hook (root_of u) rdonly policy mode w = (r, w')" and inv: "Inv w"
  let ?i = "fa_to_raw F (fa_default_dir F mode) b"
  obtain q w1 where fl: "fa_flush_inode F hook (root_of u) ?i (fa_no_state F) FlagCreate w = (q, w1)"
    by (cases "fa_flush_inode F hook (root_of u) ?i (fa_no_state F) FlagCreate w")
  from run assms(2) fl new_index [OF assms(2)] empty_index have "w' = w1" "\<forall>h. r = Ok h \<longrightarrow> usable u h"
    by (auto simp: dir_new_def io_bind_def io_lift_def with_handle_def dir_flush_inode_def Let_def io_return_def handle_ok_def split: result.splits)
  with keepsD [OF assms(1) fl inv] show "Inv w' \<and> (\<forall>h. r = Ok h \<longrightarrow> usable u h)" by simp
qed

lemma keeps_staging_create: "keeps Inv (fa_staging_create F (dir_uri (fa_ext F) l bucket u)) (\<lambda>root. root = root_of u)"
proof (rule keepsI)
  fix w r w' assume run: "fa_staging_create F (dir_uri (fa_ext F) l bucket u) w = (r, w')" and inv: "Inv w"
  from inv_env [OF create_env [OF run] inv] create_Ok [of bucket "root_of u" w _ w'] run bucket_plain
  show "Inv w' \<and> (\<forall>root. r = Ok root \<longrightarrow> root = root_of u)" by (simp add: dir_uri_def)
qed

lemma keeps_hyper_create:
  assumes "\<And>b. keeps Inv (fa_flush_inode F hook (root_of u) (fa_to_raw F (fa_default_dir F mode) b) (fa_no_state F) FlagCreate) (\<lambda>_. True)"
  shows "keeps Inv (hyper_create F hook (fa_new_s3_uri F (dir_uri (fa_ext F) l bucket u)) rdonly policy mode) (usable u)"
proof -
  have c: "keeps Inv (io_lift (to_dir_staging_config (fa_new_s3_uri F (dir_uri (fa_ext F) l bucket u))))
      (\<lambda>dc. root_uri dc = dir_uri (fa_ext F) l bucket u)"
    by (rule keepsI) (auto simp: io_lift_def to_dir_staging_config_def split: if_splits)
  have n: "keeps Inv (dir_new F hook (root_of u) rdonly policy mode) (usable u)"
  proof (cases "fa_bmap_new F")
    case (Ok b)
    with assms show ?thesis by (rule keeps_new)
  qed (auto simp: keeps_def dir_new_def io_bind_def io_lift_def)
  show ?thesis unfolding hyper_create_def
  proof (rule keeps_bind [OF c])
    fix dc assume "root_uri dc = dir_uri (fa_ext F) l bucket u"
    with n show "keeps Inv (io_bind (fa_staging_create F (root_uri dc)) (\<lambda>root. dir_new F hook root rdonly policy mode)) (usable u)"
      by (auto intro: keeps_bind [OF keeps_staging_create])
  qed
qed

lemma keeps_fs_create: "keeps Inv (fs_create F (dir_uri (fa_ext F) l bucket u) rdonly mode) (usable u)"
  unfolding fs_create_def by (rule keeps_hyper_create) (unfold flush_no_hook, rule keeps_flush_inode [OF dir_is_child])

lemma keeps_create_root: "keeps Inv (fs_create_root F l bucket rdonly mode) (usable ROOT_DIR_UUID)"
  unfolding fs_create_root_def root_dir_uri_def by (rule keeps_fs_create)

lemma keeps_open_or_create:
  "keeps Inv (fs_open_or_create_with_default_opt F (dir_uri (fa_ext F) l bucket u) rdonly mode) (usable u)"
  unfolding fs_open_or_create_with_default_opt_def do_open_or_create_def
  by (rule keeps_bind [OF keeps_try [OF keeps_open(1) [unfolded fs_open_opt_def]]],
      intro keeps_rules keeps_fs_create [unfolded fs_create_def] keeps_return) simp

lemma keeps_fresh_child:
  "keeps Inv (fresh_child F l bucket p nm) (\<lambda>(u, ic). ic = \<lparr> parent_dir_staging = root_of p, ic_name = nm, ic_uuid = u \<rparr>)"
  unfolding fresh_child_def
proof (rule keeps_seq)
  show "keeps Inv (\<lambda>w. case fa_new_uuid F w of (u, w') \<Rightarrow> (Ok u, w')) (\<lambda>_. True)"
    by (rule keeps_reads, rule readsI) (auto split: prod.splits dest: uuid_env)
qed (intro keeps_bind [OF keeps_staging(1)] keeps_return, simp)

lemma keeps_hook:
  "good_name nm \<Longrightarrow> keeps Inv (before_flush_inode F \<lparr> parent_dir_staging = root_of p, ic_name = nm, ic_uuid = u \<rparr> b fl) (\<lambda>_. True)"
  unfolding before_flush_inode_def by (cases fl) (auto intro!: keeps_emit_good keeps_pure)

lemma keeps_create_default:
  assumes nm: "good_name nm"
  shows "keeps Inv (fs_create_default F l bucket p nm rdonly mode) (\<lambda>(h, u). usable u h)"
  unfolding fs_create_default_def
proof (rule keeps_bind [OF keeps_fresh_child], goal_cases)
  case (1 a)
  then obtain u where a: "a = (u, \<lparr> parent_dir_staging = root_of p, ic_name = nm, ic_uuid = u \<rparr>)" by (cases a) auto
  have "keeps Inv (fs_create_with_interceptor F (before_flush_inode F \<lparr> parent_dir_staging = root_of p, ic_name = nm, ic_uuid = u \<rparr>)
      (dir_uri (fa_ext F) l bucket u) rdonly mode) (usable u)"
    unfolding fs_create_with_interceptor_def
    by (rule keeps_hyper_create, unfold flush_hook, intro keeps_seq keeps_hook nm keeps_flush_inode [OF dir_is_child])
  then show ?case unfolding a prod.case by (rule keeps_bind) (simp add: keeps_return)
qed

lemma own_file_step:
  assumes own: "own_step objs com (child_key (fa_ext F) l False u) w w'" and inv: "Inv w"
  shows "Inv w'"
proof (rule fs_inv_step [OF inv])
  show "objs w' k = objs w k \<or> objs w' k = None" if "guarded (fa_ext F) l k" for k
    using own guarded_not_owned [OF that] by (simp add: own_step_def)
  show "com w' (root_of p) = com w (root_of p) \<or> dir_inv (fa_ext F) (com w' (root_of p))" for p
    using own child_key_eq [of l True p False u] by (simp add: own_step_def dir_is_child)
qed

lemma keeps_create_file:
  assumes nm: "good_name nm"
  shows "keeps Inv (fs_create_file F l bucket p nm rdonly mode) (\<lambda>_. True)"
  unfolding fs_create_file_def
proof (rule keeps_bind [OF keeps_fresh_child], goal_cases)
  case (1 a)
  then obtain u ic where a: "a = (u, ic)" and ic: "ic = \<lparr> parent_dir_staging = root_of p, ic_name = nm, ic_uuid = u \<rparr>" by (cases a) auto
  have f: "keeps Inv (io_bind (fa_file_create F (before_flush_inode F ic) (file_uri (fa_ext F) l bucket u) rdonly mode)
      (\<lambda>f. with_handle f (fa_file_flush F))) (\<lambda>_. True)"
    unfolding file_uri_child ic by (rule file_create) (use keeps_hook [OF nm] own_file_step in blast)+
  show ?case unfolding a prod.case io_bind_assoc by (intro keeps_seq [OF f] keeps_rules)
qed

end

end
