(* ===== verification/Fs_Upkeep.thy ===== *)
theory Fs_Upkeep
  imports Fs_Keeps
begin

text \<open>
  The maintenance operations of \<open>src/fs.rs\<close> keep the invariant too: compaction with its lease and its second
  phase, the two garbage collectors, the cross-directory rename with its crash points and its recovery,
  and the attributes.
\<close>

text \<open>The names that a compaction reports for its second phase are good.\<close>

definition good_stats :: "compact_stats \<Rightarrow> bool" where
  "good_stats st = (\<forall>(nm, _) \<in> set (predeleted st). good_name nm)"

section \<open>Objects beside a child\<close>

context fs_machine
begin

text \<open>The lease, the lock object and the extended attributes of a child are read by no invariant.\<close>

lemma side_key:
  assumes pre: "prefix (child_key (fa_ext F) l d u @ ''/'') k" and hd: "hyperdir_key (child_key (fa_ext F) l d u) k"
  shows "\<not> hf_owned (root_of p) k"
proof
  assume o: "hf_owned (root_of p) k"
  then have "prefix (child_key (fa_ext F) l True p @ ''/'') k" by (simp add: hf_owned_def dir_is_child)
  from child_key_prefix [OF pre this] hd o show False by (auto simp: hf_owned_def dir_is_child)
qed

lemma side_not_guarded:
  assumes pre: "prefix (child_key (fa_ext F) l d u @ ''/'') k" and ns: "\<not> prefix (scatter_inodes_path (child_key (fa_ext F) l d u)) k"
  shows "\<not> guarded (fa_ext F) l k"
proof
  assume g: "guarded (fa_ext F) l k"
  have "\<not> prefix (txn_prefix l) k" by (rule child_key_not_txn [of "fa_ext F" l d u]) (use pre in \<open>auto simp: prefix_def\<close>)
  with g obtain p where p: "prefix (scatter_inodes_path (root_of p)) k" by (auto simp: guarded_def)
  then have "prefix (child_key (fa_ext F) l True p @ ''/'') k" by (auto simp: scatter_inodes_path_def dir_is_child prefix_def)
  from child_key_prefix [OF pre this] p ns show False by (simp add: dir_is_child)
qed

lemma lease_key: "\<not> hf_owned (root_of q) (compact_lease_path (root_of p))" "\<not> guarded (fa_ext F) l (compact_lease_path (root_of p))"
proof -
  have pre: "prefix (child_key (fa_ext F) l True p @ ''/'') (compact_lease_path (root_of p))"
    by (simp add: compact_lease_path_def dir_is_child)
  show "\<not> hf_owned (root_of q) (compact_lease_path (root_of p))"
    by (rule side_key [OF pre]) (simp add: hyperdir_key_def dir_is_child)
  show "\<not> guarded (fa_ext F) l (compact_lease_path (root_of p))"
    by (rule side_not_guarded [OF pre]) (use lease_not_scatter [of "root_of p"] in \<open>simp add: dir_is_child\<close>)
qed

lemma inv_put_lease: "put_object (fa_s3 F) (compact_lease_path (root_of p)) b c w = (r, w') \<Longrightarrow> Inv w \<Longrightarrow> Inv w'"
  by (rule inv_put) (use lease_key in auto)

lemma keeps_acquire:
  "keeps Inv (acquire_compact_lease (fa_ext F) (fa_s3 F) (root_of p) ttl) (\<lambda>g. cl_lease_key g = compact_lease_path (root_of p))"
proof (rule keepsI)
  fix w r w' assume run: "acquire_compact_lease (fa_ext F) (fa_s3 F) (root_of p) ttl w = (r, w')" and inv: "Inv w"
  let ?k = "compact_lease_path (root_of p)"
  have take: "Inv v'" if t: "try_take_over_compact_lease (fa_s3 F) ?k hd ttl now v = (q, v')" and i: "Inv v" for hd now v q v'
  proof -
    obtain g v1 where get: "get_object (fa_s3 F) ?k v = (g, v1)" by (cases "get_object (fa_s3 F) ?k v")
    have i1: "Inv v1" using inv_env [OF get_env [OF get] i] .
    from t get have "v' = v1 \<or> (\<exists>b c pr. put_object (fa_s3 F) ?k b c v1 = (pr, v'))"
      by (auto simp: try_take_over_compact_lease_def Let_def split: sum.splits option.splits result.splits prod.splits if_splits)
    with i1 inv_put_lease show ?thesis by blast
  qed
  obtain ul w1 where ul: "new_ulid (fa_s3 F) w = (ul, w1)" by (cases "new_ulid (fa_s3 F) w")
  obtain c w2 where c: "clock_ms (fa_s3 F) w1 = (c, w2)" by (cases "clock_ms (fa_s3 F) w1")
  let ?b = "format_lease_body (ulid_fmt (fa_ext F) ul) (expiry (unix_now_ms c) ttl)"
  obtain pr w3 where put: "put_object (fa_s3 F) ?k ?b IfNoneMatch w2 = (pr, w3)" by (cases "put_object (fa_s3 F) ?k ?b IfNoneMatch w2")
  have "Inv w2" using inv_env [OF clock_env [OF c] inv_env [OF ulid_env [OF ul] inv]] .
  then have i3: "Inv w3" by (rule inv_put_lease [OF put])
  from run ul c put have "w' = w3 \<or> try_take_over_compact_lease (fa_s3 F) ?k (ulid_fmt (fa_ext F) ul) ttl (unix_now_ms c) w3 = (r, w')"
    by (auto simp: acquire_compact_lease_def Let_def split: sum.splits if_splits)
  with i3 take have "Inv w'" by blast
  moreover have "cl_lease_key g = ?k" if "r = Ok g" for g using acquire_only(2) [OF run that] .
  ultimately show "Inv w' \<and> (\<forall>g. r = Ok g \<longrightarrow> cl_lease_key g = ?k)" by blast
qed

lemma keeps_release:
  assumes "cl_lease_key g = compact_lease_path (root_of p)"
  shows "keeps Inv (release_compact_lease (fa_s3 F) g) (\<lambda>_. True)"
proof (rule keepsI)
  fix w r w' assume run: "release_compact_lease (fa_s3 F) g w = (r, w')" and inv: "Inv w"
  then obtain q where q: "delete_obj (fa_s3 F) (compact_lease_path (root_of p)) (Some (cl_etag g)) w = (q, w')"
    using assms by (auto simp: release_compact_lease_def split: prod.splits)
  have "Inv w'"
  proof (rule fs_inv_step [OF inv])
    show "objs w' k = objs w k \<or> objs w' k = None" if "guarded (fa_ext F) l k" for k
      using delete_other [OF q, of k] lease_key(2) that by (cases "k = compact_lease_path (root_of p)") auto
    show "com w' (root_of p') = com w (root_of p') \<or> dir_inv (fa_ext F) (com w' (root_of p'))" for p'
      using delete_com [OF q lease_key(1)] by simp
  qed
  then show "Inv w' \<and> (\<forall>a. r = Ok a \<longrightarrow> True)" by simp
qed

section \<open>Compaction\<close>

lemma hkeeps_root: "keeps Inv (f (root_of p)) q \<Longrightarrow> hkeeps Inv (usable p) (\<lambda>(h, w). on_world (f (h_root h)) (h, w)) q"
  by (rule hkeepsI) (auto simp: handle_ok_def elim!: on_worldE dest: keepsD)

lemma hm_items_sub: "x \<in> set (hm_items (dp_hm (fa_dir F)) m) \<Longrightarrow> x \<in> set m"
proof -
  assume "x \<in> set (hm_items (dp_hm (fa_dir F)) m)"
  then obtain k where k: "x = (k, the (map_of m k))" "k \<in> set (map fst m)" by (auto simp: hm_items_def)
  then obtain v where "map_of m k = Some v" using map_of_dom [of m k] by auto
  with k map_of_SomeD [of m k v] show ?thesis by simp
qed

lemma hkeeps_fold:
  assumes c: "good_changes (root_of p) c"
  shows "hkeeps Inv (usable p) (on_bmap (upsert_all (probe_upsert (fa_ext F) (dp_bt (fa_dir F))) (hm_items (dp_hm (fa_dir F)) (upserts c)) 0)) (\<lambda>_. True)"
    "hkeeps Inv (usable p) (on_bmap (remove_all (probe_delete (fa_ext F) (dp_bt (fa_dir F))) (hm_items (dp_hm (fa_dir F)) (deletes c)) [])) (\<lambda>_. True)"
    "hkeeps Inv (usable p) (on_bmap (remove_all (probe_delete (fa_ext F) (dp_bt (fa_dir F))) (hm_items (dp_hm (fa_dir F)) (predeletes c)) []))
      (\<lambda>pre. \<forall>(nm, _) \<in> set pre. good_name nm)"
proof -
  have ups: "\<forall>(nm, e) \<in> set (hm_items (dp_hm (fa_dir F)) (upserts c)). fits_name nm e"
    using c hm_items_sub [of _ "upserts c"] by (fastforce simp: good_changes_def)
  have pre: "\<forall>(nm, v) \<in> set (hm_items (dp_hm (fa_dir F)) (predeletes c)). good_name nm"
    using c hm_items_sub [of _ "predeletes c"] by (fastforce simp: good_changes_def)
  show "hkeeps Inv (usable p) (on_bmap (upsert_all (probe_upsert (fa_ext F) (dp_bt (fa_dir F))) (hm_items (dp_hm (fa_dir F)) (upserts c)) 0)) (\<lambda>_. True)"
    using upsert_all_inv ups by (intro hkeeps_bmap) blast
  show "hkeeps Inv (usable p) (on_bmap (remove_all (probe_delete (fa_ext F) (dp_bt (fa_dir F))) (hm_items (dp_hm (fa_dir F)) (deletes c)) [])) (\<lambda>_. True)"
    using remove_all_inv by (intro hkeeps_bmap) blast
  show "hkeeps Inv (usable p) (on_bmap (remove_all (probe_delete (fa_ext F) (dp_bt (fa_dir F))) (hm_items (dp_hm (fa_dir F)) (predeletes c)) []))
      (\<lambda>pre. \<forall>(nm, _) \<in> set pre. good_name nm)"
    using remove_all_inv [of _ "hm_items (dp_hm (fa_dir F)) (predeletes c)" "[]"] pre by (intro hkeeps_bmap) fastforce
qed

lemma hkeeps_remove_folded:
  assumes "good_changes (root_of p) c"
  shows "hkeeps Inv (usable p) (on_world (remove_scatter_inodes (fa_s3 F) (filter P (all_keys c)))) (\<lambda>_. True)"
  by (intro hkeeps_world keeps_remove_scatter) (use assms in \<open>auto simp: good_changes_def\<close>)

lemma hkeeps_compact_inner: "hkeeps Inv (usable p) (compact_inner (fa_dir F)) good_stats"
  unfolding compact_inner_def Let_def
proof (rule hkeeps_seq [OF hkeeps_reload], rule hkeeps_bind [OF hkeeps_root [of "collect_scatter_changes (fa_dir F)"]],
    rule keeps_changes [OF refl], rule hkeeps_if, goal_cases)
  case 1
  show ?case by (rule hkeeps_return) (simp add: good_stats_def stats_no_op_def)
next
  case (2 u c)
  then show ?case
    by (intro hkeeps_seq [OF hkeeps_fold(1)] hkeeps_seq [OF hkeeps_fold(2)] hkeeps_bind [OF hkeeps_fold(3)] hkeeps_seq [OF hkeeps_flush]
      hkeeps_seq hkeeps_if hkeeps_remove_folded hkeeps_pure hkeeps_return; simp add: good_stats_def)
qed

text \<open>The lease is released on the way out, also after an error.\<close>

lemma hkeeps_compact: "hkeeps Inv (usable p) (compact (fa_dir F)) good_stats"
proof (rule hkeepsI)
  fix h w r h' w' assume run: "compact (fa_dir F) (h, w) = (r, (h', w'))" and inv: "Inv w" and us: "usable p h"
  have root: "h_root h = root_of p" using us by (simp add: handle_ok_def)
  obtain q w1 where acq: "acquire_compact_lease (fa_ext F) (fa_s3 F) (root_of p) DEFAULT_COMPACT_LEASE_TTL_MS w = (q, w1)"
    by (cases "acquire_compact_lease (fa_ext F) (fa_s3 F) (root_of p) DEFAULT_COMPACT_LEASE_TTL_MS w")
  note a = keepsD [OF keeps_acquire acq inv]
  show "Inv w' \<and> (\<forall>st. r = Ok st \<longrightarrow> usable p h' \<and> good_stats st)"
  proof (cases q)
    case (Ok g)
    obtain q2 h2 w2 where inner: "compact_inner (fa_dir F) (h, w1) = (q2, (h2, w2))" by (metis prod.exhaust)
    have "Inv w1" using a by simp
    note b = hkeepsD [OF hkeeps_compact_inner inner this us]
    obtain q3 w3 where rel: "release_compact_lease (fa_s3 F) g w2 = (q3, w3)" by (cases "release_compact_lease (fa_s3 F) g w2")
    have "Inv w3" using keepsD [OF keeps_release rel, of p] a Ok b by simp
    moreover have "q2 = Panic \<and> r = Panic \<and> h' = h2 \<and> w' = w2 \<or> r = q2 \<and> h' = h2 \<and> w' = w3"
      using run acq Ok inner rel root by (auto simp: compact_def io_bind_def on_world_def split: if_splits)
    ultimately show ?thesis using b by auto
  qed (use run acq a root in \<open>auto simp: compact_def io_bind_def on_world_def\<close>)
qed

lemma keeps_compact_nlink: "keeps Inv (adjust_nlink F (compact_child_uri (fa_ext F) bucket (root_of p) d u) delta) (\<lambda>_. True)"
  unfolding compact_child by (rule keeps_adjust_nlink)

lemma keeps_removed_loop: "keeps Inv (removed_loop F bucket (root_of p) us) (\<lambda>_. True)"
  by (induction us) (auto intro!: keeps_rules keeps_compact_nlink)

lemma keeps_predeleted_step:
  assumes "good_name nm"
  shows "keeps Inv (predeleted_step F bucket (root_of p) (nm, u, d, ret)) (\<lambda>_. True)"
  unfolding predeleted_step_def Let_def prod.case
  by (intro keeps_rules keeps_reads [OF reads_staging] keeps_emit_good assms keeps_compact_nlink) simp

lemma keeps_predeleted_loop: "\<forall>(nm, _) \<in> set ps. good_name nm \<Longrightarrow> keeps Inv (predeleted_loop F bucket (root_of p) ps) (\<lambda>_. True)"
  by (induction ps) (auto intro!: keeps_rules keeps_predeleted_step)

lemma hkeeps_fs_compact: "hkeeps Inv (usable p) (fs_compact F bucket) (\<lambda>_. True)"
  unfolding fs_compact_def
proof (rule hkeeps_bind [OF hkeeps_compact])
  fix st :: compact_stats assume st: "good_stats st"
  show "hkeeps Inv (usable p) (io_bind (\<lambda>(h, w). on_world (removed_loop F bucket (h_root h) (removed_children st)) (h, w)) (\<lambda>_.
     io_bind (\<lambda>(h, w). on_world (predeleted_loop F bucket (h_root h) (predeleted st)) (h, w)) (\<lambda>_.
     io_return st))) (\<lambda>_. True)"
    by (intro hkeeps_seq hkeeps_pure hkeeps_root [of "\<lambda>r. removed_loop F bucket r us" for us] keeps_removed_loop
      hkeeps_root [of "\<lambda>r. predeleted_loop F bucket r us" for us] keeps_predeleted_loop) (use st in \<open>simp add: good_stats_def\<close>)
qed

section \<open>Garbage collection\<close>

lemma keeps_reclaim_prefix:
  "keeps Inv (reclaim_child_prefix F (dir_uri (fa_ext F) l bucket u)) (\<lambda>_. True)"
  "keeps Inv (reclaim_child_prefix F (file_uri (fa_ext F) l bucket u)) (\<lambda>_. True)"
proof -
  have "keeps Inv (reclaim_child_prefix F (''s3://'' @ bucket @ ''/'' @ child_key (fa_ext F) l d u)) (\<lambda>_. True)" for d
    unfolding reclaim_child_prefix_def by (intro keeps_not_found keeps_bind [OF keeps_staging(3)] keeps_unlink)
  then show "keeps Inv (reclaim_child_prefix F (dir_uri (fa_ext F) l bucket u)) (\<lambda>_. True)"
    "keeps Inv (reclaim_child_prefix F (file_uri (fa_ext F) l bucket u)) (\<lambda>_. True)" unfolding file_uri_child by blast+
qed

lemma keeps_fs_reclaim: "keeps Inv (fs_reclaim F l bucket u d) (\<lambda>_. True)"
  unfolding fs_reclaim_def Let_def by (intro keeps_rules keeps_reclaim_prefix)

lemma keeps_gc_tombstone:
  assumes "prefix (scatter_inodes_path (root_of p)) (s_key s)"
  shows "keeps Inv (gc_tombstone F l bucket root now s) (\<lambda>_. True)"
proof -
  have rm: "keeps Inv (remove_scatter_inodes (fa_s3 F) [s_key s]) (\<lambda>_. True)" by (rule keeps_remove_scatter) (use assms in auto)
  have "keeps Inv (gc_reclaim F l bucket s i) (\<lambda>_. True)" for i
    unfolding gc_reclaim_def Let_def
    by (cases "is_dir_mode (ino_mode (fa_ino F) i)") (simp_all, (intro keeps_rules keeps_reclaim_prefix rm)+)
  then show ?thesis unfolding gc_tombstone_def gc_error_as_def by (intro keeps_rules)
qed

lemma keeps_gc_loop:
  "\<forall>s \<in> set ss. prefix (scatter_inodes_path (root_of p)) (s_key s) \<Longrightarrow> keeps Inv (gc_loop F l bucket root now ss st) (\<lambda>_. True)"
  by (induction ss arbitrary: st) (auto intro!: keeps_rules keeps_gc_tombstone)

lemma keeps_fs_gc: "keeps Inv (fs_gc F l bucket p) (\<lambda>_. True)"
  unfolding fs_gc_def Let_def
proof (rule keeps_bind [OF keeps_staging(1)], rule keeps_bind [OF keeps_list], assumption, goal_cases)
  case (1 root ss)
  then show ?case by (intro keeps_rules keeps_reads [OF reads_open(2)] keeps_gc_loop [of _ p]) simp
qed

lemma keeps_referenced: "keeps Inv (referenced_loop F l bucket ds acc) (\<lambda>_. True)"
  by (induction ds arbitrary: acc) (auto intro!: keeps_rules keeps_reads [OF reads_open(3)])

lemma keeps_purge:
  "keeps Inv (purge_if_old F now g (dir_uri (fa_ext F) l bucket u) n) (\<lambda>_. True)"
  "keeps Inv (purge_if_old F now g (file_uri (fa_ext F) l bucket u) n) (\<lambda>_. True)"
  unfolding purge_if_old_def by (intro keeps_rules keeps_reclaim_prefix)+

lemma keeps_orphan_files: "keeps Inv (orphan_files F l bucket ref now g us n) (\<lambda>_. True)"
  by (induction us arbitrary: n) (auto intro!: keeps_rules keeps_purge)

lemma keeps_orphan_dirs: "keeps Inv (orphan_dirs F l bucket ref now g us n) (\<lambda>_. True)"
proof (induction us arbitrary: n)
  case (Cons u us)
  show ?case unfolding orphan_dirs.simps by (intro keeps_rules keeps_purge keeps_reads [OF reads_open(3)] Cons.IH)
qed (simp add: keeps_return)

lemma keeps_gc_orphans: "keeps Inv (fs_gc_orphans F l bucket grace) (\<lambda>_. True)"
  unfolding fs_gc_orphans_def Let_def by (intro keeps_rules keeps_referenced keeps_orphan_files keeps_orphan_dirs)

section \<open>Renames across directories\<close>

lemma keeps_put_case:
  assumes "\<And>w r w'. put_object (fa_s3 F) k b c w = (r, w') \<Longrightarrow> Inv w \<Longrightarrow> Inv w'"
    and "\<And>et. keeps Inv (f et) q" and "\<And>e. keeps Inv (g e) q"
  shows "keeps Inv (\<lambda>w. case put_object (fa_s3 F) k b c w of (Inr et, w') \<Rightarrow> f et w' | (Inl e, w') \<Rightarrow> g e w') q"
proof (rule keepsI)
  fix w r w' assume run: "(case put_object (fa_s3 F) k b c w of (Inr et, w') \<Rightarrow> f et w' | (Inl e, w') \<Rightarrow> g e w') = (r, w')" and inv: "Inv w"
  obtain p w1 where put: "put_object (fa_s3 F) k b c w = (p, w1)" by (cases "put_object (fa_s3 F) k b c w")
  note i1 = assms(1) [OF put inv]
  show "Inv w' \<and> (\<forall>a. r = Ok a \<longrightarrow> q a)"
  proof (cases p)
    case (Inl e)
    with run put have "g e w1 = (r, w')" by simp
    from keepsD [OF assms(3) this i1] show ?thesis .
  next
    case (Inr et)
    with run put have "f et w1 = (r, w')" by simp
    from keepsD [OF assms(2) this i1] show ?thesis .
  qed
qed

lemma keeps_fail_run: "keeps Inv (\<lambda>w. (Err e, w)) q" "keeps Inv (\<lambda>w. (Ok a, w)) (\<lambda>_. True)"
  by (simp_all add: keeps_def)

lemma keeps_open_and_read: "keeps Inv (open_and_read F l bucket p nm) (\<lambda>_. True)"
  unfolding open_and_read_def by (intro keeps_rules keeps_reads [OF reads_open(3)])

lemma keeps_txn_delete: "prefix (txn_prefix l) k \<Longrightarrow> keeps Inv (delete_object (fa_s3 F) k) (\<lambda>_. True)"
  by (rule keeps_delete) (rule txn_not_owned)

lemma keeps_claim:
  assumes nm: "utf8_valid sn" "utf8_valid dn" "storable dn"
  shows "keeps Inv (claim_loop F l bucket (txn_key l t) sp sn dp dn n)
    (\<lambda>(key, it). key = txn_key l t \<and> ri_dst_name it = dn)"
proof (induction n)
  case 0
  show ?case unfolding claim_loop.simps by (rule keeps_pure(1))
next
  case (Suc n)
  have body: "keeps Inv (\<lambda>w. case put_object (fa_s3 F) (txn_key l t) (rename_serialize (fa_ext F) it) IfNoneMatch w of
      (Inr _, w') \<Rightarrow>
        io_bind (open_and_read F l bucket sp sn) (\<lambda>still. case still of
            Ok e \<Rightarrow> if e_uuid e = u then io_return (txn_key l t, it)
              else io_bind (ignore_err (delete_object (fa_s3 F) (txn_key l t))) (\<lambda>_. io_fail NotFound)
          | Err err \<Rightarrow> io_bind (ignore_err (delete_object (fa_s3 F) (txn_key l t))) (\<lambda>_. io_fail err)
          | Panic \<Rightarrow> io_lift Panic) w'
    | (Inl err, w') \<Rightarrow> if is_conflict err then claim_loop F l bucket (txn_key l t) sp sn dp dn n w' else (Err Other, w'))
    (\<lambda>(key, it). key = txn_key l t \<and> ri_dst_name it = dn)"
    if it: "ri_src_name it = sn" "ri_dst_name it = dn" for it u
  proof (rule keeps_put_case)
    show "Inv w'" if "put_object (fa_s3 F) (txn_key l t) (rename_serialize (fa_ext F) it) IfNoneMatch w = (r, w')" "Inv w" for w r w'
      using inv_put_intent [OF that] it nm by simp
    show "keeps Inv (\<lambda>w. if is_conflict e then claim_loop F l bucket (txn_key l t) sp sn dp dn n w else (Err Other, w))
        (\<lambda>(key, it). key = txn_key l t \<and> ri_dst_name it = dn)" for e
      using Suc by (cases "is_conflict e") (simp_all add: keeps_fail_run)
  qed (intro keeps_seq keeps_open_and_read keeps_cases(2) keeps_if keeps_pure keeps_ignore keeps_txn_delete txn_key_prefix keeps_return,
      use it in simp)
  show ?case unfolding claim_loop.simps Let_def by (intro keeps_seq keeps_open_and_read keeps_pure(4) body) simp_all
qed

lemma keeps_emit_intent:
  assumes "utf8_valid sn" and "utf8_valid dn" and "storable dn"
  shows "keeps Inv (emit_rename_intent F l bucket sp sn dp dn) (\<lambda>(key, it). prefix (txn_prefix l) key \<and> ri_dst_name it = dn)"
  unfolding emit_rename_intent_def by (rule keeps_weak [OF keeps_claim [OF assms]]) (auto simp: txn_key_prefix)

lemma keeps_dst_insert:
  assumes "utf8_valid nm" and "storable nm" and rest: "\<And>a. keeps Inv (f a) q"
  shows "keeps Inv (io_bind (fs_open_dir F l bucket p False) (\<lambda>dst.
    io_bind (on_handle dst (insert_entry (fa_dir F) nm (entry_from i u nm))) f)) q"
  by (rule keeps_bind [OF keeps_open(3)], intro keeps_seq rest keeps_on_handle [OF hkeeps_insert(1)] fits_name_entry assms)

lemma keeps_src_remove:
  assumes "\<And>a. keeps Inv (f a) q"
  shows "keeps Inv (io_bind (fs_open_dir F l bucket p False) (\<lambda>src. io_bind (on_handle src (remove_entry (fa_dir F) nm)) f)) q"
  by (rule keeps_bind [OF keeps_open(3)], intro keeps_seq assms keeps_on_handle [OF hkeeps_remove])

lemma keeps_apply:
  assumes "utf8_valid (ri_dst_name it)" and "storable (ri_dst_name it)"
  shows "keeps Inv (apply_rename_intent F l bucket it) (\<lambda>_. True)"
  unfolding apply_rename_intent_def by (intro keeps_seq keeps_pure keeps_dst_insert [OF assms] keeps_src_remove)

lemma keeps_rename_across:
  assumes "utf8_valid sn" and "utf8_valid dn" and "storable dn"
  shows "keeps Inv (fs_rename_across F l bucket sp sn dp dn) (\<lambda>_. True)"
  unfolding fs_rename_across_def
proof (rule keeps_bind [OF keeps_emit_intent [OF assms]], goal_cases)
  case (1 a)
  then obtain key it where "a = (key, it)" "prefix (txn_prefix l) key" "ri_dst_name it = dn" by (cases a) auto
  with assms show ?case by (auto intro!: keeps_seq keeps_apply keeps_ignore keeps_txn_delete)
qed

lemma keeps_crash_points:
  assumes "utf8_valid sn" and "utf8_valid dn" and "storable dn"
  shows "keeps Inv (fs_rename_emit_intent_only F l bucket sp sn dp dn) (\<lambda>_. True)"
    "keeps Inv (fs_rename_apply_partial F l bucket sp sn dp dn) (\<lambda>_. True)"
proof -
  note emit = keeps_emit_intent [OF assms]
  show "keeps Inv (fs_rename_emit_intent_only F l bucket sp sn dp dn) (\<lambda>_. True)"
    unfolding fs_rename_emit_intent_only_def by (intro keeps_bind [OF emit] keeps_pure(5))
  show "keeps Inv (fs_rename_apply_partial F l bucket sp sn dp dn) (\<lambda>_. True)"
    unfolding fs_rename_apply_partial_def
  proof (rule keeps_bind [OF emit], goal_cases)
    case (1 a)
    with assms show ?case by (cases a) (simp, intro keeps_seq [OF keeps_pure(4)] keeps_dst_insert keeps_pure(5); simp)
  qed
qed

lemma keeps_unlink_crash: "good_name nm \<Longrightarrow> keeps Inv (fs_unlink_crash_after_tombstone F l bucket p nm u) (\<lambda>_. True)"
  unfolding fs_unlink_crash_after_tombstone_def
proof (rule keeps_bind [OF keeps_staging(2)], rule keeps_seq, rule keeps_world_reads(2), rule keeps_cases(3), rule keeps_seq,
    rule keeps_world_reads(1), rule keeps_bind [OF keeps_staging(1)], goal_cases)
  case (1 a b c d e f)
  then show ?case by (auto intro!: keeps_seq keeps_emit_good keeps_src_remove keeps_pure(5))
qed

lemma keeps_link_bump: "keeps Inv (fs_link_bump_only F l bucket u) (\<lambda>_. True)"
  unfolding fs_link_bump_only_def by (intro keeps_rules)

section \<open>Displaced children and recovery\<close>

lemma reclaim_key_txn: "prefix (txn_prefix l) (reclaim_key l t)" "\<not> guarded (fa_ext F) l (reclaim_key l t)"
proof -
  show pre: "prefix (txn_prefix l) (reclaim_key l t)" by (simp add: reclaim_key_def txn_prefix_def)
  have "\<not> ends_with (reclaim_key l t) ''.intent''" by (simp add: reclaim_key_def ends_with_def suffix_def)
  with pre scatter_not_txn show "\<not> guarded (fa_ext F) l (reclaim_key l t)" by (auto simp: guarded_def)
qed

lemma keeps_reclaim_intent: "keeps Inv (fs_emit_reclaim_intent F l dp dn u d) (\<lambda>key. prefix (txn_prefix l) key)"
proof (rule keepsI)
  fix w r w' assume run: "fs_emit_reclaim_intent F l dp dn u d w = (r, w')" and inv: "Inv w"
  obtain ul w1 where ul: "new_ulid (fa_s3 F) w = (ul, w1)" by (cases "new_ulid (fa_s3 F) w")
  let ?k = "reclaim_key l (ulid_fmt (fa_ext F) ul)"
  from run ul obtain b p where put: "put_object (fa_s3 F) ?k b IfNoneMatch w1 = (p, w')" and r: "r = Ok ?k \<or> r = Err Other"
    by (auto simp: fs_emit_reclaim_intent_def Let_def split: prod.splits sum.splits)
  have "Inv w'" by (rule inv_put [OF put inv_env [OF ulid_env [OF ul] inv]]) (use reclaim_key_txn txn_not_owned in auto)
  with r reclaim_key_txn(1) show "Inv w' \<and> (\<forall>key. r = Ok key \<longrightarrow> prefix (txn_prefix l) key)" by auto
qed

lemma keeps_delete_intent: "prefix (txn_prefix l) k \<Longrightarrow> keeps Inv (fs_delete_intent F k) (\<lambda>_. True)"
  unfolding fs_delete_intent_def by (rule keeps_txn_delete)

lemma keeps_get_intent:
  assumes "prefix (txn_prefix l) k" and "ends_with k ''.intent''"
  shows "keeps Inv (get_object_raw (fa_s3 F) k)
    (\<lambda>body. \<forall>it. rename_parse (fa_ext F) body = Ok it \<longrightarrow> utf8_valid (ri_dst_name it) \<and> storable (ri_dst_name it))"
proof (rule keepsI)
  fix w r w' assume run: "get_object_raw (fa_s3 F) k w = (r, w')" and inv: "Inv w"
  have env: "env w w'" using readsD [OF reads_get(2) run] .
  have "\<exists>ob. objs w k = Some ob \<and> body = ob_body ob" if "r = Ok body" for body
  proof -
    from run that obtain out where g: "get_object (fa_s3 F) k w = (Inr out, w')" "g_body out = Some body"
      by (auto simp: get_object_raw_def split: prod.splits sum.splits option.splits)
    from get_Ok [OF g(1)] g(2) env_same [OF env] show ?thesis by auto
  qed
  moreover have "utf8_valid (ri_dst_name it) \<and> storable (ri_dst_name it)"
    if "objs w k = Some ob" "rename_parse (fa_ext F) (ob_body ob) = Ok it" for ob it
    using inv that assms unfolding fs_inv_def intents_ok_def by blast
  ultimately show "Inv w' \<and> (\<forall>body. r = Ok body \<longrightarrow> (\<forall>it. rename_parse (fa_ext F) body = Ok it \<longrightarrow> utf8_valid (ri_dst_name it) \<and> storable (ri_dst_name it)))"
    using inv_env [OF env inv] by blast
qed

lemma keeps_recover_intent:
  assumes "prefix (txn_prefix l) k" and "ends_with k ''.intent''"
  shows "keeps Inv (recover_intent F l bucket k) (\<lambda>_. True)"
  unfolding recover_intent_def
  by (rule keeps_bind [OF keeps_get_intent [OF assms]],
      intro keeps_cases(2) keeps_seq keeps_apply keeps_txn_delete [OF assms(1)] keeps_pure) simp_all

lemma keeps_recover_reclaim:
  assumes "prefix (txn_prefix l) k"
  shows "keeps Inv (recover_reclaim F l bucket k) (\<lambda>_. True)"
proof -
  have "keeps Inv (still_named F l bucket ri) (\<lambda>_. True)" for ri
    unfolding still_named_def by (intro keeps_rules keeps_reads [OF reads_open(3)])
  then show ?thesis unfolding recover_reclaim_def by (intro keeps_rules keeps_fs_reclaim keeps_txn_delete [OF assms])
qed

lemma keeps_recover_objects:
  "\<forall>ob \<in> set obs. \<forall>k. lo_key ob = Some k \<longrightarrow> prefix (txn_prefix l) k \<Longrightarrow> keeps Inv (recover_objects F l bucket obs n) (\<lambda>_. True)"
  by (induction obs arbitrary: n)
    (auto intro!: keeps_rules keeps_recover_intent keeps_recover_reclaim split: option.splits)

lemma keeps_recover_pages:
  "\<forall>ob \<in> set (page_objects pages). \<forall>k. lo_key ob = Some k \<longrightarrow> prefix (txn_prefix l) k \<Longrightarrow>
    keeps Inv (recover_pages F l bucket pages n) (\<lambda>_. True)"
proof (induction pages arbitrary: n)
  case (Cons pg pages)
  have "set (page_objects pages) \<subseteq> set (page_objects (pg # pages))" by (auto simp: page_objects_def)
  then have tail: "keeps Inv (recover_pages F l bucket pages m) (\<lambda>_. True)" for m using Cons by blast
  have "keeps Inv (recover_objects F l bucket obs n) (\<lambda>_. True)" if "pg = Inr obs" for obs
    by (rule keeps_recover_objects) (use Cons.prems that in \<open>auto simp: page_objects_def\<close>)
  with tail show ?case unfolding recover_pages.simps by (intro keeps_cases keeps_pure keeps_seq)
qed (simp add: keeps_return)

lemma keeps_recover: "keeps Inv (fs_recover_renames F l bucket) (\<lambda>_. True)"
proof (rule keepsI)
  fix w r w' assume run: "fs_recover_renames F l bucket w = (r, w')" and inv: "Inv w"
  then obtain pages w1 where pg: "list_objects (fa_s3 F) (txn_prefix l) w = (pages, w1)" and rec: "recover_pages F l bucket pages 0 w1 = (r, w')"
    by (auto simp: fs_recover_renames_def split: prod.splits)
  from keepsD [OF keeps_recover_pages rec inv_env [OF list_env [OF pg] inv]] list_sound [OF pg] show "Inv w' \<and> (\<forall>a. r = Ok a \<longrightarrow> True)" by blast
qed

section \<open>Attributes\<close>

lemma xattr_key_side:
  "\<not> hf_owned (root_of p) (xattr_key (fa_ext F) l u d n)" "\<not> guarded (fa_ext F) l (xattr_key (fa_ext F) l u d n)"
proof -
  have pre: "prefix (child_key (fa_ext F) l d u @ ''/'') (xattr_key (fa_ext F) l u d n)" by (simp add: xattr_key_def xattr_prefix_def)
  show "\<not> hf_owned (root_of p) (xattr_key (fa_ext F) l u d n)"
    by (rule side_key [OF pre]) (simp add: hyperdir_key_def xattr_key_def xattr_prefix_def)
  show "\<not> guarded (fa_ext F) l (xattr_key (fa_ext F) l u d n)"
    by (rule side_not_guarded [OF pre])
      (simp add: xattr_key_def xattr_prefix_def scatter_inodes_path_def DEFAULT_DIR_INODE_SCATTER_FOLDER_def)
qed

lemma keeps_setxattr: "keeps Inv (fs_setxattr F l u d n v) (\<lambda>_. True)"
  unfolding fs_setxattr_def
proof (rule keeps_put_case)
  show "Inv w'" if "put_object (fa_s3 F) (xattr_key (fa_ext F) l u d n) v PutAlways w = (r, w')" "Inv w" for w r w'
    by (rule inv_put [OF that xattr_key_side])
qed (rule keeps_fail_run)+

lemma keeps_removexattr: "keeps Inv (fs_removexattr F l u d n) (\<lambda>_. True)"
proof -
  have "keeps Inv (fs_getxattr F l u d n) (\<lambda>_. True)"
    by (rule keeps_reads, rule readsI) (auto simp: fs_getxattr_def split: prod.splits sum.splits option.splits if_splits dest: get_env)
  then show ?thesis unfolding fs_removexattr_def by (intro keeps_rules keeps_delete xattr_key_side)
qed

lemma hkeeps_update_stat: "hkeeps Inv (usable p) (update_stat F st) (\<lambda>_. True)"
proof (rule hkeepsI)
  fix h w r h' w' assume run: "update_stat F st (h, w) = (r, (h', w'))" and inv: "Inv w" and us: "usable p h"
  obtain st' i where i: "fa_update_stat F st (h_inode h) = (st', i)" by (cases "fa_update_stat F st (h_inode h)")
  have fl: "hkeeps Inv (usable p) (io_bind (hf_flush (fa_hf F)) (\<lambda>_. io_return st')) (\<lambda>_. True)" by (intro keeps_rules)
  have "io_bind (hf_flush (fa_hf F)) (\<lambda>_. io_return st') (h\<lparr>h_inode := i\<rparr>, w) = (r, (h', w'))"
    using run i by (simp add: update_stat_def)
  from hkeepsD [OF fl this inv] us show "Inv w' \<and> (\<forall>a. r = Ok a \<longrightarrow> usable p h' \<and> True)" by (simp add: handle_ok_def)
qed

lemma hkeeps_attr:
  "hkeeps Inv (usable p) (fs_chmod F mode) (\<lambda>_. True)" "hkeeps Inv (usable p) (fs_chown F uid gid) (\<lambda>_. True)"
  using hkeeps_update_stat by (auto simp: fs_chmod_def fs_chown_def Let_def hkeeps_def)

lemma keeps_setattr_fast:
  "keeps Inv (fs_setattr_fast F (dir_uri (fa_ext F) l bucket u) st) (\<lambda>_. True)"
  "keeps Inv (fs_setattr_fast F (file_uri (fa_ext F) l bucket u) st) (\<lambda>_. True)"
proof -
  have "keeps Inv (fs_setattr_fast F (''s3://'' @ bucket @ ''/'' @ child_key (fa_ext F) l d u) st) (\<lambda>_. True)" for d
    unfolding fs_setattr_fast_def hyper_update_stat_fast_def update_stat_fast_def
    by (rule keeps_bind [OF keeps_staging(3)], intro keeps_rules keeps_flush_inode)
  then show "keeps Inv (fs_setattr_fast F (dir_uri (fa_ext F) l bucket u) st) (\<lambda>_. True)"
    "keeps Inv (fs_setattr_fast F (file_uri (fa_ext F) l bucket u) st) (\<lambda>_. True)" unfolding file_uri_child by blast+
qed

end

end
