(* ===== verification/Fs_Machine.thy ===== *)
theory Fs_Machine
  imports Fs_Upkeep
begin

text \<open>
  The file system as a state machine. A state is the list of open directory handles and the world; a step
  is one call of \<open>src/fs.rs\<close>, run to its end, whether it succeeds, fails or panics, by whichever client
  makes it. The entry points with which the tests stop a client half-way are steps too, so that a
  crash between two calls of the store is a state of the machine.

  Every state that is reachable from an empty bucket keeps all directories well-formed, with whatever
  scatter objects and rename intents are outstanding; so a listing and a resolve are right at every
  moment.
\<close>

section \<open>Calls\<close>

text \<open>
  The calls that need no open handle. The handle of a new directory carries the interceptor that tells
  its parent of every inode flush, so it is closed by the call and the directory is opened anew.
\<close>

datatype fs_op =
    OpCreateDir uuid string bool u32
  | OpCreateFile uuid string bool u32
  | OpUnlink uuid string uuid bool "nat option"
  | OpRmdir uuid string uuid "nat option"
  | OpLink uuid string uuid
  | OpRenameAcross uuid string uuid string
  | OpRecover
  | OpGc uuid
  | OpGcOrphans nat
  | OpReclaim uuid bool
  | OpReclaimIntent uuid string uuid bool
  | OpDeleteIntent string
  | OpSetXattr uuid bool string bytes
  | OpRemoveXattr uuid bool string
  | OpSetattrFast uuid bool stat
  | OpReadDir uuid
  | OpReadEntry uuid string
  | OpCrashIntentOnly uuid string uuid string
  | OpCrashHalfMoved uuid string uuid string
  | OpCrashTombstone uuid string uuid
  | OpCrashLinkBump uuid

definition done_io :: "('w, 'a) io \<Rightarrow> ('w, unit) io" where
  "done_io m = io_bind m (\<lambda>_. io_return ())"

fun run_op :: "('w, 'i, 'b, 'd, 'f) fs_api \<Rightarrow> hyper_dir_layout \<Rightarrow> string \<Rightarrow> fs_op \<Rightarrow> ('w, unit) io" where
  "run_op F l b (OpCreateDir p nm rdonly mode) = done_io (fs_create_default F l b p nm rdonly mode)"
| "run_op F l b (OpCreateFile p nm rdonly mode) = done_io (fs_create_file F l b p nm rdonly mode)"
| "run_op F l b (OpUnlink p nm u is_dir ret) = fs_unlink F l b p nm u is_dir ret"
| "run_op F l b (OpRmdir p nm u ret) = fs_rmdir F l b p nm u ret"
| "run_op F l b (OpLink p nm u) = fs_link F l b p nm u"
| "run_op F l b (OpRenameAcross sp sn dp dn) = fs_rename_across F l b sp sn dp dn"
| "run_op F l b OpRecover = done_io (fs_recover_renames F l b)"
| "run_op F l b (OpGc p) = done_io (fs_gc F l b p)"
| "run_op F l b (OpGcOrphans grace) = done_io (fs_gc_orphans F l b grace)"
| "run_op F l b (OpReclaim u is_dir) = fs_reclaim F l b u is_dir"
| "run_op F l b (OpReclaimIntent dp dn u is_dir) = done_io (fs_emit_reclaim_intent F l dp dn u is_dir)"
| "run_op F l b (OpDeleteIntent k) = fs_delete_intent F k"
| "run_op F l b (OpSetXattr u is_dir n v) = fs_setxattr F l u is_dir n v"
| "run_op F l b (OpRemoveXattr u is_dir n) = done_io (fs_removexattr F l u is_dir n)"
| "run_op F l b (OpSetattrFast u is_dir st) =
     done_io (fs_setattr_fast F (if is_dir then dir_uri (fa_ext F) l b u else file_uri (fa_ext F) l b u) st)"
| "run_op F l b (OpReadDir p) = done_io (io_bind (fs_open_dir F l b p True) (fs_read_dir F))"
| "run_op F l b (OpReadEntry p nm) = done_io (io_bind (fs_open_dir F l b p True) (\<lambda>h. fs_read_entry F h nm))"
| "run_op F l b (OpCrashIntentOnly sp sn dp dn) = fs_rename_emit_intent_only F l b sp sn dp dn"
| "run_op F l b (OpCrashHalfMoved sp sn dp dn) = fs_rename_apply_partial F l b sp sn dp dn"
| "run_op F l b (OpCrashTombstone p nm u) = fs_unlink_crash_after_tombstone F l b p nm u"
| "run_op F l b (OpCrashLinkBump u) = fs_link_bump_only F l b u"

text \<open>What a client owes: names that an entry can hold, and intent keys of the layout.\<close>

fun op_ok :: "hyper_dir_layout \<Rightarrow> fs_op \<Rightarrow> bool" where
  "op_ok l (OpCreateDir p nm rdonly mode) = good_name nm"
| "op_ok l (OpCreateFile p nm rdonly mode) = good_name nm"
| "op_ok l (OpUnlink p nm u is_dir ret) = good_name nm"
| "op_ok l (OpRmdir p nm u ret) = good_name nm"
| "op_ok l (OpLink p nm u) = good_name nm"
| "op_ok l (OpRenameAcross sp sn dp dn) = (utf8_valid sn \<and> good_name dn)"
| "op_ok l (OpCrashIntentOnly sp sn dp dn) = (utf8_valid sn \<and> good_name dn)"
| "op_ok l (OpCrashHalfMoved sp sn dp dn) = (utf8_valid sn \<and> good_name dn)"
| "op_ok l (OpCrashTombstone p nm u) = good_name nm"
| "op_ok l (OpDeleteIntent k) = prefix (txn_prefix l) k"
| "op_ok l _ = True"

text \<open>The calls that open a handle.\<close>

datatype open_op =
    OpenRoot bool u32
  | OpenDir uuid bool flush_conflict_policy
  | OpenOrCreate uuid bool u32

fun run_open :: "('w, 'i, 'b, 'd, 'f) fs_api \<Rightarrow> hyper_dir_layout \<Rightarrow> string \<Rightarrow> open_op \<Rightarrow> ('w, ('i, 'b, 'd) dir_handle \<times> uuid) io" where
  "run_open F l b (OpenRoot rdonly mode) = io_bind (fs_create_root F l b rdonly mode) (\<lambda>h. io_return (h, ROOT_DIR_UUID))"
| "run_open F l b (OpenDir u rdonly policy) =
     io_bind (fs_open_opt F (dir_uri (fa_ext F) l b u) rdonly policy) (\<lambda>h. io_return (h, u))"
| "run_open F l b (OpenOrCreate u rdonly mode) =
     io_bind (fs_open_or_create_with_default_opt F (dir_uri (fa_ext F) l b u) rdonly mode) (\<lambda>h. io_return (h, u))"

text \<open>The calls on an open handle.\<close>

datatype handle_op =
    HCompact
  | HRename string string
  | HFlush
  | HChmod u32
  | HChown u32 u32
  | HSetattr stat

fun run_handle_op ::
  "('w, 'i, 'b, 'd, 'f) fs_api \<Rightarrow> string \<Rightarrow> handle_op \<Rightarrow> (('i, 'b, 'd) dir_handle \<times> 'w, unit) io" where
  "run_handle_op F b HCompact = done_io (fs_compact F b)"
| "run_handle_op F b (HRename old new) = fs_rename F old new"
| "run_handle_op F b HFlush = done_io (fs_flush F)"
| "run_handle_op F b (HChmod mode) = done_io (fs_chmod F mode)"
| "run_handle_op F b (HChown uid gid) = done_io (fs_chown F uid gid)"
| "run_handle_op F b (HSetattr st) = done_io (fs_setattr F st)"

fun handle_op_ok :: "handle_op \<Rightarrow> bool" where
  "handle_op_ok (HRename old new) = good_name new"
| "handle_op_ok _ = True"

section \<open>The machine\<close>

type_synonym ('w, 'i, 'b, 'd) fs_state = "(uuid \<times> ('i, 'b, 'd) dir_handle) list \<times> 'w"

text \<open>A client closes a handle whose call did not succeed, and may close any handle by releasing it.\<close>

inductive fs_step ::
  "('w, 'i, 'b, 'd, 'f) fs_api \<Rightarrow> hyper_dir_layout \<Rightarrow> string \<Rightarrow> ('w, 'i, 'b, 'd) fs_state \<Rightarrow> ('w, 'i, 'b, 'd) fs_state \<Rightarrow> bool"
  for F l b where
  step_op: "op_ok l op \<Longrightarrow> run_op F l b op w = (r, w') \<Longrightarrow> fs_step F l b (hs, w) (hs, w')"
| step_open: "run_open F l b op w = (Ok (h, p), w') \<Longrightarrow> fs_step F l b (hs, w) ((p, h) # hs, w')"
| step_open_failed: "run_open F l b op w = (r, w') \<Longrightarrow> (\<And>hp. r \<noteq> Ok hp) \<Longrightarrow> fs_step F l b (hs, w) (hs, w')"
| step_handle: "handle_op_ok op \<Longrightarrow> run_handle_op F b op (h, w) = (Ok (), (h', w')) \<Longrightarrow>
    fs_step F l b (hs @ (p, h) # hs', w) (hs @ (p, h') # hs', w')"
| step_handle_failed: "handle_op_ok op \<Longrightarrow> run_handle_op F b op (h, w) = (r, (h', w')) \<Longrightarrow> r \<noteq> Ok () \<Longrightarrow>
    fs_step F l b (hs @ (p, h) # hs', w) (hs @ hs', w')"
| step_release: "fs_release F (h, w) = (r, (h', w')) \<Longrightarrow> fs_step F l b (hs @ (p, h) # hs', w) (hs @ hs', w')"

inductive fs_reach ::
  "('w, 'i, 'b, 'd, 'f) fs_api \<Rightarrow> hyper_dir_layout \<Rightarrow> string \<Rightarrow> 'w \<Rightarrow> ('w, 'i, 'b, 'd) fs_state \<Rightarrow> bool"
  for F l b w0 where
  reach_start: "fs_reach F l b w0 ([], w0)"
| reach_step: "fs_reach F l b w0 s \<Longrightarrow> fs_step F l b s s' \<Longrightarrow> fs_reach F l b w0 s'"

inductive_cases fs_stepE: "fs_step F l b (hs, w) (hs', w')"

text \<open>An empty bucket, and a base path without the character that marks the folder of scatter objects.\<close>

definition fs_empty :: "hyper_dir_layout \<Rightarrow> ('w \<Rightarrow> string \<Rightarrow> s3_object option) \<Rightarrow> ('w \<Rightarrow> string \<Rightarrow> 'i table) \<Rightarrow> 'w \<Rightarrow> bool" where
  "fs_empty l objs com w = (CHR ''!'' \<notin> set (base l) \<and> objs w = Map.empty \<and> com w = (\<lambda>_. Map.empty))"

section \<open>The invariant of the machine\<close>

context fs_machine
begin

lemma inv_start:
  assumes "fs_empty l objs com w"
  shows "Inv w"
proof -
  have "CHR ''!'' \<notin> set (root_of p)" for p
    using assms uuid_fmt_no [of "CHR ''!''" p] by (simp add: fs_empty_def dir_key_def DIR_NAMESPACE_def)
  then have "dir_ok (fa_ext F) (objs w) (com w (root_of p)) (root_of p)" for p
    using empty_index assms by (simp add: dir_ok_def folder_ok_def pending_def fs_empty_def)
  with assms show ?thesis unfolding fs_inv_def intents_ok_def by (simp add: fs_empty_def)
qed

lemma keeps_done: "keeps Inv m q \<Longrightarrow> keeps Inv (done_io m) (\<lambda>_. True)"
  unfolding done_io_def by (erule keeps_bind) (rule keeps_pure(5))

lemma hkeeps_done: "hkeeps Inv H m q \<Longrightarrow> hkeeps Inv H (done_io m) (\<lambda>_. True)"
  unfolding done_io_def by (erule hkeeps_bind) (rule hkeeps_pure(2))

lemma run_op_keeps: "op_ok l op \<Longrightarrow> keeps Inv (run_op F l bucket op) (\<lambda>_. True)"
proof (cases op)
  case (OpReadDir p)
  have "keeps Inv (io_bind (fs_open_dir F l bucket p True) (fs_read_dir F)) (\<lambda>_. True)"
    unfolding fs_read_dir_def by (intro keeps_seq keeps_world_reads keeps_reads [OF reads_open(3)])
  with OpReadDir show ?thesis by (simp add: keeps_done)
next
  case (OpReadEntry p nm)
  have "keeps Inv (io_bind (fs_open_dir F l bucket p True) (\<lambda>h. fs_read_entry F h nm)) (\<lambda>_. True)"
    unfolding fs_read_entry_def by (intro keeps_seq keeps_world_reads keeps_reads [OF reads_open(3)])
  with OpReadEntry show ?thesis by (simp add: keeps_done)
next
  case (OpSetattrFast u d st)
  then show ?thesis by (cases d) (auto intro!: keeps_done keeps_setattr_fast)
qed (auto simp: good_name_def intro!: keeps_done keeps_create_default keeps_create_file keeps_fs_unlink keeps_fs_rmdir keeps_fs_link keeps_rename_across
    keeps_recover keeps_fs_gc keeps_gc_orphans keeps_fs_reclaim keeps_reclaim_intent keeps_delete_intent keeps_setxattr keeps_removexattr
    keeps_crash_points keeps_unlink_crash keeps_link_bump)

lemma run_open_keeps: "keeps Inv (run_open F l bucket op) (\<lambda>(h, p). usable p h)"
  by (cases op) (auto intro: keeps_bind [OF keeps_create_root] keeps_bind [OF keeps_open(1)]
    keeps_bind [OF keeps_open_or_create] keeps_return)

lemma run_handle_op_keeps: "handle_op_ok op \<Longrightarrow> hkeeps Inv (usable p) (run_handle_op F bucket op) (\<lambda>_. True)"
  by (cases op) (auto simp: fs_rename_def fs_flush_def fs_setattr_def
    intro!: hkeeps_done hkeeps_fs_compact hkeeps_rename hkeeps_flush hkeeps_attr hkeeps_update_stat)

definition machine_ok where
  "machine_ok = (\<lambda>(hs, w). Inv w \<and> (\<forall>(p, h) \<in> set hs. usable p h))"

lemma step_ok: "fs_step F l bucket s s' \<Longrightarrow> machine_ok s \<Longrightarrow> machine_ok s'"
proof (induction rule: fs_step.induct)
  case (step_op op w r w' hs)
  then show ?case using keepsD [OF run_op_keeps step_op(2)] by (simp add: machine_ok_def)
next
  case (step_open op w h p w' hs)
  then show ?case using keepsD [OF run_open_keeps step_open(1)] by (simp add: machine_ok_def)
next
  case (step_open_failed op w r w' hs)
  then show ?case using keepsD [OF run_open_keeps step_open_failed(1)] by (simp add: machine_ok_def)
next
  case (step_handle op h w h' w' hs p hs')
  then show ?case using hkeepsD [OF run_handle_op_keeps step_handle(2)] by (auto simp: machine_ok_def)
next
  case (step_handle_failed op h w r h' w' hs p hs')
  then show ?case using hkeepsD [OF run_handle_op_keeps step_handle_failed(2)] by (auto simp: machine_ok_def)
next
  case (step_release h w r h' w' hs p hs')
  then show ?case using hkeepsD [OF hkeeps_flush, of h w r h' w' p] by (auto simp: machine_ok_def fs_release_def dir_release_def)
qed

lemma reach_ok: "fs_reach F l bucket w0 s \<Longrightarrow> fs_empty l objs com w0 \<Longrightarrow> machine_ok s"
proof (induction rule: fs_reach.induct)
  case reach_start
  then show ?case by (simp add: machine_ok_def inv_start)
qed (rule step_ok)

end

section \<open>The file system in memory\<close>

lemma mem_list_sound: "mem_list p w = (pages, w') \<Longrightarrow> ob \<in> set (page_objects pages) \<Longrightarrow> lo_key ob = Some k \<Longrightarrow>
  prefix p k \<and> (\<exists>o'. mem_objs w k = Some o')"
  using weak_map_of_SomeI by (fastforce simp: mem_list_def page_objects_def mem_objs_def)

lemma mem_file_create:
  assumes hook: "\<And>b fl. keeps I (hook b fl) (\<lambda>_. True)" and own: "\<And>v v'. own_step mem_objs mem_com key v v' \<Longrightarrow> I v \<Longrightarrow> I v'"
  shows "keeps I (io_bind (fa_file_create mem_fs hook (''s3://b/'' @ key) rdonly mode) (\<lambda>f. with_handle f (fa_file_flush mem_fs))) (\<lambda>_. True)"
proof -
  have st: "keeps I (mem_staging_from (''s3://b/'' @ key)) (\<lambda>root. root = key)"
  proof (rule keepsI)
    fix w r w' assume "mem_staging_from (''s3://b/'' @ key) w = (r, w')" "I w"
    with mem_staging_uri [of "''b''" key w] show "I w' \<and> (\<forall>root. r = Ok root \<longrightarrow> root = key)" by auto
  qed
  have fl: "keeps I (mem_flush_inode key i d FlagCreate) (\<lambda>_. True)" for i d
  proof (rule keepsI)
    fix w r w' assume run: "mem_flush_inode key i d FlagCreate w = (r, w')" and w: "I w"
    with mem_fs_store.flush_inode_any [of key i d FlagCreate w r w'] have "own_step mem_objs mem_com key w w'"
      by (simp add: own_step_def)
    with own w show "I w' \<and> (\<forall>a. r = Ok a \<longrightarrow> True)" by blast
  qed
  have "keeps I (fa_file_create mem_fs hook (''s3://b/'' @ key) rdonly mode) (\<lambda>_. True)"
    unfolding mem_fs_def fs_api.select_convs mem_flush_hook_def option.case
    by (rule keeps_bind [OF st], hypsubst, intro keeps_seq hook fl keeps_pure(5))
  moreover have "keeps I (with_handle f (fa_file_flush mem_fs)) (\<lambda>_. True)" for f
    by (simp add: mem_fs_def with_handle_def keeps_def io_return_def)
  ultimately show ?thesis by (rule keeps_seq)
qed

interpretation mem_machine: fs_machine mem_fs mem_objs mem_env map_of mem_com mem_ino layout_new "''b''"
proof (intro fs_machine.intro fs_machine_axioms.intro, goal_cases)
  case 1
  show ?case by (rule mem_fs_store.fs_store_axioms)
next
  case 2
  show ?case by simp
next
  case (3 w root)
  then show ?case by (simp add: mem_ino_def mem_com_def split: option.splits)
next
  case (4 root i d fl w fir w')
  then show ?case by (auto simp: mem_flush_inode_def mem_com_def update_conv' split: if_splits option.splits)
next
  case (5 p w pages w' ob k)
  then show ?case by (intro mem_list_sound) auto
next
  case (6 I hook key rdonly mode)
  then show ?case using mem_file_create [of I hook key rdonly mode] by simp
next
  case (7 b)
  then show ?case by simp
qed

text \<open>An empty bucket.\<close>

definition bare_world :: mem_fs_world where
  "bare_world = \<lparr> mw_objs = [], mw_now = 5, mw_next = 7, fw_dirs = [] \<rparr>"

lemma bare_empty: "fs_empty layout_new mem_objs mem_com bare_world"
  by (simp add: fs_empty_def bare_world_def layout_new_def mem_objs_def mem_com_def fun_eq_iff)

text \<open>The root is created, a file is created in it, and its name is unlinked.\<close>

definition root_handle :: "(mem_inode, (u64 \<times> mem_inode dir_file_entry_raw) list, mem_inode option) dir_handle" where
  "root_handle =
     \<lparr> h_bmap = [], h_root = dir_key ref_ext layout_new ROOT_DIR_UUID, h_rdonly = False, h_policy = RetryLastWriterWins,
       h_inode = \<lparr> mi_mode = 16877, mi_nlink = 1, mi_ctime = 0, mi_ctime_nsec = 0 \<rparr>,
       h_od = Some \<lparr> mi_mode = 16877, mi_nlink = 1, mi_ctime = 0, mi_ctime_nsec = 0 \<rparr> \<rparr>"

definition root_world :: mem_fs_world where
  "root_world = bare_world\<lparr>fw_dirs := [(dir_key ref_ext layout_new ROOT_DIR_UUID,
     \<lparr> mi_mode = 16877, mi_nlink = 1, mi_ctime = 0, mi_ctime_nsec = 0 \<rparr>, [])]\<rparr>"

definition busy_world :: mem_fs_world where
  "busy_world =
     snd (run_op mem_fs layout_new ''b'' (OpUnlink ROOT_DIR_UUID ''a'' 7 False None)
       (snd (run_op mem_fs layout_new ''b'' (OpCreateFile ROOT_DIR_UUID ''a'' False 33188) root_world)))"

lemma dir_uri_plain: "\<not> ends_with (dir_uri ref_ext l bucket u) ''/''"
proof
  assume e: "ends_with (dir_uri ref_ext l bucket u) ''/''"
  have "dir_uri ref_ext l bucket u \<noteq> [] \<and> last (dir_uri ref_ext l bucket u) = last (uuid_fmt ref_ext u)"
    using uuid_nonempty [of u] by (simp add: dir_uri_def dir_key_def)
  with e have "last (uuid_fmt ref_ext u) = CHR ''/''" by (auto simp: ends_with_def suffix_def)
  with last_in_set [OF uuid_nonempty [of u]] refc.uuid_fmt_no [of "CHR ''/''" u] show False by simp
qed

lemma root_created: "run_open mem_fs layout_new ''b'' (OpenRoot False 16877) bare_world = (Ok (root_handle, ROOT_DIR_UUID), root_world)"
  using dir_uri_plain [of layout_new "''b''" ROOT_DIR_UUID] mem_staging_uri [of "''b''" "dir_key ref_ext layout_new ROOT_DIR_UUID" bare_world]
  by (simp add: fs_create_root_def fs_create_def hyper_create_def dir_new_def dir_flush_inode_def Let_def to_dir_staging_config_def io_bind_def
    io_lift_def io_return_def with_handle_def mem_flush_hook_def mem_flush_inode_def root_dir_uri_def dir_uri_def mem_ino_def
    root_handle_def root_world_def bare_world_def)

lemma root_reached: "fs_reach mem_fs layout_new ''b'' bare_world ([(ROOT_DIR_UUID, root_handle)], root_world)"
  by (rule reach_step [OF reach_start], rule step_open [OF root_created])

lemma busy_reached: "fs_reach mem_fs layout_new ''b'' bare_world ([(ROOT_DIR_UUID, root_handle)], busy_world)"
proof -
  have nm: "good_name ''a''" by (simp add: good_name_def storable_short ascii_utf8_valid ascii_def)
  have op: "fs_step mem_fs layout_new ''b'' (hs, w) (hs, snd (run_op mem_fs layout_new ''b'' c w))" if "op_ok layout_new c" for c hs w
    using step_op [OF that surjective_pairing] .
  show ?thesis unfolding busy_world_def by (rule reach_step [OF reach_step [OF root_reached op] op]) (simp_all add: nm)
qed

section \<open>Properties\<close>

text \<open>C2. Whatever sequence of calls ran on an empty bucket, each to success, failure or panic, including
  clients that stopped half-way through a rename or an unlink: every directory of the layout has a sound
  index and a folder of well-formed scatter objects, every outstanding rename intent can be completed,
  and every open handle has a sound index.\<close>

theorem reachable_dirs_ok:
  assumes "fs_machine F objs env tab com ino bucket" and "fs_empty l objs com w0"
    and "fs_reach F l bucket w0 (hs, w)"
  shows "(\<forall>p. dir_ok (fa_ext F) (objs w) (com w (dir_key (fa_ext F) l p)) (dir_key (fa_ext F) l p)) \<and>
    intents_ok (fa_ext F) l (objs w) \<and> list_all (\<lambda>(p, h). handle_ok (fa_ext F) l tab p h) hs"
  using fs_machine.reach_ok [OF assms(1,3,2)] by (auto simp: fs_machine.machine_ok_def [OF assms(1)] fs_inv_def list_all_iff)

theorem reachable_dirs_ok_witness:
  "dir_ok ref_ext (mem_objs busy_world) (mem_com busy_world (dir_key ref_ext layout_new ROOT_DIR_UUID))
     (dir_key ref_ext layout_new ROOT_DIR_UUID) \<and> intents_ok ref_ext layout_new (mem_objs busy_world) \<and>
   handle_ok ref_ext layout_new map_of ROOT_DIR_UUID root_handle"
  using reachable_dirs_ok [OF mem_machine.fs_machine_axioms bare_empty busy_reached] by simp

text \<open>C4. In every reachable state a listing of a directory is right and the cheap resolve agrees with it: the
  listing has each name once and shows the committed index overlaid by the outstanding scatters, and what
  the resolve of a name returns is what the listing shows under it.\<close>

theorem reachable_listing:
  assumes "fs_machine F objs env tab com ino bucket" and "fs_empty l objs com w0"
    and "fs_reach F l bucket w0 (hs, w)" and "root = dir_key (fa_ext F) l p"
    and "pages_ok (fst (list_objects (fa_s3 F) (scatter_inodes_path root) w))"
    and "pages_ok (fst (list_objects (fa_s3 F) (scatter_inodes_path root @ encode_filename (fa_ext F) nm @ ''/'') w))"
    and "read_dir (fa_dir F) root w = (Ok es, w1)" and "resolve_fast (fa_dir F) root nm w = (Ok r, w2)"
  shows "distinct (map d_name es) \<and> r = map_of (map (\<lambda>e. (d_name e, e)) es) nm \<and>
    map_of (map (\<lambda>e. (d_name e, e)) es) = dir_view (fa_ext F) (fa_ino F) (objs w) (com w root) root"
proof -
  have dir: "directory (fa_dir F) objs env tab com ino"
    using fs_machine.axioms(1) [OF assms(1)] by (rule fs_store.axioms(1))
  have ok: "dir_ok (fa_ext F) (objs w) (com w root) root"
    using fs_machine.reach_ok [OF assms(1,3,2)] assms(4) by (simp add: fs_machine.machine_ok_def [OF assms(1)] fs_inv_def)
  note rd = directory.read_dir_sound [OF dir ok assms(5,7)]
  from rd directory.resolve_fast_sound [OF dir ok assms(6,8)] show ?thesis by simp
qed

text \<open>The root with one file in it, which is still announced by a scatter object only.\<close>

definition new_file :: mem_inode where
  "new_file = \<lparr> mi_mode = 33188, mi_nlink = 1, mi_ctime = 0, mi_ctime_nsec = 0 \<rparr>"

definition file_world :: "string \<Rightarrow> mem_fs_world" where
  "file_world k = root_world\<lparr>mw_objs := [(k, mem_inode_bytes new_file, 5)], mw_next := 9,
     fw_dirs := fw_dirs root_world @ [(file_key ref_ext layout_new 7, new_file, [])]\<rparr>"

lemma file_created:
  assumes k: "path_encode ref_ext 8 (dir_key ref_ext layout_new ROOT_DIR_UUID) ''a'' 7 (op_u8 Create) = Ok k"
  shows "run_op mem_fs layout_new ''b'' (OpCreateFile ROOT_DIR_UUID ''a'' False 33188) root_world = (Ok (), file_world k)"
proof -
  let ?root = "dir_key ref_ext layout_new ROOT_DIR_UUID" and ?file = "file_key ref_ext layout_new 7"
  have st: "mem_staging_from (dir_uri ref_ext layout_new ''b'' ROOT_DIR_UUID) w = (Ok ?root, w)"
    "mem_staging_from (file_uri ref_ext layout_new ''b'' 7) w = (Ok ?file, w)" for w
    using mem_staging_uri [of "''b''" ?root w] mem_staging_uri [of "''b''" ?file w] by (simp_all add: dir_uri_def file_uri_def)
  have ne: "?root \<noteq> ?file" by (simp add: dir_key_def file_key_def DIR_NAMESPACE_def FILE_NAMESPACE_def layout_new_def)
  have em: "emit_scatter_event ref_ext mem_s3 ?root ''a'' 7 (mem_inode_bytes new_file) Create (root_world\<lparr>mw_next := 8\<rparr>) =
      (Ok (), root_world\<lparr>mw_objs := [(k, mem_inode_bytes new_file, 5)], mw_next := 9\<rparr>)"
    using k by (simp add: emit_scatter_event_def mem_put_def mem_objs_def root_world_def bare_world_def)
  have fl: "mem_flush_inode ?file new_file None FlagCreate (root_world\<lparr>mw_objs := [(k, mem_inode_bytes new_file, 5)], mw_next := 9\<rparr>) =
      (Ok (Some new_file), file_world k)"
    using ne by (simp add: mem_flush_inode_def mem_ino_def file_world_def root_world_def)
  let ?ic = "\<lparr> parent_dir_staging = ?root, ic_name = ''a'', ic_uuid = 7 \<rparr>"
  have "mw_next root_world = 7" by (simp add: root_world_def bare_world_def)
  then have ch: "fresh_child mem_fs layout_new ''b'' ROOT_DIR_UUID ''a'' root_world = (Ok (7, ?ic), root_world\<lparr>mw_next := 8\<rparr>)"
    by (simp add: fresh_child_def staging_from_def io_bind_def io_return_def st)
  have hook: "before_flush_inode mem_fs ?ic (mem_inode_bytes new_file) FlagCreate (root_world\<lparr>mw_next := 8\<rparr>) =
      (Ok (), root_world\<lparr>mw_objs := [(k, mem_inode_bytes new_file, 5)], mw_next := 9\<rparr>)"
    using em by (simp add: before_flush_inode_def)
  have "fa_file_create mem_fs (before_flush_inode mem_fs ?ic) (file_uri ref_ext layout_new ''b'' 7) False 33188 (root_world\<lparr>mw_next := 8\<rparr>) =
      (Ok ?file, file_world k)"
    using hook fl unfolding new_file_def by (simp add: mem_fs_def [THEN arg_cong [of _ _ fa_file_create]] mem_flush_hook_def io_bind_def io_return_def st)
  moreover have "fa_file_flush mem_fs = io_return 1" by (simp add: mem_fs_def)
  ultimately show ?thesis using ch by (simp add: done_io_def fs_create_file_def io_bind_def io_return_def with_handle_def)
qed

lemma file_reached:
  assumes "path_encode ref_ext 8 (dir_key ref_ext layout_new ROOT_DIR_UUID) ''a'' 7 (op_u8 Create) = Ok k"
  shows "fs_reach mem_fs layout_new ''b'' bare_world ([(ROOT_DIR_UUID, root_handle)], file_world k)"
  by (rule reach_step [OF root_reached step_op [OF _ file_created [OF assms]]])
    (simp add: good_name_def storable_short ascii_utf8_valid ascii_def)

lemma file_read:
  assumes k: "path_encode ref_ext 8 (dir_key ref_ext layout_new ROOT_DIR_UUID) ''a'' 7 (op_u8 Create) = Ok k"
  shows "read_dir mem_deps (dir_key ref_ext layout_new ROOT_DIR_UUID) (file_world k) =
      (Ok [entry_from_raw (entry_from new_file 7 ''a'')], file_world k)"
    "resolve_fast mem_deps (dir_key ref_ext layout_new ROOT_DIR_UUID) ''a'' (file_world k) =
      (Ok (Some (entry_from_raw (entry_from new_file 7 ''a''))), file_world k)"
proof -
  let ?r = "dir_key ref_ext layout_new ROOT_DIR_UUID"
  let ?s = "\<lparr> s_key = k, s_op = Create, s_ulid = 8, s_uuid = 7, s_filename = ''a'', s_last_modified = 5 \<rparr>"
  have o: "mw_objs (file_world k) = [(k, mem_inode_bytes new_file, 5)]" by (simp add: file_world_def)
  have bang: "CHR ''!'' \<notin> set ?r"
    using refc.uuid_fmt_no [of "CHR ''!''" ROOT_DIR_UUID] by (simp add: dir_key_def DIR_NAMESPACE_def layout_new_def)
  have dec: "path_decode ref_ext k 5 = Ok ?s"
    using refc.path_roundtrip [OF bang _ a_text(1) op_u8_less k] by (simp add: from_u8_def)
  have li: "decode_listed ref_ext \<lparr> lo_key = Some k, lo_last_modified = Some 5 \<rparr> = Ok (Some ?s)"
    using scatter_key_suffix [OF k] dec by (auto simp: decode_listed_def)
  have pre: "prefix (scatter_inodes_path ?r) k" "prefix (scatter_inodes_path ?r @ encode_filename ref_ext ''a'' @ ''/'') k"
    using k by (simp_all add: path_encode_Ok scatter_stem_def scatter_inodes_path_def DEFAULT_DIR_INODE_SCATTER_FOLDER_def)
  have l: "list_scatter_inodes ref_ext mem_s3 ?r (file_world k) = (Ok [?s], file_world k)"
    "list_scatter_inodes_for_name ref_ext mem_s3 ?r ''a'' (file_world k) = (Ok [?s], file_world k)"
    using pre li by (simp_all add: list_scatter_inodes_def list_scatter_inodes_for_name_def list_scatter_with_prefix_def mem_list_def o)
  have get: "mem_get k (file_world k) = (Inr \<lparr> g_etag = Some (quoted (mem_etag (mem_inode_bytes new_file))),
      g_body = Some (mem_inode_bytes new_file) \<rparr>, file_world k)" by (simp add: mem_get_def o)
  have b: "load_latest_bmap mem_deps ?r (file_world k) = (Ok [], file_world k)"
    by (simp add: load_latest_bmap_def io_bind_def mem_load_def mem_read_def file_world_def root_world_def)
  have c: "collect_scatter_changes mem_deps ?r (file_world k) =
      (Ok \<lparr> all_keys = [k], upserts = [(''a'', entry_from new_file 7 ''a'')], deletes = [], predeletes = [], tombstone_keys = [] \<rparr>, file_world k)"
    by (simp add: collect_scatter_changes_def l io_bind_def io_lift_def io_return_def get
        filter_last_view_def scatter_groups_def build_deletes_def build_predeletes_def)
  have "walk_bmap mem_btree ([] :: (u64 \<times> mem_inode dir_file_entry_raw) list) = Ok []" by (simp add: walk_bmap_def)
  with b c show "read_dir mem_deps ?r (file_world k) = (Ok [entry_from_raw (entry_from new_file 7 ''a'')], file_world k)"
    by (simp add: read_dir_def io_bind_def io_lift_def io_return_def hm_items_def)
  show "resolve_fast mem_deps ?r ''a'' (file_world k) = (Ok (Some (entry_from_raw (entry_from new_file 7 ''a''))), file_world k)"
    by (simp add: resolve_fast_def io_bind_def io_lift_def io_return_def filter_last_view_def scatter_groups_def l get)
qed

theorem reachable_listing_witness:
  "\<exists>k w. fs_reach mem_fs layout_new ''b'' bare_world ([(ROOT_DIR_UUID, root_handle)], w) \<and> mem_objs w k \<noteq> None \<and>
     dir_view ref_ext mem_inode_api (mem_objs w) (mem_com w (dir_key ref_ext layout_new ROOT_DIR_UUID))
       (dir_key ref_ext layout_new ROOT_DIR_UUID) ''a'' = Some (entry_from_raw (entry_from new_file 7 ''a''))"
proof -
  let ?r = "dir_key ref_ext layout_new ROOT_DIR_UUID"
  have "\<not> ends_with ?r ''/''"
    using dir_uri_plain [of layout_new "''b''" ROOT_DIR_UUID] by (auto simp: dir_uri_def ends_with_def suffix_def)
  then obtain k where k: "path_encode ref_ext 8 ?r ''a'' 7 (op_u8 Create) = Ok k" unfolding path_encode_Ok by blast
  note R = reachable_listing [OF mem_machine.fs_machine_axioms bare_empty file_reached [OF k] refl, unfolded mem_fs_sel mem_deps_sel,
      OF mem_pages mem_pages file_read [OF k]]
  have "entry_from_raw (entry_from new_file 7 ''a'') = entry_from_raw (entry_from new_file 7 ''a'') \<and>
    dir_view ref_ext mem_inode_api (mem_objs (file_world k)) (mem_com (file_world k) ?r) ?r ''a'' =
      Some (entry_from_raw (entry_from new_file 7 ''a''))"
    using R by (metis (no_types))
  moreover have "mem_objs (file_world k) k \<noteq> None" by (simp add: mem_objs_def file_world_def)
  ultimately show ?thesis using file_reached [OF k] by blast
qed

end
