(* ===== verification/Hyper_Callbacks.thy ===== *)
theory Hyper_Callbacks
  imports Hyperfile
begin

text \<open>
  The callbacks through which the \<open>hyperfile\<close> library works on a directory file: the implementation of
  \<open>HyperTrait\<close> for \<open>HyperDirFile\<close> at the end of \<open>src/file.rs\<close>, and the fields of the handle that only they
  use. The B-tree, the block pointers, the staging, the configuration and the timing counters belong to
  libraries and are type parameters with the calls the code makes.

  A \<open>tokio\<close> semaphore is the number of its free permits, a mutex whether it is held; a call that has to
  wait is \<open>None\<close>.
\<close>

section \<open>The libraries\<close>

record 'p blk_ptr_api =
  bp_encode :: "u64 \<Rightarrow> u64 \<Rightarrow> nat \<Rightarrow> 'p \<Rightarrow> u64"
  bp_decode :: "u64 \<Rightarrow> 'p \<Rightarrow> u64 \<times> u64"
  bp_is_dummy :: "u64 \<Rightarrow> bool"
  bp_is_invalid :: "u64 \<Rightarrow> bool"
  bp_is_zero_block :: "u64 \<Rightarrow> bool"
  bp_is_on_staging :: "u64 \<Rightarrow> bool"
  bp_micro_group :: "u64 \<Rightarrow> nat"

record ('v, 'b, 'n, 'l) bmap_api =
  bp_tree :: "('v, 'b) btree_api"
  bp_as_slice :: "'b \<Rightarrow> bytes"
  bp_block_loader :: "'b \<Rightarrow> 'l"
  bp_dirty :: "'b \<Rightarrow> bool"
  bp_lookup_dirty :: "'b \<Rightarrow> 'n list"
  bp_assign_meta :: "u64 \<Rightarrow> 'n \<Rightarrow> 'b \<Rightarrow> unit result \<times> 'b"
  bp_assign_data :: "u64 \<Rightarrow> u64 \<Rightarrow> 'b \<Rightarrow> unit result \<times> 'b"
  bp_clear_dirty :: "'b \<Rightarrow> 'b"
  bp_cache_limit :: "'b \<Rightarrow> nat"
  bp_set_cache_limit :: "nat \<Rightarrow> 'b \<Rightarrow> 'b"

section \<open>The handle\<close>

record ('b, 's, 'p, 'c, 'i, 't) hyper_dir_file =
  hd_bmap :: 'b
  hd_staging :: 's
  hd_blk_ptr_format :: 'p
  hd_config :: 'c
  hd_rdonly :: bool
  hd_last_flush :: int
  hd_sema :: nat
  hd_flush_lock :: bool
  hd_inode :: 'i
  hd_flush_timing :: 't

text \<open>The permits of a handle that was opened: any number of readers, or one writer.\<close>

definition open_permits :: "nat \<Rightarrow> bool \<Rightarrow> nat" where
  "open_permits max_permits rdonly = (if rdonly then max_permits else 1)"

section \<open>Block pointers\<close>

definition blk_ptr_encode ::
  "'p blk_ptr_api \<Rightarrow> ('b, 's, 'p, 'c, 'i, 't) hyper_dir_file \<Rightarrow> u64 \<Rightarrow> u64 \<Rightarrow> nat \<Rightarrow> u64" where
  "blk_ptr_encode P h segid offset seq = bp_encode P segid offset seq (hd_blk_ptr_format h)"

definition blk_ptr_decode ::
  "'p blk_ptr_api \<Rightarrow> ('b, 's, 'p, 'c, 'i, 't) hyper_dir_file \<Rightarrow> u64 \<Rightarrow> u64 \<times> u64" where
  "blk_ptr_decode P h blk_ptr = bp_decode P blk_ptr (hd_blk_ptr_format h)"

definition hex_digit :: "nat \<Rightarrow> char" where
  "hex_digit d = ''0123456789abcdef'' ! d"

fun show_hex :: "nat \<Rightarrow> string" where
  "show_hex n = (if n < 16 then [hex_digit n] else show_hex (n div 16) @ [hex_digit (n mod 16)])"

declare show_hex.simps [simp del]

definition blk_ptr_decode_display ::
  "'p blk_ptr_api \<Rightarrow> ('b, 's, 'p, 'c, 'i, 't) hyper_dir_file \<Rightarrow> u64 \<Rightarrow> string" where
  "blk_ptr_decode_display P h blk_ptr =
     (if bp_is_dummy P blk_ptr then ''[Dummy]''
      else if bp_is_invalid P blk_ptr then ''[Invalid]''
      else if bp_is_zero_block P blk_ptr then ''[Zero Block]''
      else if bp_is_on_staging P blk_ptr then
        (case blk_ptr_decode P h blk_ptr of (segid, off) \<Rightarrow>
          ''[Staging: id '' @ show_nat (unat segid) @ '' - offset '' @ show_nat (unat off) @
          '' - group '' @ show_nat (bp_micro_group P blk_ptr) @ '']'')
      else ''[Unknown: 0x'' @ show_hex (unat blk_ptr) @ '']'')"

section \<open>Data blocks: a directory has none\<close>

definition clear_data_blocks_cache :: "('b, 's, 'p, 'c, 'i, 't) hyper_dir_file \<Rightarrow> ('b, 's, 'p, 'c, 'i, 't) hyper_dir_file" where
  "clear_data_blocks_cache h = h"

definition set_data_blocks_cache_unlimited ::
  "('b, 's, 'p, 'c, 'i, 't) hyper_dir_file \<Rightarrow> ('b, 's, 'p, 'c, 'i, 't) hyper_dir_file" where
  "set_data_blocks_cache_unlimited h = h"

definition restore_data_blocks_cache_limit ::
  "('b, 's, 'p, 'c, 'i, 't) hyper_dir_file \<Rightarrow> ('b, 's, 'p, 'c, 'i, 't) hyper_dir_file" where
  "restore_data_blocks_cache_limit h = h"

text \<open>The dirty blocks as \<open>DirtyDataBlocks { inner, owned }\<close>.\<close>

definition get_data_blocks_dirty ::
  "('b, 's, 'p, 'c, 'i, 't) hyper_dir_file \<Rightarrow> (u64 \<times> bytes) list option \<times> (u64 \<times> bytes) list option" where
  "get_data_blocks_dirty h = (Some [], None)"

definition clear_data_blocks_dirty :: "('b, 's, 'p, 'c, 'i, 't) hyper_dir_file \<Rightarrow> ('b, 's, 'p, 'c, 'i, 't) hyper_dir_file" where
  "clear_data_blocks_dirty h = h"

section \<open>The handle's locks\<close>

definition hd_lock :: "('b, 's, 'p, 'c, 'i, 't) hyper_dir_file \<Rightarrow> ('b, 's, 'p, 'c, 'i, 't) hyper_dir_file option" where
  "hd_lock h = (if hd_sema h = 0 then None else Some (h\<lparr>hd_sema := hd_sema h - 1\<rparr>))"

definition hd_unlock :: "('b, 's, 'p, 'c, 'i, 't) hyper_dir_file \<Rightarrow> ('b, 's, 'p, 'c, 'i, 't) hyper_dir_file" where
  "hd_unlock h = h\<lparr>hd_sema := Suc (hd_sema h)\<rparr>"

definition flush_lock :: "('b, 's, 'p, 'c, 'i, 't) hyper_dir_file \<Rightarrow> ('b, 's, 'p, 'c, 'i, 't) hyper_dir_file option" where
  "flush_lock h = (if hd_flush_lock h then None else Some (h\<lparr>hd_flush_lock := True\<rparr>))"

definition flush_unlock :: "('b, 's, 'p, 'c, 'i, 't) hyper_dir_file \<Rightarrow> ('b, 's, 'p, 'c, 'i, 't) hyper_dir_file" where
  "flush_unlock h = h\<lparr>hd_flush_lock := False\<rparr>"

section \<open>The B-tree\<close>

definition bmap_as_slice :: "('v, 'b, 'n, 'l) bmap_api \<Rightarrow> ('b, 's, 'p, 'c, 'i, 't) hyper_dir_file \<Rightarrow> bytes" where
  "bmap_as_slice B h = bp_as_slice B (hd_bmap h)"

definition bmap_get_block_loader :: "('v, 'b, 'n, 'l) bmap_api \<Rightarrow> ('b, 's, 'p, 'c, 'i, 't) hyper_dir_file \<Rightarrow> 'l" where
  "bmap_get_block_loader B h = bp_block_loader B (hd_bmap h)"

definition bmap_dirty :: "('v, 'b, 'n, 'l) bmap_api \<Rightarrow> ('b, 's, 'p, 'c, 'i, 't) hyper_dir_file \<Rightarrow> bool" where
  "bmap_dirty B h = bp_dirty B (hd_bmap h)"

definition bmap_lookup_dirty :: "('v, 'b, 'n, 'l) bmap_api \<Rightarrow> ('b, 's, 'p, 'c, 'i, 't) hyper_dir_file \<Rightarrow> 'n list" where
  "bmap_lookup_dirty B h = bp_lookup_dirty B (hd_bmap h)"

text \<open>Assigning a block pointer to a dirty node changes the tree behind the handle.\<close>

definition bmap_assign_meta_node ::
  "('v, 'b, 'n, 'l) bmap_api \<Rightarrow> u64 \<Rightarrow> 'n \<Rightarrow> (('b, 's, 'p, 'c, 'i, 't) hyper_dir_file, unit) io" where
  "bmap_assign_meta_node B blk_ptr node h =
     (case bp_assign_meta B blk_ptr node (hd_bmap h) of (r, b') \<Rightarrow> (r, h\<lparr>hd_bmap := b'\<rparr>))"

definition bmap_assign_data_node ::
  "('v, 'b, 'n, 'l) bmap_api \<Rightarrow> u64 \<Rightarrow> u64 \<Rightarrow> (('b, 's, 'p, 'c, 'i, 't) hyper_dir_file, unit) io" where
  "bmap_assign_data_node B blk_idx blk_ptr h =
     (case bp_assign_data B blk_idx blk_ptr (hd_bmap h) of (r, b') \<Rightarrow> (r, h\<lparr>hd_bmap := b'\<rparr>))"

definition bmap_clear_dirty ::
  "('v, 'b, 'n, 'l) bmap_api \<Rightarrow> ('b, 's, 'p, 'c, 'i, 't) hyper_dir_file \<Rightarrow> ('b, 's, 'p, 'c, 'i, 't) hyper_dir_file" where
  "bmap_clear_dirty B h = h\<lparr>hd_bmap := bp_clear_dirty B (hd_bmap h)\<rparr>"

definition bmap_update :: "'b \<Rightarrow> ('b, 's, 'p, 'c, 'i, 't) hyper_dir_file \<Rightarrow> ('b, 's, 'p, 'c, 'i, 't) hyper_dir_file" where
  "bmap_update bmap h = h\<lparr>hd_bmap := bmap\<rparr>"

definition bmap_insert_dummy_value ::
  "'i inode_api \<Rightarrow> ('i dir_file_entry_raw, 'b, 'n, 'l) bmap_api \<Rightarrow> u64 \<Rightarrow> ('b, 'i dir_file_entry_raw option) io" where
  "bmap_insert_dummy_value ia B blk_idx bmap = bm_insert (bp_tree B) blk_idx (dummy_value ia) bmap"

definition bmap_set_cache_unlimited ::
  "nat \<Rightarrow> ('v, 'b, 'n, 'l) bmap_api \<Rightarrow> ('b, 's, 'p, 'c, 'i, 't) hyper_dir_file \<Rightarrow> nat \<times> ('b, 's, 'p, 'c, 'i, 't) hyper_dir_file" where
  "bmap_set_cache_unlimited unlimited B h =
     (let limit = bp_cache_limit B (hd_bmap h) in (limit, h\<lparr>hd_bmap := bp_set_cache_limit B unlimited (hd_bmap h)\<rparr>))"

definition bmap_set_cache_limit ::
  "('v, 'b, 'n, 'l) bmap_api \<Rightarrow> nat \<Rightarrow> ('b, 's, 'p, 'c, 'i, 't) hyper_dir_file \<Rightarrow> ('b, 's, 'p, 'c, 'i, 't) hyper_dir_file" where
  "bmap_set_cache_limit B limit h = h\<lparr>hd_bmap := bp_set_cache_limit B limit (hd_bmap h)\<rparr>"

text \<open>The value of an unused slot, as the B-tree asks for it.\<close>

definition invalid_value :: "'i inode_api \<Rightarrow> 'i dir_file_entry_raw" where
  "invalid_value ia = entry_default ia"

definition is_valid_extern_assign :: "'i dir_file_entry_raw \<Rightarrow> bool" where
  "is_valid_extern_assign e = False"

section \<open>The inode and the times\<close>

text \<open>The mutable reference to the inode, as the change that its holder makes.\<close>

definition inode_mut :: "('i \<Rightarrow> 'i) \<Rightarrow> ('b, 's, 'p, 'c, 'i, 't) hyper_dir_file \<Rightarrow> ('b, 's, 'p, 'c, 'i, 't) hyper_dir_file" where
  "inode_mut f h = h\<lparr>hd_inode := f (hd_inode h)\<rparr>"

definition set_last_flush :: "int \<Rightarrow> ('b, 's, 'p, 'c, 'i, 't) hyper_dir_file \<Rightarrow> ('b, 's, 'p, 'c, 'i, 't) hyper_dir_file" where
  "set_last_flush now h = h\<lparr>hd_last_flush := now\<rparr>"

text \<open>The write-ahead log of the library is not supported: each of its callbacks is \<open>todo!()\<close>.\<close>

definition wal_set_mem_segment :: "u64 \<Rightarrow> ('b, 's, 'p, 'c, 'i, 't) hyper_dir_file \<Rightarrow> unit result" where
  "wal_set_mem_segment segid h = Panic"

definition wal_clear_mem_segment :: "u64 \<Rightarrow> ('b, 's, 'p, 'c, 'i, 't) hyper_dir_file \<Rightarrow> unit result" where
  "wal_clear_mem_segment segid h = Panic"

definition wal_spawn_delete_segment :: "u64 \<Rightarrow> ('b, 's, 'p, 'c, 'i, 't) hyper_dir_file \<Rightarrow> unit result" where
  "wal_spawn_delete_segment segid h = Panic"

section \<open>Lemmas\<close>

text \<open>
  The tasks that share a handle take and return its permits. The second component counts the permits
  that are held.
\<close>

inductive permit_run ::
  "nat \<Rightarrow> ('b, 's, 'p, 'c, 'i, 't) hyper_dir_file \<Rightarrow> ('b, 's, 'p, 'c, 'i, 't) hyper_dir_file \<Rightarrow> nat \<Rightarrow> bool"
  for max_permits h0 where
  permit_opened: "hd_sema h0 = open_permits max_permits (hd_rdonly h0) \<Longrightarrow> permit_run max_permits h0 h0 0"
| permit_taken: "permit_run max_permits h0 h n \<Longrightarrow> hd_lock h = Some h' \<Longrightarrow> permit_run max_permits h0 h' (Suc n)"
| permit_returned: "permit_run max_permits h0 h (Suc n) \<Longrightarrow> permit_run max_permits h0 (hd_unlock h) n"

inductive_cases hd_lockE: "permit_run max_permits h0 h (Suc n)"

lemma permits_conserved:
  "permit_run max_permits h0 h n \<Longrightarrow> hd_sema h + n = open_permits max_permits (hd_rdonly h0) \<and> hd_rdonly h = hd_rdonly h0"
  by (induction rule: permit_run.induct) (auto simp: hd_lock_def hd_unlock_def split: if_splits)

text \<open>On a handle opened for writing one task at a time holds the permit, and the next waits for it.\<close>

lemma writer_excludes:
  assumes "permit_run max_permits h0 h n" and "\<not> hd_rdonly h0"
  shows "n \<le> 1" and "n = 1 \<longleftrightarrow> hd_lock h = None"
  using permits_conserved [OF assms(1)] assms(2) by (auto simp: open_permits_def hd_lock_def)

lemma flush_lock_excludes: "flush_lock h = Some h' \<Longrightarrow> flush_lock h' = None \<and> flush_lock (flush_unlock h') = Some h'"
  by (auto simp: flush_lock_def flush_unlock_def split: if_splits)

text \<open>Lifting the cache limit for the time of a flush and setting it back leaves the handle as it was.\<close>

lemma cache_limit_restored:
  assumes "bmap_set_cache_unlimited unlimited B h = (limit, h')"
    and "\<And>n m b. bp_set_cache_limit B n (bp_set_cache_limit B m b) = bp_set_cache_limit B n b"
    and "\<And>b. bp_set_cache_limit B (bp_cache_limit B b) b = b"
  shows "bmap_set_cache_limit B limit h' = h"
  using assms(1) assms(2) [of "bp_cache_limit B (hd_bmap h)"] assms(3) [of "hd_bmap h"]
  by (auto simp: bmap_set_cache_unlimited_def bmap_set_cache_limit_def Let_def)

text \<open>The placeholder of a slot matches no name, so a lookup by name steps over it.\<close>

lemma dummy_slot_nameless:
  assumes "btree (bp_tree B) tab" and "bmap_insert_dummy_value ia B k b = (Ok old, b')" and "utf8_valid nm"
  shows "\<exists>e. tab b' k = Some e \<and> is_dummy e \<and> \<not> name_eq e nm"
proof -
  from btree.insert_Ok [OF assms(1)] assms(2) have "tab b' k = Some (dummy_value ia)"
    by (auto simp: bmap_insert_dummy_value_def)
  moreover have "\<not> name_eq (dummy_value ia) nm"
    using dummy_value_is_dummy [of ia] assms(3) utf8_not_FF [of "replicate 254 (CHR 0xFF)" nm]
    by (auto simp: name_eq_def name_bytes_dummy DEFAULT_NAME_LEN_def numeral_eq_Suc)
  ultimately show ?thesis using dummy_value_is_dummy by blast
qed

text \<open>An unused slot is neither the placeholder nor the entry of a name.\<close>

lemma invalid_slot:
  "is_invalid (invalid_value ia)" "\<not> is_dummy (invalid_value ia)" "nm \<noteq> [] \<Longrightarrow> \<not> name_eq (invalid_value ia) nm"
proof -
  show "is_invalid (invalid_value ia)" unfolding invalid_value_def by (rule entry_default_is_invalid)
  have e: "name_bytes (invalid_value ia) = []"
    by (simp add: invalid_value_def entry_default_def name_bytes_def takeWhile_eq_Nil_iff)
  show "\<not> is_dummy (invalid_value ia)" using name_bytes_dummy [of "invalid_value ia"] e by (auto simp: DEFAULT_NAME_LEN_def)
  show "nm \<noteq> [] \<Longrightarrow> \<not> name_eq (invalid_value ia) nm" using e by (simp add: name_eq_def)
qed

end
