(* ===== verification/Unit_Tests.thy ===== *)
theory Unit_Tests
  imports Lock_Table Layout Scatter
begin

text \<open>
  The unit tests inside \<open>src/lock.rs\<close>, \<open>src/layout.rs\<close> and \<open>src/lib.rs\<close>, as closed booleans over the model:
  each definition follows a test line by line, and its lemma shows that the model passes it. A test that
  draws random identifiers is shown for all of them.
\<close>

section \<open>Lock table\<close>

definition FUTURE :: int where "FUTURE = i64_max"
definition NOW :: int where "NOW = 1000"

definition tset :: "string \<Rightarrow> lock_kind \<Rightarrow> u64 \<Rightarrow> u64 \<Rightarrow> lock_table \<Rightarrow> (conflict + unit) \<times> lock_table" where
  "tset owner kind s e t = lock_set owner kind s e 0 FUTURE NOW t"

definition is_ok :: "conflict + unit \<Rightarrow> bool" where
  "is_ok r = (case r of Inr _ \<Rightarrow> True | Inl _ \<Rightarrow> False)"

definition read_read_compatible_write_excludes :: bool where
  "read_read_compatible_write_excludes =
     (let (r1, t) = tset ''a'' Read 0 10 [];
          (r2, t) = tset ''b'' Read 5 20 t;
          (r3, t) = tset ''c'' Write 8 9 t;
          (r4, t) = tset ''c'' Write 100 200 t in
      is_ok r1 \<and> is_ok r2 \<and> (case r3 of Inl c \<Rightarrow> c_kind c = Read | Inr _ \<Rightarrow> False) \<and> is_ok r4)"

definition write_write_overlap_conflicts_disjoint_ok :: bool where
  "write_write_overlap_conflicts_disjoint_ok =
     (let (r1, t) = tset ''a'' Write 0 10 [];
          (r2, t) = tset ''b'' Write 10 10 t;
          (r3, t) = tset ''b'' Write 11 20 t in
      is_ok r1 \<and> \<not> is_ok r2 \<and> is_ok r3)"

definition same_owner_replaces_and_upgrades :: bool where
  "same_owner_replaces_and_upgrades =
     (let (r1, t) = tset ''a'' Read 0 10 [];
          (r2, t) = tset ''a'' Write 0 10 t;
          (r3, t) = tset ''b'' Write 0 0 t in
      is_ok r1 \<and> is_ok r2 \<and> \<not> is_ok r3)"

definition unlock_splits_middle :: bool where
  "unlock_splits_middle =
     (let (r1, t) = tset ''a'' Write 0 100 [];
          (r2, t) = tset ''a'' Unlock 40 60 t;
          (r3, t) = tset ''b'' Write 50 50 t;
          (r4, t) = tset ''c'' Write 0 0 t;
          (r5, t) = tset ''d'' Write 100 100 t in
      is_ok r1 \<and> is_ok r2 \<and> is_ok r3 \<and> \<not> is_ok r4 \<and> \<not> is_ok r5)"

definition release_owner_and_renew :: bool where
  "release_owner_and_renew =
     (let (r1, t) = tset ''a'' Write 0 10 [];
          (r2, t) = tset ''a'' Write 20 30 t;
          (b1, t) = renew ''a'' FUTURE t;
          (b2, t) = renew ''nobody'' FUTURE t;
          (b3, t) = release_owner ''a'' t;
          (r3, t') = tset ''b'' Write 0 30 t in
      is_ok r1 \<and> is_ok r2 \<and> b1 \<and> \<not> b2 \<and> b3 \<and> t = [] \<and> is_ok r3)"

definition expired_locks_are_ignored :: bool where
  "expired_locks_are_ignored =
     (let (r1, t) = lock_set ''a'' Write 0 10 0 (NOW - 1) NOW [];
          (r2, t) = lock_set ''b'' Write 0 10 0 FUTURE NOW t in
      is_ok r1 \<and> is_ok r2 \<and> lock_test t ''c'' Read 5 5 NOW \<noteq> None)"

definition encode_decode_roundtrip :: bool where
  "encode_decode_roundtrip =
     (let (r1, t) = tset ''client-1:42'' Read 0 10 [];
          (r2, t) = tset ''client-2:7'' Write 100 (- 1) t;
          back = lock_decode (lock_encode t) in
      is_ok r1 \<and> is_ok r2 \<and> lock_test back ''x'' Read 0 10 NOW = None \<and> lock_test back ''x'' Write 0 0 NOW \<noteq> None \<and>
      lock_test back ''x'' Read 200 200 NOW \<noteq> None)"

definition decode_tolerates_garbage :: bool where
  "decode_tolerates_garbage =
     (lock_decode [] = [] \<and>
      lock_decode (''v1'' @ [nl_char] @ ''garbage line'' @ [nl_char, tab_char] @ ''bad'' @ replicate 4 tab_char) = [])"

lemma lock_tests_pass:
  "read_read_compatible_write_excludes" "write_write_overlap_conflicts_disjoint_ok" "same_owner_replaces_and_upgrades"
  "unlock_splits_middle" "release_owner_and_renew" "expired_locks_are_ignored"
  by (code_simp)+

lemma encode_decode_roundtrip_passes: "encode_decode_roundtrip"
proof -
  let ?a = "\<lparr> l_owner = ''client-1:42'', l_kind = Read, l_start = 0, l_end = 10, l_pid = 0, l_expire_ms = FUTURE \<rparr>"
  let ?b = "\<lparr> l_owner = ''client-2:7'', l_kind = Write, l_start = 100, l_end = - 1, l_pid = 0, l_expire_ms = FUTURE \<rparr>"
  have live: "\<not> FUTURE \<le> NOW" by (simp add: FUTURE_def NOW_def i64_max_def)
  have 1: "tset ''client-1:42'' Read 0 10 [] = (Inr (), [?a])"
    by (simp add: tset_def lock_set_def purge_expired_def remove_range_def)
  have 2: "tset ''client-2:7'' Write 100 (- 1) [?a] = (Inr (), [?a, ?b])"
    using live by (simp add: tset_def lock_set_def purge_expired_def remove_range_def range_pieces_def overlaps_def)
  have "list_all encodable [?a, ?b]"
    by (simp add: encodable_def tab_char_def nl_char_def utf8_valid_ascii_Cons is_i64_def i64_min_def i64_max_def FUTURE_def)
  then have "lock_decode (lock_encode [?a, ?b]) = [?a, ?b]" by (rule lock_decode_encode)
  with live show ?thesis by (simp add: encode_decode_roundtrip_def 1 2 is_ok_def overlaps_def)
qed

lemma decode_tolerates_garbage_passes: "decode_tolerates_garbage"
  by code_simp

section \<open>Layout\<close>

definition keys_without_base :: "ext \<Rightarrow> bool" where
  "keys_without_base x =
     (let l = layout_new; u = 0 in
      dir_key x l u = ''DIR/00000000-0000-0000-0000-000000000000'' \<and>
      file_key x l u = ''FILE/00000000-0000-0000-0000-000000000000'' \<and>
      dir_uri x l ''b'' u = ''s3://b/DIR/00000000-0000-0000-0000-000000000000'' \<and>
      root_dir_uri x l ''b'' = ''s3://b/DIR/00000000-0000-0000-0000-000000000000'')"

definition base_is_normalized :: "ext \<Rightarrow> bool" where
  "base_is_normalized x =
     (dir_key x (with_base ''fs1'') 0 = ''fs1/DIR/00000000-0000-0000-0000-000000000000'' \<and>
      dir_key x (with_base ''fs1/'') 0 = ''fs1/DIR/00000000-0000-0000-0000-000000000000'' \<and>
      dir_key x (with_base []) 0 = ''DIR/00000000-0000-0000-0000-000000000000'')"

lemma nil_uuid: "uuid_fmt ref_ext 0 = ''00000000-0000-0000-0000-000000000000''"
proof -
  let ?z = "CHR ''0''"
  have "digs n 16 0 = replicate n 0" for n by (induction n) (simp_all add: replicate_append_same)
  then have "enc_digits hex_alphabet (digs 32 16 (unat (0 :: uuid))) = replicate 32 ?z" by (simp add: enc_digits_def hex_alphabet_def)
  then have "uuid_fmt ref_ext 0 = replicate 8 ?z @ ''-'' @ replicate 4 ?z @ ''-'' @ replicate 4 ?z @ ''-'' @ replicate 4 ?z @ ''-'' @ replicate 12 ?z"
    by (simp add: ref_ext_def ref_uuid_fmt_def)
  also have "\<dots> = ''00000000-0000-0000-0000-000000000000''" by code_simp
  finally show ?thesis .
qed

lemma layout_tests_pass: "keys_without_base ref_ext" "base_is_normalized ref_ext"
  by (simp_all add: keys_without_base_def base_is_normalized_def dir_key_def file_key_def dir_uri_def root_dir_uri_def ROOT_DIR_UUID_def
    layout_new_def with_base_def trim_end_matches_def DIR_NAMESPACE_def FILE_NAMESPACE_def nil_uuid)

section \<open>Scatter keys\<close>

definition scatter_roundtrip :: "ext \<Rightarrow> ulid \<Rightarrow> uuid \<Rightarrow> string \<Rightarrow> dir_scatter_inode_op \<Rightarrow> bool" where
  "scatter_roundtrip x ul uuid name op =
     (case path_encode x ul ''DIR/parent-uuid'' name uuid (op_u8 op) of
        Ok key \<Rightarrow>
          (case path_decode x key 0 of
             Ok decoded \<Rightarrow> s_filename decoded = name \<and> s_uuid decoded = uuid \<and> op_u8 (s_op decoded) = op_u8 op
           | _ \<Rightarrow> False)
      | _ \<Rightarrow> False)"

definition inode_suffix_for_non_delete :: "ext \<Rightarrow> ulid \<Rightarrow> bool" where
  "inode_suffix_for_non_delete x ul =
     (case path_encode x ul ''DIR/p'' ''foo'' 0 (op_u8 Create) of
        Ok key \<Rightarrow> ends_with key DEFAULT_DIR_INODE_SUFFIX \<and> \<not> ends_with key DEFAULT_DIR_TOMBSTONE_SUFFIX
      | _ \<Rightarrow> False)"

definition tombstone_suffix_for_delete :: "ext \<Rightarrow> ulid \<Rightarrow> bool" where
  "tombstone_suffix_for_delete x ul =
     (case path_encode x ul ''DIR/p'' ''foo'' 0 (op_u8 Delete) of
        Ok key \<Rightarrow> ends_with key DEFAULT_DIR_TOMBSTONE_SUFFIX
      | _ \<Rightarrow> False)"

text \<open>The last name is \<open>unicode-\<close> followed by two characters of three bytes.\<close>

definition roundtrip_ops_and_names :: "ext \<Rightarrow> ulid \<Rightarrow> uuid \<Rightarrow> bool" where
  "roundtrip_ops_and_names x ul u =
     (scatter_roundtrip x ul u ''hello.txt'' Create \<and> scatter_roundtrip x ul u ''with space'' Update \<and>
      scatter_roundtrip x ul u (''a/weird'' @ [CHR 0x5C] @ ''name'') Delete \<and>
      scatter_roundtrip x ul u (''unicode-'' @ [CHR 0xE6, CHR 0x96, CHR 0x87, CHR 0xE4, CHR 0xBB, CHR 0xB6]) Create)"

lemma utf8_three: "utf8_valid (CHR 0xE6 # CHR 0x96 # CHR 0x87 # CHR 0xE4 # CHR 0xBB # CHR 0xB6 # [])"
  by code_simp

context codecs
begin

lemma roundtrip_passes:
  assumes "fn \<noteq> []" and "utf8_valid fn"
  shows "scatter_roundtrip x ul u fn op"
proof -
  obtain k where k: "path_encode x ul ''DIR/parent-uuid'' fn u (op_u8 op) = Ok k"
    by (cases "path_encode x ul ''DIR/parent-uuid'' fn u (op_u8 op)") (auto simp: path_encode_def ends_with_def suffix_def Let_def)
  from path_roundtrip [OF _ assms op_u8_less k, of 0] k show ?thesis by (simp add: scatter_roundtrip_def)
qed

lemma scatter_tests_pass:
  "roundtrip_ops_and_names x ul u" "inode_suffix_for_non_delete x ul" "tombstone_suffix_for_delete x ul"
proof -
  show "roundtrip_ops_and_names x ul u"
    unfolding roundtrip_ops_and_names_def
    by (intro conjI roundtrip_passes) (use utf8_three in \<open>simp_all add: utf8_valid_ascii_Cons\<close>)
  show "inode_suffix_for_non_delete x ul" "tombstone_suffix_for_delete x ul"
    by (simp_all add: inode_suffix_for_non_delete_def tombstone_suffix_for_delete_def path_encode_def ends_with_def suffix_def
      DEFAULT_DIR_INODE_SUFFIX_def DEFAULT_DIR_TOMBSTONE_SUFFIX_def)
qed

end

end
