(* ===== verification/Spec2Isabelle.thy ===== *)
theory Spec2Isabelle
  imports Entry_Image Fs_Machine Hyper_Callbacks Unit_Tests
begin

text \<open>
  A verification development for hyperdir, a directory layer over the object-store file library
  hyperfile. File names below are those under \<open>src/src/\<close>.

  \<^bold>\<open>The program.\<close> A file system is a bucket with one prefix per child: \<open>{base}DIR/{uuid}\<close> for a
  directory and \<open>{base}FILE/{uuid}\<close> for a file. A directory is a hyperfile whose B-tree maps a 64-bit
  hash to an entry (\<open>ondisk.rs\<close>); names that collide take the next free slot (\<open>file.rs\<close>, the
  \<open>probe_*\<close> functions). Most changes do not touch the B-tree: they write a small scatter object below
  \<open>{root}/!/\<close> whose key carries the name, the child and the operation (\<open>lib.rs\<close>, \<open>s3.rs\<close>,
  \<open>interceptor.rs\<close>). A reader merges the outstanding scatters over the committed index; a compaction,
  which one client at a time may run under a lease object, folds them in. Deletion has two phases: a
  pre-delete marker hides the name, a later compaction replaces it by a tombstone and lowers the link
  count, and the garbage collector reclaims the child when the retention has passed. Renames between
  directories commit by an intent object and are finished by a recovery pass (\<open>fs.rs\<close>). Advisory
  locks live in one object per child that is updated by compare-and-swap (\<open>lock.rs\<close>).

  \<^bold>\<open>How code is modelled.\<close> Every fallible operation is a function from the state to \<open>Ok\<close>, \<open>Err kind\<close> or
  \<open>Panic\<close> and the next state (\<open>io\<close>, composed by \<open>io_bind\<close> as the source composes with \<open>?\<close>); a panic is
  a value and is never caught. Machine integers are words, or integers with the wrap-around of a
  release build written out. Loops over data are recursive functions; the retry loops carry the
  constant of the source as fuel (\<open>NLINK_RETRIES\<close> 5, \<open>RENAME_CLAIM_RETRIES\<close> 8, \<open>LOCK_OCC_RETRIES\<close> 8), so
  running out is the error the source returns. The probe loops have no bound in the source; they
  are functions over the 64-bit slots above the start, and \<open>probe_ops_return\<close> states that they return. So
  that \<open>walk_loop\<close> is total, it panics when the B-tree answers a seek with a key below the one sought, which
  the laws of the B-tree exclude. The pages of a LIST are fetched together before the first is
  processed, where the source fetches the next page on demand; a page that fails keeps its place, so the
  objects of the pages before it are still processed first. The library's conversion between an inode in
  memory and its raw form is the identity where nothing but the inode passes through it
  (\<open>update_stat_fast\<close>) and a parameter where the root of the B-tree is added (\<open>fa_to_raw\<close>). Code outside the
  repository is a parameter: the S3 client (\<open>s3_api\<close>), the hyperfile library (\<open>hf_api\<close>, \<open>fs_api\<close>), its
  B-tree (\<open>btree_api\<close>), its inode (\<open>inode_api\<close>), the codecs (\<open>ext\<close>), the iteration order of a hash map
  (\<open>dp_hm\<close>). A staging handle is identified by its root path, a directory handle is the record
  \<open>dir_handle\<close>.

  \<^bold>\<open>Interfaces.\<close> What the code relies on is stated in locales, each interpreted on an implementation in
  memory in the theory that introduces it:
  \<^item> \<open>codecs\<close> (base64, UUID and ULID text): \<open>refc\<close> in \<open>Reference_Codecs\<close>;
  \<^item> \<open>object_store\<close>, where other clients may act between any two calls, \<open>object_store_quiet\<close> without
    other clients, \<open>object_store_reliable\<close> where calls succeed, \<open>dir_store\<close>: \<open>mem_store\<close>, \<open>mem_rel\<close>, \<open>mem_dir\<close>;
  \<^item> the B-tree and the order of hash maps (\<open>btree_total\<close>, \<open>hash_iteration\<close>), the name index over it
    (\<open>entry_tree_total\<close>), \<open>hyperfile\<close>, \<open>inode_laws\<close> and \<open>directory\<close>, on which the theory of the directory file
    rests: \<open>mem\<close>, \<open>hm_rev\<close>, \<open>mem_idx\<close>, \<open>mem_hyper\<close>, \<open>mem_inodes\<close>, \<open>mem_directory\<close>;
  \<^item> \<open>inode_store\<close> (inode objects under optimistic concurrency), \<open>fs_store\<close> (a store of children without
    other clients) and \<open>fs_store_occ\<close>, which joins them: \<open>mem_inode_store\<close>, \<open>mem_fs_store\<close>, \<open>mem_fs_occ\<close>;
  \<^item> \<open>attr_store\<close>, a store of children with the laws of the stat conversions: \<open>mem_attr\<close>;
  \<^item> \<open>fs_machine\<close>, a store of children in one bucket with the laws that its invariant needs: \<open>mem_machine\<close>.

  \<^bold>\<open>Theories, bottom up.\<close>
  \<^item> \<open>Hyperdir_Prelude\<close>: results, the state monad, UTF-8, strings, integers. \<open>External\<close>: the parameters.
    \<open>Reference_Codecs\<close>: executable codecs for the witnesses.
  \<^item> \<open>Ondisk\<close>, \<open>Entry_Image\<close> (\<open>ondisk.rs\<close>): the entry, its byte image and text form; names of at most 255 bytes
    survive the store.
  \<^item> \<open>Layout\<close> (\<open>layout.rs\<close>): keys and URIs; the prefixes of distinct children are disjoint.
  \<^item> \<open>Name_Index\<close>, \<open>Probe_Index\<close> (\<open>file.rs\<close>): lookup, upsert and deletion by backward shift refine a map
    from names to entries; the loops return.
  \<^item> \<open>Lock_Table\<close>, \<open>Lock_Binding\<close> (\<open>lock.rs\<close>): the byte-range lock table refines a per-byte
    specification; its text form round-trips; the compare-and-swap loops are single atomic steps on the
    stored table and keep it well-formed.
  \<^item> \<open>Scatter\<close> (\<open>lib.rs\<close>), \<open>Object_Store\<close>, \<open>S3_Staging\<close> (\<open>s3.rs\<close>): scatter keys and bodies round-trip,
    \<open>filter_last_view\<close> keeps the latest event per name, listings are exact, the lease excludes and can
    be taken over when it expired.
  \<^item> \<open>Hyperfile\<close>, \<open>Dir_File\<close> (\<open>file.rs\<close>, \<open>hyper.rs\<close>): the handle and its operations. \<open>Dir_View\<close> defines what
    a directory contains (\<open>dir_lookup\<close>, \<open>dir_view\<close>: the latest scatter over the committed index) and the
    well-formedness \<open>dir_ok\<close>; \<open>Dir_Updates\<close>, \<open>Compaction\<close> and \<open>Dir_Properties\<close> relate each
    operation to it, with \<open>Sample_Directory\<close> as the evaluated example.
  \<^item> \<open>Intents\<close> (\<open>fs.rs\<close>): intents and attribute keys. \<open>Fs_Api\<close>, \<open>Fs_Ops\<close>, \<open>Fs_Attr\<close>, \<open>Fs_Rename\<close>
    (\<open>fs.rs\<close>, \<open>hyper.rs\<close>, \<open>interceptor.rs\<close>): the file-system operations.
  \<^item> \<open>Fs_Store\<close>: the store of children. \<open>Fs_Links\<close>: the link count. \<open>Fs_Names\<close>, \<open>Fs_Properties\<close>: unlink,
    rmdir, create. \<open>Fs_Gc\<close>, \<open>Fs_Moves\<close>, \<open>Fs_Recovery\<close>: garbage collection, renames between directories
    and their recovery after a crash. \<open>Fs_Hardlinks\<close>: hard links. \<open>Fs_Folding\<close>: \<open>fs_compact\<close> with both
    phases of a deletion. \<open>Fs_Orphans\<close>: the orphan collection. \<open>Fs_Attributes\<close>: extended attributes and
    the mode.
  \<^item> \<open>Fs_Invariant\<close>: the invariant \<open>fs_inv\<close> of a whole file system and a calculus of triples (\<open>keeps\<close> for a call on
    the world, \<open>hkeeps\<close> for one on a handle) with one rule per combinator of the model. \<open>Fs_Keeps\<close>,
    \<open>Fs_Upkeep\<close>: every call of \<open>fs.rs\<close> keeps the invariant however it ends. \<open>Fs_Machine\<close>: the step relation
    whose steps are these calls, and what holds in all of its reachable states.
  \<^item> \<open>Hyper_Callbacks\<close> (\<open>file.rs\<close>): the callbacks through which hyperfile works on a directory file; on a handle
    opened for writing one task at a time holds the permit. \<open>Unit_Tests\<close>: the tests inside \<open>lock.rs\<close>, \<open>layout.rs\<close>
    and \<open>lib.rs\<close>, which the model passes.

  \<^bold>\<open>What is shown.\<close> Contents: listing, resolving, compacting, inserting, renaming, linking, unlinking and
  creating agree with one abstract view of a directory. Renames and links change the committed index
  only, so their properties say name by name what is seen: a name with an outstanding scatter keeps
  showing it, every other name shows the new index. A compaction keeps what every name shows, except
  that a cleanup which fails midway can bring back a name of which it deleted the latest scatter and
  left an older one (\<open>compact_preserves_contents\<close> states for which names nothing changes). Well-formedness: every state that calls of \<open>fs.rs\<close>
  reach from an empty bucket, each run to success, failure or panic and some stopped at the crash points,
  has sound directories, rename intents and handles (\<open>reachable_dirs_ok\<close>), so the hypothesis \<open>dir_ok\<close> of the
  single-operation properties holds there and every listing is right (\<open>reachable_listing\<close>). The machine asks
  of a client that names fit an entry (at most 255 bytes, UTF-8, no NUL), and that it closes a handle
  whose call failed. Deletion: \<open>fs_gc\<close> on a directory reclaims only
  children that have a tombstone there whose retention has passed and that its committed index does not
  hold under the tombstone's name, files only with a link count of zero, directories without such a check;
  the deadline recorded by the unlink reaches the tombstone. Crashes: a rename interrupted at any of the modelled crash points is completed
  by recovery. Concurrency: locks, leases and link counts are correct against arbitrary other
  clients, each shown by tying the write to the state of the instant at which it took effect; the
  remaining file-system properties are sequential (\<open>fs_store\<close> has no other clients).

  \<^bold>\<open>Where the code does not do what it means to.\<close> \<open>scatter_key_bang_panics\<close> (a base with \<open>!\<close>),
  \<open>rename_onto_tombstone_hides\<close> (a rename onto a name whose tombstone is retained),
  \<open>failed_rename_release_loses\<close> (a rename that fails half-way on its handle),
  \<open>orphan_gc_ignores_retention\<close> (the orphan collection removes what a tombstone retains) and
  \<open>display_cut_panics\<close> (a name cut inside a character). Two properties state the exact behaviour of calls that
  can succeed without a visible effect: \<open>link_adds_name\<close> and \<open>rename_across_moves\<close> onto a name that has an
  outstanding scatter; and \<open>compact_preserves_contents\<close> delimits the effect of a cleanup that fails midway.

  \<^bold>\<open>Not modelled.\<close> The accessors of \<open>hyper.rs\<close> and \<open>file.rs\<close> that return a field; the unused wrapper
  \<open>DirFileInodeRaw\<close>; delays between retries and log messages, which change no state of the model; the
  interceptor that a new directory's handle still carries after its creation (an inode flush through that
  handle is a call of hyperfile; the machine closes the handle and opens the directory anew); the file
  handle that \<open>fs_create_file\<close> obtains from hyperfile, a parameter; the state of the callbacks and the
  handle of the directory operations are two records, since hyperfile's flush, which links them, is a
  parameter; the integration tests, which need an S3 endpoint.
\<close>

end
